(* ===== verification/Gam_Prelude.thy ===== *)
theory Gam_Prelude
  imports Main "HOL-Library.Word" "HOL-Library.Monad_Syntax"
begin

unbundle bit_operations_syntax

text \<open>
  Shared vocabulary of the development: the machine types of the sources, the collections of
  rewrite rules the components fill, and generic lemmas on words, lists, maps and options.

  A \<^verbatim>\<open>uint64_t\<close>, \<^verbatim>\<open>ptr_t\<close>, \<^verbatim>\<open>GAddr\<close> or \<^verbatim>\<open>Size\<close> of the sources is a \<open>64 word\<close>, an \<^verbatim>\<open>int\<close> or
  \<^verbatim>\<open>unsigned int\<close> a \<open>32 word\<close> (read signed with \<open>sint\<close>), a byte an \<open>8 word\<close>. The machine is
  the little-endian LP64 machine the sources assume.
\<close>

type_synonym u8 = "8 word"
type_synonym u32 = "32 word"
type_synonym i32 = "32 word"
type_synonym u64 = "64 word"
type_synonym ptr = "64 word"
type_synonym gaddr = "64 word"
type_synonym memory = "ptr \<Rightarrow> u8"

named_theorems gam_defs \<open>definitions of small accessors unfolded by every component\<close>
named_theorems gam_split \<open>case splits of the model's datatypes\<close>

section \<open>Words\<close>

lemma and_not_mask_eq: "(x :: 'a::len word) AND NOT (mask n) = push_bit n (drop_bit n x)"
  by (rule bit_word_eqI) (auto simp: bit_and_iff bit_not_iff bit_mask_iff bit_push_bit_iff bit_drop_bit_eq)

lemma unat_push_drop_bit:
  "unat (push_bit n (drop_bit n (x :: 'a::len word))) = unat x div 2 ^ n * 2 ^ n"
proof -
  have le: "unat x div 2 ^ n * 2 ^ n \<le> unat x"
    by (rule div_times_less_eq_dividend)
  also have "unat x < 2 ^ LENGTH('a)"
    by (rule unsigned_less)
  finally have small: "unat x div 2 ^ n * 2 ^ n < 2 ^ LENGTH('a)" .
  have "push_bit n (drop_bit n x) = word_of_nat (push_bit n (drop_bit n (unat x)))"
    by (simp add: of_nat_push_bit flip: unat_drop_bit_eq)
  moreover have "push_bit n (drop_bit n (unat x)) = unat x div 2 ^ n * 2 ^ n"
    by (simp add: push_bit_eq_mult drop_bit_eq_div)
  ultimately show ?thesis
    using small by (simp only: unat_of_nat mod_less)
qed

lemma unat_bound: "unat (x :: 'a::len word) < 2 ^ LENGTH('a)"
  by (rule unsigned_less)

lemma word_eqI_unat: "unat a = unat b \<Longrightarrow> a = (b :: 'a::len word)"
  by (rule unsigned_word_eqI)

lemma unat_sub_le: "b \<le> a \<Longrightarrow> unat (a - b) = unat a - unat (b :: 'a::len word)"
  by (rule unat_sub)

lemma unat_add_no_wrap:
  "unat a + unat b < 2 ^ LENGTH('a) \<Longrightarrow> unat (a + b) = unat a + unat (b :: 'a::len word)"
  by (simp add: unat_add_lem)

lemma sint_of_nat_small: "n < 2 ^ 31 \<Longrightarrow> sint (of_nat n :: i32) = int n"
  by (simp add: signed_of_nat signed_take_bit_int_eq_self)

lemma unat_ucast_64 [simp]: "unat (ucast (x :: u32) :: u64) = unat x"
  by transfer (simp add: take_bit_eq_mod)

section \<open>Memory\<close>

text \<open>\<^verbatim>\<open>memcpy\<close>, \<^verbatim>\<open>memset\<close>: byte by byte, the source read before the destination is written.\<close>

definition mem_read :: "memory \<Rightarrow> ptr \<Rightarrow> nat \<Rightarrow> u8 list" where
  "mem_read m p n = map (\<lambda>k. m (p + of_nat k)) [0..<n]"

definition mem_write :: "memory \<Rightarrow> ptr \<Rightarrow> u8 list \<Rightarrow> memory" where
  "mem_write m p bs = (\<lambda>a. if unat (a - p) < length bs then bs ! unat (a - p) else m a)"

definition memcpy :: "memory \<Rightarrow> ptr \<Rightarrow> ptr \<Rightarrow> nat \<Rightarrow> memory" where
  "memcpy m dst src n = mem_write m dst (mem_read m src n)"

definition memset :: "memory \<Rightarrow> ptr \<Rightarrow> u8 \<Rightarrow> nat \<Rightarrow> memory" where
  "memset m p b n = mem_write m p (replicate n b)"

lemma length_mem_read [simp]: "length (mem_read m p n) = n"
  by (simp add: mem_read_def)

lemma nth_mem_read [simp]: "k < n \<Longrightarrow> mem_read m p n ! k = m (p + of_nat k)"
  by (simp add: mem_read_def)

lemma mem_write_in: "k < length bs \<Longrightarrow> length bs \<le> 2 ^ 64 \<Longrightarrow> mem_write m p bs (p + of_nat k) = bs ! k"
  by (simp add: mem_write_def unat_of_nat)

lemma mem_write_out: "length bs \<le> unat (a - p) \<Longrightarrow> mem_write m p bs a = m a"
  by (simp add: mem_write_def)

lemma mem_write_Nil [simp]: "mem_write m p [] = m"
  by (simp add: mem_write_def)

lemma memcpy_in:
  "k < n \<Longrightarrow> n \<le> 2 ^ 64 \<Longrightarrow> memcpy m dst src n (dst + of_nat k) = m (src + of_nat k)"
  by (simp add: memcpy_def mem_write_in)

lemma memcpy_out: "n \<le> unat (a - dst) \<Longrightarrow> memcpy m dst src n a = m a"
  by (simp add: memcpy_def mem_write_out)

lemma mem_read_write:
  "length bs \<le> 2 ^ 64 \<Longrightarrow> mem_read (mem_write m p bs) p (length bs) = bs"
  by (rule nth_equalityI) (simp_all add: mem_write_in)

lemma mem_read_cong:
  "(\<And>k. k < n \<Longrightarrow> m (p + of_nat k) = m' (q + of_nat k)) \<Longrightarrow> mem_read m p n = mem_read m' q n"
  by (simp add: mem_read_def)

lemma mem_read_append:
  "mem_read m p (a + b) = mem_read m p a @ mem_read m (p + of_nat a) b"
  by (rule nth_equalityI) (auto simp: nth_append mem_read_def algebra_simps)

lemma of_nat_distinct: "k < n \<Longrightarrow> n < 2 ^ 64 \<Longrightarrow> (of_nat k :: u64) \<noteq> of_nat n"
proof
  assume "k < n" "n < 2 ^ 64" "(of_nat k :: u64) = of_nat n"
  then have "unat (of_nat k :: u64) = unat (of_nat n :: u64)" by simp
  then show False using \<open>k < n\<close> \<open>n < 2 ^ 64\<close> by (simp add: unat_of_nat)
qed

text \<open>Two ranges that share no byte.\<close>

definition apart :: "ptr \<Rightarrow> nat \<Rightarrow> ptr \<Rightarrow> nat \<Rightarrow> bool" where
  "apart p m q n \<longleftrightarrow> (\<forall>i<m. \<forall>j<n. p + of_nat i \<noteq> q + of_nat j)"

lemma apart_below:
  assumes "unat p + m \<le> unat q" "unat q + n \<le> 2 ^ 64"
  shows "apart p m q n" "apart q n p m"
proof -
  have "p + of_nat i \<noteq> q + of_nat j" if "i < m" "j < n" for i j
  proof -
    have "i < 2 ^ 64" "j < 2 ^ 64" using that assms by linarith+
    then have "unat (of_nat i :: u64) = i" "unat (of_nat j :: u64) = j" by (simp_all add: unat_of_nat)
    then have "unat (p + of_nat i) = unat p + i" "unat (q + of_nat j) = unat q + j"
      using that assms unat_add_no_wrap [of p "of_nat i"] unat_add_no_wrap [of q "of_nat j"] by simp_all
    then show ?thesis using that assms(1) by auto
  qed
  then show "apart p m q n" "apart q n p m" by (auto simp: apart_def) metis
qed

lemma mem_read_write_apart:
  assumes "apart q (length bs) p n"
  shows "mem_read (mem_write m q bs) p n = mem_read m p n"
proof (rule mem_read_cong, rule mem_write_out, rule ccontr)
  fix k assume k: "k < n" "\<not> length bs \<le> unat (p + of_nat k - q)"
  then have "q + of_nat (unat (p + of_nat k - q)) \<noteq> p + of_nat k" using assms unfolding apart_def by (meson not_le)
  then show False by simp
qed

lemma mem_write_apart_at: "apart q (length bs) p n \<Longrightarrow> k < n \<Longrightarrow> mem_write m q bs (p + of_nat k) = m (p + of_nat k)"
  using mem_read_write_apart [of q bs p n m, THEN arg_cong, of "\<lambda>xs. xs ! k"] by simp

lemma apart_sym: "apart p m q n \<longleftrightarrow> apart q n p m"
  by (auto simp: apart_def) metis+

lemma apart_mono: "apart p m q n \<Longrightarrow> m' \<le> m \<Longrightarrow> n' \<le> n \<Longrightarrow> apart p m' q n'"
  by (auto simp: apart_def)

lemma apart_within:
  assumes "apart p m q n" "k + n' \<le> n"
  shows "apart p m (q + of_nat k) n'"
  unfolding apart_def
proof (intro allI impI)
  fix i j assume "i < m" "j < n'"
  then have "i < m" "k + j < n" using assms(2) by linarith+
  then have "p + of_nat i \<noteq> q + of_nat (k + j)" using assms(1) unfolding apart_def by blast
  then show "p + of_nat i \<noteq> q + of_nat k + of_nat j" by (simp add: add.assoc)
qed

lemma apart_behind: "k + n \<le> 2 ^ 64 \<Longrightarrow> apart (p + of_nat k) n p k"
  unfolding apart_def
proof (intro allI impI)
  fix i j assume "k + n \<le> 2 ^ 64" "i < n" "j < k"
  then have "(of_nat j :: u64) \<noteq> of_nat (k + i)" using of_nat_distinct [of j "k + i"] by linarith
  then show "p + of_nat k + of_nat i \<noteq> p + of_nat j" by (simp add: add.assoc)
qed

lemma apart_parts:
  assumes "apart p m q n" "i + k \<le> m" "j + l \<le> n"
  shows "apart (p + of_nat i) k (q + of_nat j) l"
  using apart_within [of "q + of_nat j" l p m i k] apart_within [of p m q n j l] assms by (simp add: apart_sym)

lemma apart_inside:
  assumes "i + k \<le> j \<or> j + l \<le> i" "i + k \<le> 2 ^ 64" "j + l \<le> 2 ^ 64"
  shows "apart (p + of_nat i) k (p + of_nat j) l"
proof (cases "i + k \<le> j")
  case True
  then have "apart (p + of_nat j) l (p + of_nat i) k" using apart_within [OF apart_behind [of j l p], of i k] assms(3) by simp
  then show ?thesis by (simp add: apart_sym)
next
  case False
  then show ?thesis using apart_within [OF apart_behind [of i k p], of j l] assms by simp
qed

lemma mem_read_write_behind:
  assumes "k + length bs \<le> 2 ^ 64"
  shows "mem_read (mem_write m (p + of_nat k) bs) p (k + length bs) = mem_read m p k @ bs"
  using assms by (simp add: mem_read_append mem_read_write mem_read_write_apart apart_behind)

lemma list_all2_in_set1: "list_all2 P xs ys \<Longrightarrow> x \<in> set xs \<Longrightarrow> \<exists>y \<in> set ys. P x y"
  by (induction rule: list_all2_induct) auto

end
