(* ===== verification/Gam_Addr.thy ===== *)
theory Gam_Addr
  imports Gam_Prelude
begin

unbundle bit_operations_syntax

text \<open>
  Global addresses and blocks: the macros of \<^verbatim>\<open>gam/include/structure.h\<close>, \<^verbatim>\<open>gam/include/settings.h\<close>
  and \<^verbatim>\<open>gam/include/kernel.h\<close>, the helper \<^verbatim>\<open>ceil_divide\<close> of \<^verbatim>\<open>gam/include/util.h\<close>, and the loop
  over the blocks of a request that every read and write of the cache and the worker runs.

  A global address keeps the home worker's identifier in its upper 16 bits and the offset from
  that worker's base address in the lower 48. Blocks are 512 bytes.
\<close>

section \<open>The macros\<close>

definition BLOCK_POWER :: nat where
  "BLOCK_POWER = 9"

definition BLOCK_MASK :: u64 where
  "BLOCK_MASK = 0xFFFFFFFFFFFFFE00"

definition BLOCK_SIZE :: u64 where
  "BLOCK_SIZE = push_bit BLOCK_POWER 1"

definition OFF_MASK :: u64 where
  "OFF_MASK = 0xFFFFFFFFFFFF"

definition WID :: "gaddr \<Rightarrow> u64" where
  "WID g = drop_bit 48 g"

definition OFF :: "gaddr \<Rightarrow> u64" where
  "OFF g = g AND OFF_MASK"

text \<open>A worker identifier is an \<^verbatim>\<open>int\<close>; the cast to \<^verbatim>\<open>ptr_t\<close> extends its sign.\<close>

definition wid64 :: "i32 \<Rightarrow> u64" where
  "wid64 w = scast w"

definition TO_GLOB :: "ptr \<Rightarrow> ptr \<Rightarrow> i32 \<Rightarrow> gaddr" where
  "TO_GLOB addr base wid = addr - base + push_bit 48 (wid64 wid)"

definition EMPTY_GLOB :: "i32 \<Rightarrow> gaddr" where
  "EMPTY_GLOB wid = push_bit 48 (wid64 wid)"

definition TO_LOCAL :: "gaddr \<Rightarrow> ptr \<Rightarrow> ptr" where
  "TO_LOCAL g base = OFF g + base"

definition GADD :: "gaddr \<Rightarrow> u64 \<Rightarrow> gaddr" where
  "GADD a off = a + off"

definition GMINUS :: "gaddr \<Rightarrow> gaddr \<Rightarrow> u64" where
  "GMINUS a b = a - b"

definition TOBLOCK :: "u64 \<Rightarrow> u64" where
  "TOBLOCK x = x AND BLOCK_MASK"

definition BLOCK_ALIGNED :: "u64 \<Rightarrow> bool" where
  "BLOCK_ALIGNED x \<longleftrightarrow> x AND NOT BLOCK_MASK = 0"

definition BADD :: "u64 \<Rightarrow> u64 \<Rightarrow> u64" where
  "BADD addr i = TOBLOCK (addr + i * BLOCK_SIZE)"

definition BMINUS :: "u64 \<Rightarrow> u64 \<Rightarrow> u64" where
  "BMINUS i j = drop_bit BLOCK_POWER (i - j)"

definition Gnullptr :: gaddr where
  "Gnullptr = 0"

text \<open>\<^verbatim>\<open>ALIGN\<close> of \<^verbatim>\<open>kernel.h\<close>, for a power of two, and \<^verbatim>\<open>ceil_divide\<close> of \<^verbatim>\<open>util.h\<close>.\<close>

definition ALIGN :: "u64 \<Rightarrow> u64 \<Rightarrow> u64" where
  "ALIGN x a = (x + (a - 1)) AND NOT (a - 1)"

definition ceil_divide :: "u64 \<Rightarrow> u64 \<Rightarrow> u64" where
  "ceil_divide a b = (a + b - 1) div b"

section \<open>Reading the macros as arithmetic\<close>

lemma BLOCK_SIZE_eq: "BLOCK_SIZE = 512"
  by (simp add: BLOCK_SIZE_def BLOCK_POWER_def)

lemma BLOCK_MASK_eq: "BLOCK_MASK = NOT (mask 9)"
  by (simp add: BLOCK_MASK_def mask_eq_exp_minus_1)

lemma OFF_MASK_eq: "OFF_MASK = mask 48"
  by (simp add: OFF_MASK_def mask_eq_exp_minus_1)

lemma unat_TOBLOCK: "unat (TOBLOCK x) = unat x div 512 * 512"
  by (simp add: TOBLOCK_def BLOCK_MASK_eq and_not_mask_eq unat_push_drop_bit)

lemma BLOCK_ALIGNED_iff: "BLOCK_ALIGNED x \<longleftrightarrow> unat x mod 512 = 0"
proof -
  have "BLOCK_ALIGNED x \<longleftrightarrow> take_bit 9 x = 0"
    by (simp add: BLOCK_ALIGNED_def BLOCK_MASK_eq take_bit_eq_mask)
  also have "\<dots> \<longleftrightarrow> take_bit 9 (unat x) = 0"
    by (metis unat_eq_zero unsigned_take_bit_eq)
  finally show ?thesis
    by (simp add: take_bit_eq_mod)
qed

lemma TOBLOCK_le: "TOBLOCK x \<le> x"
  by (simp add: word_le_nat_alt unat_TOBLOCK)

lemma TOBLOCK_aligned [simp]: "BLOCK_ALIGNED (TOBLOCK x)"
  by (simp add: BLOCK_ALIGNED_iff unat_TOBLOCK)

lemma TOBLOCK_id: "BLOCK_ALIGNED x \<Longrightarrow> TOBLOCK x = x"
  by (rule word_eqI_unat) (auto simp: unat_TOBLOCK BLOCK_ALIGNED_iff)

lemma TOBLOCK_idem [simp]: "TOBLOCK (TOBLOCK x) = TOBLOCK x"
  by (simp add: TOBLOCK_id)

lemma unat_OFF: "unat (OFF g) = unat g mod 2 ^ 48"
proof -
  have "unat (OFF g) = take_bit 48 (unat g)"
    by (simp only: OFF_def OFF_MASK_eq unsigned_take_bit_eq flip: take_bit_eq_mask)
  then show ?thesis
    by (simp only: take_bit_eq_mod)
qed

lemma unat_WID: "unat (WID g) = unat g div 2 ^ 48"
  using drop_bit_eq_div [of 48 "unat g"] by (simp only: WID_def unat_drop_bit_eq)

section \<open>Global and local addresses\<close>

lemma OFF_WID_ident: "push_bit 48 (WID g) + OFF g = g"
  by (simp only: WID_def OFF_def OFF_MASK_eq bits_ident flip: take_bit_eq_mask)

lemma OFF_glob:
  assumes "unat d < 2 ^ 48"
  shows "OFF (d + push_bit 48 w) = d" and "WID (d + push_bit 48 w) = take_bit 16 w"
proof -
  have lo: "take_bit 48 d = d"
    using assms by (metis take_bit_nat_eq_self_iff unsigned_take_bit_eq word_eqI_unat)
  have hi: "\<not> bit d n" if "48 \<le> n" for n
    using that bit_take_bit_iff [of 48 d n] by (simp add: lo)
  have "d AND push_bit 48 w = 0"
    by (rule bit_word_eqI) (auto simp: bit_simps hi)
  then have or: "d + push_bit 48 w = d OR push_bit 48 w"
    by (rule disjunctive_add_eq_or)
  show "OFF (d + push_bit 48 w) = d"
    unfolding or OFF_def OFF_MASK_eq take_bit_eq_mask [symmetric] take_bit_or
    by (simp add: lo take_bit_push_bit)
  show "WID (d + push_bit 48 w) = take_bit 16 w"
    unfolding or WID_def by (rule bit_word_eqI) (auto simp: bit_simps hi)
qed

lemma wid64_small: "unat w < 2 ^ 16 \<Longrightarrow> take_bit 16 (wid64 w) = wid64 w"
proof -
  assume "unat w < 2 ^ 16"
  then have "int (unat w) < int (2 ^ 16)"
    by (simp only: of_nat_less_iff)
  then have small: "uint w < 2 ^ 16"
    by simp
  moreover have "- (2 ^ 31) \<le> uint w"
    by (rule order_trans [OF _ unsigned_greater_eq]) simp
  ultimately have "sint w = uint w"
    by (simp add: sint_uint signed_take_bit_int_eq_self_iff)
  then have "uint (wid64 w) = uint w"
    using small by (simp add: wid64_def scast_eq unsigned_ucast_eq take_bit_int_eq_self_iff)
  then have "take_bit 16 (uint (wid64 w)) = uint (wid64 w)"
    using small by (simp add: take_bit_int_eq_self_iff)
  then have "uint (take_bit 16 (wid64 w)) = uint (wid64 w)"
    by (simp only: unsigned_take_bit_eq)
  then show ?thesis
    by (rule unsigned_word_eqI)
qed

text \<open>
  A local address within the 48-bit window of its worker keeps its identity through the
  global address space: the global address names the worker, and the worker's translation of it is
  the local address again. Conversely every global address of a worker is recovered from its local
  form.
\<close>

lemma glob_local_roundtrip:
  assumes "unat (addr - base) < 2 ^ 48" "unat w < 2 ^ 16"
  shows "TO_LOCAL (TO_GLOB addr base w) base = addr \<and> WID (TO_GLOB addr base w) = wid64 w
      \<and> (\<forall>g. WID g = wid64 w \<longrightarrow> TO_GLOB (TO_LOCAL g base) base w = g)"
proof (intro conjI allI impI)
  show "TO_LOCAL (TO_GLOB addr base w) base = addr"
    using assms by (simp add: TO_LOCAL_def TO_GLOB_def OFF_glob)
  show "WID (TO_GLOB addr base w) = wid64 w"
    using assms by (simp add: TO_GLOB_def OFF_glob wid64_small)
  show "TO_GLOB (TO_LOCAL g base) base w = g" if "WID g = wid64 w" for g
    using OFF_WID_ident [of g] that by (simp add: TO_LOCAL_def TO_GLOB_def add.commute)
qed

section \<open>The loop over the blocks of a request\<close>

text \<open>
  The reads and writes of the cache and of the worker all run
  \<^verbatim>\<open>for (GAddr i = TOBLOCK(start); i < end;) { nextb = BADD(i, 1); ...; i = nextb; }\<close>
  with \<^verbatim>\<open>end = GADD(start, size)\<close>. The loop variable depends on nothing else, so its values are a
  list of their own, and the bodies recurse over it. The loop runs on machine words: fuel stands
  for the iterations, and \<open>None\<close> is a loop that has not ended when the fuel is spent.
\<close>

fun block_loop :: "nat \<Rightarrow> gaddr \<Rightarrow> gaddr \<Rightarrow> gaddr list option" where
  "block_loop 0 i e = (if i < e then None else Some [])"
| "block_loop (Suc n) i e =
     (if i < e then map_option (Cons i) (block_loop n (BADD i 1) e) else Some [])"

definition blocks_of :: "gaddr \<Rightarrow> u64 \<Rightarrow> gaddr list option" where
  "blocks_of start sz = block_loop (unat sz div 512 + 2) (TOBLOCK start) (GADD start sz)"

text \<open>
  The part of the request that lies in block \<open>i\<close>: its first address
  \<^verbatim>\<open>gs = i > start ? i : start\<close> and its length
  \<^verbatim>\<open>int len = nextb > end ? GMINUS(end, gs) : GMINUS(nextb, gs)\<close>, which is passed to \<^verbatim>\<open>memcpy\<close>.
\<close>

definition seg_start :: "gaddr \<Rightarrow> gaddr \<Rightarrow> gaddr" where
  "seg_start start i = (if i > start then i else start)"

definition seg_len :: "gaddr \<Rightarrow> gaddr \<Rightarrow> gaddr \<Rightarrow> nat" where
  "seg_len start e i =
     (let nextb = BADD i 1; gs = seg_start start i;
          len = (ucast (if nextb > e then GMINUS e gs else GMINUS nextb gs) :: i32)
      in unat (scast len :: u64))"

lemma unat_BADD1:
  assumes "BLOCK_ALIGNED i" "unat i + 512 < 2 ^ 64"
  shows "unat (BADD i 1) = unat i + 512"
proof -
  have "unat (i + 512) = unat i + 512"
    using assms(2) by (subst unat_add_no_wrap) simp_all
  moreover have "512 dvd unat i + 512"
    using assms(1) by (simp add: BLOCK_ALIGNED_iff mod_0_imp_dvd)
  ultimately show ?thesis
    by (simp only: BADD_def BLOCK_SIZE_eq unat_TOBLOCK mult_1 dvd_div_mult_self)
qed

lemma BADD_aligned [simp]: "BLOCK_ALIGNED (BADD i k)"
  by (simp add: BADD_def)

lemma unat_int_cast:
  assumes "unat (x :: u64) < 2 ^ 31"
  shows "unat (scast (ucast x :: i32) :: u64) = unat x"
proof -
  have "int (unat x) < int (2 ^ 31)"
    using assms by (simp only: of_nat_less_iff)
  then have small: "uint x < 2 ^ 31"
    by simp
  then have u: "uint (ucast x :: i32) = uint x"
    by (simp add: unsigned_ucast_eq take_bit_int_eq_self_iff)
  moreover have "- (2 ^ 31) \<le> uint x"
    by (rule order_trans [OF _ unsigned_greater_eq]) simp
  ultimately have "sint (ucast x :: i32) = uint x"
    using small by (simp add: sint_uint signed_take_bit_int_eq_self_iff)
  then show ?thesis
    by (simp add: scast_eq)
qed

lemma seg_len_eq:
  assumes "BLOCK_ALIGNED i" "unat e + 512 \<le> 2 ^ 64" "i < e" "start \<le> e" "unat start < unat i + 512"
  shows "seg_len start e i = min (unat e) (unat i + 512) - max (unat i) (unat start)"
proof -
  have nb: "unat (BADD i 1) = unat i + 512"
    using assms by (intro unat_BADD1) (simp_all add: word_less_nat_alt)
  let ?gs = "seg_start start i"
  have gs: "unat ?gs = max (unat i) (unat start)"
    by (auto simp: seg_start_def word_less_nat_alt)
  let ?d = "if BADD i 1 > e then GMINUS e ?gs else GMINUS (BADD i 1) ?gs"
  have d: "unat ?d = min (unat e) (unat i + 512) - max (unat i) (unat start)"
    using assms(3,4,5)
    by (auto simp: GMINUS_def word_less_nat_alt word_le_nat_alt nb gs unat_sub_le)
  moreover have "\<dots> < 2 ^ 31"
    by (auto simp: min_def max_def)
  ultimately show ?thesis
    by (simp add: seg_len_def Let_def unat_int_cast)
qed

lemma block_loop_tile:
  assumes "BLOCK_ALIGNED i" "unat e + 512 \<le> 2 ^ 64" "start \<le> e" "unat start < unat i + 512"
    and "unat e \<le> unat i + 512 * n"
  shows "\<exists>bs. block_loop n i e = Some bs \<and>
           concat (map (\<lambda>b. [unat (seg_start start b) ..< unat (seg_start start b) + seg_len start e b]) bs)
             = [max (unat i) (unat start) ..< unat e] \<and>
           (\<forall>b \<in> set bs. BLOCK_ALIGNED b \<and> i \<le> b \<and> b < e)"
  using assms
proof (induction n arbitrary: i)
  case 0
  then show ?case
    by (auto simp: word_less_nat_alt)
next
  case (Suc n)
  show ?case
  proof (cases "i < e")
    case False
    then show ?thesis
      by (auto simp: word_less_nat_alt)
  next
    case True
    have nb: "unat (BADD i 1) = unat i + 512"
      using Suc.prems True by (intro unat_BADD1) (simp_all add: word_less_nat_alt)
    obtain bs where bs: "block_loop n (BADD i 1) e = Some bs"
      and tile: "concat (map (\<lambda>b. [unat (seg_start start b) ..< unat (seg_start start b) + seg_len start e b]) bs)
          = [max (unat i + 512) (unat start) ..< unat e]"
      and al: "\<forall>b \<in> set bs. BLOCK_ALIGNED b \<and> BADD i 1 \<le> b \<and> b < e"
      using Suc.IH [of "BADD i 1"] Suc.prems by (auto simp: nb)
    have gs: "unat (seg_start start i) = max (unat i) (unat start)"
      by (auto simp: seg_start_def word_less_nat_alt)
    have le: "max (unat i) (unat start) \<le> min (unat e) (unat i + 512)"
      using True Suc.prems(3,4) by (auto simp: word_less_nat_alt word_le_nat_alt)
    have "[max (unat i) (unat start) ..< min (unat e) (unat i + 512)] @ [max (unat i + 512) (unat start) ..< unat e]
        = [max (unat i) (unat start) ..< unat e]"
    proof (cases "unat e \<le> unat i + 512")
      case True
      then show ?thesis by simp
    next
      case False
      then have "[max (unat i) (unat start) ..< unat e]
          = [max (unat i) (unat start) ..< unat i + 512] @ [unat i + 512 ..< unat e]"
        using le by (metis le_add_diff_inverse linear min_def upt_add_eq_append)
      with False Suc.prems(4) show ?thesis by simp
    qed
    with True bs tile al le nb Suc.prems show ?thesis
      by (auto simp: gs seg_len_eq word_le_nat_alt)
  qed
qed

text \<open>
  C23. for a request that does not run into the last block of the address space, the loop ends
  within the fuel, visits block-aligned addresses only, and the parts of the request it handles in
  the blocks are, in order and without gap or overlap, exactly the bytes of the request.
\<close>

theorem blocks_of_tile:
  assumes "unat start + unat sz + 512 \<le> 2 ^ 64"
  shows "\<exists>bs. blocks_of start sz = Some bs \<and>
           concat (map (\<lambda>b. [unat (seg_start start b) ..<
                              unat (seg_start start b) + seg_len start (GADD start sz) b]) bs)
             = [unat start ..< unat start + unat sz] \<and>
           (\<forall>b \<in> set bs. BLOCK_ALIGNED b \<and> TOBLOCK start \<le> b \<and> b < GADD start sz)"
proof -
  have e: "unat (GADD start sz) = unat start + unat sz"
    unfolding GADD_def using assms by (intro unat_add_no_wrap) simp
  have "unat (TOBLOCK start) \<le> unat start" "unat start < unat (TOBLOCK start) + 512"
    by (simp_all add: unat_TOBLOCK div_times_less_eq_dividend dividend_less_div_times)
  then show ?thesis
    unfolding blocks_of_def
    using block_loop_tile [of "TOBLOCK start" "GADD start sz" start "unat sz div 512 + 2"] assms
    by (auto simp: e word_le_nat_alt max_def)
qed

theorem blocks_of_tile_witness:
  "\<exists>bs. blocks_of 0x1000000000300 1000 = Some bs \<and> length bs = 3 \<and>
     concat (map (\<lambda>b. [unat (seg_start 0x1000000000300 b) ..<
        unat (seg_start 0x1000000000300 b) + seg_len 0x1000000000300 (GADD 0x1000000000300 1000) b]) bs)
       = [unat (0x1000000000300 :: gaddr) ..< unat (0x1000000000300 :: gaddr) + unat (1000 :: u64)]"
proof -
  have "length (the (blocks_of 0x1000000000300 1000)) = 3"
    by code_simp
  then show ?thesis
    using blocks_of_tile [of "0x1000000000300" 1000] by auto
qed

end
