(* ===== verification/Gam_Rw_Lock.thy ===== *)
theory Gam_Rw_Lock
  imports Gam_Addr "HOL-Library.AList"
begin

text \<open>
  The reader/writer locks that the directory keeps for home memory and the cache keeps for cached
  blocks. Both store, per locked address, an \<^verbatim>\<open>int\<close> in an \<^verbatim>\<open>unordered_map\<close>: the number of readers, or
  \<^verbatim>\<open>EXCLUSIVE_LOCK_TAG\<close> for a writer. The theory states what a reader/writer lock is (\<open>spec_rlock\<close>,
  \<open>spec_wlock\<close>, \<open>spec_unlock\<close>), the interface both components promise (the locale \<open>rw_lock_table\<close>) and
  what follows for every sequence of lock operations.
\<close>

definition MAX_SHARED_LOCK :: int where
  "MAX_SHARED_LOCK = 254"

definition EXCLUSIVE_LOCK_TAG :: int where
  "EXCLUSIVE_LOCK_TAG = 255"

text \<open>An \<^verbatim>\<open>unordered_map<ptr_t, int>\<close>: a list of pairs with distinct keys; \<open>map_of\<close> looks a key up.\<close>

type_synonym locktab = "(ptr \<times> int) list"

section \<open>The abstract lock\<close>

datatype rwstate = Free | Reading nat | Writing

datatype rwop = RLockOp | WLockOp | UnLockOp

fun spec_rlock :: "rwstate \<Rightarrow> bool \<times> rwstate" where
  "spec_rlock Free = (True, Reading 1)"
| "spec_rlock (Reading n) = (True, Reading (Suc n))"
| "spec_rlock Writing = (False, Writing)"

fun spec_wlock :: "rwstate \<Rightarrow> bool \<times> rwstate" where
  "spec_wlock Free = (True, Writing)"
| "spec_wlock s = (False, s)"

fun spec_unlock :: "rwstate \<Rightarrow> rwstate" where
  "spec_unlock (Reading (Suc (Suc n))) = Reading (Suc n)"
| "spec_unlock _ = Free"

fun spec_step :: "rwop \<Rightarrow> rwstate \<Rightarrow> bool \<times> rwstate" where
  "spec_step RLockOp s = spec_rlock s"
| "spec_step WLockOp s = spec_wlock s"
| "spec_step UnLockOp s = (True, spec_unlock s)"

text \<open>A run of the abstract lock table: the answers given and the final states.\<close>

fun spec_run :: "('k \<Rightarrow> rwstate) \<Rightarrow> (rwop \<times> 'k) list \<Rightarrow> bool list \<times> ('k \<Rightarrow> rwstate)" where
  "spec_run v [] = ([], v)"
| "spec_run v ((p, k) # ops) =
     (let (b, s) = spec_step p (v k); (bs, v') = spec_run (v(k := s)) ops in (b # bs, v'))"

text \<open>
  What the users of the lock keep to: no reader beyond the bound the code asserts, and an unlock
  only of an address that is locked.
\<close>

fun spec_ok :: "nat \<Rightarrow> ('k \<Rightarrow> rwstate) \<Rightarrow> (rwop \<times> 'k) list \<Rightarrow> bool" where
  "spec_ok bound v [] = True"
| "spec_ok bound v ((p, k) # ops) =
     ((p = RLockOp \<longrightarrow> v k \<noteq> Reading bound) \<and> (p = UnLockOp \<longrightarrow> v k \<noteq> Free) \<and>
      spec_ok bound (v(k := snd (spec_step p (v k)))) ops)"

section \<open>The interface\<close>

text \<open>A sequence of calls against an implementation: its answers (0 is success) and its final state.\<close>

fun rw_step :: "('s \<Rightarrow> 'k \<Rightarrow> int \<times> 's) \<Rightarrow> ('s \<Rightarrow> 'k \<Rightarrow> int \<times> 's) \<Rightarrow> ('s \<Rightarrow> 'k \<Rightarrow> 's) \<Rightarrow> rwop \<Rightarrow> 's \<Rightarrow> 'k \<Rightarrow> bool \<times> 's" where
  "rw_step rl wl ul RLockOp s k = (fst (rl s k) = 0, snd (rl s k))"
| "rw_step rl wl ul WLockOp s k = (fst (wl s k) = 0, snd (wl s k))"
| "rw_step rl wl ul UnLockOp s k = (True, ul s k)"

fun rw_run :: "('s \<Rightarrow> 'k \<Rightarrow> int \<times> 's) \<Rightarrow> ('s \<Rightarrow> 'k \<Rightarrow> int \<times> 's) \<Rightarrow> ('s \<Rightarrow> 'k \<Rightarrow> 's) \<Rightarrow> 's \<Rightarrow> (rwop \<times> 'k) list \<Rightarrow> bool list \<times> 's" where
  "rw_run rl wl ul s [] = ([], s)"
| "rw_run rl wl ul s ((p, k) # ops) =
     (let (b, s') = rw_step rl wl ul p s k; (bs, s'') = rw_run rl wl ul s' ops in (b # bs, s''))"

locale rw_lock_table =
  fixes rlock wlock :: "'s \<Rightarrow> 'k \<Rightarrow> int \<times> 's"
    and unlock :: "'s \<Rightarrow> 'k \<Rightarrow> 's"
    and view :: "'s \<Rightarrow> 'k \<Rightarrow> rwstate"
    and inv :: "'s \<Rightarrow> bool"
    and bound :: nat
  assumes rlock_view: "inv s \<Longrightarrow> view s k \<noteq> Reading bound \<Longrightarrow>
      (fst (rlock s k) = 0 \<longleftrightarrow> fst (spec_rlock (view s k))) \<and>
      view (snd (rlock s k)) = (view s)(k := snd (spec_rlock (view s k)))"
    and wlock_view: "inv s \<Longrightarrow>
      (fst (wlock s k) = 0 \<longleftrightarrow> fst (spec_wlock (view s k))) \<and>
      view (snd (wlock s k)) = (view s)(k := snd (spec_wlock (view s k)))"
    and unlock_view: "inv s \<Longrightarrow> view s k \<noteq> Free \<Longrightarrow>
      view (unlock s k) = (view s)(k := spec_unlock (view s k))"
    and rlock_inv: "inv s \<Longrightarrow> view s k \<noteq> Reading bound \<Longrightarrow> inv (snd (rlock s k))"
    and wlock_inv: "inv s \<Longrightarrow> inv (snd (wlock s k))"
    and unlock_inv: "inv s \<Longrightarrow> view s k \<noteq> Free \<Longrightarrow> inv (unlock s k)"
begin

lemma step_refines:
  assumes "inv s" "p = RLockOp \<Longrightarrow> view s k \<noteq> Reading bound" "p = UnLockOp \<Longrightarrow> view s k \<noteq> Free"
  shows "fst (rw_step rlock wlock unlock p s k) = fst (spec_step p (view s k))
    \<and> view (snd (rw_step rlock wlock unlock p s k)) = (view s)(k := snd (spec_step p (view s k)))
    \<and> inv (snd (rw_step rlock wlock unlock p s k))"
  using assms rlock_view wlock_view unlock_view rlock_inv wlock_inv unlock_inv by (cases p) auto

lemma run_refines:
  assumes "inv s" "spec_ok bound (view s) ops"
  shows "fst (rw_run rlock wlock unlock s ops) = fst (spec_run (view s) ops) \<and> view (snd (rw_run rlock wlock unlock s ops)) = snd (spec_run (view s) ops)
    \<and> inv (snd (rw_run rlock wlock unlock s ops))"
  using assms
proof (induction ops arbitrary: s)
  case (Cons op ops)
  obtain p k where op: "op = (p, k)" by (cases op)
  have st: "fst (rw_step rlock wlock unlock p s k) = fst (spec_step p (view s k))"
    "view (snd (rw_step rlock wlock unlock p s k)) = (view s)(k := snd (spec_step p (view s k)))" "inv (snd (rw_step rlock wlock unlock p s k))"
    using step_refines [of s p k] Cons.prems by (auto simp: op)
  have "spec_ok bound (view (snd (rw_step rlock wlock unlock p s k))) ops"
    unfolding st(2) using Cons.prems by (simp add: op)
  from Cons.IH [OF st(3) this] show ?case
    by (simp add: op Let_def split_beta st(1) flip: st(2))
qed simp

lemma writer_excludes:
  assumes "inv s" "view s k = Writing"
  shows "fst (rlock s k) \<noteq> 0 \<and> fst (wlock s k) \<noteq> 0"
  using assms rlock_view [of s k] wlock_view [of s k] by auto

lemma readers_exclude_writer:
  assumes "inv s" "view s k = Reading n"
  shows "fst (wlock s k) \<noteq> 0"
  using assms wlock_view [of s k] by auto

end

section \<open>The lock table of an entry or a cache line\<close>

text \<open>
  \<^verbatim>\<open>if (locks.count(a)) locks[a]++; else locks[a] = 1;\<close> and the lookups and removals both components
  share. \<open>tab_view\<close> reads the table as abstract locks.
\<close>

definition tab_incr :: "locktab \<Rightarrow> ptr \<Rightarrow> locktab" where
  "tab_incr l a = (case map_of l a of Some n \<Rightarrow> AList.update a (n + 1) l | None \<Rightarrow> AList.update a 1 l)"

definition tab_view :: "locktab \<Rightarrow> ptr \<Rightarrow> rwstate" where
  "tab_view l a = (case map_of l a of None \<Rightarrow> Free
     | Some n \<Rightarrow> if n = EXCLUSIVE_LOCK_TAG then Writing else Reading (nat n))"

definition tab_inv :: "locktab \<Rightarrow> bool" where
  "tab_inv l \<longleftrightarrow> distinct (map fst l) \<and> (\<forall>(a, n) \<in> set l. 1 \<le> n \<and> n \<le> EXCLUSIVE_LOCK_TAG)"

definition tab_wlocked :: "locktab \<Rightarrow> bool" where
  "tab_wlocked l = list_ex (\<lambda>(a, n). n = EXCLUSIVE_LOCK_TAG) l"

lemma tab_inv_map_of: "tab_inv l \<Longrightarrow> map_of l a = Some n \<Longrightarrow> 1 \<le> n \<and> n \<le> 255"
  by (force simp: tab_inv_def EXCLUSIVE_LOCK_TAG_def dest: map_of_SomeD)

lemma tab_inv_iff:
  "tab_inv l \<longleftrightarrow> distinct (map fst l) \<and> (\<forall>a n. map_of l a = Some n \<longrightarrow> 1 \<le> n \<and> n \<le> EXCLUSIVE_LOCK_TAG)"
  unfolding tab_inv_def by (force dest: map_of_SomeD)

lemma tab_inv_Nil [simp]: "tab_inv []"
  by (simp add: tab_inv_def)

lemma tab_inv_update:
  "tab_inv l \<Longrightarrow> 1 \<le> n \<Longrightarrow> n \<le> EXCLUSIVE_LOCK_TAG \<Longrightarrow> tab_inv (AList.update a n l)"
  by (auto simp: tab_inv_iff distinct_update update_conv')

lemma tab_inv_delete: "tab_inv l \<Longrightarrow> tab_inv (AList.delete a l)"
  by (auto simp: tab_inv_iff distinct_delete delete_conv' split: if_splits)

lemma tab_wlocked_iff:
  "distinct (map fst l) \<Longrightarrow> tab_wlocked l \<longleftrightarrow> (\<exists>a. map_of l a = Some EXCLUSIVE_LOCK_TAG)"
  by (auto simp: tab_wlocked_def list_ex_iff dest: map_of_SomeD)

lemma tab_incr_view:
  assumes "tab_inv l" "tab_view l a \<noteq> Writing" "tab_view l a \<noteq> Reading 254"
  shows "tab_view (tab_incr l a) = (tab_view l)(a := snd (spec_rlock (tab_view l a)))"
    and "tab_inv (tab_incr l a)"
proof -
  have bnd: "1 \<le> n \<and> n < 254" if "map_of l a = Some n" for n
    using tab_inv_map_of [OF assms(1) that] that assms(2,3)
    by (auto simp: tab_view_def EXCLUSIVE_LOCK_TAG_def split: if_splits)
  show "tab_view (tab_incr l a) = (tab_view l)(a := snd (spec_rlock (tab_view l a)))"
    using bnd by (auto simp: tab_incr_def tab_view_def update_conv' EXCLUSIVE_LOCK_TAG_def nat_add_distrib
        fun_eq_iff split: option.splits)
  show "tab_inv (tab_incr l a)"
    using bnd assms(1) by (auto simp: tab_incr_def EXCLUSIVE_LOCK_TAG_def split: option.splits intro!: tab_inv_update)
qed

lemma tab_view_update_tag:
  "tab_view (AList.update a EXCLUSIVE_LOCK_TAG l) = (tab_view l)(a := Writing)"
  by (auto simp: tab_view_def update_conv' fun_eq_iff)

lemma tab_view_delete: "tab_view (AList.delete a l) = (tab_view l)(a := Free)"
  by (auto simp: tab_view_def delete_conv' fun_eq_iff)

lemma tab_view_Free: "tab_view l a = Free \<longleftrightarrow> map_of l a = None"
  by (auto simp: tab_view_def split: option.splits)

lemma tab_view_Writing: "tab_view l a = Writing \<longleftrightarrow> map_of l a = Some EXCLUSIVE_LOCK_TAG"
  by (simp add: tab_view_def split: option.split)

lemma tab_wlocked_view: "tab_inv l \<Longrightarrow> tab_wlocked l \<longleftrightarrow> (\<exists>a. tab_view l a = Writing)"
  by (simp add: tab_inv_def tab_wlocked_iff tab_view_Writing)

lemma tab_view_Nil [simp]: "tab_view [] a = Free"
  by (simp add: tab_view_def)

lemma tab_wlocked_Nil [simp]: "\<not> tab_wlocked []"
  by (simp add: tab_wlocked_def)

lemma tab_incr_not_Nil [simp]: "tab_incr l a \<noteq> []"
  by (auto simp: tab_incr_def update_nonempty split: option.splits)

lemma tab_keys_incr: "fst ` set (tab_incr l a) = insert a (fst ` set l)"
  by (auto simp: tab_incr_def dom_update split: option.splits)

text \<open>Giving a lock back: the element is erased, or counts one reader less.\<close>

definition tab_unlock :: "locktab \<Rightarrow> ptr \<Rightarrow> locktab" where
  "tab_unlock l a = (case map_of l a of
     Some n \<Rightarrow> if n = EXCLUSIVE_LOCK_TAG \<or> n = 1 then AList.delete a l else AList.update a (n - 1) l
   | None \<Rightarrow> l)"

lemma tab_unlock_view:
  assumes "tab_inv l" "tab_view l a \<noteq> Free"
  shows "tab_view (tab_unlock l a) = (tab_view l)(a := spec_unlock (tab_view l a))"
proof -
  obtain n where n: "map_of l a = Some n" "1 \<le> n" "n \<le> 255"
    using assms tab_inv_map_of by (auto simp: tab_view_Free)
  show ?thesis
  proof (cases "n = EXCLUSIVE_LOCK_TAG \<or> n = 1")
    case True
    then show ?thesis
      using n by (auto simp: tab_unlock_def tab_view_delete) (auto simp: tab_view_def fun_eq_iff)
  next
    case False
    then have "nat n = Suc (Suc (nat (n - 2)))"
      using n by auto
    then have "spec_unlock (Reading (nat n)) = Reading (nat (n - 1))"
      using n by simp
    then show ?thesis
      using n False by (auto simp: tab_unlock_def tab_view_def update_conv' EXCLUSIVE_LOCK_TAG_def fun_eq_iff)
  qed
qed

lemma tab_unlock_inv: "tab_inv l \<Longrightarrow> tab_inv (tab_unlock l a)"
  by (auto simp: tab_unlock_def EXCLUSIVE_LOCK_TAG_def dest: tab_inv_map_of split: option.splits
      intro!: tab_inv_update tab_inv_delete)

lemma tab_keys_unlock: "fst ` set (tab_unlock l a) \<subseteq> fst ` set l"
proof (cases "map_of l a")
  case (Some n)
  then have "a \<in> fst ` set l"
    by (metis domI dom_map_of_conv_image_fst)
  then show ?thesis
    using Some dom_delete_subset [of a l] by (simp add: tab_unlock_def dom_update)
qed (simp add: tab_unlock_def)

text \<open>All locks of the table are on addresses of one block.\<close>

definition tab_in :: "ptr \<Rightarrow> locktab \<Rightarrow> bool" where
  "tab_in b l \<longleftrightarrow> fst ` set l \<subseteq> {a. TOBLOCK a = b}"

lemma tab_in_Nil [simp]: "tab_in b []"
  by (simp add: tab_in_def)

lemma tab_in_single [simp]: "tab_in b [(a, n)] \<longleftrightarrow> TOBLOCK a = b"
  by (auto simp: tab_in_def)

lemma tab_in_update: "tab_in b (AList.update a n l) \<longleftrightarrow> tab_in b l \<and> TOBLOCK a = b"
  by (auto simp: tab_in_def dom_update)

lemma tab_in_incr: "tab_in b (tab_incr l a) \<longleftrightarrow> tab_in b l \<and> TOBLOCK a = b"
  by (auto simp: tab_in_def tab_keys_incr)

lemma tab_in_unlock: "tab_in b l \<Longrightarrow> tab_in b (tab_unlock l a)"
  using tab_keys_unlock [of l a] by (auto simp: tab_in_def)

end
