(* ===== verification/Gam_Directory.thy ===== *)
theory Gam_Directory
  imports Gam_Rw_Lock
begin

text \<open>
  The directory of a home worker: \<^verbatim>\<open>gam/include/directory.h\<close> and \<^verbatim>\<open>gam/src/directory.cc\<close>. It maps the
  local address of a block to an entry with the block's coherence state, the list of the remote
  cache lines that hold a copy, and the locks taken on addresses of the block.

  An entry object is owned by the map and found under its block address only, so a \<^verbatim>\<open>DirEntry*\<close> is
  modelled by that block address (\<open>None\<close> is \<^verbatim>\<open>nullptr\<close>). An operation returns \<open>None\<close> where the C++
  dereferences a null or deleted entry or pops an empty list; the assertions of the sources are
  compiled out in the shipped build (\<^verbatim>\<open>-DNDEBUG\<close>) and appear below as the precondition \<open>dir_pre\<close>.
\<close>

datatype DirState = DIR_UNSHARED | DIR_DIRTY | DIR_SHARED | DIR_TO_DIRTY | DIR_TO_SHARED | DIR_TO_UNSHARED

record DirEntry =
  dstate :: DirState
  dshared :: "gaddr list"
  daddr :: ptr
  dlocks :: locktab

type_synonym directory = "ptr \<rightharpoonup> DirEntry"
type_synonym eptr = "ptr option"

definition new_DirEntry :: DirEntry where
  "new_DirEntry = \<lparr>dstate = DIR_UNSHARED, dshared = [], daddr = 0, dlocks = []\<rparr>"

section \<open>Reading the directory\<close>

definition GetEntry :: "directory \<Rightarrow> ptr \<Rightarrow> eptr" where
  "GetEntry d p = (case d (TOBLOCK p) of Some _ \<Rightarrow> Some (TOBLOCK p) | None \<Rightarrow> None)"

definition deref :: "directory \<Rightarrow> eptr \<Rightarrow> DirEntry option" where
  "deref d e = (case e of None \<Rightarrow> None | Some b \<Rightarrow> d b)"

definition GetState_p :: "directory \<Rightarrow> ptr \<Rightarrow> DirState" where
  "GetState_p d p = (case d (TOBLOCK p) of None \<Rightarrow> DIR_UNSHARED | Some en \<Rightarrow> dstate en)"

definition GetState_e :: "directory \<Rightarrow> eptr \<Rightarrow> DirState" where
  "GetState_e d e = (case deref d e of None \<Rightarrow> DIR_UNSHARED | Some en \<Rightarrow> dstate en)"

definition InTransitionState_s :: "DirState \<Rightarrow> bool" where
  "InTransitionState_s s \<longleftrightarrow> s = DIR_TO_DIRTY \<or> s = DIR_TO_SHARED \<or> s = DIR_TO_UNSHARED"

definition InTransitionState_e :: "directory \<Rightarrow> eptr \<Rightarrow> bool" where
  "InTransitionState_e d e = (case deref d e of None \<Rightarrow> False | Some en \<Rightarrow> InTransitionState_s (dstate en))"

definition InTransitionState_p :: "directory \<Rightarrow> ptr \<Rightarrow> bool" where
  "InTransitionState_p d p = (case d (TOBLOCK p) of None \<Rightarrow> False
     | Some en \<Rightarrow> dstate en = DIR_TO_DIRTY \<or> dstate en = DIR_TO_SHARED \<or> dstate en = DIR_TO_UNSHARED)"

definition GetSList :: "directory \<Rightarrow> eptr \<Rightarrow> gaddr list option" where
  "GetSList d e = map_option dshared (deref d e)"

definition IsWLocked_en :: "DirEntry \<Rightarrow> ptr \<Rightarrow> bool" where
  "IsWLocked_en en p \<longleftrightarrow> dstate en = DIR_UNSHARED \<and> map_of (dlocks en) p = Some EXCLUSIVE_LOCK_TAG"

definition IsWLocked_e :: "directory \<Rightarrow> eptr \<Rightarrow> ptr \<Rightarrow> bool" where
  "IsWLocked_e d e p = (case deref d e of None \<Rightarrow> False | Some en \<Rightarrow> IsWLocked_en en p)"

definition IsWLocked_p :: "directory \<Rightarrow> ptr \<Rightarrow> bool" where
  "IsWLocked_p d p = IsWLocked_e d (GetEntry d (TOBLOCK p)) p"

definition IsRLocked_en :: "DirEntry \<Rightarrow> ptr \<Rightarrow> bool" where
  "IsRLocked_en en p = (case map_of (dlocks en) p of None \<Rightarrow> False
     | Some n \<Rightarrow> n > 0 \<and> n \<noteq> EXCLUSIVE_LOCK_TAG)"

definition IsRLocked_e :: "directory \<Rightarrow> eptr \<Rightarrow> ptr \<Rightarrow> bool" where
  "IsRLocked_e d e p = (case deref d e of None \<Rightarrow> False | Some en \<Rightarrow> IsRLocked_en en p)"

definition IsRLocked_p :: "directory \<Rightarrow> ptr \<Rightarrow> bool" where
  "IsRLocked_p d p = IsRLocked_e d (GetEntry d (TOBLOCK p)) p"

definition IsBlockWLocked_e :: "directory \<Rightarrow> eptr \<Rightarrow> bool" where
  "IsBlockWLocked_e d e = (case deref d e of None \<Rightarrow> False | Some en \<Rightarrow> tab_wlocked (dlocks en))"

definition IsBlockWLocked_p :: "directory \<Rightarrow> ptr \<Rightarrow> bool" where
  "IsBlockWLocked_p d b = IsBlockWLocked_e d (GetEntry d b)"

definition IsBlockLocked_en :: "DirEntry \<Rightarrow> bool" where
  "IsBlockLocked_en en \<longleftrightarrow> length (dlocks en) > 0"

definition IsBlockLocked_e :: "directory \<Rightarrow> eptr \<Rightarrow> bool" where
  "IsBlockLocked_e d e = (case deref d e of None \<Rightarrow> False | Some en \<Rightarrow> IsBlockLocked_en en)"

definition IsBlockLocked_p :: "directory \<Rightarrow> ptr \<Rightarrow> bool" where
  "IsBlockLocked_p d b = IsBlockLocked_e d (GetEntry d b)"

section \<open>State changes\<close>

text \<open>Writing through an entry pointer.\<close>

definition store :: "directory \<Rightarrow> eptr \<Rightarrow> DirEntry \<Rightarrow> directory" where
  "store d e en = (case e of None \<Rightarrow> d | Some b \<Rightarrow> d(b \<mapsto> en))"

definition ToShared_en :: "DirEntry \<Rightarrow> gaddr \<Rightarrow> DirEntry option" where
  "ToShared_en en addr =
     (if dstate en = DIR_TO_SHARED then
        (if addr \<noteq> Gnullptr then
           (case dshared en of [] \<Rightarrow> None
            | _ # xs \<Rightarrow> Some (en\<lparr>dshared := xs @ [addr], dstate := DIR_SHARED\<rparr>))
         else Some (en\<lparr>dstate := DIR_SHARED\<rparr>))
      else Some (en\<lparr>dstate := DIR_SHARED, dshared := dshared en @ [addr]\<rparr>))"

definition ToShared_e :: "directory \<Rightarrow> eptr \<Rightarrow> gaddr \<Rightarrow> directory option" where
  "ToShared_e d e addr = do {
     en \<leftarrow> deref d e;
     en' \<leftarrow> ToShared_en en addr;
     Some (store d e en') }"

definition ToShared_p :: "directory \<Rightarrow> ptr \<Rightarrow> gaddr \<Rightarrow> directory option" where
  "ToShared_p d p addr =
     (let block = TOBLOCK p; e = GetEntry d block
      in case e of
           None \<Rightarrow> Some (d(block \<mapsto> new_DirEntry\<lparr>dstate := DIR_SHARED, dshared := [addr], daddr := block\<rparr>))
         | Some _ \<Rightarrow> ToShared_e d e addr)"

text \<open>\<^verbatim>\<open>Remove\<close> erases the first copy held by worker \<open>wid\<close>, and the entry with the last copy.\<close>

fun erase_wid :: "gaddr list \<Rightarrow> i32 \<Rightarrow> gaddr list" where
  "erase_wid [] wid = []"
| "erase_wid (g # gs) wid = (if WID g = wid64 wid then gs else g # erase_wid gs wid)"

definition erase_entry :: "directory \<Rightarrow> DirEntry \<Rightarrow> directory" where
  "erase_entry d en = d(daddr en := None)"

definition Remove_e :: "directory \<Rightarrow> eptr \<Rightarrow> i32 \<Rightarrow> directory \<times> eptr" where
  "Remove_e d e wid = (case deref d e of
     None \<Rightarrow> (d, e)
   | Some en \<Rightarrow>
       (let en' = en\<lparr>dshared := erase_wid (dshared en) wid\<rparr>; d' = store d e en'
        in if dshared en' = [] \<and> \<not> IsBlockLocked_en en' then (erase_entry d' en', None) else (d', e)))"

definition Remove_p :: "directory \<Rightarrow> ptr \<Rightarrow> i32 \<Rightarrow> directory" where
  "Remove_p d p wid = fst (Remove_e d (GetEntry d (TOBLOCK p)) wid)"

definition UndoShared_e :: "directory \<Rightarrow> eptr \<Rightarrow> directory option" where
  "UndoShared_e d e = do { en \<leftarrow> deref d e; Some (store d e (en\<lparr>dstate := DIR_SHARED\<rparr>)) }"

text \<open>\<^verbatim>\<open>dir.at\<close> throws on a missing block; the exception is caught and logged.\<close>

definition UndoShared_p :: "directory \<Rightarrow> ptr \<Rightarrow> directory" where
  "UndoShared_p d p = (case d (TOBLOCK p) of None \<Rightarrow> d
     | Some en \<Rightarrow> d(TOBLOCK p \<mapsto> en\<lparr>dstate := DIR_SHARED\<rparr>))"

definition ToUnShared_e :: "directory \<Rightarrow> eptr \<Rightarrow> directory \<times> eptr" where
  "ToUnShared_e d e = (case deref d e of
     None \<Rightarrow> (d, e)
   | Some en \<Rightarrow>
       if IsBlockLocked_en en
       then (store d e (en\<lparr>dstate := DIR_UNSHARED, dshared := []\<rparr>), e)
       else (erase_entry d en, None))"

definition ToUnShared_p :: "directory \<Rightarrow> ptr \<Rightarrow> directory" where
  "ToUnShared_p d p = fst (ToUnShared_e d (GetEntry d p))"

definition ToDirty_e :: "directory \<Rightarrow> eptr \<Rightarrow> gaddr \<Rightarrow> directory option" where
  "ToDirty_e d e addr = do {
     en \<leftarrow> deref d e;
     Some (store d e (en\<lparr>dstate := DIR_DIRTY, dshared := [addr]\<rparr>)) }"

definition ToDirty_p :: "directory \<Rightarrow> ptr \<Rightarrow> gaddr \<Rightarrow> directory option" where
  "ToDirty_p d p addr =
     (let block = TOBLOCK p; e = GetEntry d p
      in case e of
           None \<Rightarrow> Some (d(block \<mapsto> new_DirEntry\<lparr>dstate := DIR_DIRTY, dshared := [addr], daddr := block\<rparr>))
         | Some _ \<Rightarrow> ToDirty_e d e addr)"

definition UndoDirty_e :: "directory \<Rightarrow> eptr \<Rightarrow> directory option" where
  "UndoDirty_e d e = do { en \<leftarrow> deref d e; Some (store d e (en\<lparr>dstate := DIR_DIRTY\<rparr>)) }"

definition UndoDirty_p :: "directory \<Rightarrow> ptr \<Rightarrow> directory" where
  "UndoDirty_p d p = (case d (TOBLOCK p) of None \<Rightarrow> d
     | Some en \<Rightarrow> d(TOBLOCK p \<mapsto> en\<lparr>dstate := DIR_DIRTY\<rparr>))"

definition ToToShared_e :: "directory \<Rightarrow> eptr \<Rightarrow> directory option" where
  "ToToShared_e d e = do { en \<leftarrow> deref d e; Some (store d e (en\<lparr>dstate := DIR_TO_SHARED\<rparr>)) }"

definition ToToShared_p :: "directory \<Rightarrow> ptr \<Rightarrow> directory option" where
  "ToToShared_p d p = ToToShared_e d (GetEntry d (TOBLOCK p))"

definition ToToUnShared_e :: "directory \<Rightarrow> eptr \<Rightarrow> directory option" where
  "ToToUnShared_e d e = do { en \<leftarrow> deref d e; Some (store d e (en\<lparr>dstate := DIR_TO_UNSHARED\<rparr>)) }"

definition ToToUnShared_p :: "directory \<Rightarrow> ptr \<Rightarrow> directory option" where
  "ToToUnShared_p d p = ToToUnShared_e d (GetEntry d (TOBLOCK p))"

definition ToToDirty_e :: "directory \<Rightarrow> eptr \<Rightarrow> directory option" where
  "ToToDirty_e d e = do { en \<leftarrow> deref d e; Some (store d e (en\<lparr>dstate := DIR_TO_DIRTY\<rparr>)) }"

definition ToToDirty_p :: "directory \<Rightarrow> ptr \<Rightarrow> directory option" where
  "ToToDirty_p d p =
     (let block = TOBLOCK p; e = GetEntry d block
      in case e of
           None \<Rightarrow> Some (d(block \<mapsto> new_DirEntry\<lparr>dstate := DIR_TO_DIRTY, daddr := block\<rparr>))
         | Some _ \<Rightarrow> ToToDirty_e d e)"

section \<open>Locks\<close>

definition RLock_en :: "DirEntry \<Rightarrow> ptr \<Rightarrow> int \<times> DirEntry" where
  "RLock_en en p =
     (if IsWLocked_en en p then (-1, en) else (0, en\<lparr>dlocks := tab_incr (dlocks en) p\<rparr>))"

definition RLock_e :: "directory \<Rightarrow> eptr \<Rightarrow> ptr \<Rightarrow> (int \<times> directory) option" where
  "RLock_e d e p = do { en \<leftarrow> deref d e; let (r, en') = RLock_en en p; Some (r, store d e en') }"

definition RLock_p :: "directory \<Rightarrow> ptr \<Rightarrow> (int \<times> directory) option" where
  "RLock_p d p =
     (let block = TOBLOCK p; e = GetEntry d block
      in case e of
           None \<Rightarrow> Some (0, d(block \<mapsto> new_DirEntry\<lparr>dlocks := [(p, 1)], daddr := block\<rparr>))
         | Some _ \<Rightarrow> RLock_e d e p)"

definition WLock_en :: "DirEntry \<Rightarrow> ptr \<Rightarrow> int \<times> DirEntry" where
  "WLock_en en p =
     (if IsWLocked_en en p \<or> IsRLocked_en en p then (-1, en)
      else (0, en\<lparr>dlocks := AList.update p EXCLUSIVE_LOCK_TAG (dlocks en)\<rparr>))"

definition WLock_e :: "directory \<Rightarrow> eptr \<Rightarrow> ptr \<Rightarrow> (int \<times> directory) option" where
  "WLock_e d e p = do { en \<leftarrow> deref d e; let (r, en') = WLock_en en p; Some (r, store d e en') }"

definition WLock_p :: "directory \<Rightarrow> ptr \<Rightarrow> (int \<times> directory) option" where
  "WLock_p d p =
     (let block = TOBLOCK p; e = GetEntry d block
      in case e of
           None \<Rightarrow> Some (0, d(block \<mapsto> new_DirEntry\<lparr>dlocks := [(p, EXCLUSIVE_LOCK_TAG)], daddr := block\<rparr>))
         | Some _ \<Rightarrow> WLock_e d e p)"

text \<open>\<^verbatim>\<open>locks[ptr]\<close> creates a missing element with value 0.\<close>

definition UnLock_en :: "DirEntry \<Rightarrow> ptr \<Rightarrow> DirEntry" where
  "UnLock_en en p =
     (let old = (case map_of (dlocks en) p of None \<Rightarrow> 0 | Some n \<Rightarrow> n);
          new = (if IsWLocked_en en p then 0 else old - 1);
          l = AList.update p new (dlocks en)
      in en\<lparr>dlocks := (if new = 0 then AList.delete p l else l)\<rparr>)"

definition UnLock_e :: "directory \<Rightarrow> eptr \<Rightarrow> ptr \<Rightarrow> (directory \<times> eptr) option" where
  "UnLock_e d e p = do {
     en \<leftarrow> deref d e;
     let en' = UnLock_en en p;
     let d' = store d e en';
     Some (if dstate en' = DIR_UNSHARED \<and> length (dlocks en') = 0 then (erase_entry d' en', None) else (d', e)) }"

definition UnLock_p :: "directory \<Rightarrow> ptr \<Rightarrow> directory option" where
  "UnLock_p d p = (case d (TOBLOCK p) of None \<Rightarrow> Some d
     | Some _ \<Rightarrow> map_option fst (UnLock_e d (Some (TOBLOCK p)) p))"

definition Clear_e :: "directory \<Rightarrow> eptr \<Rightarrow> gaddr \<Rightarrow> (directory \<times> eptr) option" where
  "Clear_e d e addr = (case deref d e of
     None \<Rightarrow> Some (d, e)
   | Some en \<Rightarrow> do {
       en1 \<leftarrow> (if dstate en = DIR_DIRTY
               then (case dshared en of [] \<Rightarrow> None
                     | g # gs \<Rightarrow> Some (if addr = g then en\<lparr>dshared := gs\<rparr> else en))
               else Some (en\<lparr>dshared := removeAll addr (dshared en)\<rparr>));
       let d1 = store d e en1;
       Some (if dshared en1 = []
             then (if \<not> IsBlockLocked_en en1 then (erase_entry d1 en1, None)
                   else (store d1 e (en1\<lparr>dstate := DIR_UNSHARED\<rparr>), e))
             else (d1, e)) })"

definition Clear_p :: "directory \<Rightarrow> ptr \<Rightarrow> gaddr \<Rightarrow> directory option" where
  "Clear_p d p addr =
     (case GetEntry d (TOBLOCK p) of None \<Rightarrow> Some d
      | Some b \<Rightarrow> map_option fst (Clear_e d (Some b) addr))"

section \<open>The invariant of the directory\<close>

text \<open>
  What an entry of block \<open>b\<close> satisfies between two critical sections: it is stored under its own
  block, its copies belong to distinct workers, its locks are taken on addresses of the block, and
  the state agrees with the copies and the locks. An unshared entry exists only because it is
  locked; a dirty block has one copy, its owner's, and no lock at home.
\<close>

definition state_ok :: "DirState \<Rightarrow> gaddr list \<Rightarrow> locktab \<Rightarrow> bool" where
  "state_ok st sh l = (case st of
     DIR_UNSHARED \<Rightarrow> sh = [] \<and> l \<noteq> []
   | DIR_DIRTY \<Rightarrow> length sh = 1 \<and> l = []
   | DIR_SHARED \<Rightarrow> sh \<noteq> [] \<and> \<not> tab_wlocked l
   | DIR_TO_DIRTY \<Rightarrow> sh \<noteq> [] \<and> l = []
   | DIR_TO_SHARED \<Rightarrow> length sh = 1 \<and> l = []
   | DIR_TO_UNSHARED \<Rightarrow> \<not> tab_wlocked l)"

definition entry_ok :: "ptr \<Rightarrow> DirEntry \<Rightarrow> bool" where
  "entry_ok b en \<longleftrightarrow> daddr en = b \<and> BLOCK_ALIGNED b \<and> distinct (map WID (dshared en)) \<and>
     tab_inv (dlocks en) \<and> tab_in b (dlocks en) \<and>
     state_ok (dstate en) (dshared en) (dlocks en)"

definition dir_ok :: "directory \<Rightarrow> bool" where
  "dir_ok d \<longleftrightarrow> (\<forall>b en. d b = Some en \<longrightarrow> entry_ok b en)"

text \<open>The operations of the directory as the worker calls them, and the whole interface in one step.\<close>

datatype dir_op =
    DToShared ptr gaddr | DRemove ptr i32 | DUndoShared ptr | DToUnShared ptr | DToDirty ptr gaddr
  | DUndoDirty ptr | DToToShared ptr | DToToUnShared ptr | DToToDirty ptr
  | DRLock ptr | DWLock ptr | DUnLock ptr | DClear ptr gaddr

fun dir_exec :: "directory \<Rightarrow> dir_op \<Rightarrow> directory option" where
  "dir_exec d (DToShared p a) = ToShared_p d p a"
| "dir_exec d (DRemove p w) = Some (Remove_p d p w)"
| "dir_exec d (DUndoShared p) = Some (UndoShared_p d p)"
| "dir_exec d (DToUnShared p) = Some (ToUnShared_p d p)"
| "dir_exec d (DToDirty p a) = ToDirty_p d p a"
| "dir_exec d (DUndoDirty p) = Some (UndoDirty_p d p)"
| "dir_exec d (DToToShared p) = ToToShared_p d p"
| "dir_exec d (DToToUnShared p) = ToToUnShared_p d p"
| "dir_exec d (DToToDirty p) = ToToDirty_p d p"
| "dir_exec d (DRLock p) = map_option snd (RLock_p d p)"
| "dir_exec d (DWLock p) = map_option snd (WLock_p d p)"
| "dir_exec d (DUnLock p) = UnLock_p d p"
| "dir_exec d (DClear p a) = Clear_p d p a"

text \<open>
  The assertions of \<^verbatim>\<open>directory.cc\<close>, with the state the callers check before the call where the
  assertion is silent.
\<close>

definition with_entry :: "directory \<Rightarrow> ptr \<Rightarrow> bool \<Rightarrow> (DirEntry \<Rightarrow> bool) \<Rightarrow> bool" where
  "with_entry d p absent P = (case d (TOBLOCK p) of None \<Rightarrow> absent | Some en \<Rightarrow> P en)"

fun dir_pre :: "directory \<Rightarrow> dir_op \<Rightarrow> bool" where
  "dir_pre d (DToShared p a) = (BLOCK_ALIGNED p \<and> with_entry d p True (\<lambda>en.
     if dstate en = DIR_TO_SHARED then a = Gnullptr \<or> [a] = dshared en
     else (dstate en = DIR_SHARED \<or> dstate en = DIR_UNSHARED \<and> \<not> tab_wlocked (dlocks en))
          \<and> WID a \<notin> WID ` set (dshared en)))"
| "dir_pre d (DRemove p w) = (BLOCK_ALIGNED p \<and> with_entry d p False (\<lambda>en.
     (dstate en = DIR_TO_UNSHARED \<or> dstate en = DIR_TO_DIRTY) \<and> wid64 w \<in> WID ` set (dshared en)))"
| "dir_pre d (DUndoShared p) = (BLOCK_ALIGNED p \<and> with_entry d p False (\<lambda>en.
     InTransitionState_s (dstate en) \<and> dshared en \<noteq> []))"
| "dir_pre d (DToUnShared p) = (BLOCK_ALIGNED p \<and> with_entry d p True (\<lambda>en. dstate en = DIR_TO_UNSHARED))"
| "dir_pre d (DToDirty p a) = (BLOCK_ALIGNED p \<and> with_entry d p True (\<lambda>en.
     (dstate en = DIR_UNSHARED \<or> dstate en = DIR_SHARED \<or> dstate en = DIR_TO_DIRTY) \<and> dlocks en = []))"
| "dir_pre d (DUndoDirty p) = (BLOCK_ALIGNED p \<and> with_entry d p False (\<lambda>en.
     InTransitionState_s (dstate en) \<and> length (dshared en) = 1 \<and> dlocks en = []))"
| "dir_pre d (DToToShared p) = (BLOCK_ALIGNED p \<and> with_entry d p False (\<lambda>en. dstate en = DIR_DIRTY))"
| "dir_pre d (DToToUnShared p) = (BLOCK_ALIGNED p \<and> with_entry d p False (\<lambda>en.
     dstate en = DIR_DIRTY \<or> dstate en = DIR_SHARED))"
| "dir_pre d (DToToDirty p) = (BLOCK_ALIGNED p \<and> with_entry d p False (\<lambda>en.
     (dstate en = DIR_DIRTY \<or> dstate en = DIR_SHARED) \<and> dlocks en = []))"
| "dir_pre d (DRLock p) = with_entry d p True (\<lambda>en.
     (dstate en = DIR_SHARED \<or> dstate en = DIR_UNSHARED) \<and> tab_view (dlocks en) p \<noteq> Reading 254)"
| "dir_pre d (DWLock p) = with_entry d p True (\<lambda>en. dstate en = DIR_UNSHARED)"
| "dir_pre d (DUnLock p) = with_entry d p False (\<lambda>en. tab_view (dlocks en) p \<noteq> Free)"
| "dir_pre d (DClear p a) = (BLOCK_ALIGNED p \<and> with_entry d p True (\<lambda>en.
     \<not> InTransitionState_s (dstate en)))"

lemmas dir_simps = GetEntry_def deref_def store_def with_entry_def erase_entry_def TOBLOCK_id

lemma dir_ok_upd: "dir_ok d \<Longrightarrow> entry_ok b en \<Longrightarrow> dir_ok (d(b \<mapsto> en))"
  by (simp add: dir_ok_def)

lemma dir_ok_del: "dir_ok d \<Longrightarrow> dir_ok (d(b := None))"
  by (simp add: dir_ok_def)

lemma dir_ok_entry: "dir_ok d \<Longrightarrow> d b = Some en \<Longrightarrow> entry_ok b en"
  by (simp add: dir_ok_def)

lemma set_erase_wid: "set (erase_wid gs w) \<subseteq> set gs"
  by (induction gs) auto

lemma distinct_erase_wid: "distinct (map WID gs) \<Longrightarrow> distinct (map WID (erase_wid gs w))"
  by (induction gs) (use set_erase_wid in fastforce)+

lemma erase_wid_removes:
  "distinct (map WID gs) \<Longrightarrow> WID ` set (erase_wid gs w) = WID ` set gs - {wid64 w}"
  by (induction gs) (auto, metis image_eqI)

lemma Clear_en_distinct: "distinct (map WID gs) \<Longrightarrow> distinct (map WID (removeAll a gs))"
  by (induction gs) auto

lemma UnLock_en_tab:
  assumes "entry_ok b en" "tab_view (dlocks en) p \<noteq> Free"
  shows "UnLock_en en p = en\<lparr>dlocks := tab_unlock (dlocks en) p\<rparr>"
proof -
  obtain n where n: "map_of (dlocks en) p = Some n" "1 \<le> n" "n \<le> 255"
    using assms tab_inv_map_of by (auto simp: tab_view_Free entry_ok_def)
  have "dstate en = DIR_UNSHARED" if "n = EXCLUSIVE_LOCK_TAG"
    using assms(1) n that
    by (auto simp: entry_ok_def state_ok_def tab_inv_def tab_wlocked_iff split: DirState.splits)
  with n show ?thesis
    by (auto simp: UnLock_en_def tab_unlock_def IsWLocked_en_def delete_update_same)
qed

lemma Remove_ok:
  assumes "dir_ok d" "dir_pre d (DRemove p w)"
  shows "dir_ok (Remove_p d p w)"
proof -
  obtain en where en: "d p = Some en" "entry_ok p en" "daddr en = p" "TOBLOCK p = p"
    "dstate en = DIR_TO_UNSHARED \<or> dstate en = DIR_TO_DIRTY"
    using assms dir_ok_entry [of d p] by (auto simp: dir_simps entry_ok_def split: option.splits)
  then have "entry_ok p (en\<lparr>dshared := erase_wid (dshared en) w\<rparr>)"
    if "erase_wid (dshared en) w \<noteq> [] \<or> dlocks en \<noteq> []"
    using that by (auto simp: entry_ok_def state_ok_def distinct_erase_wid)
  then show ?thesis
    using en assms(1) by (auto simp: Remove_p_def Remove_e_def dir_simps IsBlockLocked_en_def Let_def
        intro!: dir_ok_upd dir_ok_del)
qed

lemma ToShared_ok:
  assumes "dir_ok d" "dir_pre d (DToShared p a)"
  shows "\<exists>d'. ToShared_p d p a = Some d' \<and> dir_ok d'"
proof (cases "d p")
  case None
  then show ?thesis
    using assms by (auto simp: ToShared_p_def dir_simps new_DirEntry_def entry_ok_def state_ok_def
        intro!: dir_ok_upd)
next
  case (Some en)
  then have "entry_ok p en" using assms dir_ok_entry by blast
  then have "\<exists>en'. ToShared_en en a = Some en' \<and> entry_ok p en'"
    using assms(2) Some
    by (auto simp: ToShared_en_def dir_simps entry_ok_def state_ok_def length_Suc_conv split: if_splits)
  then show ?thesis
    using assms Some by (auto simp: ToShared_p_def ToShared_e_def dir_simps intro!: dir_ok_upd)
qed

lemma RLock_en_ok:
  assumes "entry_ok b en" "TOBLOCK p = b" "dstate en = DIR_SHARED \<or> dstate en = DIR_UNSHARED"
    "tab_view (dlocks en) p \<noteq> Reading 254"
  shows "entry_ok b (snd (RLock_en en p))"
proof (cases "IsWLocked_en en p")
  case False
  have nw: "tab_view (dlocks en) p \<noteq> Writing"
  proof
    assume w: "tab_view (dlocks en) p = Writing"
    then have "tab_wlocked (dlocks en)"
      using assms(1) by (auto simp: entry_ok_def tab_wlocked_view)
    with False w assms(1,3) show False
      by (auto simp: entry_ok_def state_ok_def IsWLocked_en_def tab_view_def split: option.splits if_splits)
  qed
  have i: "tab_inv (dlocks en)" using assms(1) by (simp add: entry_ok_def)
  have "tab_wlocked (tab_incr (dlocks en) p) \<longleftrightarrow> tab_wlocked (dlocks en)"
    using nw by (auto simp: tab_wlocked_view i tab_incr_view [OF i nw assms(4)])
      (cases "tab_view (dlocks en) p"; auto)+
  with False assms show ?thesis
    by (auto simp: RLock_en_def entry_ok_def state_ok_def tab_in_incr tab_incr_view [OF i nw assms(4)])
qed (use assms in \<open>simp add: RLock_en_def\<close>)

lemma WLock_en_ok:
  assumes "entry_ok b en" "TOBLOCK p = b" "dstate en = DIR_UNSHARED"
  shows "entry_ok b (snd (WLock_en en p))"
  using assms by (auto simp: WLock_en_def entry_ok_def state_ok_def tab_in_update update_nonempty
      EXCLUSIVE_LOCK_TAG_def intro!: tab_inv_update)

lemma UnLock_ok:
  assumes "dir_ok d" "dir_pre d (DUnLock p)"
  shows "\<exists>d'. UnLock_p d p = Some d' \<and> dir_ok d'"
proof -
  let ?b = "TOBLOCK p"
  obtain en where en: "d ?b = Some en" "entry_ok ?b en" "tab_view (dlocks en) p \<noteq> Free"
    using assms by (auto simp: dir_simps dir_ok_entry split: option.splits)
  then have i: "tab_inv (dlocks en)" by (simp add: entry_ok_def)
  have w: "tab_wlocked (tab_unlock (dlocks en) p) \<Longrightarrow> tab_wlocked (dlocks en)"
    using tab_unlock_view [OF i en(3)] i tab_unlock_inv [OF i, of p]
    by (auto simp: tab_wlocked_view split: if_splits elim: spec_unlock.elims)
  have "entry_ok ?b (UnLock_en en p)" if "\<not> (dstate en = DIR_UNSHARED \<and> tab_unlock (dlocks en) p = [])"
    using en(2,3) that w tab_unlock_inv [OF i, of p]
    by (auto simp: UnLock_en_tab [OF en(2,3)] entry_ok_def state_ok_def tab_in_unlock split: DirState.splits)
  moreover have "daddr en = ?b"
    using en(2) by (simp add: entry_ok_def)
  ultimately show ?thesis
    using en(1) assms(1)
    by (auto simp: UnLock_p_def UnLock_e_def dir_simps Let_def UnLock_en_tab [OF en(2,3)]
        intro!: dir_ok_upd dir_ok_del)
qed

lemma Clear_ok:
  assumes "dir_ok d" "dir_pre d (DClear p a)"
  shows "\<exists>d'. Clear_p d p a = Some d' \<and> dir_ok d'"
proof (cases "d p")
  case None
  then show ?thesis
    using assms by (simp add: Clear_p_def dir_simps)
next
  case (Some en)
  then have ok: "entry_ok p en" and p: "TOBLOCK p = p" "daddr en = p"
    using assms dir_ok_entry [of d p] by (auto simp: dir_simps entry_ok_def)
  have nt: "\<not> InTransitionState_s (dstate en)"
    using assms(2) Some p by (simp add: dir_simps)
  define sh where "sh = (if dstate en = DIR_DIRTY then (if a = hd (dshared en) then tl (dshared en) else dshared en)
                         else removeAll a (dshared en))"
  have sh: "entry_ok p (en\<lparr>dshared := sh\<rparr>)" if "sh \<noteq> []"
    using ok nt that
    by (auto simp: sh_def entry_ok_def state_ok_def Clear_en_distinct InTransitionState_s_def length_Suc_conv
        split: DirState.splits)
  have un: "entry_ok p (en\<lparr>dshared := [], dstate := DIR_UNSHARED\<rparr>)" if "dlocks en \<noteq> []"
    using ok that by (simp add: entry_ok_def state_ok_def)
  have "Clear_p d p a = Some (if sh = [] then (if dlocks en = [] then d(p := None)
            else d(p \<mapsto> en\<lparr>dshared := [], dstate := DIR_UNSHARED\<rparr>))
          else d(p \<mapsto> en\<lparr>dshared := sh\<rparr>))"
    using Some p ok
    by (auto simp: Clear_p_def Clear_e_def dir_simps sh_def Let_def IsBlockLocked_en_def entry_ok_def
        state_ok_def length_Suc_conv)
  then show ?thesis
    using assms(1) sh un by (auto intro!: dir_ok_upd dir_ok_del)
qed

lemma ToUnShared_ok:
  assumes "dir_ok d" "dir_pre d (DToUnShared p)"
  shows "dir_ok (ToUnShared_p d p)"
proof (cases "d p")
  case (Some en)
  then have "entry_ok p en" "TOBLOCK p = p" "daddr en = p"
    using assms dir_ok_entry [of d p] by (auto simp: dir_simps entry_ok_def)
  moreover from this have "entry_ok p (en\<lparr>dstate := DIR_UNSHARED, dshared := []\<rparr>)" if "dlocks en \<noteq> []"
    using that by (simp add: entry_ok_def state_ok_def)
  ultimately show ?thesis
    using Some assms(1)
    by (auto simp: ToUnShared_p_def ToUnShared_e_def dir_simps IsBlockLocked_en_def intro!: dir_ok_upd dir_ok_del)
qed (use assms in \<open>simp add: ToUnShared_p_def ToUnShared_e_def dir_simps\<close>)

text \<open>The operations that set a state and keep the copies and the locks, and \<^verbatim>\<open>ToDirty\<close>.\<close>

lemma set_state_ok:
  assumes "dir_ok d" "d p = Some en" "distinct (map WID sh)" "state_ok st sh (dlocks en)"
  shows "dir_ok (d(p \<mapsto> en\<lparr>dstate := st, dshared := sh\<rparr>))" "dir_ok (d(p \<mapsto> en\<lparr>dshared := sh, dstate := st\<rparr>))"
  using assms dir_ok_entry [OF assms(1,2)] by (auto simp: entry_ok_def intro!: dir_ok_upd)

lemma state_change_ok:
  assumes "dir_ok d" "d p = Some en" "state_ok st (dshared en) (dlocks en)"
  shows "dir_ok (d(p \<mapsto> en\<lparr>dstate := st\<rparr>))"
  using assms dir_ok_entry [OF assms(1,2)] by (auto simp: entry_ok_def intro!: dir_ok_upd)

lemma ToDirty_ok:
  assumes "dir_ok d" "dir_pre d (DToDirty p a)"
  shows "\<exists>d'. ToDirty_p d p a = Some d' \<and> dir_ok d'"
proof (cases "d p")
  case None
  then show ?thesis
    using assms by (auto simp: ToDirty_p_def dir_simps new_DirEntry_def entry_ok_def state_ok_def
        intro!: dir_ok_upd)
next
  case (Some en)
  then show ?thesis
    using assms by (auto simp: ToDirty_p_def ToDirty_e_def dir_simps state_ok_def intro!: set_state_ok)
qed

lemma state_of_entry: "dir_ok d \<Longrightarrow> d p = Some en \<Longrightarrow> state_ok (dstate en) (dshared en) (dlocks en)"
  using dir_ok_entry [of d p en] by (simp add: entry_ok_def)

lemma transition_ok:
  assumes "dir_ok d"
  shows "dir_pre d (DUndoShared p) \<Longrightarrow> dir_ok (UndoShared_p d p)"
    and "dir_pre d (DUndoDirty p) \<Longrightarrow> dir_ok (UndoDirty_p d p)"
    and "dir_pre d (DToToShared p) \<Longrightarrow> \<exists>d'. ToToShared_p d p = Some d' \<and> dir_ok d'"
    and "dir_pre d (DToToUnShared p) \<Longrightarrow> \<exists>d'. ToToUnShared_p d p = Some d' \<and> dir_ok d'"
    and "dir_pre d (DToToDirty p) \<Longrightarrow> \<exists>d'. ToToDirty_p d p = Some d' \<and> dir_ok d'"
  using assms state_of_entry [OF assms, of p]
  by (auto simp: UndoShared_p_def UndoDirty_p_def ToToShared_p_def ToToShared_e_def ToToUnShared_p_def
      ToToUnShared_e_def ToToDirty_p_def ToToDirty_e_def dir_simps state_ok_def InTransitionState_s_def
      split: option.splits intro!: state_change_ok)

lemma RLock_ok:
  assumes "dir_ok d" "dir_pre d (DRLock p)"
  shows "\<exists>r d'. RLock_p d p = Some (r, d') \<and> dir_ok d'"
proof (cases "d (TOBLOCK p)")
  case None
  then show ?thesis
    using assms by (auto simp: RLock_p_def Let_def dir_simps new_DirEntry_def entry_ok_def state_ok_def tab_inv_def
        EXCLUSIVE_LOCK_TAG_def intro!: dir_ok_upd)
next
  case (Some en)
  then have "entry_ok (TOBLOCK p) (snd (RLock_en en p))"
    using assms dir_ok_entry [OF assms(1) Some] by (intro RLock_en_ok) (auto simp: dir_simps)
  then show ?thesis
    using assms Some by (cases "RLock_en en p") (auto simp: RLock_p_def RLock_e_def dir_simps intro!: dir_ok_upd)
qed

lemma WLock_ok:
  assumes "dir_ok d" "dir_pre d (DWLock p)"
  shows "\<exists>r d'. WLock_p d p = Some (r, d') \<and> dir_ok d'"
proof (cases "d (TOBLOCK p)")
  case None
  then show ?thesis
    using assms by (auto simp: WLock_p_def Let_def dir_simps new_DirEntry_def entry_ok_def state_ok_def tab_inv_def
        EXCLUSIVE_LOCK_TAG_def intro!: dir_ok_upd)
next
  case (Some en)
  then have "entry_ok (TOBLOCK p) (snd (WLock_en en p))"
    using assms dir_ok_entry [OF assms(1) Some] by (intro WLock_en_ok) (auto simp: dir_simps)
  then show ?thesis
    using assms Some by (cases "WLock_en en p") (auto simp: WLock_p_def WLock_e_def dir_simps intro!: dir_ok_upd)
qed

lemma dir_exec_ok:
  assumes "dir_ok d" "dir_pre d act"
  shows "\<exists>d'. dir_exec d act = Some d' \<and> dir_ok d'"
proof (cases act)
  case (DRLock p)
  then show ?thesis using assms RLock_ok [of d p] by auto
next
  case (DWLock p)
  then show ?thesis using assms WLock_ok [of d p] by auto
qed (use assms ToShared_ok Remove_ok transition_ok ToUnShared_ok ToDirty_ok UnLock_ok Clear_ok in
     \<open>simp_all del: dir_pre.simps\<close>)

text \<open>A whole run of the directory, every call under its precondition.\<close>

fun dir_run :: "directory \<Rightarrow> dir_op list \<Rightarrow> directory option" where
  "dir_run d [] = Some d"
| "dir_run d (act # acts) = do { d' \<leftarrow> dir_exec d act; dir_run d' acts }"

fun dir_run_pre :: "directory \<Rightarrow> dir_op list \<Rightarrow> bool" where
  "dir_run_pre d [] = True"
| "dir_run_pre d (act # acts) =
     (dir_pre d act \<and> (case dir_exec d act of None \<Rightarrow> True | Some d' \<Rightarrow> dir_run_pre d' acts))"

lemma dir_pre_exec:
  "dir_ok d \<Longrightarrow> dir_pre d act \<Longrightarrow> dir_exec d act = Some d' \<Longrightarrow> dir_ok d'"
  using dir_exec_ok by fastforce

text \<open>
  C7. The directory invariant. Started in a consistent directory and called under the conditions
  its callers establish, every sequence of directory operations returns (no null entry is
  dereferenced, no empty list is popped, nothing is thrown) and leaves a consistent directory:
  entries under their own block, copies at distinct workers, one owner of a dirty block, locks
  compatible with the state.
\<close>

theorem dir_run_ok:
  assumes "dir_ok d" "dir_run_pre d acts"
  shows "\<exists>d'. dir_run d acts = Some d' \<and> dir_ok d'"
  using assms
proof (induction acts arbitrary: d)
  case (Cons act acts)
  then obtain d1 where "dir_exec d act = Some d1" "dir_ok d1"
    using dir_exec_ok [of d act] by auto
  with Cons show ?case by auto
qed simp

theorem dir_run_ok_witness:
  "\<exists>d'. dir_run Map.empty [DRLock 520, DToShared 512 0x2000000000400, DRLock 520, DUnLock 520,
         DToToUnShared 512, DRemove 512 2, DToUnShared 512, DUnLock 520, DToDirty 512 0x3000000000400] = Some d'
     \<and> dir_ok d'"
proof (rule dir_run_ok)
  show "dir_run_pre Map.empty [DRLock 520, DToShared 512 0x2000000000400, DRLock 520, DUnLock 520,
         DToToUnShared 512, DRemove 512 2, DToUnShared 512, DUnLock 520, DToDirty 512 0x3000000000400]"
    by code_simp
qed (simp add: dir_ok_def)

section \<open>The home locks refine a reader/writer lock\<close>

text \<open>
  While a block is not cached remotely its entry is nothing but a lock table. The directory then
  provides the lock interface: an absent entry stands for a block no lock is taken in.
\<close>

definition dir_view :: "directory \<Rightarrow> ptr \<Rightarrow> rwstate" where
  "dir_view d p = (case d (TOBLOCK p) of None \<Rightarrow> Free | Some en \<Rightarrow> tab_view (dlocks en) p)"

definition dir_unshared :: "directory \<Rightarrow> bool" where
  "dir_unshared d \<longleftrightarrow> dir_ok d \<and> (\<forall>en \<in> ran d. dstate en = DIR_UNSHARED)"

definition dir_rlock :: "directory \<Rightarrow> ptr \<Rightarrow> int \<times> directory" where
  "dir_rlock d p = (case RLock_p d p of Some r \<Rightarrow> r | None \<Rightarrow> (-1, d))"

definition dir_wlock :: "directory \<Rightarrow> ptr \<Rightarrow> int \<times> directory" where
  "dir_wlock d p = (case WLock_p d p of Some r \<Rightarrow> r | None \<Rightarrow> (-1, d))"

definition dir_unlock :: "directory \<Rightarrow> ptr \<Rightarrow> directory" where
  "dir_unlock d p = (case UnLock_p d p of Some r \<Rightarrow> r | None \<Rightarrow> d)"

lemma dir_unshared_entry:
  "dir_unshared d \<Longrightarrow> d b = Some en \<Longrightarrow> entry_ok b en \<and> dstate en = DIR_UNSHARED \<and> tab_inv (dlocks en)"
  by (auto simp: dir_unshared_def ran_def dir_ok_def entry_ok_def)

lemma dir_unshared_upd:
  "dir_unshared d \<Longrightarrow> entry_ok b en \<Longrightarrow> dstate en = DIR_UNSHARED \<Longrightarrow> dir_unshared (d(b \<mapsto> en))"
  by (auto simp: dir_unshared_def ran_def dir_ok_upd)

lemma dir_unshared_del: "dir_unshared d \<Longrightarrow> dir_unshared (d(b := None))"
  by (auto simp: dir_unshared_def ran_def dir_ok_del)

lemma dir_view_upd:
  "entry_ok b en \<Longrightarrow> dir_view (d(b \<mapsto> en)) = (\<lambda>a. if TOBLOCK a = b then tab_view (dlocks en) a else dir_view d a)"
  by (auto simp: dir_view_def fun_eq_iff)

lemma tab_view_outside: "tab_in b l \<Longrightarrow> TOBLOCK a \<noteq> b \<Longrightarrow> tab_view l a = Free"
  by (force simp: tab_in_def tab_view_Free map_of_eq_None_iff)

lemma new_lock_ok: "1 \<le> n \<Longrightarrow> n \<le> 255 \<Longrightarrow>
  entry_ok (TOBLOCK p) (new_DirEntry\<lparr>dlocks := [(p, n)], daddr := TOBLOCK p\<rparr>)"
  by (simp add: entry_ok_def new_DirEntry_def state_ok_def tab_inv_def EXCLUSIVE_LOCK_TAG_def)

text \<open>The locks of one entry, and the effect of replacing that entry on the whole directory.\<close>

lemma RLock_en_law:
  assumes "tab_inv (dlocks en)" "dstate en = DIR_UNSHARED" "tab_view (dlocks en) p \<noteq> Reading 254"
  shows "(fst (RLock_en en p) = 0 \<longleftrightarrow> fst (spec_rlock (tab_view (dlocks en) p))) \<and>
    tab_view (dlocks (snd (RLock_en en p))) = (tab_view (dlocks en))(p := snd (spec_rlock (tab_view (dlocks en) p)))"
proof (cases "tab_view (dlocks en) p = Writing")
  case True
  then show ?thesis
    using assms by (auto simp: RLock_en_def IsWLocked_en_def simp flip: tab_view_Writing)
next
  case False
  then have "fst (spec_rlock (tab_view (dlocks en) p))"
    by (cases "tab_view (dlocks en) p") auto
  then show ?thesis
    using assms False tab_incr_view(1) [OF assms(1) False]
    by (auto simp: RLock_en_def IsWLocked_en_def simp flip: tab_view_Writing)
qed

lemma IsRLocked_en_view:
  "tab_inv (dlocks en) \<Longrightarrow> IsRLocked_en en p \<longleftrightarrow> (\<exists>n. tab_view (dlocks en) p = Reading n)"
  by (auto simp: IsRLocked_en_def tab_view_def dest: tab_inv_map_of split: option.splits)

lemma WLock_en_law:
  assumes "tab_inv (dlocks en)" "dstate en = DIR_UNSHARED"
  shows "(fst (WLock_en en p) = 0 \<longleftrightarrow> fst (spec_wlock (tab_view (dlocks en) p))) \<and>
    tab_view (dlocks (snd (WLock_en en p))) = (tab_view (dlocks en))(p := snd (spec_wlock (tab_view (dlocks en) p)))"
  using assms
  by (cases "tab_view (dlocks en) p")
    (auto simp: WLock_en_def IsWLocked_en_def IsRLocked_en_view tab_view_update_tag simp flip: tab_view_Writing)

lemma dir_view_store:
  assumes "d (TOBLOCK p) = Some en" "tab_view (dlocks en') = (tab_view (dlocks en))(p := st)"
  shows "dir_view (d(TOBLOCK p \<mapsto> en')) = (dir_view d)(p := st)"
  using assms by (auto simp: dir_view_def fun_eq_iff)

lemma dir_view_new:
  assumes "d (TOBLOCK p) = None"
  shows "dir_view (d(TOBLOCK p \<mapsto> new_DirEntry\<lparr>dlocks := [(p, n)], daddr := a\<rparr>)) =
    (dir_view d)(p := if n = EXCLUSIVE_LOCK_TAG then Writing else Reading (nat n))"
  using assms by (auto simp: dir_view_def new_DirEntry_def fun_eq_iff tab_view_def)

lemma dir_rlock_eq:
  "dir_rlock d p = (case d (TOBLOCK p) of
     None \<Rightarrow> (0, d(TOBLOCK p \<mapsto> new_DirEntry\<lparr>dlocks := [(p, 1)], daddr := TOBLOCK p\<rparr>))
   | Some en \<Rightarrow> (fst (RLock_en en p), d(TOBLOCK p \<mapsto> snd (RLock_en en p))))"
  by (auto simp: dir_rlock_def RLock_p_def RLock_e_def dir_simps Let_def split_beta split: option.splits)

lemma dir_wlock_eq:
  "dir_wlock d p = (case d (TOBLOCK p) of
     None \<Rightarrow> (0, d(TOBLOCK p \<mapsto> new_DirEntry\<lparr>dlocks := [(p, EXCLUSIVE_LOCK_TAG)], daddr := TOBLOCK p\<rparr>))
   | Some en \<Rightarrow> (fst (WLock_en en p), d(TOBLOCK p \<mapsto> snd (WLock_en en p))))"
  by (auto simp: dir_wlock_def WLock_p_def WLock_e_def dir_simps Let_def split_beta split: option.splits)

lemma dir_unlock_eq:
  assumes "dir_unshared d" "dir_view d p \<noteq> Free"
  obtains en where "d (TOBLOCK p) = Some en" "tab_view (dlocks en) p \<noteq> Free"
    "dir_unlock d p = (if tab_unlock (dlocks en) p = [] then d(TOBLOCK p := None)
       else d(TOBLOCK p \<mapsto> en\<lparr>dlocks := tab_unlock (dlocks en) p\<rparr>))"
proof -
  obtain en where en: "d (TOBLOCK p) = Some en" "tab_view (dlocks en) p \<noteq> Free"
    using assms by (auto simp: dir_view_def split: option.splits)
  have "entry_ok (TOBLOCK p) en" "dstate en = DIR_UNSHARED" "daddr en = TOBLOCK p"
    using dir_unshared_entry [OF assms(1) en(1)] by (auto simp: entry_ok_def)
  with en show ?thesis
    by (intro that [of en])
      (auto simp: dir_unlock_def UnLock_p_def UnLock_e_def dir_simps Let_def UnLock_en_tab)
qed

lemma dir_unlock_law:
  assumes "dir_unshared d" "dir_view d p \<noteq> Free"
  shows "dir_view (dir_unlock d p) = (dir_view d)(p := spec_unlock (dir_view d p)) \<and> dir_unshared (dir_unlock d p)"
proof -
  obtain en where en: "d (TOBLOCK p) = Some en" "tab_view (dlocks en) p \<noteq> Free"
    "dir_unlock d p = (if tab_unlock (dlocks en) p = [] then d(TOBLOCK p := None)
       else d(TOBLOCK p \<mapsto> en\<lparr>dlocks := tab_unlock (dlocks en) p\<rparr>))"
    using dir_unlock_eq [OF assms] by blast
  have i: "tab_inv (dlocks en)" and ok: "entry_ok (TOBLOCK p) en" "dstate en = DIR_UNSHARED"
    using dir_unshared_entry [OF assms(1) en(1)] by auto
  note v = tab_unlock_view [OF i en(2)]
  have v0: "dir_view d p = tab_view (dlocks en) p" using en by (simp add: dir_view_def)
  show ?thesis
  proof (cases "tab_unlock (dlocks en) p = []")
    case True
    have "dir_view (d(TOBLOCK p := None)) a = ((dir_view d)(p := spec_unlock (dir_view d p))) a" for a
      using fun_cong [OF v, of a] True en v0 by (simp add: dir_view_def split: if_splits)
    then show ?thesis
      using True en(3) dir_unshared_del [OF assms(1)] by auto
  next
    case False
    have "entry_ok (TOBLOCK p) (en\<lparr>dlocks := tab_unlock (dlocks en) p\<rparr>)"
      using ok False tab_unlock_inv [OF i] by (auto simp: entry_ok_def state_ok_def tab_in_unlock)
    then show ?thesis
      using False en v v0 ok assms(1) by (auto intro!: dir_unshared_upd dir_view_store)
  qed
qed

interpretation home: rw_lock_table dir_rlock dir_wlock dir_unlock dir_view dir_unshared 254
proof
  fix d :: directory and p
  assume d: "dir_unshared d"
  note en = dir_unshared_entry [OF d, of "TOBLOCK p"]
  show "(fst (dir_wlock d p) = 0 \<longleftrightarrow> fst (spec_wlock (dir_view d p))) \<and>
      dir_view (snd (dir_wlock d p)) = (dir_view d)(p := snd (spec_wlock (dir_view d p)))"
  proof (cases "d (TOBLOCK p)")
    case (Some e)
    then have "dir_view d p = tab_view (dlocks e) p" by (simp add: dir_view_def)
    then show ?thesis
      using Some en [OF Some] WLock_en_law [of e p] by (auto simp: dir_wlock_eq intro!: dir_view_store)
  qed (simp add: dir_wlock_eq dir_view_new, simp add: dir_view_def)
  show "dir_unshared (snd (dir_wlock d p))"
  proof (cases "d (TOBLOCK p)")
    case (Some e)
    then show ?thesis
      using d en [OF Some] WLock_en_ok [of "TOBLOCK p" e p]
      by (auto simp: dir_wlock_eq intro!: dir_unshared_upd) (simp add: WLock_en_def)
  qed (use d new_lock_ok [of 255 p] in
       \<open>auto simp: dir_wlock_eq new_DirEntry_def EXCLUSIVE_LOCK_TAG_def intro!: dir_unshared_upd\<close>)
  assume r: "dir_view d p \<noteq> Reading 254"
  show "(fst (dir_rlock d p) = 0 \<longleftrightarrow> fst (spec_rlock (dir_view d p))) \<and>
      dir_view (snd (dir_rlock d p)) = (dir_view d)(p := snd (spec_rlock (dir_view d p)))"
  proof (cases "d (TOBLOCK p)")
    case (Some e)
    then have "dir_view d p = tab_view (dlocks e) p" by (simp add: dir_view_def)
    then show ?thesis
      using Some r en [OF Some] RLock_en_law [of e p] by (auto simp: dir_rlock_eq intro!: dir_view_store)
  qed (simp add: dir_rlock_eq dir_view_new EXCLUSIVE_LOCK_TAG_def, simp add: dir_view_def)
  show "dir_unshared (snd (dir_rlock d p))"
  proof (cases "d (TOBLOCK p)")
    case (Some e)
    then show ?thesis
      using d r en [OF Some] RLock_en_ok [of "TOBLOCK p" e p]
      by (auto simp: dir_rlock_eq dir_view_def intro!: dir_unshared_upd) (simp add: RLock_en_def)
  qed (use d new_lock_ok [of 1 p] in \<open>auto simp: dir_rlock_eq new_DirEntry_def intro!: dir_unshared_upd\<close>)
next
  fix d :: directory and p
  assume "dir_unshared d" "dir_view d p \<noteq> Free"
  then show "dir_view (dir_unlock d p) = (dir_view d)(p := spec_unlock (dir_view d p))"
    "dir_unshared (dir_unlock d p)"
    using dir_unlock_law by blast+
qed

text \<open>
  C8. Home locks. While no block is cached remotely, every sequence of \<^verbatim>\<open>RLock\<close>, \<^verbatim>\<open>WLock\<close> and
  \<^verbatim>\<open>UnLock\<close> calls on the directory answers exactly as the abstract reader/writer lock does and ends
  in the state it prescribes, for every address at once, as long as no address has more than 254
  readers and only held locks are given back.
\<close>

theorem home_locks_refine:
  assumes "dir_unshared d" "spec_ok 254 (dir_view d) ops"
  shows "fst (rw_run dir_rlock dir_wlock dir_unlock d ops) = fst (spec_run (dir_view d) ops) \<and>
    dir_view (snd (rw_run dir_rlock dir_wlock dir_unlock d ops)) = snd (spec_run (dir_view d) ops) \<and>
    dir_unshared (snd (rw_run dir_rlock dir_wlock dir_unlock d ops))"
  using assms by (rule home.run_refines)

theorem home_locks_refine_witness:
  "fst (rw_run dir_rlock dir_wlock dir_unlock Map.empty
      [(RLockOp, 520), (WLockOp, 520), (RLockOp, 520), (UnLockOp, 520), (UnLockOp, 520), (WLockOp, 520),
       (RLockOp, 520), (WLockOp, 528)]) = [True, False, True, True, True, True, False, True]"
proof -
  have "dir_unshared Map.empty" by (simp add: dir_unshared_def dir_ok_def)
  moreover have "dir_view Map.empty = (\<lambda>_. Free)" by (simp add: dir_view_def fun_eq_iff)
  ultimately show ?thesis
    using home_locks_refine [of Map.empty "[(RLockOp, 520), (WLockOp, 520), (RLockOp, 520), (UnLockOp, 520),
      (UnLockOp, 520), (WLockOp, 520), (RLockOp, 520), (WLockOp, 528)]"] by simp
qed

text \<open>
  Mutual exclusion at home. A granted write lock rules out every further lock on the address,
  and a granted read lock every write lock, until it is given back.
\<close>

lemma home_lock_excludes:
  assumes "dir_unshared d"
  shows "(dir_view d p = Writing \<longrightarrow> fst (dir_rlock d p) \<noteq> 0 \<and> fst (dir_wlock d p) \<noteq> 0) \<and>
    (dir_view d p = Reading n \<longrightarrow> fst (dir_wlock d p) \<noteq> 0)"
  using home.writer_excludes [OF assms, of p] home.readers_exclude_writer [OF assms, of p] by blast

text \<open>
  C25. The reader count is not checked in the shipped build (directory.cc:276 is an assertion): the
  255th concurrent reader is granted, its count is the write-lock tag, and from then on the address
  counts as write locked; the first unlock by any reader drops the locks of all 255.
\<close>

theorem reader_255_becomes_writer:
  assumes "dir_unshared d" "dir_view d p = Reading 254"
  shows "fst (dir_rlock d p) = 0 \<and> IsWLocked_p (snd (dir_rlock d p)) p \<and> \<not> IsRLocked_p (snd (dir_rlock d p)) p \<and>
    \<not> IsWLocked_p (dir_unlock (snd (dir_rlock d p)) p) p \<and> \<not> IsRLocked_p (dir_unlock (snd (dir_rlock d p)) p) p"
proof -
  obtain en where en: "d (TOBLOCK p) = Some en" "map_of (dlocks en) p = Some 254" "dstate en = DIR_UNSHARED"
    "distinct (map fst (dlocks en))"
  proof (cases "d (TOBLOCK p)")
    case (Some en)
    then have "map_of (dlocks en) p = Some 254"
      using assms(2) by (auto simp: dir_view_def tab_view_def split: option.splits if_splits)
    then show ?thesis
      using that Some dir_unshared_entry [OF assms(1) Some] by (simp add: tab_inv_def)
  qed (use assms(2) in \<open>simp add: dir_view_def\<close>)
  then have l: "map_of (AList.delete p (dlocks en)) p = None"
    by (simp add: delete_conv')
  show ?thesis
    using en l
    by (auto simp: dir_rlock_eq RLock_en_def IsWLocked_en_def tab_incr_def IsWLocked_p_def IsWLocked_e_def
        IsRLocked_p_def IsRLocked_e_def IsRLocked_en_def dir_simps update_conv' EXCLUSIVE_LOCK_TAG_def
        dir_unlock_def UnLock_p_def UnLock_e_def UnLock_en_def Let_def delete_conv' split: option.splits)
qed

theorem reader_255_becomes_writer_witness:
  "IsWLocked_p (snd (dir_rlock [512 \<mapsto> \<lparr>dstate = DIR_UNSHARED, dshared = [], daddr = 512,
     dlocks = [(520, 254)]\<rparr>] 520)) 520"
proof -
  let ?d = "[512 \<mapsto> \<lparr>dstate = DIR_UNSHARED, dshared = [], daddr = 512, dlocks = [(520, 254)]\<rparr>] :: directory"
  have b: "TOBLOCK 520 = 512" by code_simp
  have "entry_ok 512 \<lparr>dstate = DIR_UNSHARED, dshared = [], daddr = 512, dlocks = [(520, 254)]\<rparr>"
    by (simp add: entry_ok_def state_ok_def tab_inv_def EXCLUSIVE_LOCK_TAG_def b BLOCK_ALIGNED_iff)
  then have "dir_unshared ?d" by (simp add: dir_unshared_def dir_ok_def)
  moreover have "dir_view ?d 520 = Reading 254"
    by (simp add: dir_view_def b tab_view_def EXCLUSIVE_LOCK_TAG_def)
  ultimately show ?thesis
    using reader_255_becomes_writer [of ?d 520] by blast
qed

end
