(* ===== verification/Gam_Request.thy ===== *)
theory Gam_Request
  imports Gam_Addr
begin

unbundle bit_operations_syntax

text \<open>
  Work requests: \<^verbatim>\<open>gam/include/workrequest.h\<close>, \<^verbatim>\<open>gam/src/workrequest.cc\<close>, the integer (de)serialiser
  \<^verbatim>\<open>gam/include/chars.h\<close> and the table of registered functions of \<^verbatim>\<open>gam/src/gfunc.cc\<close>. A request is the
  unit of work between an application thread and its worker and, serialised, the message between
  two workers.
\<close>

datatype Work =
    MALLOC | READ | FETCH_AND_SHARED | READ_FORWARD | WRITE | WRITE_PERMISSION_ONLY
  | FETCH_AND_INVALIDATE | INVALIDATE | INVALIDATE_FORWARD | WRITE_FORWARD
  | WRITE_PERMISSION_ONLY_FORWARD | ATOMIC | UPDATE_MEM_STATS | FETCH_MEM_STATS
  | BROADCAST_MEM_STATS | MFENCE | SFENCE | RLOCK | RLOCK_LEN | WLOCK | WLOCK_LEN | UNLOCK
  | UNLOCK_LEN | FREE | ACTIVE_INVALIDATE | WRITE_BACK | PENDING_INVALIDATE | PUT | GET
  | REPLY | MALLOC_REPLY | FETCH_MEM_STATS_REPLY | READ_REPLY | WRITE_REPLY | LOCK_REPLY
  | FREE_REPLY | GET_REPLY
  | OTHER_WORK u32

text \<open>
  The enumerators take consecutive values from 1, and again from \<^verbatim>\<open>REPLY = 1 << 16\<close>.
  \<open>OTHER_WORK\<close> is a value of the underlying type without an enumerator, such as the 0 that \<^verbatim>\<open>Reset\<close>
  stores.
\<close>

definition work_list :: "Work list" where
  "work_list = [MALLOC, READ, FETCH_AND_SHARED, READ_FORWARD, WRITE, WRITE_PERMISSION_ONLY,
     FETCH_AND_INVALIDATE, INVALIDATE, INVALIDATE_FORWARD, WRITE_FORWARD,
     WRITE_PERMISSION_ONLY_FORWARD, ATOMIC, UPDATE_MEM_STATS, FETCH_MEM_STATS,
     BROADCAST_MEM_STATS, MFENCE, SFENCE, RLOCK, RLOCK_LEN, WLOCK, WLOCK_LEN, UNLOCK,
     UNLOCK_LEN, FREE, ACTIVE_INVALIDATE, WRITE_BACK, PENDING_INVALIDATE, PUT, GET]"

definition reply_list :: "Work list" where
  "reply_list = [REPLY, MALLOC_REPLY, FETCH_MEM_STATS_REPLY, READ_REPLY, WRITE_REPLY, LOCK_REPLY,
     FREE_REPLY, GET_REPLY]"

definition work_code :: "Work \<Rightarrow> u32" where
  "work_code op = (case op of
       MALLOC \<Rightarrow> 1 | READ \<Rightarrow> 2 | FETCH_AND_SHARED \<Rightarrow> 3 | READ_FORWARD \<Rightarrow> 4
     | WRITE \<Rightarrow> 5 | WRITE_PERMISSION_ONLY \<Rightarrow> 6 | FETCH_AND_INVALIDATE \<Rightarrow> 7 | INVALIDATE \<Rightarrow> 8
     | INVALIDATE_FORWARD \<Rightarrow> 9 | WRITE_FORWARD \<Rightarrow> 10 | WRITE_PERMISSION_ONLY_FORWARD \<Rightarrow> 11 | ATOMIC \<Rightarrow> 12
     | UPDATE_MEM_STATS \<Rightarrow> 13 | FETCH_MEM_STATS \<Rightarrow> 14 | BROADCAST_MEM_STATS \<Rightarrow> 15 | MFENCE \<Rightarrow> 16
     | SFENCE \<Rightarrow> 17 | RLOCK \<Rightarrow> 18 | RLOCK_LEN \<Rightarrow> 19 | WLOCK \<Rightarrow> 20
     | WLOCK_LEN \<Rightarrow> 21 | UNLOCK \<Rightarrow> 22 | UNLOCK_LEN \<Rightarrow> 23 | FREE \<Rightarrow> 24
     | ACTIVE_INVALIDATE \<Rightarrow> 25 | WRITE_BACK \<Rightarrow> 26 | PENDING_INVALIDATE \<Rightarrow> 27 | PUT \<Rightarrow> 28
     | GET \<Rightarrow> 29 | REPLY \<Rightarrow> 65536 | MALLOC_REPLY \<Rightarrow> 65537 | FETCH_MEM_STATS_REPLY \<Rightarrow> 65538
     | READ_REPLY \<Rightarrow> 65539 | WRITE_REPLY \<Rightarrow> 65540 | LOCK_REPLY \<Rightarrow> 65541 | FREE_REPLY \<Rightarrow> 65542
     | GET_REPLY \<Rightarrow> 65543 | OTHER_WORK c \<Rightarrow> c)"

definition work_of_code :: "u32 \<Rightarrow> Work" where
  "work_of_code c =
     (if 1 \<le> c \<and> c < 30 then work_list ! (unat c - 1)
      else if 65536 \<le> c \<and> c < 65544 then reply_list ! (unat c - 65536)
      else OTHER_WORK c)"

text \<open>Status codes and flag bits.\<close>

definition SUCCESS :: i32 where "SUCCESS = 0"
definition REMOTE_REQUEST :: i32 where "REMOTE_REQUEST = 1"
definition IN_TRANSITION :: i32 where "IN_TRANSITION = 2"
definition FENCE_PENDING :: i32 where "FENCE_PENDING = 3"
definition READ_SUCCESS :: i32 where "READ_SUCCESS = 4"
definition ERROR_STATUS :: i32 where "ERROR_STATUS = 256"
definition ALLOC_ERROR :: i32 where "ALLOC_ERROR = 257"
definition READ_ERROR :: i32 where "READ_ERROR = 258"
definition WRITE_ERROR :: i32 where "WRITE_ERROR = 259"
definition UNRECOGNIZED_OP :: i32 where "UNRECOGNIZED_OP = 260"
definition LOCK_FAILED :: i32 where "LOCK_FAILED = 261"
definition NOT_EXIST :: i32 where "NOT_EXIST = 262"

definition REMOTE :: i32 where "REMOTE = 0x1"
definition RANDOM :: i32 where "RANDOM = 0x2"
definition CACHED :: i32 where "CACHED = 0x4"
definition ASYNC :: i32 where "ASYNC = 0x8"
definition REPEATED :: i32 where "REPEATED = 0x10"
definition REQUEST_DONE :: i32 where "REQUEST_DONE = 0x20"
definition LOCKED :: i32 where "LOCKED = 0x40"
definition TRY_LOCK :: i32 where "TRY_LOCK = 0x80"
definition TO_SERVE :: i32 where "TO_SERVE = 0x100"
definition ALIGNED :: i32 where "ALIGNED = 0x200"
definition COPY :: i32 where "COPY = 0x400"
definition LOCAL_REQUEST :: i32 where "LOCAL_REQUEST = 0x800"
definition FENCE :: i32 where "FENCE = 0x1000"
definition NOT_CACHE :: i32 where "NOT_CACHE = 0x2000"
definition GFUNC :: i32 where "GFUNC = 0x4000"

text \<open>The functions an application may ship with a write (\<^verbatim>\<open>GAllocFactory::gfuncs\<close>).\<close>

datatype GFunc = Incr | IncrDouble | GatherPagerank | ApplyPagerank | ScatterPagerank

definition gfuncs :: "GFunc list" where
  "gfuncs = [Incr, IncrDouble, GatherPagerank, ApplyPagerank, ScatterPagerank]"

definition MAX_GFUNCS :: nat where
  "MAX_GFUNCS = 100"

fun gfunc_index :: "GFunc list \<Rightarrow> GFunc \<Rightarrow> nat \<Rightarrow> nat option" where
  "gfunc_index [] g i = None"
| "gfunc_index (x # xs) g i = (if x = g then Some i else gfunc_index xs g (Suc i))"

definition GetGFuncID :: "GFunc option \<Rightarrow> i32" where
  "GetGFuncID g = (case g of None \<Rightarrow> -1
     | Some f \<Rightarrow> (case gfunc_index gfuncs f 0 of Some i \<Rightarrow> of_nat i | None \<Rightarrow> -1))"

text \<open>The array has \<^verbatim>\<open>MAX_GFUNCS\<close> slots, null after the initialisers; an index beyond it reads past the
  array: the outer \<open>None\<close>.\<close>

definition GetGFunc :: "i32 \<Rightarrow> GFunc option option" where
  "GetGFunc gid = (if gid = -1 then Some None
     else if unat gid < length gfuncs then Some (Some (gfuncs ! unat gid))
     else if unat gid < MAX_GFUNCS then Some None else None)"

text \<open>
  A work request. \<^verbatim>\<open>key\<close>, \<^verbatim>\<open>addr\<close> and \<^verbatim>\<open>free\<close> are one union; references to other requests are
  identifiers of heap cells, \<open>None\<close> for \<^verbatim>\<open>nullptr\<close>. The embedded mutex is not part of the state.
\<close>

record WorkRequest =
  wr_id :: u32
  wr_pid :: u32
  wr_pwid :: i32
  wr_op :: Work
  wr_addr :: u64
  wr_size :: u64
  wr_status :: i32
  wr_flag :: i32
  wr_ptr :: ptr
  wr_fd :: i32
  wr_notify_buf :: ptr
  wr_wid :: i32
  wr_counter :: i32
  wr_parent :: "nat option"
  wr_next :: "nat option"
  wr_dup :: "nat option"
  wr_hit :: bool
  wr_gfunc :: "GFunc option"
  wr_arg :: u64

definition new_WorkRequest :: WorkRequest where
  "new_WorkRequest = \<lparr>wr_id = 0, wr_pid = 0, wr_pwid = 0, wr_op = OTHER_WORK 0, wr_addr = 0, wr_size = 0,
     wr_status = 0, wr_flag = 0, wr_ptr = 0, wr_fd = 0, wr_notify_buf = 0, wr_wid = 0, wr_counter = 0,
     wr_parent = None, wr_next = None, wr_dup = None, wr_hit = True, wr_gfunc = None, wr_arg = 0\<rparr>"

definition has :: "WorkRequest \<Rightarrow> i32 \<Rightarrow> bool" where
  "has w f \<longleftrightarrow> wr_flag w AND f \<noteq> 0"

definition set_flag :: "WorkRequest \<Rightarrow> i32 \<Rightarrow> WorkRequest" where
  "set_flag w f = w\<lparr>wr_flag := wr_flag w OR f\<rparr>"

definition clear_flag :: "WorkRequest \<Rightarrow> i32 \<Rightarrow> WorkRequest" where
  "clear_flag w f = w\<lparr>wr_flag := wr_flag w AND NOT f\<rparr>"

definition IsACopy :: "WorkRequest \<Rightarrow> bool" where
  "IsACopy w \<longleftrightarrow> has w COPY \<and> wr_dup w = None"

definition Reset :: "WorkRequest \<Rightarrow> WorkRequest" where
  "Reset w = w\<lparr>wr_id := 0, wr_pid := 0, wr_pwid := 0, wr_op := OTHER_WORK 0, wr_addr := 0, wr_size := 0,
     wr_status := 0, wr_flag := 0, wr_ptr := 0, wr_fd := 0, wr_notify_buf := 0, wr_wid := 0, wr_counter := 0,
     wr_parent := None, wr_next := None, wr_dup := None, wr_gfunc := None, wr_arg := 0, wr_hit := True\<rparr>"

text \<open>The copy constructor copies every field but the \<^verbatim>\<open>LOCAL_REQUEST\<close> flag.\<close>

definition copy_WorkRequest :: "WorkRequest \<Rightarrow> WorkRequest" where
  "copy_WorkRequest w = \<lparr>wr_id = wr_id w, wr_pid = wr_pid w, wr_pwid = wr_pwid w, wr_op = wr_op w,
     wr_addr = wr_addr w, wr_size = wr_size w, wr_status = wr_status w,
     wr_flag = wr_flag w AND NOT LOCAL_REQUEST, wr_ptr = wr_ptr w, wr_fd = wr_fd w,
     wr_notify_buf = wr_notify_buf w, wr_wid = wr_wid w, wr_counter = wr_counter w,
     wr_parent = wr_parent w, wr_next = wr_next w, wr_dup = wr_dup w, wr_hit = wr_hit w,
     wr_gfunc = wr_gfunc w, wr_arg = wr_arg w\<rparr>"

definition wr_eq :: "WorkRequest \<Rightarrow> WorkRequest \<Rightarrow> bool" where
  "wr_eq v w \<longleftrightarrow> wr_addr v = wr_addr w \<and> wr_counter v = wr_counter w \<and> wr_fd v = wr_fd w \<and>
     wr_flag v = wr_flag w \<and> wr_id v = wr_id w \<and> wr_next v = wr_next w \<and> wr_op v = wr_op w \<and>
     wr_parent v = wr_parent w \<and> wr_pid v = wr_pid w \<and> wr_ptr v = wr_ptr w \<and> wr_pwid v = wr_pwid w \<and>
     wr_size v = wr_size w \<and> wr_status v = wr_status w \<and> wr_wid v = wr_wid w"

text \<open>
  \<^verbatim>\<open>Copy\<close> on a heap of requests: \<open>nw\<close> is the cell and \<open>buf\<close> the memory that \<^verbatim>\<open>new\<close> and \<^verbatim>\<open>zmalloc\<close>
  hand out. It returns the heap, the memory and the request to use.
\<close>

definition Copy :: "(nat \<rightharpoonup> WorkRequest) \<Rightarrow> memory \<Rightarrow> nat \<Rightarrow> nat \<Rightarrow> ptr \<Rightarrow>
    ((nat \<rightharpoonup> WorkRequest) \<times> memory \<times> nat) option" where
  "Copy h m r nw buf = do {
     w \<leftarrow> h r;
     if has w COPY
     then Some (h, m, case wr_dup w of Some r' \<Rightarrow> r' | None \<Rightarrow> r)
     else do {
       let n = copy_WorkRequest w;
       let (n, m) = (if wr_ptr w \<noteq> 0 \<and> wr_size w \<noteq> 0
                     then (n\<lparr>wr_ptr := buf\<rparr>, memcpy m buf (wr_ptr w) (unat (wr_size w)))
                     else (n, m));
       let n = set_flag n COPY;
       Some (h(nw \<mapsto> n, r \<mapsto> (set_flag w COPY)\<lparr>wr_dup := Some nw\<rparr>), m, nw) } }"

section \<open>Serialisation\<close>

text \<open>
  \<^verbatim>\<open>appendInteger\<close> stores a list of values of 4 or 8 bytes, least significant byte first;
  \<^verbatim>\<open>readInteger\<close> loads values of the types of its arguments and assigns them.
\<close>

datatype wire = W32 u32 | W64 u64

fun le_bytes :: "nat \<Rightarrow> nat \<Rightarrow> u8 list" where
  "le_bytes 0 x = []"
| "le_bytes (Suc k) x = of_nat (x mod 256) # le_bytes k (x div 256)"

fun le_nat :: "u8 list \<Rightarrow> nat" where
  "le_nat [] = 0"
| "le_nat (b # bs) = unat b + 256 * le_nat bs"

fun wire_bytes :: "wire \<Rightarrow> u8 list" where
  "wire_bytes (W32 v) = le_bytes 4 (unat v)"
| "wire_bytes (W64 v) = le_bytes 8 (unat v)"

fun appendInteger :: "memory \<Rightarrow> ptr \<Rightarrow> wire list \<Rightarrow> memory \<times> nat" where
  "appendInteger m buf [] = (m, 0)"
| "appendInteger m buf (v # vs) =
     (let bs = wire_bytes v; (m', n) = appendInteger (mem_write m buf bs) (buf + of_nat (length bs)) vs
      in (m', length bs + n))"

type_synonym deser_st = "WorkRequest \<times> i32"

datatype reader = R32 "u32 \<Rightarrow> deser_st \<Rightarrow> deser_st" | R64 "u64 \<Rightarrow> deser_st \<Rightarrow> deser_st"

definition rd32 :: "memory \<Rightarrow> ptr \<Rightarrow> u32" where
  "rd32 m p = of_nat (le_nat (mem_read m p 4))"

definition rd64 :: "memory \<Rightarrow> ptr \<Rightarrow> u64" where
  "rd64 m p = of_nat (le_nat (mem_read m p 8))"

fun readInteger :: "memory \<Rightarrow> ptr \<Rightarrow> reader list \<Rightarrow> deser_st \<Rightarrow> deser_st \<times> nat" where
  "readInteger m p [] w = (w, 0)"
| "readInteger m p (R32 f # rs) w =
     (let (w', n) = readInteger m (p + 4) rs (f (rd32 m p) w) in (w', 4 + n))"
| "readInteger m p (R64 f # rs) w =
     (let (w', n) = readInteger m (p + 8) rs (f (rd64 m p) w) in (w', 8 + n))"

partial_function (option) strlen :: "memory \<Rightarrow> ptr \<Rightarrow> nat option" where
  "strlen m p = (if m p = 0 then Some 0 else do { n \<leftarrow> strlen m (p + 1); Some (Suc n) })"

text \<open>The values each operation sends, in the order of the \<^verbatim>\<open>appendInteger\<close> calls.\<close>

definition ser_items :: "WorkRequest \<Rightarrow> wire list" where
  "ser_items w =
     (let lop = W32 (work_code (wr_op w)); id' = W32 (wr_id w); wid = W32 (wr_wid w); addr = W64 (wr_addr w);
          sz = W64 (wr_size w); p = W64 (wr_ptr w); flag = W32 (wr_flag w); status = W32 (wr_status w)
      in case wr_op w of
           UPDATE_MEM_STATS \<Rightarrow> [lop, wid, sz, addr]
         | FETCH_MEM_STATS_REPLY \<Rightarrow> [lop, sz]
         | BROADCAST_MEM_STATS \<Rightarrow> [lop, sz]
         | GET \<Rightarrow> [lop, id', wid, addr]
         | PUT \<Rightarrow> [lop, id', wid, addr, sz]
         | GET_REPLY \<Rightarrow> [lop, id', wid, addr, sz]
         | FETCH_MEM_STATS \<Rightarrow> [lop, wid]
         | MALLOC \<Rightarrow> [lop, id', wid, sz, flag]
         | MALLOC_REPLY \<Rightarrow> [lop, id', wid, addr, status]
         | FREE \<Rightarrow> [lop, id', wid, addr]
         | WRITE \<Rightarrow> [lop, id', wid, addr, sz, p, flag, W32 (GetGFuncID (wr_gfunc w)), W64 (wr_arg w)]
         | WRITE_PERMISSION_ONLY \<Rightarrow>
             [lop, id', wid, addr, sz, p, flag, W32 (GetGFuncID (wr_gfunc w)), W64 (wr_arg w)]
         | READ \<Rightarrow> [lop, id', wid, addr, sz, p, flag]
         | FETCH_AND_SHARED \<Rightarrow> [lop, id', wid, addr, sz, p, flag]
         | FETCH_AND_INVALIDATE \<Rightarrow> [lop, id', wid, addr, sz, p, flag]
         | INVALIDATE \<Rightarrow> [lop, id', wid, addr, sz, p, flag]
         | READ_FORWARD \<Rightarrow> [lop, id', wid, addr, sz, p, flag, W32 (wr_pid w), W32 (wr_pwid w)]
         | WRITE_FORWARD \<Rightarrow> [lop, id', wid, addr, sz, p, flag, W32 (wr_pid w), W32 (wr_pwid w)]
         | INVALIDATE_FORWARD \<Rightarrow> [lop, id', wid, addr, sz, p, flag, W32 (wr_pid w), W32 (wr_pwid w)]
         | WRITE_PERMISSION_ONLY_FORWARD \<Rightarrow> [lop, id', wid, addr, sz, p, flag, W32 (wr_pid w), W32 (wr_pwid w)]
         | READ_REPLY \<Rightarrow> [lop, id', wid, status]
         | WRITE_REPLY \<Rightarrow> [lop, id', wid, status, W32 (wr_counter w)]
         | ACTIVE_INVALIDATE \<Rightarrow> [lop, id', wid, addr, p]
         | WRITE_BACK \<Rightarrow> [lop, id', wid, addr, p]
         | _ \<Rightarrow> [])"

definition Ser :: "memory \<Rightarrow> ptr \<Rightarrow> WorkRequest \<Rightarrow> (memory \<times> nat) option" where
  "Ser m buf w = do {
     let (m, len) = appendInteger m buf (ser_items w);
     (m, len) \<leftarrow> (if wr_op w = FETCH_MEM_STATS_REPLY \<or> wr_op w = BROADCAST_MEM_STATS
        then do {
          n \<leftarrow> strlen m (wr_ptr w);
          Some (memcpy m (buf + of_nat len) (wr_ptr w) n, len + n) }
        else if wr_op w = PUT \<or> wr_op w = GET_REPLY
        then Some (memcpy m (buf + of_nat len) (wr_ptr w) (unat (wr_size w)), len + unat (wr_size w))
        else Some (m, len));
     Some (m(buf + of_nat len := 0), len) }"

definition r_id where "r_id = R32 (\<lambda>v (w, gid). (w\<lparr>wr_id := v\<rparr>, gid))"
definition r_wid where "r_wid = R32 (\<lambda>v (w, gid). (w\<lparr>wr_wid := v\<rparr>, gid))"
definition r_addr where "r_addr = R64 (\<lambda>v (w, gid). (w\<lparr>wr_addr := v\<rparr>, gid))"
definition r_size where "r_size = R64 (\<lambda>v (w, gid). (w\<lparr>wr_size := v\<rparr>, gid))"
definition r_ptr where "r_ptr = R64 (\<lambda>v (w, gid). (w\<lparr>wr_ptr := v\<rparr>, gid))"
definition r_flag where "r_flag = R32 (\<lambda>v (w, gid). (w\<lparr>wr_flag := v\<rparr>, gid))"
definition r_status where "r_status = R32 (\<lambda>v (w, gid). (w\<lparr>wr_status := v\<rparr>, gid))"
definition r_counter where "r_counter = R32 (\<lambda>v (w, gid). (w\<lparr>wr_counter := v\<rparr>, gid))"
definition r_pid where "r_pid = R32 (\<lambda>v (w, gid). (w\<lparr>wr_pid := v\<rparr>, gid))"
definition r_pwid where "r_pwid = R32 (\<lambda>v (w, gid). (w\<lparr>wr_pwid := v\<rparr>, gid))"
definition r_arg where "r_arg = R64 (\<lambda>v (w, gid). (w\<lparr>wr_arg := v\<rparr>, gid))"

text \<open>The function identifier is read into the local variable \<^verbatim>\<open>gid\<close>.\<close>

definition r_gid where "r_gid = R32 (\<lambda>v (w, gid). (w, v))"

lemmas reader_defs = r_id_def r_wid_def r_addr_def r_size_def r_ptr_def r_flag_def r_status_def
  r_counter_def r_pid_def r_pwid_def r_arg_def r_gid_def

definition deser_readers :: "Work \<Rightarrow> reader list" where
  "deser_readers op = (case op of
       UPDATE_MEM_STATS \<Rightarrow> [r_wid, r_size, r_addr]
     | FETCH_MEM_STATS_REPLY \<Rightarrow> [r_size]
     | BROADCAST_MEM_STATS \<Rightarrow> [r_size]
     | GET \<Rightarrow> [r_id, r_wid, r_addr]
     | PUT \<Rightarrow> [r_id, r_wid, r_addr, r_size]
     | GET_REPLY \<Rightarrow> [r_id, r_wid, r_addr, r_size]
     | FETCH_MEM_STATS \<Rightarrow> [r_wid]
     | MALLOC \<Rightarrow> [r_id, r_wid, r_size, r_flag]
     | MALLOC_REPLY \<Rightarrow> [r_id, r_wid, r_addr, r_status]
     | FREE \<Rightarrow> [r_id, r_wid, r_addr]
     | WRITE \<Rightarrow> [r_id, r_wid, r_addr, r_size, r_ptr, r_flag, r_gid, r_arg]
     | WRITE_PERMISSION_ONLY \<Rightarrow> [r_id, r_wid, r_addr, r_size, r_ptr, r_flag, r_gid, r_arg]
     | READ \<Rightarrow> [r_id, r_wid, r_addr, r_size, r_ptr, r_flag]
     | FETCH_AND_SHARED \<Rightarrow> [r_id, r_wid, r_addr, r_size, r_ptr, r_flag]
     | FETCH_AND_INVALIDATE \<Rightarrow> [r_id, r_wid, r_addr, r_size, r_ptr, r_flag]
     | INVALIDATE \<Rightarrow> [r_id, r_wid, r_addr, r_size, r_ptr, r_flag]
     | READ_FORWARD \<Rightarrow> [r_id, r_wid, r_addr, r_size, r_ptr, r_flag, r_pid, r_pwid]
     | WRITE_FORWARD \<Rightarrow> [r_id, r_wid, r_addr, r_size, r_ptr, r_flag, r_pid, r_pwid]
     | INVALIDATE_FORWARD \<Rightarrow> [r_id, r_wid, r_addr, r_size, r_ptr, r_flag, r_pid, r_pwid]
     | WRITE_PERMISSION_ONLY_FORWARD \<Rightarrow> [r_id, r_wid, r_addr, r_size, r_ptr, r_flag, r_pid, r_pwid]
     | READ_REPLY \<Rightarrow> [r_id, r_wid, r_status]
     | WRITE_REPLY \<Rightarrow> [r_id, r_wid, r_status, r_counter]
     | ACTIVE_INVALIDATE \<Rightarrow> [r_id, r_wid, r_addr, r_ptr]
     | WRITE_BACK \<Rightarrow> [r_id, r_wid, r_addr, r_ptr]
     | _ \<Rightarrow> [])"

definition Deser :: "memory \<Rightarrow> ptr \<Rightarrow> WorkRequest \<Rightarrow> (WorkRequest \<times> nat) option" where
  "Deser m buf w = do {
     let op = work_of_code (rd32 m buf);
     let ((w, gid), n) = readInteger m (buf + 4) (deser_readers op) (w\<lparr>wr_op := op\<rparr>, 0);
     let p = buf + of_nat (4 + n);
     w \<leftarrow> (if op = WRITE \<or> op = WRITE_PERMISSION_ONLY
          then map_option (\<lambda>g. w\<lparr>wr_gfunc := g\<rparr>) (GetGFunc gid) else Some w);
     if op = FETCH_MEM_STATS_REPLY \<or> op = BROADCAST_MEM_STATS
     then do { k \<leftarrow> strlen m p; Some (w\<lparr>wr_ptr := p\<rparr>, k + (4 + n)) }
     else if op = PUT \<or> op = GET_REPLY
     then Some (w\<lparr>wr_ptr := p\<rparr>, unat (wr_size w) + (4 + n))
     else Some (w, 4 + n) }"

section \<open>Byte-level lemmas\<close>

lemma length_le_bytes [simp]: "length (le_bytes k x) = k"
  by (induction k arbitrary: x) auto

lemma le_nat_le_bytes: "le_nat (le_bytes k x) = x mod 256 ^ k"
proof (induction k arbitrary: x)
  case (Suc k)
  have "unat (of_nat (x mod 256) :: u8) = x mod 256" by (simp add: unat_of_nat)
  then show ?case by (simp add: Suc mod_mult2_eq)
qed simp

lemma le_nat_word32: "of_nat (le_nat (le_bytes 4 (unat v))) = (v :: u32)"
  using unat_bound [of v] by (simp add: le_nat_le_bytes)

lemma le_nat_word64: "of_nat (le_nat (le_bytes 8 (unat v))) = (v :: u64)"
  using unat_bound [of v] by (simp add: le_nat_le_bytes)

lemma mem_write_append:
  assumes "length xs + length ys \<le> 2 ^ 64"
  shows "mem_write (mem_write m p xs) (p + of_nat (length xs)) ys = mem_write m p (xs @ ys)"
proof
  fix a
  let ?k = "unat (a - p)" and ?x = "length xs"
  have d: "a - (p + of_nat ?x) = (a - p) - of_nat ?x" by simp
  show "mem_write (mem_write m p xs) (p + of_nat ?x) ys a = mem_write m p (xs @ ys) a"
  proof (cases "ys = []")
    case False
    then have "?x < 2 ^ 64" using assms by (cases ys) auto
    then have ux: "unat (of_nat ?x :: u64) = ?x" by (simp add: unat_of_nat)
    show ?thesis
    proof (cases "?x \<le> ?k")
      case True
      then have "unat ((a - p) - of_nat ?x) = ?k - ?x"
        using ux by (simp add: unat_sub word_le_nat_alt)
      with True show ?thesis
        by (auto simp: mem_write_def d nth_append)
    next
      case lt: False
      have "unat ((a - p) - of_nat ?x) = 2 ^ 64 + ?k - ?x"
        using lt ux by (simp add: unat_sub_if_size word_size)
      then show ?thesis
        using lt assms by (auto simp: mem_write_def d nth_append)
    qed
  qed simp
qed

definition items_bytes :: "wire list \<Rightarrow> u8 list" where
  "items_bytes vs = concat (map wire_bytes vs)"

lemma length_wire_bytes: "length (wire_bytes v) \<le> 8"
  by (cases v) auto

lemma length_items_bytes: "length (items_bytes vs) \<le> 8 * length vs"
  by (induction vs) (use length_wire_bytes in \<open>auto simp: items_bytes_def intro: add_mono\<close>)

lemma appendInteger_eq:
  "length vs \<le> 1000 \<Longrightarrow> appendInteger m p vs = (mem_write m p (items_bytes vs), length (items_bytes vs))"
proof (induction vs arbitrary: m p)
  case (Cons v vs)
  have "length (wire_bytes v) + length (items_bytes vs) \<le> 2 ^ 64"
    using length_wire_bytes [of v] length_items_bytes [of vs] Cons.prems by simp
  from mem_write_append [OF this] Cons show ?case
    by (simp add: Let_def) (simp add: items_bytes_def)
qed (simp add: items_bytes_def)

text \<open>What a list of readers makes of a list of values of the same types.\<close>

fun deliver :: "wire list \<Rightarrow> reader list \<Rightarrow> deser_st \<Rightarrow> deser_st option" where
  "deliver [] [] s = Some s"
| "deliver (W32 v # vs) (R32 f # rs) s = deliver vs rs (f v s)"
| "deliver (W64 v # vs) (R64 f # rs) s = deliver vs rs (f v s)"
| "deliver _ _ s = None"

lemma readInteger_deliver:
  assumes "deliver vs rs s = Some s'" "mem_read m p (length (items_bytes vs)) = items_bytes vs"
  shows "readInteger m p rs s = (s', length (items_bytes vs))"
  using assms
proof (induction vs rs s arbitrary: p rule: deliver.induct)
  case (2 v vs f rs s)
  then have "mem_read m p 4 = le_bytes 4 (unat v)" "mem_read m (p + 4) (length (items_bytes vs)) = items_bytes vs"
    by (auto simp: items_bytes_def mem_read_append)
  with 2 show ?case by (simp add: rd32_def le_nat_word32) (simp add: items_bytes_def)
next
  case (3 v vs f rs s)
  then have "mem_read m p 8 = le_bytes 8 (unat v)" "mem_read m (p + 8) (length (items_bytes vs)) = items_bytes vs"
    by (auto simp: items_bytes_def mem_read_append)
  with 3 show ?case by (simp add: rd64_def le_nat_word64) (simp add: items_bytes_def)
qed (auto simp: items_bytes_def)

lemma strlen_Some:
  "strlen m p = Some n \<longleftrightarrow> (\<forall>k<n. m (p + of_nat k) \<noteq> 0) \<and> m (p + of_nat n) = 0"
proof (induction n arbitrary: p)
  case 0
  then show ?case by (subst strlen.simps) (auto split: Option.bind_splits)
next
  case (Suc n)
  have "(\<forall>k<Suc n. m (p + of_nat k) \<noteq> 0) \<longleftrightarrow> m p \<noteq> 0 \<and> (\<forall>k<n. m (p + 1 + of_nat k) \<noteq> 0)"
    by (auto simp: All_less_Suc2 algebra_simps)
  with Suc [of "p + 1"] show ?case
    by (subst strlen.simps) (auto split: Option.bind_splits simp: algebra_simps)
qed

section \<open>Tables\<close>

lemma work_code_roundtrip: "\<forall>c. op \<noteq> OTHER_WORK c \<Longrightarrow> work_of_code (work_code op) = op"
  by (cases op) (simp_all add: work_code_def work_of_code_def work_list_def reply_list_def)

lemma GetGFunc_ID: "GetGFunc (GetGFuncID g) = Some g"
proof -
  have "list_all (\<lambda>g. GetGFunc (GetGFuncID g) = Some g)
     [None, Some Incr, Some IncrDouble, Some GatherPagerank, Some ApplyPagerank, Some ScatterPagerank]"
    by code_simp
  then show ?thesis by (cases g; (cases "the g")?) auto
qed

section \<open>The round trip\<close>

text \<open>
  The operations that are sent, how many payload bytes follow the integers, and what the receiver
  ends up with in a request \<open>w0\<close> it deserialises into: exactly these fields change.
\<close>

definition wire_ops :: "Work list" where
  "wire_ops = [UPDATE_MEM_STATS, FETCH_MEM_STATS_REPLY, BROADCAST_MEM_STATS, GET, PUT, GET_REPLY, FETCH_MEM_STATS,
     MALLOC, MALLOC_REPLY, FREE, WRITE, WRITE_PERMISSION_ONLY, READ, FETCH_AND_SHARED, FETCH_AND_INVALIDATE,
     INVALIDATE, READ_FORWARD, WRITE_FORWARD, INVALIDATE_FORWARD, WRITE_PERMISSION_ONLY_FORWARD, READ_REPLY,
     WRITE_REPLY, ACTIVE_INVALIDATE, WRITE_BACK]"

definition string_op :: "Work \<Rightarrow> bool" where
  "string_op op \<longleftrightarrow> op = FETCH_MEM_STATS_REPLY \<or> op = BROADCAST_MEM_STATS"

definition value_op :: "Work \<Rightarrow> bool" where
  "value_op op \<longleftrightarrow> op = PUT \<or> op = GET_REPLY"

definition payload_ok :: "memory \<Rightarrow> WorkRequest \<Rightarrow> nat \<Rightarrow> bool" where
  "payload_ok m w n =
     (if string_op (wr_op w) then strlen m (wr_ptr w) = Some n
      else if value_op (wr_op w) then n = unat (wr_size w) else n = 0)"

definition received :: "WorkRequest \<Rightarrow> WorkRequest \<Rightarrow> ptr \<Rightarrow> WorkRequest" where
  "received w0 w p =
     (let request = w0\<lparr>wr_op := wr_op w, wr_id := wr_id w, wr_wid := wr_wid w\<rparr>;
          access = request\<lparr>wr_addr := wr_addr w, wr_size := wr_size w, wr_ptr := wr_ptr w, wr_flag := wr_flag w\<rparr>
      in case wr_op w of
           UPDATE_MEM_STATS \<Rightarrow> w0\<lparr>wr_op := wr_op w, wr_wid := wr_wid w, wr_size := wr_size w, wr_addr := wr_addr w\<rparr>
         | FETCH_MEM_STATS_REPLY \<Rightarrow> w0\<lparr>wr_op := wr_op w, wr_size := wr_size w, wr_ptr := p\<rparr>
         | BROADCAST_MEM_STATS \<Rightarrow> w0\<lparr>wr_op := wr_op w, wr_size := wr_size w, wr_ptr := p\<rparr>
         | GET \<Rightarrow> request\<lparr>wr_addr := wr_addr w\<rparr>
         | PUT \<Rightarrow> request\<lparr>wr_addr := wr_addr w, wr_size := wr_size w, wr_ptr := p\<rparr>
         | GET_REPLY \<Rightarrow> request\<lparr>wr_addr := wr_addr w, wr_size := wr_size w, wr_ptr := p\<rparr>
         | FETCH_MEM_STATS \<Rightarrow> w0\<lparr>wr_op := wr_op w, wr_wid := wr_wid w\<rparr>
         | MALLOC \<Rightarrow> request\<lparr>wr_size := wr_size w, wr_flag := wr_flag w\<rparr>
         | MALLOC_REPLY \<Rightarrow> request\<lparr>wr_addr := wr_addr w, wr_status := wr_status w\<rparr>
         | FREE \<Rightarrow> request\<lparr>wr_addr := wr_addr w\<rparr>
         | WRITE \<Rightarrow> access\<lparr>wr_gfunc := wr_gfunc w, wr_arg := wr_arg w\<rparr>
         | WRITE_PERMISSION_ONLY \<Rightarrow> access\<lparr>wr_gfunc := wr_gfunc w, wr_arg := wr_arg w\<rparr>
         | READ_REPLY \<Rightarrow> request\<lparr>wr_status := wr_status w\<rparr>
         | WRITE_REPLY \<Rightarrow> request\<lparr>wr_status := wr_status w, wr_counter := wr_counter w\<rparr>
         | ACTIVE_INVALIDATE \<Rightarrow> request\<lparr>wr_addr := wr_addr w, wr_ptr := wr_ptr w\<rparr>
         | WRITE_BACK \<Rightarrow> request\<lparr>wr_addr := wr_addr w, wr_ptr := wr_ptr w\<rparr>
         | READ_FORWARD \<Rightarrow> access\<lparr>wr_pid := wr_pid w, wr_pwid := wr_pwid w\<rparr>
         | WRITE_FORWARD \<Rightarrow> access\<lparr>wr_pid := wr_pid w, wr_pwid := wr_pwid w\<rparr>
         | INVALIDATE_FORWARD \<Rightarrow> access\<lparr>wr_pid := wr_pid w, wr_pwid := wr_pwid w\<rparr>
         | WRITE_PERMISSION_ONLY_FORWARD \<Rightarrow> access\<lparr>wr_pid := wr_pid w, wr_pwid := wr_pwid w\<rparr>
         | _ \<Rightarrow> access)"

definition disjoint_from :: "ptr \<Rightarrow> nat \<Rightarrow> ptr \<Rightarrow> nat \<Rightarrow> bool" where
  "disjoint_from buf n q k \<longleftrightarrow> (\<forall>i<k. n \<le> unat (q + of_nat i - buf))"

lemma ser_items_Cons:
  "wr_op w \<in> set wire_ops \<Longrightarrow> ser_items w = W32 (work_code (wr_op w)) # tl (ser_items w)"
  by (cases "wr_op w") (auto simp: wire_ops_def ser_items_def Let_def)

lemma deliver_received:
  assumes "wr_op w \<in> set wire_ops"
  shows "\<exists>w1 gid. deliver (tl (ser_items w)) (deser_readers (wr_op w)) (w0\<lparr>wr_op := wr_op w\<rparr>, 0) = Some (w1, gid) \<and>
    (if wr_op w = WRITE \<or> wr_op w = WRITE_PERMISSION_ONLY
     then gid = GetGFuncID (wr_gfunc w) \<and> w1\<lparr>wr_gfunc := wr_gfunc w\<rparr> = received w0 w p
     else if string_op (wr_op w) \<or> value_op (wr_op w) then w1\<lparr>wr_ptr := p\<rparr> = received w0 w p
     else w1 = received w0 w p) \<and> (value_op (wr_op w) \<longrightarrow> wr_size w1 = wr_size w)"
  using assms
  by (cases "wr_op w")
    (auto simp: wire_ops_def ser_items_def deser_readers_def reader_defs received_def Let_def string_op_def value_op_def)

lemma header_length: "length (items_bytes (ser_items w)) \<le> 52 \<and> length (ser_items w) \<le> 1000"
  by (cases "wr_op w") (auto simp: ser_items_def items_bytes_def Let_def)

lemma mem_write_disjoint:
  assumes "disjoint_from buf n q k" "length bs \<le> n" "i < k"
  shows "mem_write m buf bs (q + of_nat i) = m (q + of_nat i)"
  using assms by (intro mem_write_out) (auto simp: disjoint_from_def intro: le_trans)

lemma upd_mem_write: "m(p := b) = mem_write m p [b]"
  by (auto simp: mem_write_def fun_eq_iff unat_eq_zero)

lemma Ser_eq:
  assumes "payload_ok m w n" "n + 64 \<le> 2 ^ 64"
    "string_op (wr_op w) \<or> value_op (wr_op w) \<Longrightarrow> disjoint_from buf (n + 64) (wr_ptr w) (n + 1)"
  shows "Ser m buf w = Some (mem_write m buf (items_bytes (ser_items w) @ mem_read m (wr_ptr w) n @ [0]),
    length (items_bytes (ser_items w)) + n)"
proof -
  let ?h = "items_bytes (ser_items w)" and ?bs = "mem_read m (wr_ptr w) n"
  let ?m = "mem_write m buf ?h"
  have h: "length ?h \<le> 52" "length (ser_items w) \<le> 1000" using header_length by auto
  have same: "?m (wr_ptr w + of_nat i) = m (wr_ptr w + of_nat i)"
    if "string_op (wr_op w) \<or> value_op (wr_op w)" "i < n + 1" for i
    using that h assms(3) by (intro mem_write_disjoint [where n = "n + 64" and k = "n + 1"]) auto
  then have rd: "mem_read ?m (wr_ptr w) n = ?bs" if "string_op (wr_op w) \<or> value_op (wr_op w)"
    using that by (intro mem_read_cong) auto
  have sl: "strlen ?m (wr_ptr w) = Some n" if "string_op (wr_op w)"
    using that assms(1) same by (simp add: payload_ok_def strlen_Some)
  have w1: "mem_write ?m (buf + of_nat (length ?h)) ?bs = mem_write m buf (?h @ ?bs)"
    using h assms(2) by (intro mem_write_append) simp
  have w2: "(mem_write m buf (?h @ ?bs))(buf + (of_nat (length ?h) + of_nat n) := 0) = mem_write m buf (?h @ ?bs @ [0])"
    using mem_write_append [of "?h @ ?bs" "[0]" m buf] h assms(2) by (simp add: upd_mem_write)
  note facts = rd sl w1 w2 memcpy_def
  consider "string_op (wr_op w)" | "value_op (wr_op w)" "\<not> string_op (wr_op w)"
    | "\<not> string_op (wr_op w)" "\<not> value_op (wr_op w)" by blast
  then show ?thesis
  proof cases
    case 1
    then show ?thesis using facts h by (simp add: Ser_def appendInteger_eq string_op_def add.assoc)
  next
    case 2
    then have "n = unat (wr_size w)" using assms(1) by (simp add: payload_ok_def)
    with 2 show ?thesis
      using facts h by (simp add: Ser_def appendInteger_eq string_op_def value_op_def add.assoc)
  next
    case 3
    then have "n = 0" using assms(1) by (simp add: payload_ok_def)
    with 3 show ?thesis
      using facts h by (simp add: Ser_def appendInteger_eq string_op_def value_op_def mem_read_def)
  qed
qed

lemma mem_read_written:
  assumes "length xs + length ys + length zs \<le> 2 ^ 64"
  shows "mem_read (mem_write m p (xs @ ys @ zs)) (p + of_nat (length xs)) (length ys) = ys"
proof (rule nth_equalityI)
  fix i assume i: "i < length (mem_read (mem_write m p (xs @ ys @ zs)) (p + of_nat (length xs)) (length ys))"
  have "mem_write m p (xs @ ys @ zs) (p + of_nat (length xs + i)) = (xs @ ys @ zs) ! (length xs + i)"
    using i assms by (intro mem_write_in) auto
  then show "mem_read (mem_write m p (xs @ ys @ zs)) (p + of_nat (length xs)) (length ys) ! i = ys ! i"
    using i by (simp add: nth_append add.assoc)
qed simp

lemma Deser_unfold:
  assumes "work_of_code (rd32 m buf) = opc"
    and "readInteger m (buf + 4) (deser_readers opc) (w0\<lparr>wr_op := opc\<rparr>, 0) = ((w, gid), k)"
    and "p = buf + of_nat (4 + k)"
  shows "opc = WRITE \<or> opc = WRITE_PERMISSION_ONLY \<Longrightarrow>
      Deser m buf w0 = map_option (\<lambda>g. (w\<lparr>wr_gfunc := g\<rparr>, 4 + k)) (GetGFunc gid)"
    and "string_op opc \<Longrightarrow> Deser m buf w0 = map_option (\<lambda>n. (w\<lparr>wr_ptr := p\<rparr>, n + (4 + k))) (strlen m p)"
    and "value_op opc \<Longrightarrow> Deser m buf w0 = Some (w\<lparr>wr_ptr := p\<rparr>, unat (wr_size w) + (4 + k))"
    and "\<not> string_op opc \<Longrightarrow> \<not> value_op opc \<Longrightarrow> opc \<noteq> WRITE \<Longrightarrow> opc \<noteq> WRITE_PERMISSION_ONLY \<Longrightarrow>
      Deser m buf w0 = Some (w, 4 + k)"
proof -
  have E: "Deser m buf w0 = do {
     w \<leftarrow> (if opc = WRITE \<or> opc = WRITE_PERMISSION_ONLY
          then map_option (\<lambda>g. w\<lparr>wr_gfunc := g\<rparr>) (GetGFunc gid) else Some w);
     if string_op opc then do { n \<leftarrow> strlen m p; Some (w\<lparr>wr_ptr := p\<rparr>, n + (4 + k)) }
     else if value_op opc then Some (w\<lparr>wr_ptr := p\<rparr>, unat (wr_size w) + (4 + k))
     else Some (w, 4 + k) }"
    unfolding Deser_def Let_def assms(1,2) prod.case assms(3) string_op_def value_op_def by (rule refl)
  show "opc = WRITE \<or> opc = WRITE_PERMISSION_ONLY \<Longrightarrow>
      Deser m buf w0 = map_option (\<lambda>g. (w\<lparr>wr_gfunc := g\<rparr>, 4 + k)) (GetGFunc gid)"
    unfolding E by (cases "GetGFunc gid") (auto simp: string_op_def value_op_def)
  show "string_op opc \<Longrightarrow> Deser m buf w0 = map_option (\<lambda>n. (w\<lparr>wr_ptr := p\<rparr>, n + (4 + k))) (strlen m p)"
    unfolding E by (cases "strlen m p") (auto simp: string_op_def)
qed (auto simp: string_op_def value_op_def Deser_def Let_def assms)

text \<open>A payload as the operation of a request carries it.\<close>

definition payload_bytes :: "WorkRequest \<Rightarrow> u8 list \<Rightarrow> bool" where
  "payload_bytes w bs \<longleftrightarrow> length bs + 64 \<le> 2 ^ 64 \<and>
     (if string_op (wr_op w) then 0 \<notin> set bs
      else if value_op (wr_op w) then length bs = unat (wr_size w) else bs = [])"

definition wire_header :: "WorkRequest \<Rightarrow> u8 list" where
  "wire_header w = items_bytes (ser_items w)"

lemma wire_header_split:
  "wr_op w \<in> set wire_ops \<Longrightarrow>
   wire_header w = le_bytes 4 (unat (work_code (wr_op w))) @ items_bytes (tl (ser_items w))"
  unfolding wire_header_def using ser_items_Cons [of w]
  by (auto simp: items_bytes_def) (metis concat.simps(2) list.simps(9) wire_bytes.simps(1))

lemma mem_read_sub:
  "mem_read m p (length (xs @ ys @ zs)) = xs @ ys @ zs \<Longrightarrow>
   mem_read m (p + of_nat (length xs)) (length ys) = ys"
  by (simp add: mem_read_append add.assoc)

lemma Deser_cases:
  assumes op: "wr_op w \<in> set wire_ops" and pl: "payload_bytes w bs"
    and rop: "work_of_code (rd32 m buf) = wr_op w"
    and rt: "mem_read m (buf + 4) (length (items_bytes (tl (ser_items w)))) = items_bytes (tl (ser_items w))"
    and p: "p = buf + of_nat (4 + length (items_bytes (tl (ser_items w))))"
    and sl: "string_op (wr_op w) \<Longrightarrow> strlen m p = Some (length bs)"
  shows "Deser m buf w0 = Some (received w0 w p, length bs + (4 + length (items_bytes (tl (ser_items w)))))"
proof -
  obtain w1 gid where d: "deliver (tl (ser_items w)) (deser_readers (wr_op w)) (w0\<lparr>wr_op := wr_op w\<rparr>, 0) = Some (w1, gid)"
    and w1: "if wr_op w = WRITE \<or> wr_op w = WRITE_PERMISSION_ONLY
     then gid = GetGFuncID (wr_gfunc w) \<and> w1\<lparr>wr_gfunc := wr_gfunc w\<rparr> = received w0 w p
     else if string_op (wr_op w) \<or> value_op (wr_op w) then w1\<lparr>wr_ptr := p\<rparr> = received w0 w p
     else w1 = received w0 w p" "value_op (wr_op w) \<longrightarrow> wr_size w1 = wr_size w"
    using deliver_received [OF op] by blast
  note D = Deser_unfold [OF rop readInteger_deliver [OF d rt] p]
  consider "wr_op w = WRITE \<or> wr_op w = WRITE_PERMISSION_ONLY" | "string_op (wr_op w)" | "value_op (wr_op w)"
    | "\<not> string_op (wr_op w)" "\<not> value_op (wr_op w)" "wr_op w \<noteq> WRITE" "wr_op w \<noteq> WRITE_PERMISSION_ONLY"
    by blast
  then show ?thesis
    by cases (use D w1 sl pl in \<open>auto simp: GetGFunc_ID payload_bytes_def string_op_def value_op_def\<close>)
qed

text \<open>Wherever the bytes of a message stand in memory, followed by a zero, they are read back.\<close>

lemma Deser_bytes:
  assumes op: "wr_op w \<in> set wire_ops" and pl: "payload_bytes w bs"
    and rd: "mem_read m buf (length (wire_header w @ bs @ [0])) = wire_header w @ bs @ [0]"
  shows "Deser m buf w0 = Some (received w0 w (buf + of_nat (length (wire_header w))), length (wire_header w) + length bs)"
    "mem_read m (buf + of_nat (length (wire_header w))) (length bs) = bs"
proof -
  let ?t = "items_bytes (tl (ser_items w))" and ?c = "le_bytes 4 (unat (work_code (wr_op w)))"
  note h = wire_header_split [OF op]
  then have l: "length (wire_header w) = 4 + length ?t" by simp
  have rop: "work_of_code (rd32 m buf) = wr_op w"
    using mem_read_sub [of m buf "[]" ?c "?t @ bs @ [0]"] rd op
    by (auto simp: h rd32_def le_nat_word32 wire_ops_def intro!: work_code_roundtrip)
  have rt: "mem_read m (buf + 4) (length ?t) = ?t"
    using mem_read_sub [of m buf ?c ?t "bs @ [0]"] rd by (simp add: h)
  show rp: "mem_read m (buf + of_nat (length (wire_header w))) (length bs) = bs"
    using mem_read_sub [of m buf "wire_header w" bs "[0]"] rd by simp
  have z: "m (buf + of_nat (length (wire_header w)) + of_nat (length bs)) = 0"
    using mem_read_sub [of m buf "wire_header w @ bs" "[0]" "[]"] rd by (simp add: mem_read_def add.assoc)
  have sl: "strlen m (buf + of_nat (4 + length ?t)) = Some (length bs)" if "string_op (wr_op w)"
    using that pl z rp nth_mem_read [of _ "length bs" m "buf + of_nat (length (wire_header w))"]
    by (auto simp: payload_bytes_def strlen_Some l) (metis nth_mem nth_mem_read)
  show "Deser m buf w0 = Some (received w0 w (buf + of_nat (length (wire_header w))), length (wire_header w) + length bs)"
    using Deser_cases [OF op pl rop rt refl sl] by (simp add: l add.commute add.left_commute)
qed

lemma payload_ok_bytes:
  "payload_ok m w n \<Longrightarrow> n + 64 \<le> 2 ^ 64 \<Longrightarrow> payload_bytes w (mem_read m (wr_ptr w) n)"
  by (auto simp: payload_ok_def payload_bytes_def strlen_Some mem_read_def split: if_splits)



section \<open>Flags and copies\<close>

lemma has_set_flag: "has (set_flag w f) g \<longleftrightarrow> has w g \<or> f AND g \<noteq> 0"
  by (auto simp: has_def set_flag_def bit_eq_iff bit_simps)

lemma has_clear_flag: "has (clear_flag w f) g \<longleftrightarrow> (wr_flag w AND NOT f) AND g \<noteq> 0"
  by (simp add: has_def clear_flag_def)

text \<open>
  A request is duplicated at most once. Copying an original that was not copied yet gives a
  fresh request that agrees with it in every field but the flags \<^verbatim>\<open>LOCAL_REQUEST\<close> and \<^verbatim>\<open>COPY\<close> and the
  buffer, whose contents are copied; copying the original again, or its copy, changes nothing and
  returns that same copy.
\<close>

lemma copy_once:
  assumes "h r = Some w" "\<not> has w COPY" "wr_dup w = None" "nw \<noteq> r"
  shows "\<exists>h' m' n. Copy h m r nw buf = Some (h', m', nw) \<and> h' nw = Some n \<and> IsACopy n \<and> \<not> has n LOCAL_REQUEST \<and>
    wr_eq (n\<lparr>wr_flag := wr_flag w, wr_ptr := wr_ptr w\<rparr>) w \<and> wr_gfunc n = wr_gfunc w \<and>
    (wr_ptr w \<noteq> 0 \<and> wr_size w \<noteq> 0 \<longrightarrow>
       wr_ptr n = buf \<and> mem_read m' buf (unat (wr_size w)) = mem_read m (wr_ptr w) (unat (wr_size w))) \<and>
    Copy h' m' r nw2 buf2 = Some (h', m', nw) \<and> Copy h' m' nw nw2 buf2 = Some (h', m', nw)"
proof -
  define full where "full \<longleftrightarrow> wr_ptr w \<noteq> 0 \<and> wr_size w \<noteq> 0"
  define n where "n = set_flag (if full then (copy_WorkRequest w)\<lparr>wr_ptr := buf\<rparr> else copy_WorkRequest w) COPY"
  define m' where "m' = (if full then memcpy m buf (wr_ptr w) (unat (wr_size w)) else m)"
  define h' where "h' = h(nw \<mapsto> n, r \<mapsto> (set_flag w COPY)\<lparr>wr_dup := Some nw\<rparr>)"
  have c: "COPY AND COPY \<noteq> 0" "COPY AND LOCAL_REQUEST = 0"
    by (simp_all add: COPY_def LOCAL_REQUEST_def)
  have "(wr_flag w AND NOT LOCAL_REQUEST) AND LOCAL_REQUEST = 0"
    by (auto simp: bit_eq_iff bit_simps)
  then have nl: "\<not> has n LOCAL_REQUEST"
    using c(2) by (simp add: n_def has_set_flag) (simp add: has_def copy_WorkRequest_def)
  have copied: "has n COPY" "has ((set_flag w COPY)\<lparr>wr_dup := Some nw\<rparr>) COPY" "wr_dup n = None"
    using c(1) assms(3) has_set_flag [of w COPY COPY] has_set_flag [of _ COPY COPY]
    by (simp_all add: n_def has_def) (simp_all add: set_flag_def copy_WorkRequest_def)
  have call: "Copy h m r nw buf = Some (h', m', nw)"
    using assms by (simp add: Copy_def full_def n_def m'_def h'_def Let_def)
  have fields: "wr_eq (n\<lparr>wr_flag := wr_flag w, wr_ptr := wr_ptr w\<rparr>) w" "wr_gfunc n = wr_gfunc w" "full \<Longrightarrow> wr_ptr n = buf"
    by (simp_all add: n_def set_flag_def copy_WorkRequest_def wr_eq_def)
  have "unat (wr_size w) \<le> 2 ^ 64" using unat_bound [of "wr_size w"] by simp
  then have mem: "full \<Longrightarrow> mem_read m' buf (unat (wr_size w)) = mem_read m (wr_ptr w) (unat (wr_size w))"
    using mem_read_write [of "mem_read m (wr_ptr w) (unat (wr_size w))" m buf] by (simp add: m'_def memcpy_def)
  have again: "Copy h' m' r nw2 buf2 = Some (h', m', nw)" "Copy h' m' nw nw2 buf2 = Some (h', m', nw)" "h' nw = Some n"
    using copied assms(4) by (auto simp: Copy_def h'_def)
  show ?thesis
    unfolding full_def [symmetric] using call nl copied fields mem again by (auto simp: IsACopy_def)
qed

end
