(* ===== verification/Gam_Slabs.thy ===== *)
theory Gam_Slabs
  imports Gam_Addr
begin

text \<open>
  The slab allocator of a worker's memory: \<^verbatim>\<open>gam/include/slabs.h\<close> and \<^verbatim>\<open>gam/src/slabs.cc\<close>. One region
  is cut into slabs of \<^verbatim>\<open>item_size_max\<close> bytes, a slab into chunks of the size of its class; the free
  chunks of a class form a doubly linked list through items that \<^verbatim>\<open>stats_map\<close> keeps per chunk.

  An \<^verbatim>\<open>item*\<close> is modelled by the chunk address under which \<^verbatim>\<open>stats_map\<close> holds the item (its \<^verbatim>\<open>data\<close>
  field always equals it). \<open>None\<close> is a dereference of a missing item, an index outside the class
  table, or \<^verbatim>\<open>exit\<close>. The region is what \<^verbatim>\<open>mmap\<close> returns, a parameter of \<open>slabs_init\<close>. The growth factor
  is the fraction \<open>fnum / fden\<close>: the products of the code are exact for the factors of the
  configuration (1.25).
\<close>

record slabclass_t =
  sc_size :: u32
  sc_perslab :: u32
  sc_slots :: "ptr option"
  sc_curr :: u32
  sc_slabs :: u32
  sc_slab_list :: "ptr list"
  sc_list_size :: u32
  sc_requested :: u64

record item =
  it_next :: "ptr option"
  it_prev :: "ptr option"
  it_size :: i32
  it_flags :: u8
  it_clsid :: u8

record SlabAllocator =
  slabclass :: "slabclass_t list"
  mem_limit :: u64
  mem_malloced :: u64
  power_largest :: nat
  mem_base :: ptr
  mem_current :: ptr
  mem_avail :: u64
  mem_free :: u64
  stats_map :: "ptr \<rightharpoonup> item"
  chunk_size :: u32
  item_size_max :: u32
  slab_reassign :: bool

definition POWER_SMALLEST :: nat where "POWER_SMALLEST = 1"
definition POWER_LARGEST :: nat where "POWER_LARGEST = 200"
definition ITEM_SLABBED :: u8 where "ITEM_SLABBED = 4"

definition new_slabclass :: slabclass_t where
  "new_slabclass = \<lparr>sc_size = 0, sc_perslab = 0, sc_slots = None, sc_curr = 0, sc_slabs = 0,
     sc_slab_list = [], sc_list_size = 0, sc_requested = 0\<rparr>"

definition new_item :: item where
  "new_item = \<lparr>it_next = None, it_prev = None, it_size = 0, it_flags = 0, it_clsid = 0\<rparr>"

definition new_SlabAllocator :: SlabAllocator where
  "new_SlabAllocator = \<lparr>slabclass = replicate 201 new_slabclass, mem_limit = 0, mem_malloced = 0,
     power_largest = 0, mem_base = 0, mem_current = 0, mem_avail = 0, mem_free = 0, stats_map = Map.empty,
     chunk_size = 48, item_size_max = 1048576, slab_reassign = True\<rparr>"

definition class_of :: "SlabAllocator \<Rightarrow> nat \<Rightarrow> slabclass_t option" where
  "class_of sb i = (if i < length (slabclass sb) then Some (slabclass sb ! i) else None)"

definition set_class :: "SlabAllocator \<Rightarrow> nat \<Rightarrow> slabclass_t \<Rightarrow> SlabAllocator" where
  "set_class sb i p = sb\<lparr>slabclass := (slabclass sb)[i := p]\<rparr>"

text \<open>\<^verbatim>\<open>slabs_clsid\<close>: the first class whose chunks hold \<open>size\<close> bytes, 0 if there is none.\<close>

fun clsid_loop :: "nat \<Rightarrow> SlabAllocator \<Rightarrow> u64 \<Rightarrow> nat \<Rightarrow> nat option" where
  "clsid_loop 0 sb sz res = None"
| "clsid_loop (Suc n) sb sz res = do {
     p \<leftarrow> class_of sb res;
     if sz > ucast (sc_size p)
     then (if res = power_largest sb then Some 0 else clsid_loop n sb sz (res + 1))
     else Some res }"

definition slabs_clsid :: "SlabAllocator \<Rightarrow> u64 \<Rightarrow> nat option" where
  "slabs_clsid sb sz = (if sz = 0 then Some 0 else clsid_loop (length (slabclass sb)) sb sz POWER_SMALLEST)"

text \<open>\<open>mm\<close> is \<^verbatim>\<open>mmap\<close>: the address of a fresh region of the given size, 0 when it fails.\<close>

definition mmap_malloc :: "(u64 \<Rightarrow> ptr) \<Rightarrow> u64 \<Rightarrow> ptr" where
  "mmap_malloc mm sz =
     (let sz = (if sz mod BLOCK_SIZE \<noteq> 0 then ALIGN sz BLOCK_SIZE else sz); ret = mm sz
      in if ret = 0 then 0
         else if ret mod BLOCK_SIZE \<noteq> 0 then ret + (BLOCK_SIZE - ret mod BLOCK_SIZE) else ret)"

definition get_avail :: "SlabAllocator \<Rightarrow> u64" where
  "get_avail sb = mem_free sb"

definition memory_allocate :: "SlabAllocator \<Rightarrow> u64 \<Rightarrow> ptr \<times> SlabAllocator" where
  "memory_allocate sb sz =
     (if mem_base sb = 0 then (0, sb)
      else if sz > mem_avail sb then (0, sb)
      else
        let sz' = (if sz mod 8 \<noteq> 0 then sz + (8 - sz mod 8) else sz)
        in (mem_current sb,
            sb\<lparr>mem_current := mem_current sb + sz',
               mem_avail := (if sz' < mem_avail sb then mem_avail sb - sz' else 0)\<rparr>))"

text \<open>The array of slab pointers doubles when it is full; \<^verbatim>\<open>realloc\<close> succeeds.\<close>

definition grow_slab_list :: "SlabAllocator \<Rightarrow> nat \<Rightarrow> SlabAllocator option" where
  "grow_slab_list sb i = do {
     p \<leftarrow> class_of sb i;
     Some (if sc_slabs p = sc_list_size p
           then set_class sb i (p\<lparr>sc_list_size := (if sc_list_size p \<noteq> 0 then sc_list_size p * 2 else 16)\<rparr>)
           else sb) }"

definition do_slabs_free :: "SlabAllocator \<Rightarrow> ptr \<Rightarrow> u64 \<Rightarrow> nat \<Rightarrow> SlabAllocator option" where
  "do_slabs_free sb p sz i =
     (if i < POWER_SMALLEST \<or> i > power_largest sb then Some sb
      else do {
        c \<leftarrow> class_of sb i;
        let it = (case stats_map sb p of Some it \<Rightarrow> it | None \<Rightarrow> new_item);
        let it = it\<lparr>it_flags := it_flags it OR ITEM_SLABBED, it_prev := None, it_next := sc_slots c\<rparr>;
        let st = (stats_map sb)(p \<mapsto> it);
        st \<leftarrow> (case it_next it of
                 None \<Rightarrow> Some st
               | Some n \<Rightarrow> map_option (\<lambda>ni. st(n \<mapsto> ni\<lparr>it_prev := Some p\<rparr>)) (st n));
        let c = c\<lparr>sc_slots := Some p, sc_curr := sc_curr c + 1, sc_requested := sc_requested c - sz\<rparr>;
        let sb = set_class (sb\<lparr>stats_map := st\<rparr>) i c;
        Some (if sz \<noteq> 0 then sb\<lparr>mem_free := mem_free sb + ucast (sc_size c)\<rparr> else sb) })"

fun split_loop :: "nat \<Rightarrow> SlabAllocator \<Rightarrow> ptr \<Rightarrow> u64 \<Rightarrow> nat \<Rightarrow> SlabAllocator option" where
  "split_loop 0 sb p sz i = Some sb"
| "split_loop (Suc n) sb p sz i = do { sb \<leftarrow> do_slabs_free sb p 0 i; split_loop n sb (p + sz) sz i }"

definition split_slab_page_into_freelist :: "SlabAllocator \<Rightarrow> ptr \<Rightarrow> nat \<Rightarrow> SlabAllocator option" where
  "split_slab_page_into_freelist sb p i = do {
     c \<leftarrow> class_of sb i;
     split_loop (unat (sc_perslab c)) sb p (ucast (sc_size c)) i }"

definition do_slabs_newslab :: "SlabAllocator \<Rightarrow> nat \<Rightarrow> (bool \<times> SlabAllocator) option" where
  "do_slabs_newslab sb i = do {
     c \<leftarrow> class_of sb i;
     let len = (ucast (if slab_reassign sb then item_size_max sb else sc_size c * sc_perslab c) :: u64);
     if mem_limit sb \<noteq> 0 \<and> mem_malloced sb + len > mem_limit sb \<and> sc_slabs c > 0 then Some (False, sb)
     else do {
       sb \<leftarrow> grow_slab_list sb i;
       let (p, sb) = memory_allocate sb len;
       if p = 0 then Some (False, sb)
       else do {
         sb \<leftarrow> split_slab_page_into_freelist sb p i;
         c \<leftarrow> class_of sb i;
         let c = c\<lparr>sc_slab_list := sc_slab_list c @ [p], sc_slabs := sc_slabs c + 1\<rparr>;
         Some (True, (set_class sb i c)\<lparr>mem_malloced := mem_malloced sb + len\<rparr>) } } }"

definition do_slabs_alloc :: "SlabAllocator \<Rightarrow> u64 \<Rightarrow> nat \<Rightarrow> (ptr \<times> SlabAllocator) option" where
  "do_slabs_alloc sb sz i =
     (if i < POWER_SMALLEST \<or> i > power_largest sb then Some (0, sb)
      else do {
        c \<leftarrow> class_of sb i;
        (ok, sb) \<leftarrow> (if sc_curr c \<noteq> 0 then Some (True, sb) else do_slabs_newslab sb i);
        c \<leftarrow> class_of sb i;
        if \<not> ok \<or> sc_curr c = 0 then Some (0, sb)
        else do {
          p \<leftarrow> sc_slots c;
          it \<leftarrow> stats_map sb p;
          st \<leftarrow> (case it_next it of
                   None \<Rightarrow> Some (stats_map sb)
                 | Some n \<Rightarrow> map_option (\<lambda>ni. (stats_map sb)(n \<mapsto> ni\<lparr>it_prev := None\<rparr>)) (stats_map sb n));
          it' \<leftarrow> st p;
          let st = st(p \<mapsto> it'\<lparr>it_size := ucast sz, it_clsid := of_nat i\<rparr>);
          let c = c\<lparr>sc_slots := it_next it, sc_curr := sc_curr c - 1\<rparr>;
          if p = 0 then Some (0, set_class (sb\<lparr>stats_map := st\<rparr>) i c)
          else
            let c = c\<lparr>sc_requested := sc_requested c + sz\<rparr>;
                sb = set_class (sb\<lparr>stats_map := st\<rparr>) i c
            in Some (p, sb\<lparr>mem_free := mem_free sb - ucast (sc_size c)\<rparr>) } })"

text \<open>
  \<^verbatim>\<open>sb_malloc\<close> and \<^verbatim>\<open>sb_aligned_malloc\<close>. On an allocator without memory (\<^verbatim>\<open>mem_limit == 0\<close>) the code
  returns without releasing its lock; the model has no lock and returns the null pointer.
\<close>

definition sb_malloc :: "SlabAllocator \<Rightarrow> u64 \<Rightarrow> (ptr \<times> SlabAllocator) option" where
  "sb_malloc sb sz =
     (if mem_limit sb = 0 then Some (0, sb)
      else do { i \<leftarrow> slabs_clsid sb sz; do_slabs_alloc sb sz i })"

definition sb_aligned_malloc :: "SlabAllocator \<Rightarrow> u64 \<Rightarrow> u64 \<Rightarrow> (ptr \<times> SlabAllocator) option" where
  "sb_aligned_malloc sb sz block =
     (if mem_limit sb = 0 then Some (0, sb)
      else do {
        let newsize = ALIGN sz block;
        i \<leftarrow> slabs_clsid sb newsize;
        do_slabs_alloc sb newsize i })"

definition sb_calloc :: "memory \<Rightarrow> SlabAllocator \<Rightarrow> u64 \<Rightarrow> u64 \<Rightarrow> (ptr \<times> memory \<times> SlabAllocator) option" where
  "sb_calloc m sb count sz =
     (if mem_limit sb = 0 then Some (0, m, sb)
      else do {
        (p, sb) \<leftarrow> sb_malloc sb (count * sz);
        Some (p, if p \<noteq> 0 then memset m p 0 (unat sz) else m, sb) })"

definition sb_aligned_calloc ::
    "memory \<Rightarrow> SlabAllocator \<Rightarrow> u64 \<Rightarrow> u64 \<Rightarrow> u64 \<Rightarrow> (ptr \<times> memory \<times> SlabAllocator) option" where
  "sb_aligned_calloc m sb count sz block =
     (if mem_limit sb = 0 then Some (0, m, sb)
      else do {
        (p, sb) \<leftarrow> sb_aligned_malloc sb (count * sz) block;
        Some (p, if p \<noteq> 0 then memset m p 0 (unat sz) else m, sb) })"

definition is_free :: "SlabAllocator \<Rightarrow> ptr \<Rightarrow> bool option" where
  "is_free sb p = map_option (\<lambda>it. it_clsid it = 0) (stats_map sb p)"

definition get_size :: "SlabAllocator \<Rightarrow> ptr \<Rightarrow> u64 option" where
  "get_size sb p = map_option (\<lambda>it. scast (it_size it)) (stats_map sb p)"

definition sb_free :: "memory \<Rightarrow> SlabAllocator \<Rightarrow> ptr \<Rightarrow> (u64 \<times> memory \<times> SlabAllocator) option" where
  "sb_free m sb p =
     (if mem_limit sb = 0 then Some (0, m, sb)
      else do {
        it \<leftarrow> stats_map sb p;
        let sz = (scast (it_size it) :: u64);
        let sb' = sb\<lparr>stats_map := (stats_map sb)(p \<mapsto> it\<lparr>it_clsid := 0, it_size := 0\<rparr>)\<rparr>;
        sb' \<leftarrow> do_slabs_free sb' p sz (unat (it_clsid it));
        Some (sz, memset m p 0 (unat sz), sb') })"

text \<open>\<^verbatim>\<open>slabs_adjust_mem_requested\<close> aborts on an invalid class.\<close>

definition slabs_adjust_mem_requested :: "SlabAllocator \<Rightarrow> nat \<Rightarrow> u64 \<Rightarrow> u64 \<Rightarrow> SlabAllocator option" where
  "slabs_adjust_mem_requested sb i old ntotal =
     (if i < POWER_SMALLEST \<or> i > power_largest sb then None
      else do {
        c \<leftarrow> class_of sb i;
        Some (set_class sb i (c\<lparr>sc_requested := sc_requested c - old + ntotal\<rparr>)) })"

text \<open>
  \<^verbatim>\<open>sb_realloc\<close>: in the branch that moves the block the inner declaration \<^verbatim>\<open>void* ptr\<close> shadows the
  parameter, so the copy runs from the new block to itself.
\<close>

definition sb_realloc :: "memory \<Rightarrow> SlabAllocator \<Rightarrow> ptr \<Rightarrow> u64 \<Rightarrow> (ptr \<times> memory \<times> SlabAllocator) option" where
  "sb_realloc m sb p sz =
     (if mem_limit sb = 0 then Some (0, m, sb)
      else if p = 0 then map_option (\<lambda>(q, sb). (q, m, sb)) (sb_malloc sb sz)
      else do {
        it1 \<leftarrow> stats_map sb p;
        let id1 = unat (it_clsid it1);
        let size1 = it_size it1;
        id2 \<leftarrow> slabs_clsid sb sz;
        if id1 = id2
        then do {
          let sb = sb\<lparr>stats_map := (stats_map sb)(p \<mapsto> it1\<lparr>it_size := ucast sz\<rparr>)\<rparr>;
          sb \<leftarrow> slabs_adjust_mem_requested sb id1 (scast size1) sz;
          Some (p, m, sb) }
        else do {
          (q, sb) \<leftarrow> do_slabs_alloc sb sz id2;
          it2 \<leftarrow> stats_map sb q;
          let m = memcpy m q q (if sz < scast size1 then unat sz else unat (scast size1 :: u64));
          it1 \<leftarrow> stats_map sb p;
          let sb = sb\<lparr>stats_map := (stats_map sb)(p \<mapsto> it1\<lparr>it_clsid := 0\<rparr>)\<rparr>;
          sb \<leftarrow> do_slabs_free sb p (scast size1) id1;
          Some (q, m, sb) } })"

section \<open>Initialisation\<close>

text \<open>
  The table of chunk sizes. \<open>i\<close> is the class last written. The loop adds one class per iteration, or
  two when the sizes cross a multiple of the block size: an extra class for that multiple.
\<close>

definition set_size :: "SlabAllocator \<Rightarrow> nat \<Rightarrow> u32 \<Rightarrow> SlabAllocator option" where
  "set_size sb i sz = do {
     c \<leftarrow> class_of sb i;
     Some (set_class sb i (c\<lparr>sc_size := sz, sc_perslab := item_size_max sb div sz\<rparr>)) }"

fun init_loop :: "nat \<Rightarrow> nat \<Rightarrow> nat \<Rightarrow> SlabAllocator \<Rightarrow> nat \<Rightarrow> u32 \<Rightarrow> u32 \<Rightarrow> (SlabAllocator \<times> nat) option" where
  "init_loop 0 fnum fden sb i sz pre = None"
| "init_loop (Suc n) fnum fden sb i sz pre =
     (let i = i + 1
      in if \<not> (i < POWER_LARGEST \<and> unat sz * fnum \<le> unat (item_size_max sb) * fden) then Some (sb, i)
         else do {
           let sz = (if sz mod 8 \<noteq> 0 then sz + (8 - sz mod 8) else sz);
           (sb, i) \<leftarrow> (if pre div 512 < sz div 512 \<and> sz mod 512 \<noteq> 0
                       then map_option (\<lambda>sb. (sb, i + 1)) (set_size sb i (sz div 512 * 512))
                       else Some (sb, i));
           sb \<leftarrow> set_size sb i sz;
           init_loop n fnum fden sb i (of_nat (unat sz * fnum div fden)) sz })"

fun prealloc_loop :: "nat \<Rightarrow> SlabAllocator \<Rightarrow> nat \<Rightarrow> SlabAllocator option" where
  "prealloc_loop 0 sb i = Some sb"
| "prealloc_loop (Suc n) sb i = do {
     (ok, sb) \<leftarrow> do_slabs_newslab sb i;
     if ok then prealloc_loop n sb (i + 1) else None }"

definition slabs_preallocate :: "SlabAllocator \<Rightarrow> nat \<Rightarrow> SlabAllocator option" where
  "slabs_preallocate sb maxslabs = prealloc_loop (min maxslabs POWER_LARGEST) sb POWER_SMALLEST"

definition slabs_init :: "(u64 \<Rightarrow> ptr) \<Rightarrow> SlabAllocator \<Rightarrow> u64 \<Rightarrow> nat \<Rightarrow> nat \<Rightarrow> bool \<Rightarrow> (ptr \<times> SlabAllocator) option" where
  "slabs_init mm sb limit fnum fden prealloc = do {
     let sb = sb\<lparr>mem_limit := limit, mem_free := limit\<rparr>;
     let sb = (if prealloc
               then let b = mmap_malloc mm limit; sb = sb\<lparr>mem_base := b\<rparr>
                    in if b \<noteq> 0 then sb\<lparr>mem_current := b, mem_avail := limit\<rparr> else sb
               else sb);
     let sb = sb\<lparr>slabclass := replicate 201 new_slabclass\<rparr>;
     (sb, i) \<leftarrow> init_loop 201 fnum fden sb 0 (chunk_size sb) (chunk_size sb);
     c \<leftarrow> class_of sb i;
     let sb = (set_class sb i (c\<lparr>sc_size := item_size_max sb, sc_perslab := 1\<rparr>))\<lparr>power_largest := i\<rparr>;
     sb \<leftarrow> (if prealloc then slabs_preallocate sb i else Some sb);
     Some (mem_base sb, sb) }"

end
