(* ===== verification/Gam_State.thy ===== *)
theory Gam_State
  imports Gam_Directory Gam_Request Gam_Slabs
begin

text \<open>
  The state of a worker: \<^verbatim>\<open>gam/include/worker.h\<close>, the fields of \<^verbatim>\<open>gam/include/cache.h\<close> and of
  \<^verbatim>\<open>gam/include/client.h\<close>, and the primitives every handler uses: the heap of work requests, the
  work-request queues, \<^verbatim>\<open>SubmitRequest\<close> and the table of pending works.

  A handler is one step: it runs from its first to its last statement on an explicit state, the
  mutexes it takes are not part of the state. Objects reached through pointers live in maps: a
  \<^verbatim>\<open>WorkRequest*\<close> is a cell number of \<open>reqs\<close>, a \<^verbatim>\<open>CacheLine*\<close> the block address under which \<^verbatim>\<open>caches\<close>
  holds it, a \<^verbatim>\<open>Client*\<close> the identifier of the worker it is connected to. What the environment decides
  (\<^verbatim>\<open>rand\<close>, \<^verbatim>\<open>try_lock\<close>, the addresses \<^verbatim>\<open>zmalloc\<close> hands out, the effect of the functions on floating
  point data) is read from functions that are part of the state and never change; \<open>tick\<close> counts the
  questions asked. An operation returns \<open>None\<close> where the C++ dereferences a null or dangling pointer,
  lets an exception escape or calls \<^verbatim>\<open>exit\<close>.
\<close>

datatype CacheState =
  CACHE_NOT_EXIST | CACHE_INVALID | CACHE_SHARED | CACHE_DIRTY | CACHE_TO_INVALID | CACHE_TO_SHARED | CACHE_TO_DIRTY

record CacheLine =
  cl_line :: ptr
  cl_addr :: gaddr
  cl_state :: CacheState
  cl_locks :: locktab
  cl_next :: "gaddr option"
  cl_prev :: "gaddr option"
  cl_pos :: int

definition new_CacheLine :: CacheLine where
  "new_CacheLine = \<lparr>cl_line = 0, cl_addr = 0, cl_state = CACHE_INVALID, cl_locks = [],
     cl_next = None, cl_prev = None, cl_pos = -1\<rparr>"

record Fence =
  sfenced :: bool
  mfenced :: bool
  pending_writes :: int
  pending_fenced :: "nat list"
  in_process :: bool

definition new_Fence :: Fence where
  "new_Fence = \<lparr>sfenced = False, mfenced = False, pending_writes = 0, pending_fenced = [], in_process = False\<rparr>"

text \<open>A connection: to the master, or to a worker whose memory starts at \<open>cli_base\<close>.\<close>

datatype client = MasterClient | Peer i32

record ClientInfo =
  cli_base :: ptr
  cli_size :: u64
  cli_free :: u64

text \<open>
  \<^verbatim>\<open>SetMemStat(int size, int free)\<close>: the two sizes pass through an \<^verbatim>\<open>int\<close> and are stored sign extended.
\<close>

definition through_int :: "u64 \<Rightarrow> u64" where
  "through_int x = scast (ucast x :: i32)"

definition SetMemStat :: "ClientInfo \<Rightarrow> u64 \<Rightarrow> u64 \<Rightarrow> ClientInfo" where
  "SetMemStat c sz fr = c\<lparr>cli_size := through_int sz, cli_free := through_int fr\<rparr>"

text \<open>What a worker hands to the network, in order.\<close>

datatype outgoing =
    OSend client WorkRequest
  | OWrite client ptr "u8 list"
  | OWriteImm client ptr "u8 list" u32 "u32 option"

text \<open>
  The configuration keeps the cache share as a fraction \<^verbatim>\<open>cache_th\<close> of the size; the state has the two
  integers the code derives from the product, \<open>cache_size\<close> (rounded down, by conversion) and
  \<open>cache_reserve\<close> (rounded up, the bound of a comparison with the product).
\<close>

record access_stats =
  no_local_reads :: u64
  no_local_reads_hit :: u64
  no_local_writes :: u64
  no_local_writes_hit :: u64
  no_remote_reads :: u64
  no_remote_reads_hit :: u64
  no_remote_writes :: u64
  no_remote_writes_hit :: u64
  no_remote_writes_direct_hit :: u64

record Worker =
  reqs :: "nat \<rightharpoonup> WorkRequest"
  next_req :: nat
  mem :: memory
  directory :: directory
  caches :: "gaddr \<rightharpoonup> CacheLine"
  used_bytes :: u64
  to_evicted :: int
  max_cache_mem :: u64
  heads :: "nat \<Rightarrow> gaddr option"
  tails :: "nat \<Rightarrow> gaddr option"
  sb :: SlabAllocator
  pending_works :: "u32 \<rightharpoonup> nat"
  to_serve_requests :: "gaddr \<rightharpoonup> (client \<times> nat) list"
  to_serve_local_requests :: "gaddr \<rightharpoonup> nat list"
  fences :: "i32 \<rightharpoonup> Fence"
  widCliMap :: "(i32 \<times> ClientInfo) list"
  widCliMapWorker :: "i32 list"
  my_wid :: i32
  base :: ptr
  wsize :: u64
  wr_psn :: u32
  ghost_size :: u64
  cache_size :: u64
  cache_reserve :: u64
  conf_size :: u64
  ghost_th :: u64
  stats :: access_stats
  outbox :: "outgoing list"
  rand_at :: "nat \<Rightarrow> nat"
  try_lock_at :: "nat \<Rightarrow> bool"
  zmalloc_at :: "nat \<Rightarrow> ptr"
  float_gfunc :: "GFunc \<Rightarrow> memory \<Rightarrow> ptr \<Rightarrow> u64 \<Rightarrow> memory"
  tick :: nat

section \<open>The environment\<close>

definition GetRandom :: "Worker \<Rightarrow> nat \<Rightarrow> nat \<Rightarrow> nat \<times> Worker" where
  "GetRandom s lo hi = (lo + rand_at s (tick s) mod (hi - lo), s\<lparr>tick := tick s + 1\<rparr>)"

definition try_lock :: "Worker \<Rightarrow> bool \<times> Worker" where
  "try_lock s = (try_lock_at s (tick s), s\<lparr>tick := tick s + 1\<rparr>)"

definition zmalloc :: "Worker \<Rightarrow> ptr \<times> Worker" where
  "zmalloc s = (zmalloc_at s (tick s), s\<lparr>tick := tick s + 1\<rparr>)"

definition Incr_fun :: "memory \<Rightarrow> ptr \<Rightarrow> u64 \<Rightarrow> memory" where
  "Incr_fun m p arg = m(p := (if arg = 0 then m p + 1 else ucast ((ucast (m p) :: u64) + arg)))"

definition run_gfunc :: "Worker \<Rightarrow> GFunc option \<Rightarrow> ptr \<Rightarrow> u64 \<Rightarrow> Worker option" where
  "run_gfunc s g p arg = (case g of None \<Rightarrow> None
     | Some Incr \<Rightarrow> Some (s\<lparr>mem := Incr_fun (mem s) p arg\<rparr>)
     | Some f \<Rightarrow> Some (s\<lparr>mem := float_gfunc s f (mem s) p arg\<rparr>))"

section \<open>The heap of work requests\<close>

definition upd_wr :: "Worker \<Rightarrow> nat \<Rightarrow> (WorkRequest \<Rightarrow> WorkRequest) \<Rightarrow> Worker option" where
  "upd_wr s r f = map_option (\<lambda>w. s\<lparr>reqs := (reqs s)(r \<mapsto> f w)\<rparr>) (reqs s r)"

definition alloc_wr :: "Worker \<Rightarrow> WorkRequest \<Rightarrow> nat \<times> Worker" where
  "alloc_wr s w = (next_req s, s\<lparr>reqs := (reqs s)(next_req s \<mapsto> w), next_req := next_req s + 1\<rparr>)"

definition delete_wr :: "Worker \<Rightarrow> nat \<Rightarrow> Worker" where
  "delete_wr s r = s\<lparr>reqs := (reqs s)(r := None)\<rparr>"

text \<open>\<^verbatim>\<open>new WorkRequest(*wr)\<close> and \<^verbatim>\<open>wr->Copy()\<close>.\<close>

definition clone_wr :: "Worker \<Rightarrow> nat \<Rightarrow> (nat \<times> Worker) option" where
  "clone_wr s r = map_option (\<lambda>w. alloc_wr s (copy_WorkRequest w)) (reqs s r)"

definition Copy_wr :: "Worker \<Rightarrow> nat \<Rightarrow> (nat \<times> Worker) option" where
  "Copy_wr s r = do {
     let (buf, s) = zmalloc s;
     (h, m, r') \<leftarrow> Copy (reqs s) (mem s) r (next_req s) buf;
     Some (r', s\<lparr>reqs := h, mem := m, next_req := next_req s + 1\<rparr>) }"

text \<open>\<^verbatim>\<open>if (wr->flag & ASYNC) { if (!wr->IsACopy()) { wr = wr->Copy(); } }\<close>\<close>

definition async_copy :: "Worker \<Rightarrow> nat \<Rightarrow> (nat \<times> Worker) option" where
  "async_copy s r = do {
     w \<leftarrow> reqs s r;
     if has w ASYNC \<and> \<not> IsACopy w then Copy_wr s r else Some (r, s) }"

section \<open>Addresses and clients\<close>

definition IsLocal :: "Worker \<Rightarrow> gaddr \<Rightarrow> bool" where
  "IsLocal s a \<longleftrightarrow> WID a = wid64 (my_wid s)"

definition ToLocal :: "Worker \<Rightarrow> gaddr \<Rightarrow> ptr" where
  "ToLocal s a = TO_LOCAL a (base s)"

definition ToGlobal :: "Worker \<Rightarrow> ptr \<Rightarrow> gaddr" where
  "ToGlobal s p = TO_GLOB p (base s) (my_wid s)"

definition cli_info :: "Worker \<Rightarrow> client \<Rightarrow> ClientInfo option" where
  "cli_info s c = (case c of MasterClient \<Rightarrow> None | Peer w \<Rightarrow> map_of (widCliMap s) w)"

text \<open>\<^verbatim>\<open>Client::ToLocal\<close> and \<^verbatim>\<open>Client::ToGlobal\<close>.\<close>

definition cli_ToLocal :: "Worker \<Rightarrow> client \<Rightarrow> gaddr \<Rightarrow> ptr option" where
  "cli_ToLocal s c a = map_option (\<lambda>i. TO_LOCAL a (cli_base i)) (cli_info s c)"

definition cli_ToGlobal :: "Worker \<Rightarrow> client \<Rightarrow> ptr \<Rightarrow> gaddr option" where
  "cli_ToGlobal s c p = (case c of MasterClient \<Rightarrow> None
     | Peer w \<Rightarrow> map_option (\<lambda>i. if p \<noteq> 0 then TO_GLOB p (cli_base i) w else EMPTY_GLOB w) (map_of (widCliMap s) w))"

definition cli_wid :: "Worker \<Rightarrow> client \<Rightarrow> i32" where
  "cli_wid s c = (case c of MasterClient \<Rightarrow> my_wid s | Peer w \<Rightarrow> w)"

text \<open>
  \<^verbatim>\<open>GetClient\<close>: the connection to the home of an address, or, for the null address, to the worker
  with most free memory. The result \<open>None\<close> is the null pointer.
\<close>

fun most_free :: "Worker \<Rightarrow> i32 list \<Rightarrow> u64 \<Rightarrow> client option \<Rightarrow> client option" where
  "most_free s [] mx cli = cli"
| "most_free s (w # ws) mx cli =
     (if w = my_wid s then most_free s ws mx cli
      else case map_of (widCliMap s) w of
             None \<Rightarrow> most_free s ws mx cli
           | Some i \<Rightarrow> if mx < cli_free i then most_free s ws (cli_free i) (Some (Peer w)) else most_free s ws mx cli)"

definition GetClient :: "Worker \<Rightarrow> gaddr \<Rightarrow> client option" where
  "GetClient s a =
     (if widCliMap s = [] then None
      else if a \<noteq> 0
      then (let wid = (ucast (WID a) :: i32) in map_option (\<lambda>_. Peer wid) (map_of (widCliMap s) wid))
      else most_free s (widCliMapWorker s) 0 None)"

section \<open>Sending and pending works\<close>

definition REQUEST_WRITE_IMM :: u32 where "REQUEST_WRITE_IMM = 1"
definition REQUEST_SEND :: u32 where "REQUEST_SEND = 2"
definition REQUEST_NO_ID :: u32 where "REQUEST_NO_ID = 16"
definition ADD_TO_PENDING :: u32 where "ADD_TO_PENDING = 32"

definition emit :: "Worker \<Rightarrow> outgoing \<Rightarrow> Worker" where
  "emit s m = s\<lparr>outbox := outbox s @ [m]\<rparr>"

definition GetWorkPsn :: "Worker \<Rightarrow> u32 \<times> Worker" where
  "GetWorkPsn s =
     (let r = wr_psn s + 1
      in if r = 0 then (1, s\<lparr>wr_psn := 1\<rparr>) else (r, s\<lparr>wr_psn := r\<rparr>))"

definition AddToPending :: "Worker \<Rightarrow> u32 \<Rightarrow> nat \<Rightarrow> Worker" where
  "AddToPending s i r = s\<lparr>pending_works := (pending_works s)(i \<mapsto> r)\<rparr>"

definition ErasePendingWork :: "Worker \<Rightarrow> u32 \<Rightarrow> Worker" where
  "ErasePendingWork s i = s\<lparr>pending_works := (pending_works s)(i := None)\<rparr>"

definition GetPendingWork :: "Worker \<Rightarrow> u32 \<Rightarrow> nat option" where
  "GetPendingWork s i = pending_works s i"

definition is_reply :: "Work \<Rightarrow> bool" where
  "is_reply op \<longleftrightarrow> work_code op AND work_code REPLY \<noteq> 0"

text \<open>
  \<^verbatim>\<open>SubmitRequest\<close>. The message is the request as it stands when it is sent. \<open>cli\<close> is the null
  pointer when it is \<open>None\<close>.
\<close>

definition SubmitRequest ::
    "Worker \<Rightarrow> client option \<Rightarrow> nat \<Rightarrow> u32 \<Rightarrow> ptr \<Rightarrow> ptr \<Rightarrow> nat \<Rightarrow> u32 \<Rightarrow> Worker option" where
  "SubmitRequest s cli r flag dest src sz imm = do {
     s \<leftarrow> upd_wr s r (\<lambda>w. w\<lparr>wr_wid := my_wid s\<rparr>);
     w \<leftarrow> reqs s r;
     s \<leftarrow> (if is_reply (wr_op w) \<or> flag AND REQUEST_NO_ID \<noteq> 0 then Some s
          else let (i, s) = GetWorkPsn s in upd_wr s r (\<lambda>w. w\<lparr>wr_id := i\<rparr>));
     w \<leftarrow> reqs s r;
     let s = (if flag AND ADD_TO_PENDING \<noteq> 0 then AddToPending s (wr_id w) r else s);
     c \<leftarrow> cli;
     if flag AND REQUEST_WRITE_IMM \<noteq> 0
     then Some (emit s (OWriteImm c dest (mem_read (mem s) src sz) imm
                 (if flag AND ADD_TO_PENDING \<noteq> 0 then Some (wr_id w) else None)))
     else if flag AND REQUEST_SEND \<noteq> 0 then Some (emit s (OSend c w))
     else None }"

text \<open>The two forms most handlers use: a request that waits for its reply, and one sent as it is.\<close>

definition SubmitPending :: "Worker \<Rightarrow> client option \<Rightarrow> nat \<Rightarrow> Worker option" where
  "SubmitPending s cli r = SubmitRequest s cli r (ADD_TO_PENDING OR REQUEST_SEND) 0 0 0 0"

definition SubmitPlain :: "Worker \<Rightarrow> client option \<Rightarrow> nat \<Rightarrow> Worker option" where
  "SubmitPlain s cli r = SubmitRequest s cli r (REQUEST_SEND OR REQUEST_NO_ID) 0 0 0 0"

definition cli_Write :: "Worker \<Rightarrow> client \<Rightarrow> ptr \<Rightarrow> ptr \<Rightarrow> nat \<Rightarrow> Worker" where
  "cli_Write s c dest src n = emit s (OWrite c dest (mem_read (mem s) src n))"

definition cli_WriteWithImm :: "Worker \<Rightarrow> client \<Rightarrow> ptr \<Rightarrow> ptr \<Rightarrow> nat \<Rightarrow> u32 \<Rightarrow> u32 option \<Rightarrow> Worker" where
  "cli_WriteWithImm s c dest src n imm i = emit s (OWriteImm c dest (mem_read (mem s) src n) imm i)"

section \<open>Waiting requests and fences\<close>

definition AddToServeLocalRequest :: "Worker \<Rightarrow> gaddr \<Rightarrow> nat \<Rightarrow> Worker" where
  "AddToServeLocalRequest s a r = s\<lparr>to_serve_local_requests := (to_serve_local_requests s)
     (a \<mapsto> (case to_serve_local_requests s a of Some q \<Rightarrow> q @ [r] | None \<Rightarrow> [r]))\<rparr>"

definition AddToServeRemoteRequest :: "Worker \<Rightarrow> gaddr \<Rightarrow> client \<Rightarrow> nat \<Rightarrow> Worker" where
  "AddToServeRemoteRequest s a c r = s\<lparr>to_serve_requests := (to_serve_requests s)
     (a \<mapsto> (case to_serve_requests s a of Some q \<Rightarrow> q @ [(c, r)] | None \<Rightarrow> [(c, r)]))\<rparr>"

definition IsFenced :: "Fence \<Rightarrow> WorkRequest \<Rightarrow> bool" where
  "IsFenced f w \<longleftrightarrow> (mfenced f \<or> sfenced f) \<and> \<not> has w REPEATED \<and> \<not> has w TO_SERVE \<and> \<not> has w FENCE"

definition IsMFenced :: "Fence \<Rightarrow> WorkRequest \<Rightarrow> bool" where
  "IsMFenced f w \<longleftrightarrow> mfenced f \<and> \<not> has w REPEATED \<and> \<not> has w TO_SERVE \<and> \<not> has w FENCE"

definition upd_fence :: "Worker \<Rightarrow> i32 \<Rightarrow> (Fence \<Rightarrow> Fence) \<Rightarrow> Worker option" where
  "upd_fence s fd f = map_option (\<lambda>x. s\<lparr>fences := (fences s)(fd \<mapsto> f x)\<rparr>) (fences s fd)"

definition RegisterFence :: "Worker \<Rightarrow> i32 \<Rightarrow> Worker" where
  "RegisterFence s fd = s\<lparr>fences := (fences s)(fd \<mapsto> new_Fence)\<rparr>"

definition AddToFence :: "Worker \<Rightarrow> i32 \<Rightarrow> nat \<Rightarrow> Worker option" where
  "AddToFence s fd r = do {
     w \<leftarrow> reqs s r;
     (n, s) \<leftarrow> (if has w ASYNC then Copy_wr s r else Some (r, s));
     s \<leftarrow> upd_wr s n (\<lambda>w. set_flag w FENCE);
     upd_fence s fd (\<lambda>f. f\<lparr>pending_fenced := pending_fenced f @ [n]\<rparr>) }"

section \<open>What the primitives do\<close>

lemmas request_flags = REQUEST_SEND_def REQUEST_NO_ID_def ADD_TO_PENDING_def REQUEST_WRITE_IMM_def

text \<open>A message sent as it is carries the sender's identifier; the request keeps its own.\<close>

lemma SubmitPlain_eq:
  "reqs s r = Some w \<Longrightarrow> SubmitPlain s (Some c) r =
    Some (s\<lparr>reqs := (reqs s)(r \<mapsto> w\<lparr>wr_wid := my_wid s\<rparr>), outbox := outbox s @ [OSend c (w\<lparr>wr_wid := my_wid s\<rparr>)]\<rparr>)"
  by (simp add: SubmitPlain_def SubmitRequest_def upd_wr_def emit_def request_flags)

text \<open>The identifier the next request gets, never 0.\<close>

definition next_psn :: "Worker \<Rightarrow> u32" where
  "next_psn s = fst (GetWorkPsn s)"

lemma GetWorkPsn_eq: "GetWorkPsn s = (next_psn s, s\<lparr>wr_psn := next_psn s\<rparr>)"
  by (simp add: next_psn_def GetWorkPsn_def Let_def)

lemma next_psn_nonzero [simp]: "next_psn s \<noteq> 0"
  by (simp add: next_psn_def GetWorkPsn_def Let_def)

lemma next_psn_upd [simp]:
  "next_psn (s\<lparr>reqs := h\<rparr>) = next_psn s" "next_psn (s\<lparr>directory := d\<rparr>) = next_psn s"
  "next_psn (s\<lparr>outbox := b\<rparr>) = next_psn s" "next_psn (s\<lparr>mem := m\<rparr>) = next_psn s"
  "next_psn (s\<lparr>next_req := n\<rparr>) = next_psn s" "next_psn (s\<lparr>caches := c\<rparr>) = next_psn s"
  by (simp_all add: next_psn_def GetWorkPsn_def Let_def)

lemma SubmitPending_eq:
  assumes "reqs s r = Some w" "\<not> is_reply (wr_op w)"
  shows "SubmitPending s (Some c) r = (let v = w\<lparr>wr_wid := my_wid s, wr_id := next_psn s\<rparr> in
    Some (s\<lparr>reqs := (reqs s)(r \<mapsto> v), wr_psn := next_psn s,
            pending_works := (pending_works s)(next_psn s \<mapsto> r), outbox := outbox s @ [OSend c v]\<rparr>))"
  using assms
  by (simp add: SubmitPending_def SubmitRequest_def upd_wr_def emit_def GetWorkPsn_eq AddToPending_def request_flags Let_def)

lemma is_reply_iff:
  "is_reply op \<longleftrightarrow> op \<in> {REPLY, MALLOC_REPLY, FETCH_MEM_STATS_REPLY, READ_REPLY, WRITE_REPLY, LOCK_REPLY, FREE_REPLY, GET_REPLY}
     \<or> (\<exists>c. op = OTHER_WORK c \<and> c AND 65536 \<noteq> 0)"
  by (cases op) (simp_all add: is_reply_def work_code_def work_list_def reply_list_def)

text \<open>A worker with identifier 1, no blocks in use and connections to the workers 2, 3 and 4.\<close>

definition idle_worker :: Worker where
  "idle_worker = \<lparr>reqs = Map.empty, next_req = 0, mem = (\<lambda>_. 0), directory = Map.empty, caches = Map.empty,
     used_bytes = 0, to_evicted = 0, max_cache_mem = 1048576, heads = (\<lambda>_. None), tails = (\<lambda>_. None),
     sb = new_SlabAllocator, pending_works = Map.empty, to_serve_requests = Map.empty,
     to_serve_local_requests = Map.empty, fences = [7 \<mapsto> new_Fence],
     widCliMap = [(2, \<lparr>cli_base = 131072, cli_size = 1000000, cli_free = 5000\<rparr>),
                  (3, \<lparr>cli_base = 131072, cli_size = 1000000, cli_free = 7000\<rparr>),
                  (4, \<lparr>cli_base = 131072, cli_size = 1000000, cli_free = 6000\<rparr>)],
     widCliMapWorker = [2, 3, 4], my_wid = 1, base = 65536, wsize = 1048576, wr_psn = 41, ghost_size = 0,
     cache_size = 0, cache_reserve = 0, conf_size = 1048576, ghost_th = 1048576,
     stats = \<lparr>no_local_reads = 0, no_local_reads_hit = 0, no_local_writes = 0, no_local_writes_hit = 0,
       no_remote_reads = 0, no_remote_reads_hit = 0, no_remote_writes = 0, no_remote_writes_hit = 0,
       no_remote_writes_direct_hit = 0\<rparr>,
     outbox = [], rand_at = (\<lambda>_. 0), try_lock_at = (\<lambda>_. True), zmalloc_at = (\<lambda>_. 4096), float_gfunc = (\<lambda>_ m _ _. m),
     tick = 0\<rparr>"

end
