(* ===== verification/Gam_Cache_Line.thy ===== *)
theory Gam_Cache_Line
  imports Gam_State
begin

text \<open>
  Cache lines: the per-line operations of \<^verbatim>\<open>gam/include/cache.h\<close> and \<^verbatim>\<open>gam/src/cache.cc\<close>, that is the
  line states, the locks taken on a cached block, the least-recently-used lists and the creation and
  destruction of lines. A \<^verbatim>\<open>CacheLine*\<close> is the block address under which \<^verbatim>\<open>caches\<close> holds the line.
\<close>

definition LRU_NUM :: nat where "LRU_NUM = 10"
definition sample_num :: nat where "sample_num = LRU_NUM"

definition upd_line :: "Worker \<Rightarrow> gaddr \<Rightarrow> (CacheLine \<Rightarrow> CacheLine) \<Rightarrow> Worker option" where
  "upd_line s c f = map_option (\<lambda>l. s\<lparr>caches := (caches s)(c \<mapsto> f l)\<rparr>) (caches s c)"

definition GetCLine :: "Worker \<Rightarrow> gaddr \<Rightarrow> gaddr option" where
  "GetCLine s a = map_option (\<lambda>_. TOBLOCK a) (caches s (TOBLOCK a))"

definition Cache_GetLine :: "Worker \<Rightarrow> gaddr \<Rightarrow> ptr" where
  "Cache_GetLine s a = (case caches s (TOBLOCK a) of Some l \<Rightarrow> cl_line l | None \<Rightarrow> 0)"

definition Cache_GetState :: "Worker \<Rightarrow> gaddr \<Rightarrow> CacheState" where
  "Cache_GetState s a = (case caches s (TOBLOCK a) of Some l \<Rightarrow> cl_state l | None \<Rightarrow> CACHE_NOT_EXIST)"

definition Cache_InTransition :: "CacheState \<Rightarrow> bool" where
  "Cache_InTransition st \<longleftrightarrow> st = CACHE_TO_DIRTY \<or> st = CACHE_TO_INVALID \<or> st = CACHE_TO_SHARED"

definition Cache_IsDirty :: "Worker \<Rightarrow> gaddr \<Rightarrow> bool" where
  "Cache_IsDirty s a \<longleftrightarrow> Cache_GetState s a = CACHE_DIRTY"

section \<open>The lists of lines in order of use\<close>

text \<open>Putting a line at the head of list \<open>i\<close>.\<close>

definition link_at :: "Worker \<Rightarrow> gaddr \<Rightarrow> nat \<Rightarrow> Worker option" where
  "link_at s c i = do {
     s \<leftarrow> upd_line s c (\<lambda>l. l\<lparr>cl_pos := int i, cl_prev := None, cl_next := heads s i\<rparr>);
     s \<leftarrow> (case heads s i of None \<Rightarrow> Some s | Some n \<Rightarrow> upd_line s n (\<lambda>l. l\<lparr>cl_prev := Some c\<rparr>));
     let s = s\<lparr>heads := (heads s)(i := Some c)\<rparr>;
     Some (if tails s i = None then s\<lparr>tails := (tails s)(i := Some c)\<rparr> else s) }"

text \<open>
  Which list \<^verbatim>\<open>LinkLRU\<close> takes: a random one whose lock it gets within \<open>sample_num\<close> tries, else the first
  one it can lock, else a random one it waits for.
\<close>

fun pick_random :: "nat \<Rightarrow> Worker \<Rightarrow> nat option \<times> Worker" where
  "pick_random 0 s = (None, s)"
| "pick_random (Suc j) s =
     (let (i, s) = GetRandom s 0 LRU_NUM; (ok, s) = try_lock s
      in if ok then (Some i, s) else pick_random j s)"

fun pick_first :: "nat \<Rightarrow> Worker \<Rightarrow> nat option \<times> Worker" where
  "pick_first 0 s = (None, s)"
| "pick_first (Suc j) s =
     (let (ok, s) = try_lock s in if ok then (Some (LRU_NUM - Suc j), s) else pick_first j s)"

definition lru_pick :: "Worker \<Rightarrow> nat \<times> Worker" where
  "lru_pick s = (case pick_random sample_num s of
       (Some i, s) \<Rightarrow> (i, s)
     | (None, s) \<Rightarrow> (case pick_first LRU_NUM s of
           (Some i, s) \<Rightarrow> (i, s)
         | (None, s) \<Rightarrow> GetRandom s 0 LRU_NUM))"

definition LinkLRU :: "Worker \<Rightarrow> gaddr \<Rightarrow> Worker option" where
  "LinkLRU s c = (let (i, s) = lru_pick s in link_at s c i)"

definition UnLinkLRU_at :: "Worker \<Rightarrow> gaddr \<Rightarrow> nat \<Rightarrow> Worker option" where
  "UnLinkLRU_at s c i = do {
     l \<leftarrow> caches s c;
     let s = (if heads s i = Some c then s\<lparr>heads := (heads s)(i := cl_next l)\<rparr> else s);
     let s = (if tails s i = Some c then s\<lparr>tails := (tails s)(i := cl_prev l)\<rparr> else s);
     s \<leftarrow> (case cl_next l of None \<Rightarrow> Some s | Some n \<Rightarrow> upd_line s n (\<lambda>x. x\<lparr>cl_prev := cl_prev l\<rparr>));
     s \<leftarrow> (case cl_prev l of None \<Rightarrow> Some s | Some p \<Rightarrow> upd_line s p (\<lambda>x. x\<lparr>cl_next := cl_next l\<rparr>));
     upd_line s c (\<lambda>x. x\<lparr>cl_next := None, cl_prev := None\<rparr>) }"

definition UnLinkLRU :: "Worker \<Rightarrow> gaddr \<Rightarrow> Worker option" where
  "UnLinkLRU s c = do {
     l \<leftarrow> caches s c;
     if cl_pos l \<noteq> -1
     then do { s \<leftarrow> upd_line s c (\<lambda>l. l\<lparr>cl_pos := -1\<rparr>); UnLinkLRU_at s c (nat (cl_pos l)) }
     else Some s }"

section \<open>State changes\<close>

definition Cache_ToShared :: "Worker \<Rightarrow> gaddr \<Rightarrow> Worker option" where
  "Cache_ToShared s c = do {
     l \<leftarrow> caches s c;
     s \<leftarrow> (if cl_state l = CACHE_TO_SHARED then LinkLRU s c else Some s);
     upd_line s c (\<lambda>l. l\<lparr>cl_state := CACHE_SHARED\<rparr>) }"

definition Cache_ToDirty :: "Worker \<Rightarrow> gaddr \<Rightarrow> Worker option" where
  "Cache_ToDirty s c = do {
     s \<leftarrow> upd_line s c (\<lambda>l. l\<lparr>cl_state := CACHE_DIRTY\<rparr>);
     LinkLRU s c }"

definition Cache_ToToInvalid :: "Worker \<Rightarrow> gaddr \<Rightarrow> Worker option" where
  "Cache_ToToInvalid s c = do {
     s \<leftarrow> upd_line s c (\<lambda>l. l\<lparr>cl_state := CACHE_TO_INVALID\<rparr>);
     Some (s\<lparr>to_evicted := to_evicted s + 1\<rparr>) }"

definition Cache_ToToShared :: "Worker \<Rightarrow> gaddr \<Rightarrow> Worker option" where
  "Cache_ToToShared s c = upd_line s c (\<lambda>l. l\<lparr>cl_state := CACHE_TO_SHARED\<rparr>)"

definition Cache_ToToDirty :: "Worker \<Rightarrow> gaddr \<Rightarrow> Worker option" where
  "Cache_ToToDirty s c = upd_line s c (\<lambda>l. l\<lparr>cl_state := CACHE_TO_DIRTY\<rparr>)"

definition Cache_UndoShared :: "Worker \<Rightarrow> gaddr \<Rightarrow> Worker option" where
  "Cache_UndoShared s c = upd_line s c (\<lambda>l. l\<lparr>cl_state := CACHE_SHARED\<rparr>)"

text \<open>\<^verbatim>\<open>ToInvalid\<close> gives the memory of the line back and deletes the line.\<close>

definition Cache_ToInvalid :: "Worker \<Rightarrow> gaddr \<Rightarrow> Worker option" where
  "Cache_ToInvalid s c = do {
     l \<leftarrow> caches s c;
     (_, m, a) \<leftarrow> sb_free (mem s) (sb s) (cl_line l);
     let s = s\<lparr>mem := m, sb := a, used_bytes := used_bytes s - BLOCK_SIZE\<rparr>;
     s \<leftarrow> UnLinkLRU s c;
     Some (s\<lparr>caches := (caches s)(cl_addr l := None)\<rparr>) }"

text \<open>
  The forms that take an address look the line up with \<^verbatim>\<open>caches.at\<close>; the exception for a missing line
  is caught and logged.
\<close>

definition by_addr :: "(Worker \<Rightarrow> gaddr \<Rightarrow> Worker option) \<Rightarrow> Worker \<Rightarrow> gaddr \<Rightarrow> Worker option" where
  "by_addr f s a = (case caches s (TOBLOCK a) of Some _ \<Rightarrow> f s (TOBLOCK a) | None \<Rightarrow> Some s)"

definition Cache_ToShared_a where "Cache_ToShared_a = by_addr Cache_ToShared"
definition Cache_UndoShared_a where "Cache_UndoShared_a = by_addr Cache_UndoShared"
definition Cache_ToDirty_a where "Cache_ToDirty_a = by_addr Cache_ToDirty"
definition Cache_ToToShared_a where "Cache_ToToShared_a = by_addr Cache_ToToShared"
definition Cache_ToToInvalid_a where "Cache_ToToInvalid_a = by_addr Cache_ToToInvalid"
definition Cache_ToToDirty_a where "Cache_ToToDirty_a = by_addr Cache_ToToDirty"

text \<open>\<^verbatim>\<open>ToInvalid(GAddr)\<close> also catches the exception of the allocator for memory it does not know.\<close>

definition Cache_ToInvalid_a :: "Worker \<Rightarrow> gaddr \<Rightarrow> Worker option" where
  "Cache_ToInvalid_a s a = (case caches s (TOBLOCK a) of
     None \<Rightarrow> Some s
   | Some l \<Rightarrow>
       if mem_limit (sb s) \<noteq> 0 \<and> stats_map (sb s) (cl_line l) = None then Some s
       else Cache_ToInvalid s (TOBLOCK a))"

text \<open>\<^verbatim>\<open>SetCLine\<close>: the line of a block, created with zeroed memory when the block has none.\<close>

definition SetCLine :: "Worker \<Rightarrow> gaddr \<Rightarrow> ptr \<Rightarrow> (gaddr \<times> Worker) option" where
  "SetCLine s a line =
     (let block = TOBLOCK a
      in case caches s block of
           Some l \<Rightarrow>
             (if line \<noteq> 0
              then do {
                (_, m, al) \<leftarrow> sb_free (mem s) (sb s) (cl_line l);
                let s = s\<lparr>mem := m, sb := al, used_bytes := used_bytes s - BLOCK_SIZE\<rparr>;
                s \<leftarrow> upd_line s block (\<lambda>l. l\<lparr>cl_line := line, cl_addr := block\<rparr>);
                Some (block, s) }
              else Some (block, s))
         | None \<Rightarrow>
             (if line \<noteq> 0
              then Some (block, s\<lparr>caches := (caches s)(block \<mapsto> new_CacheLine\<lparr>cl_line := line\<rparr>)\<rparr>)
              else do {
                (p, m, al) \<leftarrow> sb_aligned_calloc (mem s) (sb s) 1 BLOCK_SIZE BLOCK_SIZE;
                let s = s\<lparr>mem := m, sb := al, used_bytes := used_bytes s + BLOCK_SIZE\<rparr>;
                Some (block, s\<lparr>caches := (caches s)(block \<mapsto> new_CacheLine\<lparr>cl_line := p, cl_addr := block\<rparr>)\<rparr>) }))"

definition Cache_SetLine :: "Worker \<Rightarrow> gaddr \<Rightarrow> ptr \<Rightarrow> (ptr \<times> Worker) option" where
  "Cache_SetLine s a line = do {
     (c, s) \<leftarrow> SetCLine s a line;
     l \<leftarrow> caches s c;
     Some (cl_line l, s) }"

section \<open>Locks on a cached block\<close>

definition Cache_IsWLocked_l :: "CacheLine \<Rightarrow> gaddr \<Rightarrow> bool" where
  "Cache_IsWLocked_l l a \<longleftrightarrow> map_of (cl_locks l) a = Some EXCLUSIVE_LOCK_TAG"

definition Cache_IsRLocked_l :: "CacheLine \<Rightarrow> gaddr \<Rightarrow> bool" where
  "Cache_IsRLocked_l l a = (case map_of (cl_locks l) a of None \<Rightarrow> False | Some n \<Rightarrow> n \<noteq> EXCLUSIVE_LOCK_TAG)"

definition Cache_RLock_l :: "CacheLine \<Rightarrow> gaddr \<Rightarrow> int \<times> CacheLine" where
  "Cache_RLock_l l a =
     (if Cache_IsWLocked_l l a then (-1, l) else (0, l\<lparr>cl_locks := tab_incr (cl_locks l) a\<rparr>))"

definition Cache_WLock_l :: "CacheLine \<Rightarrow> gaddr \<Rightarrow> int \<times> CacheLine" where
  "Cache_WLock_l l a =
     (if Cache_IsWLocked_l l a \<or> Cache_IsRLocked_l l a then (-1, l)
      else (0, l\<lparr>cl_locks := AList.update a EXCLUSIVE_LOCK_TAG (cl_locks l)\<rparr>))"

definition Cache_RLock :: "Worker \<Rightarrow> gaddr \<Rightarrow> int \<times> Worker" where
  "Cache_RLock s a = (case caches s (TOBLOCK a) of
     None \<Rightarrow> (-1, s)
   | Some l \<Rightarrow> (let (r, l') = Cache_RLock_l l a in (r, s\<lparr>caches := (caches s)(TOBLOCK a \<mapsto> l')\<rparr>)))"

definition Cache_WLock :: "Worker \<Rightarrow> gaddr \<Rightarrow> int \<times> Worker" where
  "Cache_WLock s a = (case caches s (TOBLOCK a) of
     None \<Rightarrow> (-1, s)
   | Some l \<Rightarrow> (let (r, l') = Cache_WLock_l l a in (r, s\<lparr>caches := (caches s)(TOBLOCK a \<mapsto> l')\<rparr>)))"

definition Cache_IsWLocked :: "Worker \<Rightarrow> gaddr \<Rightarrow> bool" where
  "Cache_IsWLocked s a = (case caches s (TOBLOCK a) of None \<Rightarrow> False | Some l \<Rightarrow> Cache_IsWLocked_l l a)"

definition Cache_IsRLocked :: "Worker \<Rightarrow> gaddr \<Rightarrow> bool" where
  "Cache_IsRLocked s a = (case caches s (TOBLOCK a) of None \<Rightarrow> False | Some l \<Rightarrow> Cache_IsRLocked_l l a)"

definition Cache_IsBlockLocked_l :: "CacheLine \<Rightarrow> bool" where
  "Cache_IsBlockLocked_l l \<longleftrightarrow> length (cl_locks l) > 0"

definition Cache_IsBlockWLocked_l :: "CacheLine \<Rightarrow> bool" where
  "Cache_IsBlockWLocked_l l = tab_wlocked (cl_locks l)"

definition Cache_IsBlockLocked :: "Worker \<Rightarrow> gaddr \<Rightarrow> bool" where
  "Cache_IsBlockLocked s b = (case caches s b of None \<Rightarrow> False | Some l \<Rightarrow> Cache_IsBlockLocked_l l)"

definition Cache_IsBlockWLocked :: "Worker \<Rightarrow> gaddr \<Rightarrow> bool" where
  "Cache_IsBlockWLocked s b = (case caches s b of None \<Rightarrow> False | Some l \<Rightarrow> Cache_IsBlockWLocked_l l)"

text \<open>A missing line or a missing lock makes \<^verbatim>\<open>at\<close> throw; the exception is caught and logged.\<close>

definition Cache_UnLock_l :: "CacheLine \<Rightarrow> gaddr \<Rightarrow> CacheLine" where
  "Cache_UnLock_l l a = (case map_of (cl_locks l) a of
     None \<Rightarrow> l
   | Some n \<Rightarrow>
       if n = EXCLUSIVE_LOCK_TAG then l\<lparr>cl_locks := AList.delete a (cl_locks l)\<rparr>
       else let t = AList.update a (n - 1) (cl_locks l)
            in l\<lparr>cl_locks := (if n - 1 = 0 then AList.delete a t else t)\<rparr>)"

definition Cache_UnLock :: "Worker \<Rightarrow> gaddr \<Rightarrow> Worker" where
  "Cache_UnLock s a = (case caches s (TOBLOCK a) of
     None \<Rightarrow> s
   | Some l \<Rightarrow> s\<lparr>caches := (caches s)(TOBLOCK a \<mapsto> Cache_UnLock_l l a)\<rparr>)"

section \<open>The locks of cached blocks refine a reader/writer lock\<close>

text \<open>The lock state of an address of the block, read from the line's table.\<close>

definition line_view :: "CacheLine \<Rightarrow> gaddr \<Rightarrow> rwstate" where
  "line_view l a = tab_view (cl_locks l) a"

lemma Cache_UnLock_l_tab:
  "tab_view (cl_locks l) a \<noteq> Free \<Longrightarrow> Cache_UnLock_l l a = l\<lparr>cl_locks := tab_unlock (cl_locks l) a\<rparr>"
  by (auto simp: Cache_UnLock_l_def tab_unlock_def tab_view_Free delete_update_same Let_def split: option.splits)

lemma Cache_IsRLocked_view:
  "tab_inv (cl_locks l) \<Longrightarrow> Cache_IsRLocked_l l a \<longleftrightarrow> (\<exists>n. tab_view (cl_locks l) a = Reading n)"
  by (auto simp: Cache_IsRLocked_l_def tab_view_def split: option.splits)

interpretation cached: rw_lock_table Cache_RLock_l Cache_WLock_l Cache_UnLock_l line_view
  "\<lambda>l. tab_inv (cl_locks l)" 254
proof
  fix l :: CacheLine and a
  assume i: "tab_inv (cl_locks l)"
  show "(fst (Cache_WLock_l l a) = 0 \<longleftrightarrow> fst (spec_wlock (line_view l a))) \<and>
      line_view (snd (Cache_WLock_l l a)) = (line_view l)(a := snd (spec_wlock (line_view l a)))"
    using i by (cases "tab_view (cl_locks l) a")
      (auto simp: Cache_WLock_l_def Cache_IsWLocked_l_def Cache_IsRLocked_view line_view_def fun_eq_iff
        tab_view_update_tag simp flip: tab_view_Writing)
  show "tab_inv (cl_locks (snd (Cache_WLock_l l a)))"
    using i by (auto simp: Cache_WLock_l_def EXCLUSIVE_LOCK_TAG_def intro!: tab_inv_update)
  assume n: "line_view l a \<noteq> Reading 254"
  have r: "tab_view (cl_locks l) a = Writing \<or> fst (spec_rlock (tab_view (cl_locks l) a))"
    by (cases "tab_view (cl_locks l) a") auto
  show "(fst (Cache_RLock_l l a) = 0 \<longleftrightarrow> fst (spec_rlock (line_view l a))) \<and>
      line_view (snd (Cache_RLock_l l a)) = (line_view l)(a := snd (spec_rlock (line_view l a)))"
    using i n r tab_incr_view(1) [OF i]
    by (cases "tab_view (cl_locks l) a = Writing")
      (auto simp: Cache_RLock_l_def Cache_IsWLocked_l_def line_view_def fun_eq_iff simp flip: tab_view_Writing)
  show "tab_inv (cl_locks (snd (Cache_RLock_l l a)))"
    using i n tab_incr_view(2) [OF i]
    by (auto simp: Cache_RLock_l_def Cache_IsWLocked_l_def line_view_def simp flip: tab_view_Writing)
next
  fix l :: CacheLine and a
  assume "tab_inv (cl_locks l)" "line_view l a \<noteq> Free"
  then show "line_view (Cache_UnLock_l l a) = (line_view l)(a := spec_unlock (line_view l a))"
    "tab_inv (cl_locks (Cache_UnLock_l l a))"
    by (auto simp: Cache_UnLock_l_tab line_view_def tab_unlock_view tab_unlock_inv fun_eq_iff)
qed

text \<open>
  C9. Locks on a cached block. Every sequence of \<^verbatim>\<open>RLock\<close>, \<^verbatim>\<open>WLock\<close> and \<^verbatim>\<open>UnLock\<close> calls on a line answers exactly as
  the abstract reader/writer lock does and ends in the state it prescribes, for every address of the
  block at once, as long as no address has more than 254 readers and only held locks are given back.
\<close>

theorem cached_locks_refine:
  assumes "tab_inv (cl_locks l)" "spec_ok 254 (line_view l) ops"
  shows "fst (rw_run Cache_RLock_l Cache_WLock_l Cache_UnLock_l l ops) = fst (spec_run (line_view l) ops) \<and>
    line_view (snd (rw_run Cache_RLock_l Cache_WLock_l Cache_UnLock_l l ops)) = snd (spec_run (line_view l) ops) \<and>
    tab_inv (cl_locks (snd (rw_run Cache_RLock_l Cache_WLock_l Cache_UnLock_l l ops)))"
  using assms by (rule cached.run_refines)

theorem cached_locks_refine_witness:
  "fst (rw_run Cache_RLock_l Cache_WLock_l Cache_UnLock_l new_CacheLine
      [(WLockOp, 520), (RLockOp, 520), (RLockOp, 528), (UnLockOp, 520), (RLockOp, 520), (WLockOp, 528)])
     = [True, False, True, True, True, False]"
proof -
  have "tab_inv (cl_locks new_CacheLine)" "line_view new_CacheLine = (\<lambda>_. Free)"
    by (simp_all add: new_CacheLine_def line_view_def fun_eq_iff)
  then show ?thesis
    using cached_locks_refine [of new_CacheLine "[(WLockOp, 520), (RLockOp, 520), (RLockOp, 528), (UnLockOp, 520), (RLockOp, 520), (WLockOp, 528)]"] by simp
qed

end
