(* ===== verification/Gam_Cache.thy ===== *)
theory Gam_Cache
  imports Gam_Cache_Line
begin

text \<open>
  The cache of remote blocks: the entry points \<^verbatim>\<open>ReadWrite\<close>, \<^verbatim>\<open>Lock\<close> and \<^verbatim>\<open>Evict\<close> of
  \<^verbatim>\<open>gam/src/cache.cc\<close>. A block that is present and stable is served from its line; for any other
  block a request goes to its home and the line waits in a transition state.
\<close>

section \<open>Eviction\<close>

text \<open>
  \<^verbatim>\<open>Evict(CacheLine*)\<close>: a shared line is dropped and its home told; a dirty one is written back and
  waits for the home's reply.
\<close>

definition Evict_line :: "Worker \<Rightarrow> gaddr \<Rightarrow> Worker option" where
  "Evict_line s c = do {
     l \<leftarrow> caches s c;
     let (r, s) = alloc_wr s (new_WorkRequest\<lparr>wr_addr := cl_addr l, wr_ptr := cl_line l\<rparr>);
     let cli = GetClient s (cl_addr l);
     if cl_state l = CACHE_SHARED
     then do {
       s \<leftarrow> upd_wr s r (\<lambda>w. w\<lparr>wr_op := ACTIVE_INVALIDATE\<rparr>);
       s \<leftarrow> Cache_ToInvalid s c;
       s \<leftarrow> SubmitPlain s cli r;
       Some (delete_wr s r) }
     else if cl_state l = CACHE_DIRTY
     then do {
       s \<leftarrow> upd_wr s r (\<lambda>w. w\<lparr>wr_op := WRITE_BACK\<rparr>);
       cl \<leftarrow> cli;
       dest \<leftarrow> cli_ToLocal s cl (cl_addr l);
       let s = cli_Write s cl dest (cl_line l) (unat BLOCK_SIZE);
       s \<leftarrow> Cache_ToToInvalid s c;
       SubmitPending s cli r }
     else Some s }"

text \<open>
  The search for a victim from the tail of a list: a line whose block lock is free, that is
  unlocked and stable; \<open>tries\<close> lines are looked at.
\<close>

fun evict_scan :: "nat \<Rightarrow> Worker \<Rightarrow> gaddr option \<Rightarrow> (gaddr option \<times> Worker) option" where
  "evict_scan 0 s c = Some (None, s)"
| "evict_scan (Suc n) s c = (case c of
     None \<Rightarrow> Some (None, s)
   | Some b \<Rightarrow> do {
       l \<leftarrow> caches s b;
       let (ok, s) = try_lock s;
       if ok \<and> \<not> (length (cl_locks l) > 0 \<or> Cache_InTransition (cl_state l))
       then Some (Some b, s)
       else evict_scan n s (cl_prev l) })"

fun evict_loop :: "nat \<Rightarrow> Worker \<Rightarrow> Worker option" where
  "evict_loop 0 s = Some s"
| "evict_loop (Suc n) s =
     (let (lru_no, s) = GetRandom s 0 LRU_NUM; (ok, s) = try_lock s
      in if \<not> ok then evict_loop n s
         else case tails s lru_no of
                None \<Rightarrow> Some s
              | Some t \<Rightarrow> do {
                  (v, s) \<leftarrow> evict_scan 1 s (Some t);
                  (case v of
                     None \<Rightarrow> evict_loop n s
                   | Some c \<Rightarrow> do {
                       l \<leftarrow> caches s c;
                       s \<leftarrow> (if cl_pos l < 0 then None else UnLinkLRU_at s c (nat (cl_pos l)));
                       s \<leftarrow> Evict_line s c;
                       evict_loop n s }) })"

text \<open>
  The bytes in use beyond those already being evicted, as the signed 64-bit number of the code.
\<close>

definition cache_used :: "Worker \<Rightarrow> int" where
  "cache_used s = sint (used_bytes s - of_int (to_evicted s) * BLOCK_SIZE)"

definition Evict_n :: "Worker \<Rightarrow> int \<Rightarrow> Worker option" where
  "Evict_n s n =
     (let used = cache_used s
      in if used < 0 \<or> used \<le> uint (max_cache_mem s) then Some s
         else let mx = sint (ucast ((of_int used - max_cache_mem s) div BLOCK_SIZE) :: i32);
                  n = (if n > mx then mx else n);
                  n = (if n > 16 then 16 else n)
              in evict_loop (nat n) s)"

text \<open>\<^verbatim>\<open>Evict()\<close>, run periodically.\<close>

definition Evict :: "Worker \<Rightarrow> Worker option" where
  "Evict s =
     (let used = cache_used s
      in if used > 0 \<and> used > uint (max_cache_mem s)
         then Evict_n s (sint (ucast ((of_int used - max_cache_mem s) div BLOCK_SIZE) :: i32))
         else Some s)"

section \<open>Reads and writes\<close>

text \<open>
  One iteration of a handler's loop either goes on, possibly with a copy of the request in place of
  the original, or returns a status.
\<close>

datatype 'a flow = Go 'a | Return i32

text \<open>
  The addresses of the segment of block \<open>i\<close>: in the line, \<^verbatim>\<open>cline->line + GMINUS(gs, i)\<close>, and in the
  caller's buffer, \<^verbatim>\<open>wr->ptr + GMINUS(gs, start)\<close>.
\<close>

definition seg_line :: "CacheLine \<Rightarrow> gaddr \<Rightarrow> gaddr \<Rightarrow> ptr" where
  "seg_line l start i = cl_line l + GMINUS (seg_start start i) i"

definition seg_buf :: "WorkRequest \<Rightarrow> gaddr \<Rightarrow> gaddr \<Rightarrow> ptr" where
  "seg_buf w start i = wr_ptr w + GMINUS (seg_start start i) start"

definition mcpy :: "Worker \<Rightarrow> ptr \<Rightarrow> ptr \<Rightarrow> nat \<Rightarrow> Worker" where
  "mcpy s dst src n = s\<lparr>mem := memcpy (mem s) dst src n\<rparr>"

definition relink :: "Worker \<Rightarrow> gaddr \<Rightarrow> Worker option" where
  "relink s c = do { s \<leftarrow> UnLinkLRU s c; LinkLRU s c }"

definition miss :: "Worker \<Rightarrow> nat \<Rightarrow> Worker option" where
  "miss s r = upd_wr s r (\<lambda>w. w\<lparr>wr_hit := False\<rparr>)"

text \<open>
  The request sent home for block \<open>i\<close> on behalf of \<open>r\<close>: a clone of the request for the whole block,
  with the line as its buffer. The parent is the request, or its copy when it is asynchronous.
\<close>

definition block_request :: "Worker \<Rightarrow> nat \<Rightarrow> Work option \<Rightarrow> i32 \<Rightarrow> gaddr \<Rightarrow> ptr \<Rightarrow> (nat \<times> nat \<times> Worker) option" where
  "block_request s r op fl i p = do {
     (lr, s) \<leftarrow> clone_wr s r;
     s \<leftarrow> upd_wr s lr (\<lambda>w. (set_flag w fl)\<lparr>wr_counter := 0, wr_op := (case op of Some x \<Rightarrow> x | None \<Rightarrow> wr_op w),
            wr_addr := i, wr_size := BLOCK_SIZE, wr_ptr := p\<rparr>);
     s \<leftarrow> miss s r;
     (r, s) \<leftarrow> async_copy s r;
     s \<leftarrow> upd_wr s lr (\<lambda>w. w\<lparr>wr_parent := Some r\<rparr>);
     s \<leftarrow> upd_wr s r (\<lambda>w. w\<lparr>wr_counter := wr_counter w + 1\<rparr>);
     Some (lr, r, s) }"

definition ReadWrite_hit ::
    "Worker \<Rightarrow> client option \<Rightarrow> nat \<Rightarrow> gaddr \<Rightarrow> gaddr \<Rightarrow> gaddr \<Rightarrow> gaddr \<Rightarrow> CacheLine \<Rightarrow> (nat flow \<times> Worker) option" where
  "ReadWrite_hit s cli r start e i c l = do {
     w \<leftarrow> reqs s r;
     let cs = seg_line l start i;
     let ls = seg_buf w start i;
     let len = seg_len start e i;
     let state = cl_state l;
     if (state = CACHE_TO_INVALID \<and> wr_op w = READ)
        \<or> (state = CACHE_TO_DIRTY \<and> wr_op w = READ \<and> Cache_IsBlockLocked_l l)
     then Some (Go r, mcpy s ls cs len)
     else if Cache_InTransition state
     then do {
       s \<leftarrow> upd_wr s r (\<lambda>w. w\<lparr>wr_counter := wr_counter w + 1\<rparr>);
       (r, s) \<leftarrow> async_copy s r;
       Some (Return 1, AddToServeLocalRequest s i r) }
     else if wr_op w = READ
     then do { s \<leftarrow> relink (mcpy s ls cs len) c; Some (Go r, s) }
     else if wr_op w = WRITE
     then (if state \<noteq> CACHE_DIRTY
           then do {
             s \<leftarrow> miss s r;
             (lr, r, s) \<leftarrow> block_request s r (Some WRITE_PERMISSION_ONLY) CACHED i (cl_line l);
             s \<leftarrow> Cache_ToToDirty s c;
             s \<leftarrow> UnLinkLRU s c;
             let s = (if has w GFUNC then s else mcpy s cs ls len);
             s \<leftarrow> SubmitPending s cli lr;
             Some (Go r, s) }
           else do {
             s \<leftarrow> (if has w GFUNC then run_gfunc s (wr_gfunc w) cs (wr_arg w) else Some (mcpy s cs ls len));
             s \<leftarrow> relink s c;
             Some (Go r, s) })
     else Some (Go r, s) }"

definition ReadWrite_miss :: "Worker \<Rightarrow> client option \<Rightarrow> nat \<Rightarrow> gaddr \<Rightarrow> (nat flow \<times> Worker) option" where
  "ReadWrite_miss s cli r i = do {
     w \<leftarrow> reqs s r;
     (c, s) \<leftarrow> SetCLine s i 0;
     l \<leftarrow> caches s c;
     (lr, r', s) \<leftarrow> block_request s r None CACHED i (cl_line l);
     s \<leftarrow> (if wr_op w = READ then Cache_ToToShared s c else Cache_ToToDirty s c);
     s \<leftarrow> SubmitPending s cli lr;
     Some (Go r', s) }"

text \<open>The loop, which also counts the lines it has created.\<close>

fun rw_loop :: "Worker \<Rightarrow> client option \<Rightarrow> nat \<Rightarrow> gaddr \<Rightarrow> gaddr \<Rightarrow> gaddr list \<Rightarrow> int \<Rightarrow> (nat flow \<times> int \<times> Worker) option" where
  "rw_loop s cli r start e [] n = Some (Go r, n, s)"
| "rw_loop s cli r start e (i # is) n = do {
     (fl, n', s) \<leftarrow> (case GetCLine s i of
        Some c \<Rightarrow> do {
          l \<leftarrow> caches s c;
          (fl, s) \<leftarrow> ReadWrite_hit s cli r start e i c l;
          Some (fl, n, s) }
      | None \<Rightarrow> do { (fl, s) \<leftarrow> ReadWrite_miss s cli r i; Some (fl, n + 1, s) });
     (case fl of
        Return x \<Rightarrow> Some (Return x, n', s)
      | Go r \<Rightarrow> rw_loop s cli r start e is n') }"

definition serve_dec :: "Worker \<Rightarrow> nat \<Rightarrow> Worker option" where
  "serve_dec s r = do {
     w \<leftarrow> reqs s r;
     if has w TO_SERVE then upd_wr s r (\<lambda>w. w\<lparr>wr_counter := wr_counter w - 1\<rparr>) else Some s }"

definition Cache_ReadWrite :: "Worker \<Rightarrow> nat \<Rightarrow> (i32 \<times> Worker) option" where
  "Cache_ReadWrite s r = do {
     w \<leftarrow> reqs s r;
     let start = wr_addr w;
     let cli = GetClient s start;
     s \<leftarrow> serve_dec s r;
     is \<leftarrow> blocks_of start (wr_size w);
     (fl, newcline, s) \<leftarrow> rw_loop s cli r start (GADD start (wr_size w)) is 0;
     (case fl of
        Return x \<Rightarrow> Some (x, s)
      | Go r \<Rightarrow> do {
          w \<leftarrow> reqs s r;
          s \<leftarrow> (if newcline \<noteq> 0 then Evict_n s newcline else Some s);
          Some (wr_counter w, s) }) }"

definition Cache_Read :: "Worker \<Rightarrow> nat \<Rightarrow> (i32 \<times> Worker) option" where
  "Cache_Read s r = Cache_ReadWrite s r"

definition Cache_Write :: "Worker \<Rightarrow> nat \<Rightarrow> (i32 \<times> Worker) option" where
  "Cache_Write s r = Cache_ReadWrite s r"

section \<open>Locks\<close>

text \<open>What a request does whose lock is taken: a try reports failure, any other waits.\<close>

definition lock_busy :: "Worker \<Rightarrow> nat \<Rightarrow> gaddr \<Rightarrow> (i32 \<times> Worker) option" where
  "lock_busy s r i = do {
     s \<leftarrow> miss s r;
     w \<leftarrow> reqs s r;
     if has w TRY_LOCK
     then do { s \<leftarrow> upd_wr s r (\<lambda>w. w\<lparr>wr_status := LOCK_FAILED\<rparr>); Some (SUCCESS, s) }
     else Some (IN_TRANSITION, AddToServeLocalRequest s i r) }"

definition lock_counter :: "Worker \<Rightarrow> nat \<Rightarrow> (i32 \<times> Worker) option" where
  "lock_counter s r = map_option (\<lambda>w. (wr_counter w, s)) (reqs s r)"

definition Cache_Lock_hit :: "Worker \<Rightarrow> client option \<Rightarrow> nat \<Rightarrow> gaddr \<Rightarrow> gaddr \<Rightarrow> CacheLine \<Rightarrow> (i32 \<times> Worker) option" where
  "Cache_Lock_hit s cli r i c l = do {
     w \<leftarrow> reqs s r;
     if Cache_InTransition (cl_state l)
     then do { s \<leftarrow> miss s r; Some (1, AddToServeLocalRequest s i r) }
     else if wr_op w = RLOCK
     then (let (ret, l') = Cache_RLock_l l (wr_addr w)
           in if ret \<noteq> 0 then lock_busy s r i
              else do {
                s \<leftarrow> upd_line s c (\<lambda>_. l');
                s \<leftarrow> relink s c;
                lock_counter s r })
     else if wr_op w = WLOCK
     then (if cl_state l \<noteq> CACHE_DIRTY
           then do {
             s \<leftarrow> miss s r;
             (lr, r, s) \<leftarrow> block_request s r (Some WRITE_PERMISSION_ONLY) (CACHED OR LOCKED) i (cl_line l);
             s \<leftarrow> Cache_ToToDirty s c;
             s \<leftarrow> SubmitPending s cli lr;
             s \<leftarrow> UnLinkLRU s c;
             lock_counter s r }
           else do {
             s \<leftarrow> relink s c;
             l \<leftarrow> caches s c;
             let (ret, l') = Cache_WLock_l l (wr_addr w);
             if ret \<noteq> 0 then lock_busy s r i
             else do {
               s \<leftarrow> upd_line s c (\<lambda>_. l');
               lock_counter s r } })
     else lock_counter s r }"

definition Cache_Lock :: "Worker \<Rightarrow> nat \<Rightarrow> (i32 \<times> Worker) option" where
  "Cache_Lock s r = do {
     w \<leftarrow> reqs s r;
     let i = TOBLOCK (wr_addr w);
     let cli = GetClient s (wr_addr w);
     (case GetCLine s i of
        Some c \<Rightarrow> do { l \<leftarrow> caches s c; Cache_Lock_hit s cli r i c l }
      | None \<Rightarrow> do {
          (c, s) \<leftarrow> SetCLine s i 0;
          l \<leftarrow> caches s c;
          s \<leftarrow> miss s r;
          (lr, r, s) \<leftarrow> block_request s r (Some (if wr_op w = RLOCK then READ else WRITE)) (CACHED OR LOCKED) i (cl_line l);
          s \<leftarrow> (if wr_op w = RLOCK then Cache_ToToShared s c else Cache_ToToDirty s c);
          s \<leftarrow> SubmitPending s cli lr;
          w \<leftarrow> reqs s r;
          s \<leftarrow> Evict_n s 1;
          Some (wr_counter w, s) }) }"

definition Cache_RLock_wr :: "Worker \<Rightarrow> nat \<Rightarrow> (i32 \<times> Worker) option" where
  "Cache_RLock_wr s r = Cache_Lock s r"

definition Cache_WLock_wr :: "Worker \<Rightarrow> nat \<Rightarrow> (i32 \<times> Worker) option" where
  "Cache_WLock_wr s r = Cache_Lock s r"

end
