(* ===== verification/Gam_Worker.thy ===== *)
theory Gam_Worker
  imports Gam_Cache
begin

text \<open>
  The worker's own services, from \<^verbatim>\<open>gam/src/worker.cc\<close>: telling an application thread that its
  request is done, resuming the requests held back by a fence or by a block in transition, the
  report of free memory to the master, and completed RDMA writes.

  Serving a waiting request runs the handlers again, which may serve further requests. The handlers
  therefore take the two entry points \<^verbatim>\<open>ProcessLocalRequest\<close> and \<^verbatim>\<open>ProcessRequest\<close> as arguments
  (\<open>plr\<close>, \<open>prq\<close>); they are tied together in the root of the development, where the depth of that
  recursion is bounded by a number of fuel units. The number \<open>n\<close> bounds the loops over a fence's
  queue in the same way.
\<close>

type_synonym local_handler = "Worker \<Rightarrow> nat \<Rightarrow> (i32 \<times> Worker) option"
type_synonym remote_handler = "Worker \<Rightarrow> client \<Rightarrow> nat \<Rightarrow> Worker option"

definition bump :: "Worker \<Rightarrow> (access_stats \<Rightarrow> access_stats) \<Rightarrow> Worker" where
  "bump s f = s\<lparr>stats := f (stats s)\<rparr>"

section \<open>Fences\<close>

text \<open>
  The loop of \<^verbatim>\<open>ProcessFenced\<close> over the queue of a fence. It returns whether the queue is fenced again.
  A fence is popped; a lock operation that finds writes pending stays at the front; every other
  request is processed, then popped.
\<close>

definition pop_fenced :: "Worker \<Rightarrow> i32 \<Rightarrow> Worker option" where
  "pop_fenced s fd = upd_fence s fd (\<lambda>f. f\<lparr>pending_fenced := tl (pending_fenced f)\<rparr>)"

fun fenced_loop :: "nat \<Rightarrow> local_handler \<Rightarrow> Worker \<Rightarrow> i32 \<Rightarrow> (bool \<times> Worker) option" where
  "fenced_loop 0 plr s fd = None"
| "fenced_loop (Suc n) plr s fd = do {
     f \<leftarrow> fences s fd;
     (case pending_fenced f of
        [] \<Rightarrow> Some (False, s)
      | r # _ \<Rightarrow> do {
          w \<leftarrow> reqs s r;
          if wr_op w = MFENCE
          then (if pending_writes f \<noteq> 0
                then do {
                  s \<leftarrow> upd_fence s fd (\<lambda>f. f\<lparr>mfenced := True, sfenced := False\<rparr>);
                  s \<leftarrow> pop_fenced s fd;
                  Some (True, s) }
                else do { s \<leftarrow> pop_fenced s fd; fenced_loop n plr s fd })
          else if wr_op w = SFENCE
          then (if pending_writes f \<noteq> 0
                then do {
                  s \<leftarrow> upd_fence s fd (\<lambda>f. f\<lparr>sfenced := True, mfenced := False\<rparr>);
                  s \<leftarrow> pop_fenced s fd;
                  Some (True, s) }
                else do { s \<leftarrow> pop_fenced s fd; fenced_loop n plr s fd })
          else if (wr_op w = RLOCK \<or> wr_op w = WLOCK \<or> wr_op w = UNLOCK) \<and> pending_writes f \<noteq> 0
          then do {
            s \<leftarrow> upd_fence s fd (\<lambda>f. f\<lparr>sfenced := False, mfenced := True\<rparr>);
            Some (True, s) }
          else do {
            (_, s) \<leftarrow> plr s r;
            s \<leftarrow> pop_fenced s fd;
            fenced_loop n plr s fd } }) }"

definition ProcessFenced :: "nat \<Rightarrow> local_handler \<Rightarrow> Worker \<Rightarrow> i32 \<Rightarrow> Worker option" where
  "ProcessFenced n plr s fd = do {
     f \<leftarrow> fences s fd;
     if \<not> in_process f \<and> pending_writes f = 0 \<and> (mfenced f \<or> sfenced f)
     then do {
       s \<leftarrow> upd_fence s fd (\<lambda>f. f\<lparr>in_process := True\<rparr>);
       (fenced, s) \<leftarrow> fenced_loop n plr s fd;
       upd_fence s fd (\<lambda>f. if fenced then f\<lparr>in_process := False\<rparr>
                            else f\<lparr>mfenced := False, sfenced := False, in_process := False\<rparr>) }
     else Some s }"

section \<open>Completing a request\<close>

definition count_write :: "Worker \<Rightarrow> WorkRequest \<Rightarrow> Worker" where
  "count_write s w =
     (if IsLocal s (wr_addr w)
      then bump s (\<lambda>t. t\<lparr>no_local_writes := no_local_writes t + 1,
             no_local_writes_hit := no_local_writes_hit t + (if wr_hit w then 1 else 0)\<rparr>)
      else bump s (\<lambda>t. t\<lparr>no_remote_writes := no_remote_writes t + 1,
             no_remote_writes_hit := no_remote_writes_hit t + (if wr_hit w then 1 else 0)\<rparr>))"

definition count_read :: "Worker \<Rightarrow> WorkRequest \<Rightarrow> Worker" where
  "count_read s w =
     (if IsLocal s (wr_addr w)
      then bump s (\<lambda>t. t\<lparr>no_local_reads := no_local_reads t + 1,
             no_local_reads_hit := no_local_reads_hit t + (if wr_hit w then 1 else 0)\<rparr>)
      else bump s (\<lambda>t. t\<lparr>no_remote_reads := no_remote_reads t + 1,
             no_remote_reads_hit := no_remote_reads_hit t + (if wr_hit w then 1 else 0)\<rparr>))"

text \<open>
  \<^verbatim>\<open>Notify\<close>: an asynchronous request settles its fence and is deleted; the thread of a synchronous one
  is woken through its buffer.
\<close>

definition Notify :: "nat \<Rightarrow> local_handler \<Rightarrow> Worker \<Rightarrow> nat \<Rightarrow> Worker option" where
  "Notify n plr s r = do {
     w \<leftarrow> reqs s r;
     let s = (if wr_op w = WRITE \<or> wr_op w = WLOCK then count_write s w else s);
     let s = (if wr_op w = READ \<or> wr_op w = RLOCK then count_read s w else s);
     if has w ASYNC
     then do {
       s \<leftarrow> (if wr_op w = WRITE
            then upd_fence s (wr_fd w) (\<lambda>f. f\<lparr>pending_writes := pending_writes f - 1\<rparr>)
            else map_option (\<lambda>_. s) (fences s (wr_fd w)));
       s \<leftarrow> ProcessFenced n plr s (wr_fd w);
       w \<leftarrow> reqs s r;
       if has w COPY
       then do { (r', s) \<leftarrow> Copy_wr s r; _ \<leftarrow> reqs s r'; Some (delete_wr s r') }
       else Some s }
     else if wr_notify_buf w = 0 then None
     else Some (s\<lparr>mem := mem_write (mem s) (wr_notify_buf w) (le_bytes 4 2)\<rparr>) }"

text \<open>Serving the requests that wait for block \<open>TOBLOCK a\<close>: the local ones, then the remote ones.\<close>

fun serve_local :: "local_handler \<Rightarrow> Worker \<Rightarrow> nat list \<Rightarrow> Worker option" where
  "serve_local plr s [] = Some s"
| "serve_local plr s (r # rs) = do {
     s \<leftarrow> upd_wr s r (\<lambda>w. set_flag w TO_SERVE);
     (_, s) \<leftarrow> plr s r;
     serve_local plr s rs }"

fun serve_remote :: "remote_handler \<Rightarrow> Worker \<Rightarrow> (client \<times> nat) list \<Rightarrow> Worker option" where
  "serve_remote prq s [] = Some s"
| "serve_remote prq s ((c, r) # rs) = do {
     s \<leftarrow> upd_wr s r (\<lambda>w. set_flag w TO_SERVE);
     s \<leftarrow> prq s c r;
     serve_remote prq s rs }"

definition ProcessToServeRequest :: "local_handler \<Rightarrow> remote_handler \<Rightarrow> Worker \<Rightarrow> gaddr \<Rightarrow> Worker option" where
  "ProcessToServeRequest plr prq s a = do {
     let block = TOBLOCK a;
     s \<leftarrow> (case to_serve_local_requests s block of
            None \<Rightarrow> Some s
          | Some q \<Rightarrow> serve_local plr (s\<lparr>to_serve_local_requests := (to_serve_local_requests s)(block := None)\<rparr>) q);
     (case to_serve_requests s block of
        None \<Rightarrow> Some s
      | Some q \<Rightarrow> serve_remote prq (s\<lparr>to_serve_requests := (to_serve_requests s)(block := None)\<rparr>) q) }"

text \<open>\<^verbatim>\<open>CompletionCheck\<close>: the RDMA write of a pending work has completed.\<close>

definition CompletionCheck :: "local_handler \<Rightarrow> remote_handler \<Rightarrow> Worker \<Rightarrow> u32 \<Rightarrow> Worker option" where
  "CompletionCheck plr prq s i = (case pending_works s i of
     None \<Rightarrow> Some s
   | Some r \<Rightarrow> do {
       w \<leftarrow> reqs s r;
       let s = ErasePendingWork s i;
       if wr_op w = PENDING_INVALIDATE
       then do {
         s \<leftarrow> Cache_ToInvalid_a s (wr_addr w);
         s \<leftarrow> ProcessToServeRequest plr prq s (wr_addr w);
         Some (delete_wr s r) }
       else Some s })"

section \<open>Reporting to the master\<close>

text \<open>
  \<^verbatim>\<open>SyncMaster\<close> with \<^verbatim>\<open>UPDATE_MEM_STATS\<close> or \<^verbatim>\<open>FETCH_MEM_STATS\<close>; any other operation exits. A worker
  configured as cache only (\<^verbatim>\<open>cache_th == 1\<close>, so that its cache size is its whole size) reports nothing.
\<close>

definition SyncMaster :: "Worker \<Rightarrow> Work \<Rightarrow> nat option \<Rightarrow> Worker option" where
  "SyncMaster s op parent =
     (let (r, s) = alloc_wr s (new_WorkRequest\<lparr>wr_parent := parent, wr_op := op\<rparr>)
      in if op = UPDATE_MEM_STATS
         then (if cache_size s = conf_size s then Some s
               else do {
                 s \<leftarrow> upd_wr s r (\<lambda>w. w\<lparr>wr_size := conf_size s - cache_size s,
                        wr_addr := get_avail (sb s) - (cache_size s - used_bytes s)\<rparr>);
                 s \<leftarrow> SubmitPlain s (Some MasterClient) r;
                 Some (delete_wr (s\<lparr>ghost_size := 0\<rparr>) r) })
         else if op = FETCH_MEM_STATS
         then do { s \<leftarrow> SubmitPlain s (Some MasterClient) r; Some (delete_wr s r) }
         else None)"

end
