(* ===== verification/Gam_Local.thy ===== *)
theory Gam_Local
  imports Gam_Worker
begin

text \<open>
  The requests of the application threads of a worker: \<^verbatim>\<open>gam/src/local_request.cc\<close> and
  \<^verbatim>\<open>gam/src/local_request_cache.cc\<close>. A block whose home is this worker is served from memory under
  its directory entry; a block that another worker holds dirty, or that is shared when it is to be
  written, is fetched or invalidated first; a block with another home goes through the cache.
\<close>

definition inc_counter :: "Worker \<Rightarrow> nat \<Rightarrow> Worker option" where
  "inc_counter s r = upd_wr s r (\<lambda>w. w\<lparr>wr_counter := wr_counter w + 1\<rparr>)"

definition set_dir :: "Worker \<Rightarrow> directory \<Rightarrow> Worker" where
  "set_dir s d = s\<lparr>directory := d\<rparr>"

text \<open>
  \<^verbatim>\<open>if (wr->flag & TO_SERVE || wr->flag & FENCE) Notify(wr)\<close>: a request of the thread that is still
  in its call needs no notification.
\<close>

definition notify_deferred :: "nat \<Rightarrow> local_handler \<Rightarrow> Worker \<Rightarrow> nat \<Rightarrow> (Worker \<Rightarrow> Worker) \<Rightarrow> (i32 \<times> Worker) option" where
  "notify_deferred n plr s r direct = do {
     w \<leftarrow> reqs s r;
     if has w TO_SERVE \<or> has w FENCE
     then do { s \<leftarrow> Notify n plr s r; Some (SUCCESS, s) }
     else Some (SUCCESS, direct s) }"

section \<open>Allocation\<close>

definition charge_client :: "Worker \<Rightarrow> client \<Rightarrow> u64 \<Rightarrow> Worker" where
  "charge_client s c sz = (case c of MasterClient \<Rightarrow> s
     | Peer w \<Rightarrow> s\<lparr>widCliMap := map (\<lambda>(v, i). if v = w then (v, SetMemStat i (cli_size i) (cli_free i - sz)) else (v, i)) (widCliMap s)\<rparr>)"

definition malloc_at :: "Worker \<Rightarrow> client \<Rightarrow> nat \<Rightarrow> u64 \<Rightarrow> (i32 \<times> Worker) option" where
  "malloc_at s c r sz = do {
     s \<leftarrow> SubmitPending (charge_client s c sz) (Some c) r;
     Some (REMOTE_REQUEST, s) }"

text \<open>The random choice of a worker with enough free memory: \<open>Some None\<close> is this worker itself.\<close>

fun random_worker :: "nat \<Rightarrow> Worker \<Rightarrow> u64 \<Rightarrow> client option option \<times> Worker" where
  "random_worker 0 s sz = (None, s)"
| "random_worker (Suc n) s sz =
     (let (k, s) = GetRandom s 0 (length (widCliMapWorker s)); w = widCliMapWorker s ! k
      in if w = my_wid s then (Some None, s)
         else case map_of (widCliMap s) w of
                Some i \<Rightarrow> if sz \<le> cli_free i then (Some (Some (Peer w)), s) else random_worker n s sz
              | None \<Rightarrow> random_worker n s sz)"

text \<open>
  The local allocation. The memory is cleared before the pointer is checked, so an allocation that
  fails faults, unless no byte was asked for.
\<close>

definition malloc_here :: "nat \<Rightarrow> local_handler \<Rightarrow> Worker \<Rightarrow> nat \<Rightarrow> (i32 \<times> Worker) option" where
  "malloc_here n plr s r = do {
     w \<leftarrow> reqs s r;
     (a, al) \<leftarrow> (if has w ALIGNED then sb_aligned_malloc (sb s) (wr_size w) BLOCK_SIZE
                 else sb_malloc (sb s) (wr_size w));
     let s = s\<lparr>sb := al\<rparr>;
     s \<leftarrow> (if a = 0 \<and> wr_size w \<noteq> 0 then None
          else Some (s\<lparr>mem := memset (mem s) a 0 (unat (wr_size w))\<rparr>));
     s \<leftarrow> (if a \<noteq> 0
          then do {
            s \<leftarrow> upd_wr s r (\<lambda>w. w\<lparr>wr_addr := TO_GLOB a (base s) (my_wid s), wr_status := SUCCESS\<rparr>);
            let s = s\<lparr>ghost_size := ghost_size s + wr_size w\<rparr>;
            if ghost_size s > ghost_th s then SyncMaster s UPDATE_MEM_STATS None else Some s }
          else upd_wr s r (\<lambda>w. w\<lparr>wr_status := ALLOC_ERROR\<rparr>));
     notify_deferred n plr s r (\<lambda>s. s) }"

definition malloc_local :: "nat \<Rightarrow> local_handler \<Rightarrow> Worker \<Rightarrow> nat \<Rightarrow> (i32 \<times> Worker) option" where
  "malloc_local n plr s r = do {
     w \<leftarrow> reqs s r;
     if used_bytes s + get_avail (sb s) < cache_reserve s
     then do { c \<leftarrow> GetClient s 0; malloc_at s c r (wr_size w) }
     else malloc_here n plr s r }"

definition ProcessLocalMalloc :: "nat \<Rightarrow> local_handler \<Rightarrow> Worker \<Rightarrow> nat \<Rightarrow> (i32 \<times> Worker) option" where
  "ProcessLocalMalloc n plr s r = do {
     w \<leftarrow> reqs s r;
     if has w REMOTE \<or> (wr_addr w \<noteq> 0 \<and> \<not> IsLocal s (wr_addr w))
     then (case GetClient s (wr_addr w) of
             None \<Rightarrow> malloc_local n plr s r
           | Some c \<Rightarrow> malloc_at s c r (wr_size w))
     else if has w RANDOM
     then (let (pick, s) = random_worker (length (widCliMapWorker s)) s (wr_size w);
               cli = (case pick of Some c \<Rightarrow> c | None \<Rightarrow> GetClient s (wr_addr w))
           in case cli of Some c \<Rightarrow> malloc_at s c r (wr_size w) | None \<Rightarrow> malloc_local n plr s r)
     else malloc_local n plr s r }"

definition ProcessLocalFree :: "nat \<Rightarrow> local_handler \<Rightarrow> Worker \<Rightarrow> nat \<Rightarrow> (i32 \<times> Worker) option" where
  "ProcessLocalFree n plr s r = do {
     w \<leftarrow> reqs s r;
     s \<leftarrow> (if IsLocal s (wr_addr w)
          then do {
            (sz, m, al) \<leftarrow> sb_free (mem s) (sb s) (ToLocal s (wr_addr w));
            let s = s\<lparr>mem := m, sb := al, ghost_size := ghost_size s - sz\<rparr>;
            if ghost_size s > ghost_th s then SyncMaster s UPDATE_MEM_STATS None else Some s }
          else case GetClient s (wr_addr w) of
                 None \<Rightarrow> upd_wr s r (\<lambda>w. w\<lparr>wr_status := ALLOC_ERROR\<rparr>)
               | Some c \<Rightarrow> SubmitPlain s (Some c) r);
     notify_deferred n plr s r (\<lambda>s. s) }"

section \<open>Fences\<close>

definition ProcessLocalMFence :: "nat \<Rightarrow> local_handler \<Rightarrow> Worker \<Rightarrow> nat \<Rightarrow> (i32 \<times> Worker) option" where
  "ProcessLocalMFence n plr s r = do {
     w \<leftarrow> reqs s r;
     f \<leftarrow> fences s (wr_fd w);
     if IsFenced f w then do { s \<leftarrow> AddToFence s (wr_fd w) r; Some (SUCCESS, s) }
     else do {
       s \<leftarrow> upd_fence s (wr_fd w) (\<lambda>f. if pending_writes f \<noteq> 0 then f\<lparr>mfenced := True\<rparr> else f);
       notify_deferred n plr s r (\<lambda>s. s) } }"

definition ProcessLocalSFence :: "nat \<Rightarrow> local_handler \<Rightarrow> Worker \<Rightarrow> nat \<Rightarrow> (i32 \<times> Worker) option" where
  "ProcessLocalSFence n plr s r = do {
     w \<leftarrow> reqs s r;
     f \<leftarrow> fences s (wr_fd w);
     if IsFenced f w then do { s \<leftarrow> AddToFence s (wr_fd w) r; Some (SUCCESS, s) }
     else do {
       s \<leftarrow> upd_fence s (wr_fd w) (\<lambda>f. if pending_writes f \<noteq> 0 then f\<lparr>sfenced := True\<rparr> else f);
       notify_deferred n plr s r (\<lambda>s. s) } }"

text \<open>
  The fence check in front of a lock or unlock: it waits behind a fence and, when writes are
  pending, becomes one.
\<close>

definition lock_fence :: "Worker \<Rightarrow> nat \<Rightarrow> (bool \<times> Worker) option" where
  "lock_fence s r = do {
     w \<leftarrow> reqs s r;
     if has w FENCE then Some (False, s)
     else do {
       f \<leftarrow> fences s (wr_fd w);
       if IsFenced f w then do { s \<leftarrow> AddToFence s (wr_fd w) r; Some (True, s) }
       else if pending_writes f \<noteq> 0
       then do {
         s \<leftarrow> upd_fence s (wr_fd w) (\<lambda>f. f\<lparr>mfenced := True\<rparr>);
         s \<leftarrow> AddToFence s (wr_fd w) r;
         Some (True, s) }
       else Some (False, s) } }"

section \<open>Reads\<close>

definition local_read_block :: "Worker \<Rightarrow> nat \<Rightarrow> gaddr \<Rightarrow> gaddr \<Rightarrow> gaddr \<Rightarrow> (unit flow \<times> Worker) option" where
  "local_read_block s r start e i = do {
     w \<leftarrow> reqs s r;
     let laddr = ToLocal s i;
     let entry = GetEntry (directory s) laddr;
     let st = GetState_e (directory s) entry;
     if InTransitionState_s st
     then do {
       s \<leftarrow> inc_counter s r;
       let s = AddToServeLocalRequest s i r;
       s \<leftarrow> miss s r;
       Some (Return IN_TRANSITION, s) }
     else if st = DIR_DIRTY
     then do {
       (lr, s) \<leftarrow> clone_wr s r;
       sh \<leftarrow> GetSList (directory s) entry;
       rc \<leftarrow> (case sh of [] \<Rightarrow> None | g # _ \<Rightarrow> Some g);
       let cli = GetClient s rc;
       s \<leftarrow> upd_wr s lr (\<lambda>w. w\<lparr>wr_counter := 0, wr_op := FETCH_AND_SHARED, wr_addr := i, wr_size := BLOCK_SIZE,
              wr_ptr := laddr, wr_parent := Some r\<rparr>);
       s \<leftarrow> inc_counter s r;
       s \<leftarrow> miss s r;
       d \<leftarrow> ToToShared_e (directory s) entry;
       s \<leftarrow> SubmitPending (set_dir s d) cli lr;
       Some (Go (), s) }
     else Some (Go (), mcpy s (seg_buf w start i) (ToLocal s (seg_start start i)) (seg_len start e i)) }"

fun local_read_loop :: "Worker \<Rightarrow> nat \<Rightarrow> gaddr \<Rightarrow> gaddr \<Rightarrow> gaddr list \<Rightarrow> (unit flow \<times> Worker) option" where
  "local_read_loop s r start e [] = Some (Go (), s)"
| "local_read_loop s r start e (i # is) = do {
     (fl, s) \<leftarrow> local_read_block s r start e i;
     (case fl of Return x \<Rightarrow> Some (Return x, s) | Go _ \<Rightarrow> local_read_loop s r start e is) }"

definition ProcessLocalRead :: "nat \<Rightarrow> local_handler \<Rightarrow> Worker \<Rightarrow> nat \<Rightarrow> (i32 \<times> Worker) option" where
  "ProcessLocalRead n plr s r = do {
     w \<leftarrow> reqs s r;
     f \<leftarrow> (if has w FENCE then Some new_Fence else fences s (wr_fd w));
     if \<not> has w FENCE \<and> IsMFenced f w
     then do { s \<leftarrow> AddToFence s (wr_fd w) r; Some (FENCE_PENDING, s) }
     else do {
       (ret, s) \<leftarrow> (if IsLocal s (wr_addr w)
          then do {
            s \<leftarrow> serve_dec s r;
            is \<leftarrow> blocks_of (wr_addr w) (wr_size w);
            (fl, s) \<leftarrow> local_read_loop s r (wr_addr w) (GADD (wr_addr w) (wr_size w)) is;
            (case fl of
               Return x \<Rightarrow> Some (x, s)
             | Go _ \<Rightarrow> do {
                 w \<leftarrow> reqs s r;
                 Some (if wr_counter w \<noteq> 0 then REMOTE_REQUEST else SUCCESS, s) }) }
          else do {
            (c, s) \<leftarrow> Cache_Read s r;
            Some (if c \<noteq> 0 then REMOTE_REQUEST else SUCCESS, s) });
       if ret \<noteq> SUCCESS then Some (ret, s)
       else notify_deferred n plr s r (\<lambda>s. count_read s (w\<lparr>wr_hit := True\<rparr>)) } }"

section \<open>Writes\<close>

text \<open>Sending one request to each holder of a copy.\<close>

fun submit_all :: "Worker \<Rightarrow> nat \<Rightarrow> gaddr list \<Rightarrow> Worker option" where
  "submit_all s lr [] = Some s"
| "submit_all s lr (g # gs) = do { s \<leftarrow> SubmitPlain s (GetClient s g) lr; submit_all s lr gs }"

text \<open>
  Asking the holders of block \<open>i\<close> to give up their copies on behalf of \<open>r\<close>: the request carries one
  identifier, and its counter the number of replies to come. A write may be asynchronous, a write
  lock is not.
\<close>

definition revoke :: "Worker \<Rightarrow> nat \<Rightarrow> eptr \<Rightarrow> DirState \<Rightarrow> gaddr \<Rightarrow> ptr \<Rightarrow> i32 \<Rightarrow> bool \<Rightarrow> (nat \<times> Worker) option" where
  "revoke s r entry st i laddr fl wlock = do {
     sh \<leftarrow> GetSList (directory s) entry;
     (lr, s) \<leftarrow> clone_wr s r;
     s \<leftarrow> upd_wr s lr (\<lambda>w. (set_flag w fl)\<lparr>wr_op := (if st = DIR_DIRTY then FETCH_AND_INVALIDATE else INVALIDATE),
            wr_addr := i, wr_size := BLOCK_SIZE, wr_ptr := laddr\<rparr>);
     s \<leftarrow> (if wlock then Some s else miss s r);
     (r, s) \<leftarrow> (if wlock then Some (r, s) else async_copy s r);
     let (k, s) = GetWorkPsn s;
     s \<leftarrow> upd_wr s lr (\<lambda>w. w\<lparr>wr_parent := Some r, wr_id := k, wr_counter := of_nat (length sh)\<rparr>);
     s \<leftarrow> inc_counter s r;
     d \<leftarrow> ToToUnShared_e (directory s) entry;
     let s = AddToPending (set_dir s d) k lr;
     s \<leftarrow> submit_all s lr sh;
     Some (r, s) }"

definition local_write_block :: "Worker \<Rightarrow> nat \<Rightarrow> gaddr \<Rightarrow> gaddr \<Rightarrow> gaddr \<Rightarrow> (nat flow \<times> Worker) option" where
  "local_write_block s r start e i = do {
     w \<leftarrow> reqs s r;
     let laddr = ToLocal s i;
     let entry = GetEntry (directory s) laddr;
     let st = GetState_e (directory s) entry;
     if InTransitionState_s st
     then do {
       s \<leftarrow> inc_counter s r;
       s \<leftarrow> miss s r;
       (r, s) \<leftarrow> async_copy s r;
       Some (Return IN_TRANSITION, AddToServeLocalRequest s i r) }
     else if st = DIR_DIRTY \<or> st = DIR_SHARED
     then do { (r, s) \<leftarrow> revoke s r entry st i laddr 0 False; Some (Go r, s) }
     else if has w GFUNC
     then do { s \<leftarrow> run_gfunc s (wr_gfunc w) (ToLocal s (wr_addr w)) (wr_arg w); Some (Go r, s) }
     else Some (Go r, mcpy s (ToLocal s (seg_start start i)) (seg_buf w start i) (seg_len start e i)) }"

fun local_write_loop :: "Worker \<Rightarrow> nat \<Rightarrow> gaddr \<Rightarrow> gaddr \<Rightarrow> gaddr list \<Rightarrow> (nat flow \<times> Worker) option" where
  "local_write_loop s r start e [] = Some (Go r, s)"
| "local_write_loop s r start e (i # is) = do {
     (fl, s) \<leftarrow> local_write_block s r start e i;
     (case fl of Return x \<Rightarrow> Some (Return x, s) | Go r \<Rightarrow> local_write_loop s r start e is) }"

definition ProcessLocalWrite :: "nat \<Rightarrow> local_handler \<Rightarrow> Worker \<Rightarrow> nat \<Rightarrow> (i32 \<times> Worker) option" where
  "ProcessLocalWrite n plr s r = do {
     w \<leftarrow> reqs s r;
     f \<leftarrow> fences s (wr_fd w);
     if \<not> has w FENCE \<and> IsFenced f w
     then do { s \<leftarrow> AddToFence s (wr_fd w) r; Some (FENCE_PENDING, s) }
     else do {
       s \<leftarrow> (if has w ASYNC \<and> \<not> has w TO_SERVE
            then upd_fence s (wr_fd w) (\<lambda>f. f\<lparr>pending_writes := pending_writes f + 1\<rparr>) else Some s);
       (ret, r, s) \<leftarrow> (if IsLocal s (wr_addr w)
          then do {
            s \<leftarrow> serve_dec s r;
            is \<leftarrow> blocks_of (wr_addr w) (wr_size w);
            (fl, s) \<leftarrow> local_write_loop s r (wr_addr w) (GADD (wr_addr w) (wr_size w)) is;
            (case fl of
               Return x \<Rightarrow> Some (x, r, s)
             | Go r \<Rightarrow> do {
                 w \<leftarrow> reqs s r;
                 Some (if wr_counter w \<noteq> 0 then REMOTE_REQUEST else SUCCESS, r, s) }) }
          else do {
            (c, s) \<leftarrow> Cache_Write s r;
            Some (if c \<noteq> 0 then (REMOTE_REQUEST, r, s)
                  else (SUCCESS, r, bump s (\<lambda>t. t\<lparr>no_remote_writes_direct_hit := no_remote_writes_direct_hit t + 1\<rparr>))) });
       if ret \<noteq> SUCCESS then Some (ret, s)
       else do {
         w \<leftarrow> reqs s r;
         if has w ASYNC \<or> has w TO_SERVE \<or> has w FENCE
         then do { s \<leftarrow> Notify n plr s r; Some (SUCCESS, s) }
         else Some (SUCCESS, s) } } }"

section \<open>Locks\<close>

text \<open>What a lock request at its home does when the lock is taken.\<close>

definition home_busy :: "Worker \<Rightarrow> nat \<Rightarrow> gaddr \<Rightarrow> (i32 \<times> Worker) option" where
  "home_busy s r blk = do {
     w \<leftarrow> reqs s r;
     if has w TRY_LOCK
     then do {
       s \<leftarrow> upd_wr s r (\<lambda>w. w\<lparr>wr_status := LOCK_FAILED\<rparr>);
       Some (if wr_counter w \<noteq> 0 then REMOTE_REQUEST else SUCCESS, s) }
     else Some (IN_TRANSITION, AddToServeLocalRequest s blk r) }"

definition local_rlock :: "Worker \<Rightarrow> nat \<Rightarrow> (i32 \<times> Worker) option" where
  "local_rlock s r = do {
     w \<leftarrow> reqs s r;
     let blk = TOBLOCK (wr_addr w);
     let laddr = ToLocal s blk;
     let entry = GetEntry (directory s) laddr;
     let st = GetState_e (directory s) entry;
     if InTransitionState_s st then Some (IN_TRANSITION, AddToServeLocalRequest s blk r)
     else if st = DIR_DIRTY
     then do {
       (lr, s) \<leftarrow> clone_wr s r;
       sh \<leftarrow> GetSList (directory s) entry;
       rc \<leftarrow> (case sh of [] \<Rightarrow> None | g # _ \<Rightarrow> Some g);
       let cli = GetClient s rc;
       s \<leftarrow> upd_wr s lr (\<lambda>w. (set_flag w LOCKED)\<lparr>wr_counter := 0, wr_op := FETCH_AND_SHARED, wr_addr := blk,
              wr_size := BLOCK_SIZE, wr_ptr := laddr, wr_parent := Some r\<rparr>);
       s \<leftarrow> inc_counter s r;
       d \<leftarrow> ToToShared_e (directory s) entry;
       s \<leftarrow> SubmitPending (set_dir s d) cli lr;
       w \<leftarrow> reqs s r;
       Some (if wr_counter w \<noteq> 0 then REMOTE_REQUEST else SUCCESS, s) }
     else do {
       (ret, d) \<leftarrow> (case entry of
            Some _ \<Rightarrow> RLock_e (directory s) entry (ToLocal s (wr_addr w))
          | None \<Rightarrow> RLock_p (directory s) (ToLocal s (wr_addr w)));
       let s = set_dir s d;
       if ret \<noteq> 0 then home_busy s r blk
       else Some (if wr_counter w \<noteq> 0 then REMOTE_REQUEST else SUCCESS, s) } }"

definition ProcessLocalRLock :: "nat \<Rightarrow> local_handler \<Rightarrow> Worker \<Rightarrow> nat \<Rightarrow> (i32 \<times> Worker) option" where
  "ProcessLocalRLock n plr s r = do {
     w \<leftarrow> reqs s r;
     (held, s) \<leftarrow> lock_fence s r;
     if held then Some (FENCE_PENDING, s)
     else do {
       (ret, s) \<leftarrow> (if IsLocal s (wr_addr w) then local_rlock s r
          else do { (c, s) \<leftarrow> Cache_RLock_wr s r; Some (if c \<noteq> 0 then REMOTE_REQUEST else SUCCESS, s) });
       if ret \<noteq> SUCCESS then Some (ret, s)
       else notify_deferred n plr s r (\<lambda>s. count_read s (w\<lparr>wr_hit := True\<rparr>)) } }"

definition local_wlock :: "Worker \<Rightarrow> nat \<Rightarrow> (i32 \<times> Worker) option" where
  "local_wlock s r = do {
     w \<leftarrow> reqs s r;
     let blk = TOBLOCK (wr_addr w);
     let laddr = ToLocal s blk;
     let entry = GetEntry (directory s) laddr;
     let st = GetState_e (directory s) entry;
     if InTransitionState_s st then Some (IN_TRANSITION, AddToServeLocalRequest s blk r)
     else if st = DIR_DIRTY \<or> st = DIR_SHARED
     then do {
       (r, s) \<leftarrow> revoke s r entry st blk laddr LOCKED True;
       w \<leftarrow> reqs s r;
       Some (if wr_counter w \<noteq> 0 then REMOTE_REQUEST else SUCCESS, s) }
     else do {
       (ret, d) \<leftarrow> (case entry of
            Some _ \<Rightarrow> WLock_e (directory s) entry (ToLocal s (wr_addr w))
          | None \<Rightarrow> WLock_p (directory s) (ToLocal s (wr_addr w)));
       let s = set_dir s d;
       if ret \<noteq> 0 then home_busy s r blk
       else Some (if wr_counter w \<noteq> 0 then REMOTE_REQUEST else SUCCESS, s) } }"

definition ProcessLocalWLock :: "nat \<Rightarrow> local_handler \<Rightarrow> Worker \<Rightarrow> nat \<Rightarrow> (i32 \<times> Worker) option" where
  "ProcessLocalWLock n plr s r = do {
     w \<leftarrow> reqs s r;
     (held, s) \<leftarrow> lock_fence s r;
     if held then Some (FENCE_PENDING, s)
     else do {
       (ret, s) \<leftarrow> (if IsLocal s (wr_addr w) then local_wlock s r
          else do { (c, s) \<leftarrow> Cache_WLock_wr s r; Some (if c \<noteq> 0 then REMOTE_REQUEST else SUCCESS, s) });
       if ret \<noteq> SUCCESS then Some (ret, s)
       else notify_deferred n plr s r (\<lambda>s. count_write s (w\<lparr>wr_hit := True\<rparr>)) } }"

definition ProcessLocalUnLock :: "nat \<Rightarrow> local_handler \<Rightarrow> remote_handler \<Rightarrow> Worker \<Rightarrow> nat \<Rightarrow> (i32 \<times> Worker) option" where
  "ProcessLocalUnLock n plr prq s r = do {
     w \<leftarrow> reqs s r;
     (held, s) \<leftarrow> lock_fence s r;
     if held then Some (FENCE_PENDING, s)
     else do {
       s \<leftarrow> (if IsLocal s (wr_addr w)
            then map_option (set_dir s) (UnLock_p (directory s) (ToLocal s (wr_addr w)))
            else Some (Cache_UnLock s (wr_addr w)));
       s \<leftarrow> ProcessToServeRequest plr prq s (wr_addr w);
       notify_deferred n plr s r (\<lambda>s. s) } }"

section \<open>The dispatcher\<close>

text \<open>An unknown operation ends the process.\<close>

definition ProcessLocalRequest_body :: "nat \<Rightarrow> local_handler \<Rightarrow> remote_handler \<Rightarrow> Worker \<Rightarrow> nat \<Rightarrow> (i32 \<times> Worker) option" where
  "ProcessLocalRequest_body n plr prq s r = do {
     w \<leftarrow> reqs s r;
     (case wr_op w of
        MALLOC \<Rightarrow> ProcessLocalMalloc n plr s r
      | FREE \<Rightarrow> ProcessLocalFree n plr s r
      | READ \<Rightarrow> ProcessLocalRead n plr s r
      | WRITE \<Rightarrow> ProcessLocalWrite n plr s r
      | MFENCE \<Rightarrow> ProcessLocalMFence n plr s r
      | SFENCE \<Rightarrow> ProcessLocalSFence n plr s r
      | RLOCK \<Rightarrow> ProcessLocalRLock n plr s r
      | WLOCK \<Rightarrow> ProcessLocalWLock n plr s r
      | UNLOCK \<Rightarrow> ProcessLocalUnLock n plr prq s r
      | GET \<Rightarrow> do { s \<leftarrow> SubmitPending s (Some MasterClient) r; Some (REMOTE_REQUEST, s) }
      | PUT \<Rightarrow> do { s \<leftarrow> SubmitPlain s (Some MasterClient) r; notify_deferred n plr s r (\<lambda>s. s) }
      | _ \<Rightarrow> None) }"

end
