(* ===== verification/Gam_Pending.thy ===== *)
theory Gam_Pending
  imports Gam_Local
begin

text \<open>
  Replies: \<^verbatim>\<open>gam/src/pending_request.cc\<close>. An RDMA write with immediate data carries the identifier of a
  pending work; the handler finishes that work, updates the cache line or the directory entry that
  was in transition, and then serves the requests that waited for the block.
\<close>

definition FindClientWid :: "Worker \<Rightarrow> i32 \<Rightarrow> client option" where
  "FindClientWid s w = map_option (\<lambda>_. Peer w) (map_of (widCliMap s) w)"

text \<open>
  The bytes of the parent request that lie in the block of \<open>w\<close>: the place in the parent's buffer, the
  place in the buffer of \<open>w\<close> and the length.
\<close>

definition overlap :: "WorkRequest \<Rightarrow> WorkRequest \<Rightarrow> ptr \<times> ptr \<times> nat" where
  "overlap p w =
     (let pend = GADD (wr_addr p) (wr_size p); e = GADD (wr_addr w) (wr_size w);
          gs = (if wr_addr w > wr_addr p then wr_addr w else wr_addr p)
      in (wr_ptr p + GMINUS gs (wr_addr p), wr_ptr w + GMINUS gs (wr_addr w),
          unat (if e > pend then GMINUS pend gs else GMINUS e gs)))"

text \<open>The line or the entry a pending work is about.\<close>

definition pending_line :: "Worker \<Rightarrow> WorkRequest \<Rightarrow> gaddr option" where
  "pending_line s w = (if has w CACHED then GetCLine s (wr_addr w) else None)"

definition pending_entry :: "Worker \<Rightarrow> WorkRequest \<Rightarrow> eptr" where
  "pending_entry s w =
     (if \<not> has w CACHED \<and> IsLocal s (wr_addr w) then GetEntry (directory s) (ToLocal s (wr_addr w)) else None)"

definition lock_line :: "(CacheLine \<Rightarrow> gaddr \<Rightarrow> int \<times> CacheLine) \<Rightarrow> Worker \<Rightarrow> gaddr option \<Rightarrow> gaddr \<Rightarrow> (int \<times> Worker) option" where
  "lock_line f s cline a = do {
     c \<leftarrow> cline;
     l \<leftarrow> caches s c;
     let (ret, l') = f l a;
     s \<leftarrow> upd_line s c (\<lambda>_. l');
     Some (ret, s) }"

definition dec_counter :: "Worker \<Rightarrow> nat \<Rightarrow> (bool \<times> Worker) option" where
  "dec_counter s r = do {
     s \<leftarrow> upd_wr s r (\<lambda>w. w\<lparr>wr_counter := wr_counter w - 1\<rparr>);
     w \<leftarrow> reqs s r;
     Some (wr_counter w = 0, s) }"

section \<open>Reads\<close>

definition ProcessPendingRead :: "nat \<Rightarrow> local_handler \<Rightarrow> remote_handler \<Rightarrow> Worker \<Rightarrow> client \<Rightarrow> nat \<Rightarrow> Worker option" where
  "ProcessPendingRead n plr prq s cli r = do {
     w \<leftarrow> reqs s r;
     pr \<leftarrow> wr_parent w;
     p \<leftarrow> reqs s pr;
     let cline = pending_line s w;
     let entry = pending_entry s w;
     let s = (if has w LOCKED then s else case overlap p w of (ls, cs, len) \<Rightarrow> mcpy s ls cs len);
     s \<leftarrow> (if has w REPEATED then Some s
          else do {
            s \<leftarrow> (if has w CACHED then do { c \<leftarrow> cline; Cache_ToShared s c }
                 else if IsLocal s (wr_addr w) then map_option (set_dir s) (ToShared_e (directory s) entry Gnullptr)
                 else Some s);
            Some (ErasePendingWork s (wr_id w)) });
     s \<leftarrow> (if has w LOCKED
          then (if has w CACHED then map_option snd (lock_line Cache_RLock_l s cline (wr_addr p))
                else if IsLocal s (wr_addr w)
                then (let a = ToLocal s (wr_addr p)
                      in map_option (\<lambda>(_, d). set_dir s d)
                           (if entry \<noteq> None then RLock_e (directory s) entry a else RLock_p (directory s) a))
                else Some s)
          else Some s);
     (done, s) \<leftarrow> dec_counter s pr;
     s \<leftarrow> (if done then Notify n plr s pr else Some s);
     s \<leftarrow> ProcessToServeRequest plr prq s (wr_addr w);
     Some (delete_wr s r) }"

text \<open>At home: the owner has written the block back and served the reader.\<close>

definition ProcessPendingReadForward :: "local_handler \<Rightarrow> remote_handler \<Rightarrow> Worker \<Rightarrow> client \<Rightarrow> nat \<Rightarrow> Worker option" where
  "ProcessPendingReadForward plr prq s cli r = do {
     w \<leftarrow> reqs s r;
     pr \<leftarrow> wr_parent w;
     p \<leftarrow> reqs s pr;
     let entry = GetEntry (directory s) (ToLocal s (wr_addr w));
     d \<leftarrow> ToShared_e (directory s) entry Gnullptr;
     c \<leftarrow> FindClientWid s (wr_pwid w);
     g \<leftarrow> cli_ToGlobal s c (wr_ptr p);
     d \<leftarrow> ToShared_e d entry g;
     let s = ErasePendingWork (set_dir s d) (wr_id w);
     s \<leftarrow> ProcessToServeRequest plr prq s (wr_addr w);
     Some (delete_wr (delete_wr s r) pr) }"

section \<open>Writes\<close>

text \<open>
  The number of replies still to come: a reply from the home adds one, one from any other worker
  takes one.
\<close>

definition settle_counter :: "Worker \<Rightarrow> client \<Rightarrow> nat \<Rightarrow> Worker option" where
  "settle_counter s cli r = do {
     w \<leftarrow> reqs s r;
     if has w REPEATED \<or> has w REQUEST_DONE then Some s
     else upd_wr s r (\<lambda>w. w\<lparr>wr_counter :=
            (if WID (wr_addr w) = wid64 (cli_wid s cli) then wr_counter w + 1 else wr_counter w - 1)\<rparr>) }"

definition pending_write_failed ::
    "nat \<Rightarrow> local_handler \<Rightarrow> remote_handler \<Rightarrow> Worker \<Rightarrow> client \<Rightarrow> nat \<Rightarrow> gaddr option \<Rightarrow> eptr \<Rightarrow> Worker option" where
  "pending_write_failed n plr prq s cli r cline entry = do {
     w \<leftarrow> reqs s r;
     pr \<leftarrow> wr_parent w;
     let (entry, s) = (if \<not> has w CACHED \<and> IsLocal s (wr_addr w)
                       then (let (d, e) = Remove_e (directory s) entry (cli_wid s cli) in (e, set_dir s d))
                       else (entry, s));
     if wr_counter w = 0
     then do {
       s \<leftarrow> (if wr_op w = WRITE then do { c \<leftarrow> cline; Cache_ToInvalid s c }
            else if wr_op w = WRITE_PERMISSION_ONLY then do { c \<leftarrow> cline; Cache_UndoShared s c }
            else if wr_op w = FETCH_AND_INVALIDATE then map_option (set_dir s) (UndoDirty_e (directory s) entry)
            else map_option (set_dir s) (UndoShared_e (directory s) entry));
       (_, s) \<leftarrow> dec_counter s pr;
       s \<leftarrow> Notify n plr s pr;
       s \<leftarrow> upd_wr s r (\<lambda>w. w\<lparr>wr_parent := None\<rparr>);
       s \<leftarrow> ProcessToServeRequest plr prq s (wr_addr w);
       Some (delete_wr (ErasePendingWork s (wr_id w)) r) }
     else Some s }"

text \<open>All replies are in: the line becomes dirty, or the entry unshared; the data is written.\<close>

definition pending_write_commit ::
    "Worker \<Rightarrow> nat \<Rightarrow> gaddr option \<Rightarrow> eptr \<Rightarrow> (eptr \<times> Worker) option" where
  "pending_write_commit s r cline entry = do {
     w \<leftarrow> reqs s r;
     pr \<leftarrow> wr_parent w;
     p \<leftarrow> reqs s pr;
     s \<leftarrow> (if has w LOCKED then Some s
          else case overlap p w of (ls, cs, len) \<Rightarrow>
                 if has w GFUNC then run_gfunc s (wr_gfunc w) cs (wr_arg w) else Some (mcpy s cs ls len));
     if has w REPEATED then Some (entry, s)
     else do {
       (entry, s) \<leftarrow> (if has w CACHED then do { c \<leftarrow> cline; s \<leftarrow> Cache_ToDirty s c; Some (entry, s) }
            else if IsLocal s (wr_addr w)
            then (let (d, e) = ToUnShared_e (directory s) entry in Some (e, set_dir s d))
            else Some (entry, s));
       Some (entry, ErasePendingWork s (wr_id w)) } }"

text \<open>A write lock is taken once its block is exclusive; a reader may hold the address still.\<close>

definition pending_write_lock :: "Worker \<Rightarrow> WorkRequest \<Rightarrow> nat \<Rightarrow> gaddr option \<Rightarrow> eptr \<Rightarrow> (bool \<times> Worker) option" where
  "pending_write_lock s w pr cline entry = do {
     p \<leftarrow> reqs s pr;
     if wr_op p \<noteq> WLOCK then Some (True, s)
     else if has w CACHED
     then do {
       (ret, s) \<leftarrow> lock_line Cache_WLock_l s cline (wr_addr p);
       Some (if ret \<noteq> 0 then (False, AddToServeLocalRequest s (wr_addr w) pr) else (True, s)) }
     else if IsLocal s (wr_addr w)
     then do {
       let a = ToLocal s (wr_addr p);
       (ret, d) \<leftarrow> (if entry \<noteq> None then WLock_e (directory s) entry a else WLock_p (directory s) a);
       let s = set_dir s d;
       Some (if ret \<noteq> 0 then (False, AddToServeLocalRequest s (wr_addr w) pr) else (True, s)) }
     else Some (False, s) }"

definition ProcessPendingWrite :: "nat \<Rightarrow> local_handler \<Rightarrow> remote_handler \<Rightarrow> Worker \<Rightarrow> client \<Rightarrow> nat \<Rightarrow> Worker option" where
  "ProcessPendingWrite n plr prq s cli r = do {
     w \<leftarrow> reqs s r;
     pr \<leftarrow> wr_parent w;
     _ \<leftarrow> reqs s pr;
     let cline = pending_line s w;
     let entry = pending_entry s w;
     s \<leftarrow> settle_counter s cli r;
     w \<leftarrow> reqs s r;
     if wr_status w \<noteq> 0 then pending_write_failed n plr prq s cli r cline entry
     else do {
       let (entry, s) = (if \<not> has w CACHED \<and> IsLocal s (wr_addr w)
                         then (let (d, e) = Remove_e (directory s) entry (cli_wid s cli) in (e, set_dir s d))
                         else (entry, s));
       if wr_counter w = 0 \<or> has w REQUEST_DONE
       then do {
         (entry, s) \<leftarrow> pending_write_commit s r cline entry;
         (last, s) \<leftarrow> dec_counter s pr;
         (notify, s) \<leftarrow> (if last then pending_write_lock s w pr cline entry else Some (False, s));
         s \<leftarrow> (if notify then Notify n plr s pr else Some s);
         s \<leftarrow> ProcessToServeRequest plr prq s (wr_addr w);
         Some (delete_wr s r) }
       else Some s } }"

text \<open>At home: the old owner has handed the block to the new one.\<close>

definition ProcessPendingWriteForward :: "local_handler \<Rightarrow> remote_handler \<Rightarrow> Worker \<Rightarrow> client \<Rightarrow> nat \<Rightarrow> Worker option" where
  "ProcessPendingWriteForward plr prq s cli r = do {
     w \<leftarrow> reqs s r;
     pr \<leftarrow> wr_parent w;
     p \<leftarrow> reqs s pr;
     lcli \<leftarrow> FindClientWid s (wr_pwid w);
     g \<leftarrow> cli_ToGlobal s lcli (wr_ptr p);
     d \<leftarrow> ToDirty_p (directory s) (ToLocal s (wr_addr w)) g;
     let s = cli_WriteWithImm (set_dir s d) lcli 0 0 0 (wr_pid w) None;
     let s = ErasePendingWork s (wr_id w);
     s \<leftarrow> ProcessToServeRequest plr prq s (wr_addr w);
     Some (delete_wr (delete_wr s r) pr) }"

definition ProcessPendingEvictDirty :: "local_handler \<Rightarrow> remote_handler \<Rightarrow> Worker \<Rightarrow> client \<Rightarrow> nat \<Rightarrow> Worker option" where
  "ProcessPendingEvictDirty plr prq s cli r = do {
     w \<leftarrow> reqs s r;
     let s = s\<lparr>to_evicted := to_evicted s - 1\<rparr>;
     s \<leftarrow> Cache_ToInvalid_a s (wr_addr w);
     let s = ErasePendingWork s (wr_id w);
     s \<leftarrow> ProcessToServeRequest plr prq s (wr_addr w);
     Some (delete_wr s r) }"

text \<open>
  At home: one sharer has dropped its copy for a writer. With the last reply the writer becomes the
  owner, or, if a sharer refused, the block stays shared.
\<close>

definition invalidate_forward_failed ::
    "local_handler \<Rightarrow> remote_handler \<Rightarrow> Worker \<Rightarrow> nat \<Rightarrow> eptr \<Rightarrow> Worker option" where
  "invalidate_forward_failed plr prq s r entry = do {
     w \<leftarrow> reqs s r;
     pr \<leftarrow> wr_parent w;
     if wr_counter w = 0
     then do {
       d \<leftarrow> UndoShared_e (directory s) entry;
       let s = set_dir s d;
       s \<leftarrow> upd_wr s pr (\<lambda>p. p\<lparr>wr_status := wr_status w, wr_op := WRITE_REPLY\<rparr>);
       s \<leftarrow> SubmitPlain s (FindClientWid s (wr_pwid w)) pr;
       let s = delete_wr s pr;
       s \<leftarrow> upd_wr s r (\<lambda>w. w\<lparr>wr_parent := None\<rparr>);
       s \<leftarrow> ProcessToServeRequest plr prq s (wr_addr w);
       Some (delete_wr (ErasePendingWork s (wr_id w)) r) }
     else Some s }"

definition ProcessPendingInvalidateForward :: "local_handler \<Rightarrow> remote_handler \<Rightarrow> Worker \<Rightarrow> client \<Rightarrow> nat \<Rightarrow> Worker option" where
  "ProcessPendingInvalidateForward plr prq s cli r = do {
     w \<leftarrow> reqs s r;
     pr \<leftarrow> wr_parent w;
     p \<leftarrow> reqs s pr;
     let laddr = ToLocal s (wr_addr w);
     s \<leftarrow> upd_wr s r (\<lambda>w. w\<lparr>wr_counter := wr_counter w - 1\<rparr>);
     w \<leftarrow> reqs s r;
     let (d, entry) = Remove_e (directory s) (GetEntry (directory s) laddr) (cli_wid s cli);
     let s = set_dir s d;
     if wr_status w \<noteq> 0 then invalidate_forward_failed plr prq s r entry
     else if wr_counter w = 0
     then do {
       lcli \<leftarrow> FindClientWid s (wr_pwid w);
       let s = (if wr_op p = WRITE \<or> GetState_e (directory s) entry = DIR_UNSHARED
                then cli_Write s lcli (wr_ptr p) laddr (unat (wr_size p)) else s);
       g \<leftarrow> cli_ToGlobal s lcli (wr_ptr p);
       d \<leftarrow> (if entry \<noteq> None then ToDirty_e (directory s) entry g else ToDirty_p (directory s) laddr g);
       let s = set_dir s d;
       s \<leftarrow> upd_wr s pr (\<lambda>p. p\<lparr>wr_op := WRITE_REPLY, wr_status := SUCCESS, wr_counter := 0\<rparr>);
       s \<leftarrow> SubmitPlain s (Some lcli) pr;
       let s = ErasePendingWork s (wr_id w);
       s \<leftarrow> ProcessToServeRequest plr prq s (wr_addr w);
       Some (delete_wr (delete_wr s r) pr) }
     else Some s }"

definition ProcessPendingRequest :: "nat \<Rightarrow> local_handler \<Rightarrow> remote_handler \<Rightarrow> Worker \<Rightarrow> client \<Rightarrow> nat \<Rightarrow> Worker option" where
  "ProcessPendingRequest n plr prq s cli r = do {
     w \<leftarrow> reqs s r;
     (case wr_op w of
        READ \<Rightarrow> ProcessPendingRead n plr prq s cli r
      | FETCH_AND_SHARED \<Rightarrow> ProcessPendingRead n plr prq s cli r
      | READ_FORWARD \<Rightarrow> ProcessPendingReadForward plr prq s cli r
      | FETCH_AND_INVALIDATE \<Rightarrow> ProcessPendingWrite n plr prq s cli r
      | INVALIDATE \<Rightarrow> ProcessPendingWrite n plr prq s cli r
      | WRITE \<Rightarrow> ProcessPendingWrite n plr prq s cli r
      | WRITE_PERMISSION_ONLY \<Rightarrow> ProcessPendingWrite n plr prq s cli r
      | WRITE_FORWARD \<Rightarrow> ProcessPendingWriteForward plr prq s cli r
      | WRITE_BACK \<Rightarrow> ProcessPendingEvictDirty plr prq s cli r
      | INVALIDATE_FORWARD \<Rightarrow> ProcessPendingInvalidateForward plr prq s cli r
      | _ \<Rightarrow> None) }"

text \<open>\<^verbatim>\<open>ProcessRequest(Client*, unsigned int)\<close>: the immediate data of an incoming RDMA write.\<close>

definition ProcessImm :: "nat \<Rightarrow> local_handler \<Rightarrow> remote_handler \<Rightarrow> Worker \<Rightarrow> client \<Rightarrow> u32 \<Rightarrow> Worker option" where
  "ProcessImm n plr prq s cli work_id = do {
     r \<leftarrow> GetPendingWork s work_id;
     ProcessPendingRequest n plr prq s cli r }"

end
