(* ===== verification/Gam_Text.thy ===== *)
theory Gam_Text
  imports Gam_Request
begin

text \<open>
  Text on the wire: \<^verbatim>\<open>Split\<close> of \<^verbatim>\<open>gam/include/util.h\<close> and \<^verbatim>\<open>gam/src/util.cc\<close>, and the decimal
  conversions of \<^verbatim>\<open>sprintf\<close> and of the stream extraction it relies on. A string is its list of bytes,
  without the terminating zero.
\<close>

definition is_digit :: "u8 \<Rightarrow> bool" where
  "is_digit b \<longleftrightarrow> 48 \<le> b \<and> b \<le> 57"

definition is_space :: "u8 \<Rightarrow> bool" where
  "is_space b \<longleftrightarrow> b = 32 \<or> (9 \<le> b \<and> b \<le> 13)"

definition COLON :: u8 where
  "COLON = 58"

section \<open>Printing\<close>

fun dec :: "nat \<Rightarrow> u8 list" where
  "dec n = (if n < 10 then [of_nat (48 + n)] else dec (n div 10) @ [of_nat (48 + n mod 10)])"

declare dec.simps [simp del]

definition dec_int :: "int \<Rightarrow> u8 list" where
  "dec_int i = (if i < 0 then 45 # dec (nat (- i)) else dec (nat i))"

section \<open>Parsing\<close>

text \<open>
  \<^verbatim>\<open>ss >> item\<close> for an unsigned 64-bit integer: leading white space, an optional sign, digits. A minus
  sign negates modulo \<open>2 ^ 64\<close>; no digits, or a value that does not fit, is a failure.
\<close>

fun dec_value :: "nat \<Rightarrow> u8 list \<Rightarrow> nat" where
  "dec_value acc [] = acc"
| "dec_value acc (b # bs) = dec_value (10 * acc + (unat b - 48)) bs"

definition read_digits :: "u8 list \<Rightarrow> (nat \<times> u8 list) option" where
  "read_digits bs = (let ds = takeWhile is_digit bs; v = dec_value 0 ds
     in if ds = [] \<or> v \<ge> 2 ^ 64 then None else Some (v, dropWhile is_digit bs))"

definition read_u64 :: "u8 list \<Rightarrow> (u64 \<times> u8 list) option" where
  "read_u64 bs = (case dropWhile is_space bs of
     [] \<Rightarrow> None
   | b # rest \<Rightarrow>
       if b = 45 then map_option (\<lambda>(v, r). (- of_nat v, r)) (read_digits rest)
       else if b = 43 then map_option (\<lambda>(v, r). (of_nat v, r)) (read_digits rest)
       else map_option (\<lambda>(v, r). (of_nat v, r)) (read_digits (b # rest)))"

text \<open>\<^verbatim>\<open>Split<T>\<close>: numbers as long as the extraction succeeds, one delimiter skipped after each.\<close>

fun Split_loop :: "nat \<Rightarrow> u8 list \<Rightarrow> u64 list" where
  "Split_loop 0 bs = []"
| "Split_loop (Suc n) bs = (case read_u64 bs of
     None \<Rightarrow> []
   | Some (v, rest) \<Rightarrow> v # Split_loop n (case rest of b # r \<Rightarrow> if b = COLON then r else rest | [] \<Rightarrow> []))"

definition Split :: "u8 list \<Rightarrow> u64 list" where
  "Split bs = Split_loop (Suc (length bs)) bs"

text \<open>\<^verbatim>\<open>Split<string>\<close>: the non-empty pieces between delimiters.\<close>

fun pieces :: "u8 \<Rightarrow> u8 list \<Rightarrow> u8 list \<Rightarrow> u8 list list" where
  "pieces d cur [] = [rev cur]"
| "pieces d cur (b # bs) = (if b = d then rev cur # pieces d [] bs else pieces d (b # cur) bs)"

definition Split_string :: "u8 list \<Rightarrow> u8 \<Rightarrow> u8 list list" where
  "Split_string bs d = filter (\<lambda>p. p \<noteq> []) (pieces d [] bs)"

text \<open>The zero-terminated string at an address.\<close>

definition c_string :: "memory \<Rightarrow> ptr \<Rightarrow> u8 list option" where
  "c_string m p = map_option (mem_read m p) (strlen m p)"

section \<open>Round trips\<close>

lemma digit_of_nat: "k < 10 \<Longrightarrow> is_digit (of_nat (48 + k)) \<and> unat (of_nat (48 + k) :: u8) - 48 = k"
  by (simp add: is_digit_def word_le_nat_alt unat_of_nat del: of_nat_add)

lemma dec_digits: "dec n \<noteq> [] \<and> list_all is_digit (dec n)"
proof (induction n rule: dec.induct)
  case (1 n)
  then show ?case
    using digit_of_nat [of n] digit_of_nat [of "n mod 10"] by (subst (1 2) dec.simps) (auto simp del: of_nat_add)
qed

lemma dec_value_append: "dec_value a (xs @ ys) = dec_value (dec_value a xs) ys"
  by (induction xs arbitrary: a) auto

lemma dec_value_dec: "dec_value 0 (dec n) = n"
proof (induction n rule: dec.induct)
  case (1 n)
  show ?case
  proof (cases "n < 10")
    case True
    then show ?thesis using digit_of_nat [of n] by (subst dec.simps) (simp del: of_nat_add)
  next
    case False
    then show ?thesis
      using 1 digit_of_nat [of "n mod 10"]
      by (subst dec.simps) (simp add: dec_value_append del: of_nat_add)
  qed
qed

definition ends_number :: "u8 list \<Rightarrow> bool" where
  "ends_number r = (case r of [] \<Rightarrow> True | b # _ \<Rightarrow> \<not> is_digit b)"

lemma take_digits:
  assumes "list_all is_digit ds" "ends_number r"
  shows "takeWhile is_digit (ds @ r) = ds" "dropWhile is_digit (ds @ r) = r"
  using assms by (auto simp: list_all_iff ends_number_def takeWhile_append dropWhile_append split: list.splits)

lemma read_digits_dec: "n < 2 ^ 64 \<Longrightarrow> ends_number r \<Longrightarrow> read_digits (dec n @ r) = Some (n, r)"
  using dec_digits [of n] by (simp add: read_digits_def take_digits dec_value_dec Let_def)

lemma dec_head: "\<exists>b bs. dec n = b # bs \<and> is_digit b"
  using dec_digits [of n] by (cases "dec n") auto

lemma digit_not_special: "is_digit b \<Longrightarrow> \<not> is_space b \<and> b \<noteq> 45 \<and> b \<noteq> 43"
  by (auto simp: is_digit_def is_space_def word_le_nat_alt)

lemma read_u64_dec: "n < 2 ^ 64 \<Longrightarrow> ends_number r \<Longrightarrow> read_u64 (dec n @ r) = Some (of_nat n, r)"
proof -
  assume n: "n < 2 ^ 64" "ends_number r"
  obtain b bs where b: "dec n = b # bs" "is_digit b" using dec_head by blast
  from read_digits_dec [OF n] b digit_not_special [OF b(2)] show ?thesis
    by (simp add: read_u64_def)
qed

lemma read_u64_int:
  assumes "\<bar>i\<bar> < 2 ^ 64" "ends_number r"
  shows "read_u64 (dec_int i @ r) = Some (of_int i, r)"
proof (cases "i < 0")
  case True
  have "(- of_nat (nat (- i)) :: u64) = of_int i" using True by simp
  moreover have "read_digits (dec (nat (- i)) @ r) = Some (nat (- i), r)"
    using assms True by (intro read_digits_dec) auto
  ultimately show ?thesis
    using True by (simp add: dec_int_def read_u64_def is_space_def)
next
  case False
  have "(of_nat (nat i) :: u64) = of_int i" using False by simp
  then show ?thesis
    using False assms read_u64_dec [of "nat i" r] by (simp add: dec_int_def)
qed

lemma colon_ends: "ends_number (COLON # r)"
  by (simp add: ends_number_def COLON_def is_digit_def)

text \<open>A line of numbers, each followed by a colon, splits into these numbers.\<close>

definition colon_line :: "int list \<Rightarrow> u8 list" where
  "colon_line is = concat (map (\<lambda>i. dec_int i @ [COLON]) is)"

lemma Split_loop_line:
  "\<forall>i \<in> set is. \<bar>i\<bar> < 2 ^ 64 \<Longrightarrow> length is < n \<Longrightarrow> Split_loop n (colon_line is) = map of_int is"
proof (induction "is" arbitrary: n)
  case Nil
  then show ?case by (cases n) (auto simp: colon_line_def read_u64_def)
next
  case (Cons i "is")
  then obtain m where n: "n = Suc m" by (cases n) auto
  have "read_u64 (dec_int i @ COLON # colon_line is) = Some (of_int i, COLON # colon_line is)"
    using Cons.prems by (intro read_u64_int colon_ends) auto
  moreover have "Split_loop m (colon_line is) = map of_int is"
    using Cons n by simp
  ultimately show ?case
    by (simp add: n) (simp add: colon_line_def)
qed

lemma length_colon_line: "length is \<le> length (colon_line is)"
  by (induction "is") (auto simp: colon_line_def)

lemma Split_line: "\<forall>i \<in> set is. \<bar>i\<bar> < 2 ^ 64 \<Longrightarrow> Split (colon_line is) = map of_int is"
  unfolding Split_def by (rule Split_loop_line) (use length_colon_line [of "is"] in auto)

end
