(* ===== verification/Gam_Remote.thy ===== *)
theory Gam_Remote
  imports Gam_Pending Gam_Text
begin

text \<open>
  Messages from other workers and from the master: \<^verbatim>\<open>gam/src/remote_request.cc\<close> and
  \<^verbatim>\<open>gam/src/remote_request_cache.cc\<close>. The home of a block answers reads and writes from memory, or
  forwards them to the owner and invalidates the sharers; a worker that caches a block answers
  fetches, forwards and invalidations from its line.
\<close>

definition set_wr :: "Worker \<Rightarrow> nat \<Rightarrow> Work \<Rightarrow> i32 \<Rightarrow> Worker option" where
  "set_wr s r op st = upd_wr s r (\<lambda>w. w\<lparr>wr_op := op, wr_status := st\<rparr>)"

text \<open>A reply to the sender and, for a forwarded request, with the original identifier to the requester.\<close>

definition reply_both :: "Worker \<Rightarrow> client \<Rightarrow> nat \<Rightarrow> bool \<Rightarrow> Worker option" where
  "reply_both s cli r forwarded = do {
     s \<leftarrow> SubmitPlain s (Some cli) r;
     if forwarded
     then do {
       w \<leftarrow> reqs s r;
       s \<leftarrow> upd_wr s r (\<lambda>w. w\<lparr>wr_id := wr_pid w\<rparr>);
       SubmitPlain s (FindClientWid s (wr_pwid w)) r }
     else Some s }"

definition ack :: "Worker \<Rightarrow> client \<Rightarrow> u32 \<Rightarrow> Worker" where
  "ack s cli i = cli_WriteWithImm s cli 0 0 0 i None"

section \<open>Memory\<close>

text \<open>The numbers of a memory report, four per worker: queue pair, worker, total and free bytes.\<close>

fun apply_stats :: "Worker \<Rightarrow> u64 list \<Rightarrow> nat \<Rightarrow> Worker option" where
  "apply_stats s xs 0 = Some s"
| "apply_stats s (qp # wid # mtotal # mfree # xs) (Suc k) = do {
     let w = (ucast wid :: i32);
     i \<leftarrow> map_of (widCliMap s) w;
     let s = s\<lparr>widCliMapWorker := (if w \<in> set (widCliMapWorker s) then widCliMapWorker s else widCliMapWorker s @ [w]),
               widCliMap := map (\<lambda>(v, j). if v = w then (v, SetMemStat i mtotal mfree) else (v, j)) (widCliMap s)\<rparr>;
     apply_stats s xs k }"
| "apply_stats s _ (Suc k) = None"

definition ProcessRemoteMemStat :: "Worker \<Rightarrow> nat \<Rightarrow> Worker option" where
  "ProcessRemoteMemStat s r = do {
     w \<leftarrow> reqs s r;
     bs \<leftarrow> c_string (mem s) (wr_ptr w);
     let xs = Split bs;
     s \<leftarrow> apply_stats s xs (unat (wr_size w));
     Some (delete_wr s r) }"

definition ProcessRemoteMalloc :: "Worker \<Rightarrow> client \<Rightarrow> nat \<Rightarrow> Worker option" where
  "ProcessRemoteMalloc s cli r = do {
     w \<leftarrow> reqs s r;
     (a, al) \<leftarrow> (if has w ALIGNED then sb_aligned_malloc (sb s) (wr_size w) BLOCK_SIZE
                 else sb_malloc (sb s) (wr_size w));
     let s = s\<lparr>sb := al\<rparr>;
     s \<leftarrow> (if a = 0 \<and> wr_size w \<noteq> 0 then None
          else Some (s\<lparr>mem := memset (mem s) a 0 (unat (wr_size w))\<rparr>));
     s \<leftarrow> (if a \<noteq> 0
          then do {
            s \<leftarrow> upd_wr s r (\<lambda>w. w\<lparr>wr_addr := TO_GLOB a (base s) (my_wid s), wr_status := SUCCESS\<rparr>);
            let s = s\<lparr>ghost_size := ghost_size s + wr_size w\<rparr>;
            if ghost_size s > ghost_th s then SyncMaster s UPDATE_MEM_STATS None else Some s }
          else upd_wr s r (\<lambda>w. w\<lparr>wr_status := ALLOC_ERROR\<rparr>));
     s \<leftarrow> upd_wr s r (\<lambda>w. w\<lparr>wr_op := MALLOC_REPLY\<rparr>);
     s \<leftarrow> SubmitPlain s (Some cli) r;
     Some (delete_wr s r) }"

definition ProcessRemoteMallocReply :: "nat \<Rightarrow> local_handler \<Rightarrow> Worker \<Rightarrow> nat \<Rightarrow> Worker option" where
  "ProcessRemoteMallocReply n plr s r = do {
     w \<leftarrow> reqs s r;
     pr \<leftarrow> GetPendingWork s (wr_id w);
     s \<leftarrow> upd_wr s pr (\<lambda>p. p\<lparr>wr_addr := wr_addr w, wr_status := wr_status w\<rparr>);
     s \<leftarrow> Notify n plr (ErasePendingWork s (wr_id w)) pr;
     Some (delete_wr s r) }"

definition ProcessRemoteGetReply :: "nat \<Rightarrow> local_handler \<Rightarrow> Worker \<Rightarrow> nat \<Rightarrow> Worker option" where
  "ProcessRemoteGetReply n plr s r = do {
     w \<leftarrow> reqs s r;
     pr \<leftarrow> GetPendingWork s (wr_id w);
     p \<leftarrow> reqs s pr;
     s \<leftarrow> upd_wr s pr (\<lambda>p. p\<lparr>wr_status := wr_status w, wr_size := wr_size w\<rparr>);
     let s = (if wr_status w \<noteq> 0 then s else mcpy s (wr_ptr p) (wr_ptr w) (unat (wr_size w)));
     s \<leftarrow> Notify n plr s pr;
     Some (delete_wr (ErasePendingWork s (wr_id w)) r) }"

definition ProcessRemoteFree :: "Worker \<Rightarrow> nat \<Rightarrow> Worker option" where
  "ProcessRemoteFree s r = do {
     w \<leftarrow> reqs s r;
     (sz, m, al) \<leftarrow> sb_free (mem s) (sb s) (ToLocal s (wr_addr w));
     let s = s\<lparr>mem := m, sb := al, ghost_size := ghost_size s - sz\<rparr>;
     s \<leftarrow> (if ghost_size s > ghost_th s then SyncMaster s UPDATE_MEM_STATS None else Some s);
     Some (delete_wr s r) }"

section \<open>Evictions announced to the home\<close>

definition ProcessRemoteEvictShared :: "Worker \<Rightarrow> client \<Rightarrow> nat \<Rightarrow> Worker option" where
  "ProcessRemoteEvictShared s cli r = do {
     w \<leftarrow> reqs s r;
     let entry = GetEntry (directory s) (ToLocal s (wr_addr w));
     if InTransitionState_e (directory s) entry then Some (AddToServeRemoteRequest s (wr_addr w) cli r)
     else do {
       g \<leftarrow> cli_ToGlobal s cli (wr_ptr w);
       (d, _) \<leftarrow> Clear_e (directory s) entry g;
       Some (delete_wr (set_dir s d) r) } }"

definition ProcessRemoteEvictDirty :: "Worker \<Rightarrow> client \<Rightarrow> nat \<Rightarrow> Worker option" where
  "ProcessRemoteEvictDirty s cli r = do {
     w \<leftarrow> reqs s r;
     let entry = GetEntry (directory s) (ToLocal s (wr_addr w));
     if InTransitionState_e (directory s) entry then Some (AddToServeRemoteRequest s (wr_addr w) cli r)
     else do {
       g \<leftarrow> cli_ToGlobal s cli (wr_ptr w);
       (d, _) \<leftarrow> Clear_e (directory s) entry g;
       Some (delete_wr (ack (set_dir s d) cli (wr_id w)) r) } }"

section \<open>Reads at the home\<close>

definition ProcessRemoteRead :: "Worker \<Rightarrow> client \<Rightarrow> nat \<Rightarrow> Worker option" where
  "ProcessRemoteRead s cli r = do {
     w \<leftarrow> reqs s r;
     let laddr = ToLocal s (wr_addr w);
     let entry = GetEntry (directory s) laddr;
     if InTransitionState_e (directory s) entry then Some (AddToServeRemoteRequest s (wr_addr w) cli r)
     else if GetState_e (directory s) entry \<noteq> DIR_DIRTY
     then (if IsBlockWLocked_e (directory s) entry
           then (if has w TRY_LOCK
                 then do {
                   s \<leftarrow> set_wr s r READ_REPLY LOCK_FAILED;
                   s \<leftarrow> SubmitPlain s (Some cli) r;
                   Some (delete_wr s r) }
                 else Some (AddToServeRemoteRequest s (wr_addr w) cli r))
           else do {
             let s = cli_WriteWithImm s cli (wr_ptr w) laddr (unat (wr_size w)) (wr_id w) None;
             g \<leftarrow> cli_ToGlobal s cli (wr_ptr w);
             d \<leftarrow> (if entry \<noteq> None then ToShared_e (directory s) entry g else ToShared_p (directory s) laddr g);
             Some (delete_wr (set_dir s d) r) })
     else do {
       (lr, s) \<leftarrow> clone_wr s r;
       s \<leftarrow> upd_wr s lr (\<lambda>l. l\<lparr>wr_counter := 0, wr_op := READ_FORWARD, wr_parent := Some r, wr_pid := wr_id w,
              wr_pwid := cli_wid s cli\<rparr>);
       sh \<leftarrow> GetSList (directory s) entry;
       rc \<leftarrow> (case sh of [] \<Rightarrow> None | g # _ \<Rightarrow> Some g);
       d \<leftarrow> ToToShared_e (directory s) entry;
       let owner = GetClient s rc;
       SubmitPending (set_dir s d) owner lr } }"

section \<open>Reads of a cached block\<close>

definition ProcessRemoteReadCache :: "Worker \<Rightarrow> client \<Rightarrow> nat \<Rightarrow> Worker option" where
  "ProcessRemoteReadCache s cli r = do {
     w \<leftarrow> reqs s r;
     let fwd = (wr_op w \<noteq> FETCH_AND_SHARED);
     let blk = TOBLOCK (wr_addr w);
     (case GetCLine s blk of
        None \<Rightarrow> do {
          s \<leftarrow> set_wr s r READ_REPLY READ_ERROR;
          s \<leftarrow> reply_both s cli r fwd;
          Some (delete_wr s r) }
      | Some c \<Rightarrow> do {
          l \<leftarrow> caches s c;
          let deadlock = (Cache_InTransition (cl_state l));
          if cl_state l = CACHE_TO_DIRTY then Some (AddToServeRemoteRequest s (wr_addr w) cli r)
          else if Cache_IsBlockWLocked_l l
          then (if has w TRY_LOCK
                then do {
                  s \<leftarrow> set_wr s r READ_REPLY LOCK_FAILED;
                  s \<leftarrow> reply_both s cli r fwd;
                  Some (delete_wr s r) }
                else Some (AddToServeRemoteRequest s (wr_addr w) cli r))
          else do {
            s \<leftarrow> (if \<not> fwd
                 then Some (cli_WriteWithImm s cli (wr_ptr w) (cl_line l) (unat (wr_size w)) (wr_id w) None)
                 else do {
                   rq \<leftarrow> FindClientWid s (wr_pwid w);
                   home \<leftarrow> cli_ToLocal s cli blk;
                   let s = cli_WriteWithImm s rq (wr_ptr w) (cl_line l) (unat (wr_size w)) (wr_pid w) None;
                   Some (cli_WriteWithImm s cli home (cl_line l) (unat BLOCK_SIZE) (wr_id w) None) });
            s \<leftarrow> (if deadlock then Some s else Cache_ToShared s c);
            Some (delete_wr s r) } }) }"

text \<open>A read or read lock that failed (the data of a successful one comes with an RDMA write).\<close>

definition ProcessRemoteReadReply :: "nat \<Rightarrow> local_handler \<Rightarrow> remote_handler \<Rightarrow> Worker \<Rightarrow> nat \<Rightarrow> Worker option" where
  "ProcessRemoteReadReply n plr prq s r = do {
     w \<leftarrow> reqs s r;
     pr \<leftarrow> GetPendingWork s (wr_id w);
     p \<leftarrow> reqs s pr;
     s \<leftarrow> (if wr_op p = READ \<or> wr_op p = FETCH_AND_SHARED
          then do {
            pp \<leftarrow> wr_parent p;
            s \<leftarrow> (if wr_op p = READ then Cache_ToInvalid_a s (wr_addr p)
                 else Some (set_dir s (UndoDirty_p (directory s) (wr_ptr p))));
            s \<leftarrow> upd_wr s pp (\<lambda>x. x\<lparr>wr_status := wr_status w\<rparr>);
            Notify n plr (ErasePendingWork s (wr_id w)) pp }
          else if wr_op p = READ_FORWARD
          then do {
            pp \<leftarrow> wr_parent p;
            let s = set_dir s (UndoDirty_p (directory s) (ToLocal s (wr_addr p)));
            Some (delete_wr (ErasePendingWork s (wr_id w)) pp) }
          else None);
     s \<leftarrow> ProcessToServeRequest plr prq s (wr_addr p);
     Some (delete_wr (delete_wr s pr) r) }"

section \<open>Writes at the home\<close>

text \<open>
  The invalidations sent to the sharers of a block but the writer itself, whose copy stays: the
  counter of \<open>lr\<close>, set to the number of sharers, is lowered when the writer is passed over.
\<close>

fun forward_invalidate :: "Worker \<Rightarrow> client \<Rightarrow> nat \<Rightarrow> u32 \<Rightarrow> bool \<Rightarrow> gaddr list \<Rightarrow> Worker option" where
  "forward_invalidate s cli lr i first [] = Some s"
| "forward_invalidate s cli lr i first (g # gs) =
     (if GetClient s g = Some cli
      then do {
        s \<leftarrow> upd_wr s lr (\<lambda>w. w\<lparr>wr_counter := wr_counter w - 1\<rparr>);
        forward_invalidate s cli lr i first gs }
      else do {
        let s = (if first then AddToPending s i lr else s);
        s \<leftarrow> SubmitPlain s (GetClient s g) lr;
        forward_invalidate s cli lr i False gs })"

definition remote_write_grant :: "Worker \<Rightarrow> client \<Rightarrow> nat \<Rightarrow> eptr \<Rightarrow> ptr \<Rightarrow> Worker option" where
  "remote_write_grant s cli r entry laddr = do {
     w \<leftarrow> reqs s r;
     s \<leftarrow> upd_wr s r (\<lambda>w. w\<lparr>wr_op := WRITE_REPLY, wr_status := SUCCESS, wr_counter := 0\<rparr>);
     s \<leftarrow> SubmitPlain s (Some cli) r;
     g \<leftarrow> cli_ToGlobal s cli (wr_ptr w);
     d \<leftarrow> (if entry \<noteq> None then ToDirty_e (directory s) entry g else ToDirty_p (directory s) laddr g);
     Some (delete_wr (set_dir s d) r) }"

definition ProcessRemoteWrite :: "Worker \<Rightarrow> client \<Rightarrow> nat \<Rightarrow> Worker option" where
  "ProcessRemoteWrite s cli r = do {
     w \<leftarrow> reqs s r;
     let laddr = ToLocal s (wr_addr w);
     let entry = GetEntry (directory s) laddr;
     let st = GetState_e (directory s) entry;
     if InTransitionState_s st then Some (AddToServeRemoteRequest s (wr_addr w) cli r)
     else if st \<noteq> DIR_DIRTY
     then (if IsBlockLocked_e (directory s) entry
           then (if has w TRY_LOCK
                 then do {
                   s \<leftarrow> upd_wr s r (\<lambda>w. w\<lparr>wr_status := LOCK_FAILED, wr_op := WRITE_REPLY, wr_counter := 0\<rparr>);
                   s \<leftarrow> SubmitPlain s (Some cli) r;
                   Some (delete_wr s r) }
                 else Some (AddToServeRemoteRequest s (wr_addr w) cli r))
           else if st = DIR_SHARED
           then do {
             sh \<leftarrow> GetSList (directory s) entry;
             (lr, s) \<leftarrow> clone_wr s r;
             let (i, s) = GetWorkPsn s;
             s \<leftarrow> upd_wr s lr (\<lambda>l. l\<lparr>wr_op := INVALIDATE_FORWARD, wr_parent := Some r, wr_id := i,
                    wr_pwid := cli_wid s cli, wr_counter := of_nat (length sh)\<rparr>);
             s \<leftarrow> forward_invalidate s cli lr i True sh;
             l \<leftarrow> reqs s lr;
             if wr_counter l \<noteq> 0
             then map_option (set_dir s) (ToToDirty_e (directory s) entry)
             else remote_write_grant (delete_wr s lr) cli r entry laddr }
           else remote_write_grant (cli_Write s cli (wr_ptr w) laddr (unat (wr_size w))) cli r entry laddr)
     else do {
       (lr, s) \<leftarrow> clone_wr s r;
       s \<leftarrow> upd_wr s lr (\<lambda>l. l\<lparr>wr_counter := 0,
              wr_op := (if wr_op w = WRITE \<or> wr_op w = WLOCK \<or> wr_op w = WRITE_PERMISSION_ONLY then WRITE_FORWARD else wr_op l),
              wr_parent := Some r, wr_pid := wr_id w, wr_pwid := cli_wid s cli\<rparr>);
       sh \<leftarrow> GetSList (directory s) entry;
       rc \<leftarrow> (case sh of [] \<Rightarrow> None | g # _ \<Rightarrow> Some g);
       let owner = GetClient s rc;
       d \<leftarrow> ToToDirty_e (directory s) entry;
       SubmitPending (set_dir s d) owner lr } }"

section \<open>Writes of a cached block\<close>

text \<open>
  The line is given up after its data has left: the request becomes a pending work that completes
  with the RDMA write.
\<close>

definition give_up_line :: "Worker \<Rightarrow> nat \<Rightarrow> gaddr \<Rightarrow> (u32 \<times> Worker) option" where
  "give_up_line s r c = do {
     let (i, s) = GetWorkPsn s;
     s \<leftarrow> upd_wr s r (\<lambda>w. w\<lparr>wr_id := i, wr_op := PENDING_INVALIDATE\<rparr>);
     s \<leftarrow> Cache_ToToInvalid (AddToPending s i r) c;
     Some (i, s) }"

definition write_cache_absent :: "Worker \<Rightarrow> client \<Rightarrow> nat \<Rightarrow> Worker option" where
  "write_cache_absent s cli r = do {
     w \<leftarrow> reqs s r;
     if wr_op w = INVALIDATE \<or> wr_op w = INVALIDATE_FORWARD
     then Some (delete_wr (ack s cli (wr_id w)) r)
     else do {
       s \<leftarrow> set_wr s r WRITE_REPLY WRITE_ERROR;
       s \<leftarrow> reply_both s cli r (wr_op w \<noteq> FETCH_AND_INVALIDATE);
       Some (delete_wr s r) } }"

definition write_cache_serve :: "Worker \<Rightarrow> client \<Rightarrow> nat \<Rightarrow> gaddr \<Rightarrow> CacheLine \<Rightarrow> bool \<Rightarrow> Worker option" where
  "write_cache_serve s cli r c l deadlock = do {
     w \<leftarrow> reqs s r;
     let sz = unat (wr_size w);
     if wr_op w = FETCH_AND_INVALIDATE
     then (if deadlock
           then Some (delete_wr (cli_WriteWithImm s cli (wr_ptr w) (cl_line l) sz (wr_id w) None) r)
           else do {
             s \<leftarrow> upd_wr s r (\<lambda>w. w\<lparr>wr_status := 0\<rparr>);
             (i, s) \<leftarrow> give_up_line s r c;
             Some (cli_WriteWithImm s cli (wr_ptr w) (cl_line l) sz (wr_id w) (Some i)) })
     else if wr_op w = INVALIDATE \<or> wr_op w = INVALIDATE_FORWARD
     then do {
       let s = ack s cli (wr_id w);
       s \<leftarrow> (if deadlock then Some s else Cache_ToInvalid s c);
       Some (delete_wr s r) }
     else do {
       rq \<leftarrow> FindClientWid s (wr_pwid w);
       if deadlock
       then Some (delete_wr (ack (cli_WriteWithImm s rq (wr_ptr w) (cl_line l) sz (wr_pid w) None) cli (wr_id w)) r)
       else do {
         (i, s) \<leftarrow> give_up_line s r c;
         let s = cli_WriteWithImm s rq (wr_ptr w) (cl_line l) sz (wr_pid w) (Some i);
         Some (ack s cli (wr_id w)) } } }"

definition ProcessRemoteWriteCache :: "Worker \<Rightarrow> client \<Rightarrow> nat \<Rightarrow> Worker option" where
  "ProcessRemoteWriteCache s cli r = do {
     w \<leftarrow> reqs s r;
     (case GetCLine s (wr_addr w) of
        None \<Rightarrow> write_cache_absent s cli r
      | Some c \<Rightarrow> do {
          l \<leftarrow> caches s c;
          let inval = (wr_op w = INVALIDATE \<or> wr_op w = INVALIDATE_FORWARD);
          let deadlock = (inval \<and> cl_state l = CACHE_TO_DIRTY \<or> cl_state l = CACHE_TO_INVALID);
          if Cache_InTransition (cl_state l) \<and> \<not> deadlock
          then Some (AddToServeRemoteRequest s (wr_addr w) cli r)
          else if Cache_IsBlockLocked_l l \<and> has w TRY_LOCK
          then do {
            s \<leftarrow> set_wr s r WRITE_REPLY LOCK_FAILED;
            s \<leftarrow> reply_both s cli r (\<not> inval \<and> wr_op w \<noteq> FETCH_AND_INVALIDATE);
            Some (delete_wr s r) }
          else if Cache_IsBlockLocked_l l \<and> \<not> deadlock
          then Some (AddToServeRemoteRequest s (wr_addr w) cli r)
          else write_cache_serve s cli r c l deadlock }) }"

section \<open>Write replies\<close>

text \<open>The pending work of a writer after one of its responders refused.\<close>

definition write_refused :: "nat \<Rightarrow> local_handler \<Rightarrow> remote_handler \<Rightarrow> Worker \<Rightarrow> client \<Rightarrow> nat \<Rightarrow> nat \<Rightarrow> Worker option" where
  "write_refused n plr prq s cli r pr = do {
     w \<leftarrow> reqs s r;
     p \<leftarrow> reqs s pr;
     pp \<leftarrow> wr_parent p;
     s \<leftarrow> upd_wr s pr (\<lambda>p. p\<lparr>wr_status := wr_status w,
            wr_counter := (if WID (wr_addr p) = wid64 (cli_wid s cli) then 0 else wr_counter p - 1)\<rparr>);
     s \<leftarrow> upd_wr s pp (\<lambda>x. x\<lparr>wr_status := wr_status w\<rparr>);
     p \<leftarrow> reqs s pr;
     if wr_counter p = 0
     then do {
       s \<leftarrow> (if wr_op p = WRITE then Cache_ToInvalid_a s (wr_addr p)
            else if wr_op p = WRITE_PERMISSION_ONLY then Cache_UndoShared_a s (wr_addr p)
            else if wr_op p = FETCH_AND_INVALIDATE then Some (set_dir s (UndoDirty_p (directory s) (wr_ptr p)))
            else Some (set_dir s (UndoShared_p (directory s) (wr_ptr p))));
       (_, s) \<leftarrow> dec_counter s pp;
       s \<leftarrow> Notify n plr s pp;
       s \<leftarrow> upd_wr s pr (\<lambda>p. p\<lparr>wr_parent := None\<rparr>);
       s \<leftarrow> ProcessToServeRequest plr prq s (wr_addr p);
       Some (delete_wr (ErasePendingWork s (wr_id w)) pr) }
     else Some s }"

text \<open>The home's forward to the owner was refused: the owner keeps the block.\<close>

definition forward_refused :: "local_handler \<Rightarrow> remote_handler \<Rightarrow> Worker \<Rightarrow> nat \<Rightarrow> nat \<Rightarrow> Worker option" where
  "forward_refused plr prq s r pr = do {
     w \<leftarrow> reqs s r;
     p \<leftarrow> reqs s pr;
     pp \<leftarrow> wr_parent p;
     d \<leftarrow> UndoDirty_e (directory s) (GetEntry (directory s) (ToLocal s (wr_addr p)));
     lcli \<leftarrow> FindClientWid s (wr_pwid p);
     let s = ack (set_dir s d) lcli (wr_pid p);
     let s = delete_wr s pp;
     s \<leftarrow> upd_wr s pr (\<lambda>p. p\<lparr>wr_parent := None\<rparr>);
     s \<leftarrow> ProcessToServeRequest plr prq s (wr_addr p);
     Some (delete_wr (ErasePendingWork s (wr_id w)) pr) }"

text \<open>A sharer refused an invalidation: with the last reply the writer is told, the block stays shared.\<close>

definition invalidate_refused :: "local_handler \<Rightarrow> remote_handler \<Rightarrow> Worker \<Rightarrow> nat \<Rightarrow> nat \<Rightarrow> Worker option" where
  "invalidate_refused plr prq s r pr = do {
     w \<leftarrow> reqs s r;
     s \<leftarrow> upd_wr s pr (\<lambda>p. p\<lparr>wr_counter := wr_counter p - 1, wr_status := wr_status w\<rparr>);
     p \<leftarrow> reqs s pr;
     pp \<leftarrow> wr_parent p;
     if wr_counter p = 0
     then do {
       let s = set_dir s (UndoShared_p (directory s) (ToLocal s (wr_addr p)));
       s \<leftarrow> upd_wr s pp (\<lambda>x. x\<lparr>wr_status := wr_status w, wr_op := WRITE_REPLY, wr_counter := 0\<rparr>);
       s \<leftarrow> SubmitPlain s (FindClientWid s (wr_pwid p)) pp;
       let s = delete_wr s pp;
       s \<leftarrow> upd_wr s pr (\<lambda>p. p\<lparr>wr_parent := None\<rparr>);
       s \<leftarrow> ProcessToServeRequest plr prq s (wr_addr p);
       Some (delete_wr (ErasePendingWork s (wr_id w)) pr) }
     else Some s }"

definition ProcessRemoteWriteReply :: "nat \<Rightarrow> local_handler \<Rightarrow> remote_handler \<Rightarrow> Worker \<Rightarrow> client \<Rightarrow> nat \<Rightarrow> Worker option" where
  "ProcessRemoteWriteReply n plr prq s cli r = do {
     w \<leftarrow> reqs s r;
     pr \<leftarrow> GetPendingWork s (wr_id w);
     p \<leftarrow> reqs s pr;
     s \<leftarrow> (if wr_status w \<noteq> 0
          then (case wr_op p of
                  WRITE \<Rightarrow> write_refused n plr prq s cli r pr
                | WRITE_PERMISSION_ONLY \<Rightarrow> write_refused n plr prq s cli r pr
                | FETCH_AND_INVALIDATE \<Rightarrow> write_refused n plr prq s cli r pr
                | INVALIDATE \<Rightarrow> write_refused n plr prq s cli r pr
                | WRITE_FORWARD \<Rightarrow> forward_refused plr prq s r pr
                | WRITE_PERMISSION_ONLY_FORWARD \<Rightarrow> forward_refused plr prq s r pr
                | INVALIDATE_FORWARD \<Rightarrow> invalidate_refused plr prq s r pr
                | _ \<Rightarrow> None)
          else do {
            s \<leftarrow> upd_wr s pr (\<lambda>p. p\<lparr>wr_counter := wr_counter p + wr_counter w\<rparr>);
            p \<leftarrow> reqs s pr;
            if wr_counter p = 0
            then do {
              s \<leftarrow> upd_wr s pr (\<lambda>p. set_flag p REQUEST_DONE);
              ProcessPendingRequest n plr prq s cli pr }
            else Some s });
     Some (delete_wr s r) }"

section \<open>The dispatcher\<close>

text \<open>An unknown operation ends the process.\<close>

definition ProcessRequest_body ::
    "nat \<Rightarrow> local_handler \<Rightarrow> remote_handler \<Rightarrow> Worker \<Rightarrow> client \<Rightarrow> nat \<Rightarrow> Worker option" where
  "ProcessRequest_body n plr prq s cli r = do {
     w \<leftarrow> reqs s r;
     (case wr_op w of
        FETCH_MEM_STATS_REPLY \<Rightarrow> ProcessRemoteMemStat s r
      | BROADCAST_MEM_STATS \<Rightarrow> ProcessRemoteMemStat s r
      | MALLOC \<Rightarrow> ProcessRemoteMalloc s cli r
      | MALLOC_REPLY \<Rightarrow> ProcessRemoteMallocReply n plr s r
      | FREE \<Rightarrow> ProcessRemoteFree s r
      | GET_REPLY \<Rightarrow> ProcessRemoteGetReply n plr s r
      | READ \<Rightarrow> ProcessRemoteRead s cli r
      | READ_FORWARD \<Rightarrow> ProcessRemoteReadCache s cli r
      | FETCH_AND_SHARED \<Rightarrow> ProcessRemoteReadCache s cli r
      | READ_REPLY \<Rightarrow> ProcessRemoteReadReply n plr prq s r
      | WRITE \<Rightarrow> ProcessRemoteWrite s cli r
      | WRITE_PERMISSION_ONLY \<Rightarrow> ProcessRemoteWrite s cli r
      | INVALIDATE \<Rightarrow> ProcessRemoteWriteCache s cli r
      | FETCH_AND_INVALIDATE \<Rightarrow> ProcessRemoteWriteCache s cli r
      | WRITE_FORWARD \<Rightarrow> ProcessRemoteWriteCache s cli r
      | INVALIDATE_FORWARD \<Rightarrow> ProcessRemoteWriteCache s cli r
      | WRITE_PERMISSION_ONLY_FORWARD \<Rightarrow> ProcessRemoteWriteCache s cli r
      | WRITE_REPLY \<Rightarrow> ProcessRemoteWriteReply n plr prq s cli r
      | ACTIVE_INVALIDATE \<Rightarrow> ProcessRemoteEvictShared s cli r
      | WRITE_BACK \<Rightarrow> ProcessRemoteEvictDirty s cli r
      | _ \<Rightarrow> None) }"

section \<open>Tying the handlers together\<close>

text \<open>
  The two entry points call each other through the requests they resume. The fuel bounds the depth
  of that nesting; a run that ends within a fuel ends the same way with more of it (\<open>handle_mono\<close> of
  \<open>Gam_Fuel\<close>).
\<close>

datatype call = LocalCall nat | RemoteCall client nat

fun handle :: "nat \<Rightarrow> Worker \<Rightarrow> call \<Rightarrow> (i32 \<times> Worker) option" where
  "handle 0 s c = None"
| "handle (Suc n) s c =
     (let plr = (\<lambda>s r. handle n s (LocalCall r));
          prq = (\<lambda>s cli r. map_option snd (handle n s (RemoteCall cli r)))
      in case c of
           LocalCall r \<Rightarrow> ProcessLocalRequest_body n plr prq s r
         | RemoteCall cli r \<Rightarrow> map_option (\<lambda>s. (SUCCESS, s)) (ProcessRequest_body n plr prq s cli r))"

definition ProcessLocalRequest :: "nat \<Rightarrow> Worker \<Rightarrow> nat \<Rightarrow> (i32 \<times> Worker) option" where
  "ProcessLocalRequest n s r = handle n s (LocalCall r)"

definition ProcessRequest :: "nat \<Rightarrow> Worker \<Rightarrow> client \<Rightarrow> nat \<Rightarrow> Worker option" where
  "ProcessRequest n s cli r = map_option snd (handle n s (RemoteCall cli r))"

end
