(* ===== verification/Gam_Fuel.thy ===== *)
theory Gam_Fuel
  imports Gam_Remote
begin

text \<open>
  The fuel of the handlers. The bound on the nesting of handlers and on the loop over a fence's queue
  only decides whether a run ends: a run that ends within a fuel ends in the same way with any larger
  one. Shown by monotonicity in the handlers called, along the order on results in which \<open>None\<close> is
  least.
\<close>

definition le_opt :: "'a option \<Rightarrow> 'a option \<Rightarrow> bool" where
  "le_opt a b \<longleftrightarrow> a = None \<or> a = b"

definition le_local :: "local_handler \<Rightarrow> local_handler \<Rightarrow> bool" where
  "le_local f g \<longleftrightarrow> (\<forall>s r. le_opt (f s r) (g s r))"

definition le_remote :: "remote_handler \<Rightarrow> remote_handler \<Rightarrow> bool" where
  "le_remote f g \<longleftrightarrow> (\<forall>s c r. le_opt (f s c r) (g s c r))"

named_theorems fuel_mono \<open>monotonicity of the handlers in the handlers they call\<close>

lemma le_opt_refl [fuel_mono]: "le_opt a a"
  by (simp add: le_opt_def)

lemma le_opt_bind [fuel_mono]:
  "le_opt a b \<Longrightarrow> (\<And>x. le_opt (f x) (g x)) \<Longrightarrow> le_opt (a \<bind> f) (b \<bind> g)"
  by (auto simp: le_opt_def) (metis bind.bind_lunit bind_eq_None_conv not_None_eq)

lemma le_opt_map [fuel_mono]: "le_opt a b \<Longrightarrow> le_opt (map_option f a) (map_option f b)"
  by (auto simp: le_opt_def)

lemma le_opt_let [fuel_mono]: "(\<And>x. le_opt (f x) (g x)) \<Longrightarrow> le_opt (Let a f) (Let a g)"
  by (simp add: Let_def)

lemma le_opt_if [fuel_mono]:
  "le_opt a a' \<Longrightarrow> le_opt b b' \<Longrightarrow> le_opt (if c then a else b) (if c then a' else b')"
  by simp

lemma le_opt_prod [fuel_mono]:
  "(\<And>x y. le_opt (f x y) (g x y)) \<Longrightarrow> le_opt (case p of (x, y) \<Rightarrow> f x y) (case p of (x, y) \<Rightarrow> g x y)"
  by (cases p) simp

lemma le_opt_option [fuel_mono]:
  "le_opt a a' \<Longrightarrow> (\<And>x. le_opt (f x) (g x)) \<Longrightarrow>
   le_opt (case z of None \<Rightarrow> a | Some x \<Rightarrow> f x) (case z of None \<Rightarrow> a' | Some x \<Rightarrow> g x)"
  by (cases z) simp_all

lemma le_opt_list [fuel_mono]:
  "le_opt a a' \<Longrightarrow> (\<And>x y. le_opt (f x y) (g x y)) \<Longrightarrow>
   le_opt (case z of [] \<Rightarrow> a | x # y \<Rightarrow> f x y) (case z of [] \<Rightarrow> a' | x # y \<Rightarrow> g x y)"
  by (cases z) simp_all

lemma le_local_app: "le_local f g \<Longrightarrow> le_opt (f s r) (g s r)"
  by (simp add: le_local_def)

lemma le_remote_app: "le_remote f g \<Longrightarrow> le_opt (f s c r) (g s c r)"
  by (simp add: le_remote_def)

section \<open>The services of the worker\<close>

lemma fenced_loop_mono:
  assumes l: "le_local f g"
  shows "n \<le> m \<Longrightarrow> le_opt (fenced_loop n f s fd) (fenced_loop m g s fd)"
proof (induction n arbitrary: m s)
  case (Suc n)
  then obtain k where k: "m = Suc k" "n \<le> k" by (cases m) auto
  show ?case
    unfolding k(1) fenced_loop.simps by (intro fuel_mono le_local_app [OF l] Suc.IH k(2))
qed (simp add: le_opt_def)

lemma serve_local_mono:
  assumes l: "le_local f g"
  shows "le_opt (serve_local f s rs) (serve_local g s rs)"
proof (induction rs arbitrary: s)
  case (Cons r rs)
  show ?case unfolding serve_local.simps by (intro fuel_mono le_local_app [OF l] Cons)
qed (simp add: le_opt_def)

lemma serve_remote_mono:
  assumes l: "le_remote f g"
  shows "le_opt (serve_remote f s rs) (serve_remote g s rs)"
proof (induction rs arbitrary: s)
  case (Cons r rs)
  show ?case
    by (cases r) (auto intro!: fuel_mono le_remote_app [OF l] Cons)
qed (simp add: le_opt_def)

lemma ProcessFenced_mono [fuel_mono]:
  assumes l: "le_local f g" and n: "n \<le> m"
  shows "le_opt (ProcessFenced n f s fd) (ProcessFenced m g s fd)"
  unfolding ProcessFenced_def by (intro fuel_mono l n le_local_app [OF l] fenced_loop_mono [OF l n])

lemma Notify_mono [fuel_mono]:
  assumes l: "le_local f g" and n: "n \<le> m"
  shows "le_opt (Notify n f s r) (Notify m g s r)"
  unfolding Notify_def by (intro fuel_mono l n le_local_app [OF l])

lemma ProcessToServeRequest_mono [fuel_mono]:
  assumes l: "le_local f g" and r: "le_remote p q"
  shows "le_opt (ProcessToServeRequest f p s a) (ProcessToServeRequest g q s a)"
  unfolding ProcessToServeRequest_def by (intro fuel_mono l r le_local_app [OF l] le_remote_app [OF r] serve_local_mono [OF l] serve_remote_mono [OF r])

lemma notify_deferred_mono [fuel_mono]:
  assumes l: "le_local f g" and n: "n \<le> m"
  shows "le_opt (notify_deferred n f s r d) (notify_deferred m g s r d)"
  unfolding notify_deferred_def by (intro fuel_mono l n le_local_app [OF l])

section \<open>Local requests\<close>

lemma malloc_here_mono [fuel_mono]:
  assumes l: "le_local f g" and n: "n \<le> m"
  shows "le_opt (malloc_here n f s r) (malloc_here m g s r)"
  unfolding malloc_here_def by (intro fuel_mono l n le_local_app [OF l])

lemma malloc_local_mono [fuel_mono]:
  assumes l: "le_local f g" and n: "n \<le> m"
  shows "le_opt (malloc_local n f s r) (malloc_local m g s r)"
  unfolding malloc_local_def by (intro fuel_mono l n le_local_app [OF l])

lemma ProcessLocalMalloc_mono [fuel_mono]:
  assumes l: "le_local f g" and n: "n \<le> m"
  shows "le_opt (ProcessLocalMalloc n f s r) (ProcessLocalMalloc m g s r)"
  unfolding ProcessLocalMalloc_def by (intro fuel_mono l n le_local_app [OF l])

lemma ProcessLocalFree_mono [fuel_mono]:
  assumes l: "le_local f g" and n: "n \<le> m"
  shows "le_opt (ProcessLocalFree n f s r) (ProcessLocalFree m g s r)"
  unfolding ProcessLocalFree_def by (intro fuel_mono l n le_local_app [OF l])

lemma ProcessLocalMFence_mono [fuel_mono]:
  assumes l: "le_local f g" and n: "n \<le> m"
  shows "le_opt (ProcessLocalMFence n f s r) (ProcessLocalMFence m g s r)"
  unfolding ProcessLocalMFence_def by (intro fuel_mono l n le_local_app [OF l])

lemma ProcessLocalSFence_mono [fuel_mono]:
  assumes l: "le_local f g" and n: "n \<le> m"
  shows "le_opt (ProcessLocalSFence n f s r) (ProcessLocalSFence m g s r)"
  unfolding ProcessLocalSFence_def by (intro fuel_mono l n le_local_app [OF l])

lemma ProcessLocalRead_mono [fuel_mono]:
  assumes l: "le_local f g" and n: "n \<le> m"
  shows "le_opt (ProcessLocalRead n f s r) (ProcessLocalRead m g s r)"
  unfolding ProcessLocalRead_def by (intro fuel_mono l n le_local_app [OF l])

lemma ProcessLocalWrite_mono [fuel_mono]:
  assumes l: "le_local f g" and n: "n \<le> m"
  shows "le_opt (ProcessLocalWrite n f s r) (ProcessLocalWrite m g s r)"
  unfolding ProcessLocalWrite_def by (intro fuel_mono l n le_local_app [OF l])

lemma ProcessLocalRLock_mono [fuel_mono]:
  assumes l: "le_local f g" and n: "n \<le> m"
  shows "le_opt (ProcessLocalRLock n f s r) (ProcessLocalRLock m g s r)"
  unfolding ProcessLocalRLock_def by (intro fuel_mono l n le_local_app [OF l])

lemma ProcessLocalWLock_mono [fuel_mono]:
  assumes l: "le_local f g" and n: "n \<le> m"
  shows "le_opt (ProcessLocalWLock n f s r) (ProcessLocalWLock m g s r)"
  unfolding ProcessLocalWLock_def by (intro fuel_mono l n le_local_app [OF l])

lemma ProcessLocalUnLock_mono [fuel_mono]:
  assumes l: "le_local f g" and r: "le_remote p q" and n: "n \<le> m"
  shows "le_opt (ProcessLocalUnLock n f p s r) (ProcessLocalUnLock m g q s r)"
  unfolding ProcessLocalUnLock_def by (intro fuel_mono l r n le_local_app [OF l] le_remote_app [OF r])

lemma ProcessLocalRequest_body_mono:
  assumes l: "le_local f g" and r: "le_remote p q" and n: "n \<le> m"
  shows "le_opt (ProcessLocalRequest_body n f p s x) (ProcessLocalRequest_body m g q s x)"
proof (cases "reqs s x")
  case (Some w)
  show ?thesis
    unfolding ProcessLocalRequest_body_def Some
    by (cases "wr_op w") (simp_all, (intro fuel_mono l r n)+)
qed (simp add: ProcessLocalRequest_body_def le_opt_def)

section \<open>Replies\<close>

lemma ProcessPendingRead_mono [fuel_mono]:
  assumes l: "le_local f g" and r: "le_remote p q" and n: "n \<le> m"
  shows "le_opt (ProcessPendingRead n f p s cli x) (ProcessPendingRead m g q s cli x)"
  unfolding ProcessPendingRead_def by (intro fuel_mono l r n le_local_app [OF l] le_remote_app [OF r])

lemma ProcessPendingReadForward_mono [fuel_mono]:
  assumes l: "le_local f g" and r: "le_remote p q"
  shows "le_opt (ProcessPendingReadForward f p s cli x) (ProcessPendingReadForward g q s cli x)"
  unfolding ProcessPendingReadForward_def by (intro fuel_mono l r le_local_app [OF l] le_remote_app [OF r])

lemma pending_write_failed_mono [fuel_mono]:
  assumes l: "le_local f g" and r: "le_remote p q" and n: "n \<le> m"
  shows "le_opt (pending_write_failed n f p s cli x cl en) (pending_write_failed m g q s cli x cl en)"
  unfolding pending_write_failed_def by (intro fuel_mono l r n le_local_app [OF l] le_remote_app [OF r])

lemma ProcessPendingWrite_mono [fuel_mono]:
  assumes l: "le_local f g" and r: "le_remote p q" and n: "n \<le> m"
  shows "le_opt (ProcessPendingWrite n f p s cli x) (ProcessPendingWrite m g q s cli x)"
  unfolding ProcessPendingWrite_def by (intro fuel_mono l r n le_local_app [OF l] le_remote_app [OF r])

lemma ProcessPendingWriteForward_mono [fuel_mono]:
  assumes l: "le_local f g" and r: "le_remote p q"
  shows "le_opt (ProcessPendingWriteForward f p s cli x) (ProcessPendingWriteForward g q s cli x)"
  unfolding ProcessPendingWriteForward_def by (intro fuel_mono l r le_local_app [OF l] le_remote_app [OF r])

lemma ProcessPendingEvictDirty_mono [fuel_mono]:
  assumes l: "le_local f g" and r: "le_remote p q"
  shows "le_opt (ProcessPendingEvictDirty f p s cli x) (ProcessPendingEvictDirty g q s cli x)"
  unfolding ProcessPendingEvictDirty_def by (intro fuel_mono l r le_local_app [OF l] le_remote_app [OF r])

lemma invalidate_forward_failed_mono [fuel_mono]:
  assumes l: "le_local f g" and r: "le_remote p q"
  shows "le_opt (invalidate_forward_failed f p s x en) (invalidate_forward_failed g q s x en)"
  unfolding invalidate_forward_failed_def by (intro fuel_mono l r le_local_app [OF l] le_remote_app [OF r])

lemma ProcessPendingInvalidateForward_mono [fuel_mono]:
  assumes l: "le_local f g" and r: "le_remote p q"
  shows "le_opt (ProcessPendingInvalidateForward f p s cli x) (ProcessPendingInvalidateForward g q s cli x)"
  unfolding ProcessPendingInvalidateForward_def by (intro fuel_mono l r le_local_app [OF l] le_remote_app [OF r])

lemma ProcessPendingRequest_mono [fuel_mono]:
  assumes l: "le_local f g" and r: "le_remote p q" and n: "n \<le> m"
  shows "le_opt (ProcessPendingRequest n f p s c x) (ProcessPendingRequest m g q s c x)"
proof (cases "reqs s x")
  case (Some w)
  show ?thesis
    unfolding ProcessPendingRequest_def Some
    by (cases "wr_op w") (simp_all, (intro fuel_mono l r n)+)
qed (simp add: ProcessPendingRequest_def le_opt_def)

section \<open>Remote requests\<close>

lemma ProcessRemoteMallocReply_mono [fuel_mono]:
  assumes l: "le_local f g" and n: "n \<le> m"
  shows "le_opt (ProcessRemoteMallocReply n f s r) (ProcessRemoteMallocReply m g s r)"
  unfolding ProcessRemoteMallocReply_def by (intro fuel_mono l n le_local_app [OF l])

lemma ProcessRemoteGetReply_mono [fuel_mono]:
  assumes l: "le_local f g" and n: "n \<le> m"
  shows "le_opt (ProcessRemoteGetReply n f s r) (ProcessRemoteGetReply m g s r)"
  unfolding ProcessRemoteGetReply_def by (intro fuel_mono l n le_local_app [OF l])

lemma ProcessRemoteReadReply_mono [fuel_mono]:
  assumes l: "le_local f g" and r: "le_remote p q" and n: "n \<le> m"
  shows "le_opt (ProcessRemoteReadReply n f p s x) (ProcessRemoteReadReply m g q s x)"
  unfolding ProcessRemoteReadReply_def by (intro fuel_mono l r n le_local_app [OF l] le_remote_app [OF r])

lemma write_refused_mono [fuel_mono]:
  assumes l: "le_local f g" and r: "le_remote p q" and n: "n \<le> m"
  shows "le_opt (write_refused n f p s cli x y) (write_refused m g q s cli x y)"
  unfolding write_refused_def by (intro fuel_mono l r n le_local_app [OF l] le_remote_app [OF r])

lemma forward_refused_mono [fuel_mono]:
  assumes l: "le_local f g" and r: "le_remote p q"
  shows "le_opt (forward_refused f p s x y) (forward_refused g q s x y)"
  unfolding forward_refused_def by (intro fuel_mono l r le_local_app [OF l] le_remote_app [OF r])

lemma invalidate_refused_mono [fuel_mono]:
  assumes l: "le_local f g" and r: "le_remote p q"
  shows "le_opt (invalidate_refused f p s x y) (invalidate_refused g q s x y)"
  unfolding invalidate_refused_def by (intro fuel_mono l r le_local_app [OF l] le_remote_app [OF r])

lemma ProcessRemoteWriteReply_mono [fuel_mono]:
  assumes l: "le_local f g" and r: "le_remote p q" and n: "n \<le> m"
  shows "le_opt (ProcessRemoteWriteReply n f p s c x) (ProcessRemoteWriteReply m g q s c x)"
proof -
  have "le_opt (case op of
                  WRITE \<Rightarrow> write_refused n f p s c x pr
                | WRITE_PERMISSION_ONLY \<Rightarrow> write_refused n f p s c x pr
                | FETCH_AND_INVALIDATE \<Rightarrow> write_refused n f p s c x pr
                | INVALIDATE \<Rightarrow> write_refused n f p s c x pr
                | WRITE_FORWARD \<Rightarrow> forward_refused f p s x pr
                | WRITE_PERMISSION_ONLY_FORWARD \<Rightarrow> forward_refused f p s x pr
                | INVALIDATE_FORWARD \<Rightarrow> invalidate_refused f p s x pr
                | _ \<Rightarrow> None)
              (case op of
                  WRITE \<Rightarrow> write_refused m g q s c x pr
                | WRITE_PERMISSION_ONLY \<Rightarrow> write_refused m g q s c x pr
                | FETCH_AND_INVALIDATE \<Rightarrow> write_refused m g q s c x pr
                | INVALIDATE \<Rightarrow> write_refused m g q s c x pr
                | WRITE_FORWARD \<Rightarrow> forward_refused g q s x pr
                | WRITE_PERMISSION_ONLY_FORWARD \<Rightarrow> forward_refused g q s x pr
                | INVALIDATE_FORWARD \<Rightarrow> invalidate_refused g q s x pr
                | _ \<Rightarrow> None)" for op pr
    by (cases op) (simp_all, (intro fuel_mono l r n)+)
  then show ?thesis
    unfolding ProcessRemoteWriteReply_def by (intro fuel_mono l r n)
qed

lemma ProcessRequest_body_mono:
  assumes l: "le_local f g" and r: "le_remote p q" and n: "n \<le> m"
  shows "le_opt (ProcessRequest_body n f p s c x) (ProcessRequest_body m g q s c x)"
proof (cases "reqs s x")
  case (Some w)
  show ?thesis
    unfolding ProcessRequest_body_def Some
    by (cases "wr_op w") (simp_all, (intro fuel_mono l r n)+)
qed (simp add: ProcessRequest_body_def le_opt_def)

lemma handle_le: "n \<le> m \<Longrightarrow> le_opt (handle n s c) (handle m s c)"
proof (induction n arbitrary: m s c)
  case (Suc n)
  then obtain k where k: "m = Suc k" "n \<le> k" by (cases m) auto
  have l: "le_local (\<lambda>s r. handle n s (LocalCall r)) (\<lambda>s r. handle k s (LocalCall r))"
    using Suc.IH [OF k(2)] by (simp add: le_local_def)
  have r: "le_remote (\<lambda>s c r. map_option snd (handle n s (RemoteCall c r)))
                     (\<lambda>s c r. map_option snd (handle k s (RemoteCall c r)))"
    using Suc.IH [OF k(2)] by (simp add: le_remote_def le_opt_map)
  show ?case
    unfolding k(1) handle.simps Let_def
    using ProcessLocalRequest_body_mono [OF l r k(2)] le_opt_map [OF ProcessRequest_body_mono [OF l r k(2)]]
    by (cases c) simp_all
qed (simp add: le_opt_def)


definition empty_report :: WorkRequest where
  "empty_report = new_WorkRequest\<lparr>wr_op := BROADCAST_MEM_STATS\<rparr>"

lemma empty_report_handled:
  assumes "reqs s r = Some (empty_report\<lparr>wr_ptr := p\<rparr>)" "mem s p = 0"
  shows "handle (Suc n) s (RemoteCall c r) = Some (SUCCESS, delete_wr s r)"
  using assms
  by (simp add: empty_report_def ProcessRequest_body_def ProcessRemoteMemStat_def c_string_def
      strlen.simps [of "mem s" p] new_WorkRequest_def)


end
