(* ===== verification/Gam_Master.thy ===== *)
theory Gam_Master
  imports Gam_State Gam_Text
begin

text \<open>
  The master: \<^verbatim>\<open>gam/src/master.cc\<close>. It collects the memory reports of the workers and passes them on,
  and it keeps a key-value store in which a \<^verbatim>\<open>GET\<close> waits for the \<^verbatim>\<open>PUT\<close> of its key.

  A \<^verbatim>\<open>Client*\<close> is the number of its queue pair, the key of \<^verbatim>\<open>qpCliMap\<close>. A request belongs to the master from
  the moment it is received until it is answered or deleted, so it is passed by value. The buffers
  the code takes from \<^verbatim>\<open>zmalloc\<close>, from the send slots of a connection or from its stack are read from
  \<open>m_alloc_at\<close>. What is sent are the bytes of the serialised request.
\<close>

record MClient =
  mc_qp :: u32
  mc_wid :: i32
  mc_size :: u64
  mc_free :: u64

record Master =
  qpCliMap :: "(u32 \<times> MClient) list"
  m_widCliMapWorker :: "(i32 \<times> u32) list"
  unsynced_workers :: "u32 list"
  kvs :: "u64 \<rightharpoonup> ptr \<times> u64"
  to_serve_kv_request :: "u64 \<rightharpoonup> (u32 \<times> WorkRequest) list"
  unsynced_th :: nat
  m_mem :: memory
  m_alloc_at :: "nat \<Rightarrow> ptr"
  m_tick :: nat
  m_outbox :: "(u32 \<times> u8 list) list"

definition m_alloc :: "Master \<Rightarrow> ptr \<times> Master" where
  "m_alloc m = (m_alloc_at m (m_tick m), m\<lparr>m_tick := m_tick m + 1\<rparr>)"

text \<open>\<^verbatim>\<open>wr->key\<close>, \<^verbatim>\<open>wr->free\<close> and \<^verbatim>\<open>wr->addr\<close> are one field of a union.\<close>

definition wr_key :: "WorkRequest \<Rightarrow> u64" where
  "wr_key w = wr_addr w"

definition MSetMemStat :: "MClient \<Rightarrow> u64 \<Rightarrow> u64 \<Rightarrow> MClient" where
  "MSetMemStat c sz fr = c\<lparr>mc_size := through_int sz, mc_free := through_int fr\<rparr>"

section \<open>Sending\<close>

definition m_emit :: "Master \<Rightarrow> u32 \<Rightarrow> ptr \<Rightarrow> nat \<Rightarrow> Master" where
  "m_emit m c buf len = m\<lparr>m_outbox := m_outbox m @ [(c, mem_read (m_mem m) buf len)]\<rparr>"

definition m_send :: "Master \<Rightarrow> u32 \<Rightarrow> WorkRequest \<Rightarrow> Master option" where
  "m_send m c w = do {
     let (buf, m) = m_alloc m;
     (mm, len) \<leftarrow> Ser (m_mem m) buf w;
     Some (m_emit (m\<lparr>m_mem := mm\<rparr>) c buf len) }"

text \<open>\<^verbatim>\<open>Broadcast\<close>: the message is copied to a slot of every connection and sent there.\<close>

fun Broadcast :: "Master \<Rightarrow> u32 list \<Rightarrow> ptr \<Rightarrow> nat \<Rightarrow> Master" where
  "Broadcast m [] buf len = m"
| "Broadcast m (c # cs) buf len =
     (let (slot, m) = m_alloc m
      in Broadcast (m_emit (m\<lparr>m_mem := memcpy (m_mem m) slot buf len\<rparr>) c slot len) cs buf len)"

section \<open>Memory reports\<close>

text \<open>
  \<^verbatim>\<open>sprintf\<close> with \<^verbatim>\<open>"%u:%d:%ld:%ld"\<close>, as \<^verbatim>\<open>UPDATE_MEM_STATS\<close> writes one worker's report, and with
  \<^verbatim>\<open>"%u:%d:%ld:%ld:"\<close>, as \<^verbatim>\<open>FETCH_MEM_STATS\<close> does.
\<close>

definition update_report :: "MClient \<Rightarrow> u8 list" where
  "update_report c = dec_int (uint (mc_qp c)) @ COLON # dec_int (sint (mc_wid c)) @ COLON #
     dec_int (sint (mc_size c)) @ COLON # dec_int (sint (mc_free c))"

definition fetch_report :: "MClient \<Rightarrow> u8 list" where
  "fetch_report c = update_report c @ [COLON]"

fun lookup_all :: "Master \<Rightarrow> u32 list \<Rightarrow> MClient list option" where
  "lookup_all m [] = Some []"
| "lookup_all m (q # qs) = do { c \<leftarrow> map_of (qpCliMap m) q; cs \<leftarrow> lookup_all m qs; Some (c # cs) }"

definition m_UpdateMemStats :: "Master \<Rightarrow> u32 \<Rightarrow> WorkRequest \<Rightarrow> Master option" where
  "m_UpdateMemStats m q w = do {
     c \<leftarrow> map_of (qpCliMap m) q;
     let m = m\<lparr>qpCliMap := AList.update q (MSetMemStat c (wr_size w) (wr_addr w)) (qpCliMap m),
               unsynced_workers := unsynced_workers m @ [q],
               m_widCliMapWorker := AList.update (mc_wid c) q (m_widCliMapWorker m)\<rparr>;
     if length (unsynced_workers m) = unsynced_th m
     then do {
       cs \<leftarrow> lookup_all m (unsynced_workers m);
       let (buf, m) = m_alloc m;
       let (send_buf, m) = m_alloc m;
       let m = m\<lparr>m_mem := mem_write (m_mem m) buf (concat (map update_report cs) @ [0]), unsynced_workers := []\<rparr>;
       (mm, len) \<leftarrow> Ser (m_mem m) send_buf
          (new_WorkRequest\<lparr>wr_op := BROADCAST_MEM_STATS, wr_size := of_nat (unsynced_th m), wr_ptr := buf\<rparr>);
       Some (Broadcast (m\<lparr>m_mem := mm\<rparr>) (map fst (qpCliMap m)) send_buf len) }
     else Some m }"

definition m_FetchMemStats :: "Master \<Rightarrow> u32 \<Rightarrow> Master option" where
  "m_FetchMemStats m q = do {
     cs \<leftarrow> lookup_all m (map snd (m_widCliMapWorker m));
     let (buf, m) = m_alloc m;
     let m = m\<lparr>m_mem := mem_write (m_mem m) buf (concat (map fetch_report cs) @ [0])\<rparr>;
     m_send m q (new_WorkRequest\<lparr>wr_op := FETCH_MEM_STATS_REPLY, wr_size := of_nat (length cs), wr_ptr := buf\<rparr>) }"

section \<open>The key-value store\<close>

definition m_Get :: "Master \<Rightarrow> u32 \<Rightarrow> WorkRequest \<Rightarrow> Master option" where
  "m_Get m q w = (case kvs m (wr_key w) of
     Some (p, sz) \<Rightarrow> m_send m q (w\<lparr>wr_ptr := p, wr_size := sz, wr_op := GET_REPLY\<rparr>)
   | None \<Rightarrow> Some (m\<lparr>to_serve_kv_request := (to_serve_kv_request m)(wr_key w \<mapsto>
       (case to_serve_kv_request m (wr_key w) of Some l \<Rightarrow> l | None \<Rightarrow> []) @ [(q, w)])\<rparr>))"

text \<open>The requests that waited for a key, all of them \<^verbatim>\<open>GET\<close>s (\<open>master_ok\<close> below), in order of arrival.\<close>

fun m_serve :: "Master \<Rightarrow> (u32 \<times> WorkRequest) list \<Rightarrow> Master option" where
  "m_serve m [] = Some m"
| "m_serve m ((q, w) # ws) = do {
     m \<leftarrow> (if wr_op w = GET then m_Get m q (set_flag w TO_SERVE) else None);
     m_serve m ws }"

definition m_Put :: "Master \<Rightarrow> WorkRequest \<Rightarrow> Master option" where
  "m_Put m w = do {
     let (p, m) = m_alloc m;
     let m = m\<lparr>m_mem := memcpy (m_mem m) p (wr_ptr w) (unat (wr_size w)),
               kvs := (kvs m)(wr_key w \<mapsto> (p, wr_size w))\<rparr>;
     (case to_serve_kv_request m (wr_key w) of
        None \<Rightarrow> Some m
      | Some ws \<Rightarrow> do {
          m \<leftarrow> m_serve m ws;
          Some (m\<lparr>to_serve_kv_request := (to_serve_kv_request m)(wr_key w := None)\<rparr>) }) }"

text \<open>\<^verbatim>\<open>Master::ProcessRequest\<close>: an unknown operation is logged.\<close>

definition Master_ProcessRequest :: "Master \<Rightarrow> u32 \<Rightarrow> WorkRequest \<Rightarrow> Master option" where
  "Master_ProcessRequest m q w =
     (if wr_op w = UPDATE_MEM_STATS then m_UpdateMemStats m q w
      else if wr_op w = FETCH_MEM_STATS then m_FetchMemStats m q
      else if wr_op w = PUT then m_Put m w
      else if wr_op w = GET then m_Get m q w
      else Some m)"

section \<open>The store answers\<close>

text \<open>A key has waiting requests only as long as it has no value, and these are the \<^verbatim>\<open>GET\<close>s of the key.\<close>

definition waiting :: "u64 \<Rightarrow> u32 \<times> WorkRequest \<Rightarrow> bool" where
  "waiting k x \<longleftrightarrow> wr_op (snd x) = GET \<and> wr_key (snd x) = k"

definition master_ok :: "Master \<Rightarrow> bool" where
  "master_ok m \<longleftrightarrow> (\<forall>k ws. to_serve_kv_request m k = Some ws \<longrightarrow>
     kvs m k = None \<and> (\<forall>x \<in> set ws. waiting k x))"

text \<open>The answer to the request \<open>w\<close> of a client when the value has \<open>sz\<close> bytes.\<close>

definition get_reply :: "WorkRequest \<Rightarrow> u64 \<Rightarrow> WorkRequest" where
  "get_reply w sz = w\<lparr>wr_size := sz, wr_op := GET_REPLY\<rparr>"

lemma get_reply_header: "wire_header (set_flag w f\<lparr>wr_ptr := p, wr_size := sz, wr_op := GET_REPLY\<rparr>) = wire_header (get_reply w sz)"
  "wire_header (w\<lparr>wr_ptr := p, wr_size := sz, wr_op := GET_REPLY\<rparr>) = wire_header (get_reply w sz)"
  by (simp_all add: wire_header_def ser_items_def get_reply_def set_flag_def)

lemma m_send_value:
  assumes "value_op (wr_op w)" "n = unat (wr_size w)" "n + 64 \<le> 2 ^ 64" "buf = m_alloc_at m (m_tick m)"
    and "disjoint_from buf (n + 64) (wr_ptr w) (n + 1)"
  shows "m_send m c w = Some (m\<lparr>m_tick := m_tick m + 1,
    m_mem := mem_write (m_mem m) buf (wire_header w @ mem_read (m_mem m) (wr_ptr w) n @ [0]),
    m_outbox := m_outbox m @ [(c, wire_header w @ mem_read (m_mem m) (wr_ptr w) n)]\<rparr>)"
proof -
  let ?bs = "wire_header w @ mem_read (m_mem m) (wr_ptr w) n"
  have "payload_ok (m_mem m) w n" using assms(1,2) by (auto simp: payload_ok_def string_op_def value_op_def)
  then have ser: "Ser (m_mem m) buf w = Some (mem_write (m_mem m) buf (?bs @ [0]), length ?bs)"
    unfolding wire_header_def using Ser_eq [of "m_mem m" w n buf] assms by simp
  have "length ?bs + 1 \<le> 2 ^ 64" using header_length [of w] assms(3) by (simp add: wire_header_def)
  then have "mem_read (mem_write (m_mem m) buf (?bs @ [0])) buf (length ?bs) = ?bs"
    using mem_read_written [of "[]" ?bs "[0]" "m_mem m" buf] by simp
  then show ?thesis
    using ser assms(4) by (simp add: m_send_def m_alloc_def m_emit_def)
qed

lemma m_Get_value:
  assumes "kvs m (wr_key w) = Some (p, sz)" "n = unat sz" "n + 64 \<le> 2 ^ 64" "buf = m_alloc_at m (m_tick m)"
    and "disjoint_from buf (n + 64) p (n + 1)"
  shows "m_Get m q w = Some (m\<lparr>m_tick := m_tick m + 1,
    m_mem := mem_write (m_mem m) buf (wire_header (get_reply w sz) @ mem_read (m_mem m) p n @ [0]),
    m_outbox := m_outbox m @ [(q, wire_header (get_reply w sz) @ mem_read (m_mem m) p n)]\<rparr>)"
  using m_send_value [of "w\<lparr>wr_ptr := p, wr_size := sz, wr_op := GET_REPLY\<rparr>" n buf m q] assms
  by (simp add: m_Get_def value_op_def get_reply_header)

lemma m_serve_all:
  assumes "kvs m k = Some (p, sz)" "n = unat sz" "n + 64 \<le> 2 ^ 64"
    and "\<forall>j \<ge> m_tick m. disjoint_from (m_alloc_at m j) (n + 64) p (n + 1)"
    and "\<forall>x \<in> set ws. waiting k x"
  shows "\<exists>m'. m_serve m ws = Some m' \<and> kvs m' = kvs m \<and> to_serve_kv_request m' = to_serve_kv_request m \<and>
    m_outbox m' = m_outbox m @ map (\<lambda>(q, w). (q, wire_header (get_reply w sz) @ mem_read (m_mem m) p n)) ws \<and>
    mem_read (m_mem m') p n = mem_read (m_mem m) p n"
  using assms
proof (induction ws arbitrary: m)
  case (Cons x ws)
  obtain q w where x: "x = (q, w)" by (cases x)
  let ?buf = "m_alloc_at m (m_tick m)"
  let ?bs = "wire_header (get_reply w sz) @ mem_read (m_mem m) p n @ [0]"
  let ?m = "m\<lparr>m_tick := m_tick m + 1, m_mem := mem_write (m_mem m) ?buf ?bs,
    m_outbox := m_outbox m @ [(q, wire_header (get_reply w sz) @ mem_read (m_mem m) p n)]\<rparr>"
  have dj: "disjoint_from ?buf (n + 64) p (n + 1)" using Cons.prems(4) by simp
  have w: "wr_op w = GET" "wr_key (set_flag w TO_SERVE) = k"
    using Cons.prems(5) x by (simp_all add: waiting_def wr_key_def set_flag_def)
  have hd: "wire_header (get_reply (set_flag w TO_SERVE) sz) = wire_header (get_reply w sz)"
    by (simp add: wire_header_def ser_items_def get_reply_def set_flag_def)
  have get: "m_Get m q (set_flag w TO_SERVE) = Some ?m"
    using m_Get_value [of m "set_flag w TO_SERVE" p sz n ?buf q] Cons.prems(1-3) dj w(2) unfolding hd by simp
  have keep: "mem_read (m_mem ?m) p n = mem_read (m_mem m) p n"
    using header_length [of "get_reply w sz"] dj
    by (intro mem_read_cong) (auto intro!: mem_write_disjoint [where n = "n + 64" and k = "n + 1"] simp: wire_header_def)
  have "\<exists>m'. m_serve ?m ws = Some m' \<and> kvs m' = kvs ?m \<and> to_serve_kv_request m' = to_serve_kv_request ?m \<and>
    m_outbox m' = m_outbox ?m @ map (\<lambda>(q, w). (q, wire_header (get_reply w sz) @ mem_read (m_mem ?m) p n)) ws \<and>
    mem_read (m_mem m') p n = mem_read (m_mem ?m) p n"
    using Cons.prems by (intro Cons.IH) auto
  then show ?case unfolding keep by (simp add: x w(1) get)
qed simp


section \<open>Reachable states\<close>

text \<open>The master serves one request after the other, from a state with an empty store.\<close>

inductive master_reach :: "Master \<Rightarrow> bool" where
  start: "kvs m = Map.empty \<Longrightarrow> to_serve_kv_request m = Map.empty \<Longrightarrow> master_reach m"
| step: "master_reach m \<Longrightarrow> Master_ProcessRequest m q w = Some m' \<Longrightarrow> master_reach m'"

lemma m_send_kv: "m_send m c w = Some m' \<Longrightarrow> kvs m' = kvs m \<and> to_serve_kv_request m' = to_serve_kv_request m"
  by (auto simp: m_send_def m_alloc_def m_emit_def split: option.splits bind_splits)

lemma Broadcast_kv: "kvs (Broadcast m cs buf len) = kvs m" "to_serve_kv_request (Broadcast m cs buf len) = to_serve_kv_request m"
  by (induction m cs buf len rule: Broadcast.induct) (auto simp: m_alloc_def m_emit_def Let_def)

lemma mem_stats_kv:
  "m_UpdateMemStats m q w = Some m' \<Longrightarrow> kvs m' = kvs m \<and> to_serve_kv_request m' = to_serve_kv_request m"
  "m_FetchMemStats m q = Some m' \<Longrightarrow> kvs m' = kvs m \<and> to_serve_kv_request m' = to_serve_kv_request m"
  by (auto simp: m_UpdateMemStats_def m_FetchMemStats_def m_alloc_def Let_def Broadcast_kv
      split: bind_splits if_splits dest!: m_send_kv)

lemma master_start_ok: "to_serve_kv_request m = Map.empty \<Longrightarrow> master_ok m"
  by (simp add: master_ok_def)

lemma m_Get_ok: "master_ok m \<Longrightarrow> wr_op w = GET \<Longrightarrow> m_Get m q w = Some m' \<Longrightarrow> master_ok m'"
  by (auto simp: m_Get_def master_ok_def waiting_def [of "wr_key w" "(q, w)"] split: option.splits if_splits dest!: m_send_kv)

lemma m_serve_kv:
  assumes "kvs m k \<noteq> None" "\<forall>x \<in> set ws. waiting k x" "m_serve m ws = Some m'"
  shows "kvs m' = kvs m \<and> to_serve_kv_request m' = to_serve_kv_request m"
  using assms
  by (induction m ws rule: m_serve.induct)
    (fastforce simp: waiting_def m_Get_def wr_key_def set_flag_def split: bind_splits if_splits option.splits dest!: m_send_kv)+

lemma m_Put_ok:
  assumes "master_ok m" "m_Put m w = Some m'"
  shows "master_ok m'"
proof (cases "to_serve_kv_request m (wr_key w)")
  case None
  then show ?thesis using assms by (auto simp: m_Put_def m_alloc_def master_ok_def Let_def)
next
  case (Some ws)
  let ?m = "snd (m_alloc m)\<lparr>m_mem := memcpy (m_mem m) (m_alloc_at m (m_tick m)) (wr_ptr w) (unat (wr_size w)),
    kvs := (kvs m)(wr_key w \<mapsto> (m_alloc_at m (m_tick m), wr_size w))\<rparr>"
  obtain m1 where m1: "m_serve ?m ws = Some m1" "m' = m1\<lparr>to_serve_kv_request := (to_serve_kv_request m1)(wr_key w := None)\<rparr>"
    using assms(2) Some by (auto simp: m_Put_def m_alloc_def Let_def split: bind_splits)
  have "kvs m1 = kvs ?m \<and> to_serve_kv_request m1 = to_serve_kv_request ?m"
    using assms(1) Some by (intro m_serve_kv [OF _ _ m1(1), of "wr_key w"]) (auto simp: master_ok_def)
  then show ?thesis
    using assms(1) m1(2) by (auto simp: master_ok_def m_alloc_def)
qed

lemma master_step_ok: "master_ok m \<Longrightarrow> Master_ProcessRequest m q w = Some m' \<Longrightarrow> master_ok m'"
  unfolding Master_ProcessRequest_def
  by (auto split: if_splits intro: m_Get_ok m_Put_ok) (auto simp: master_ok_def dest!: mem_stats_kv)

text \<open>
  C22. Waiting requests are never misfiled or stranded: in every state the master reaches, the
  requests queued under a key are \<^verbatim>\<open>GET\<close>s of that key, and no request waits for a key that has a value.
\<close>

theorem master_never_strands:
  assumes "master_reach m" "to_serve_kv_request m k = Some ws"
  shows "kvs m k = None \<and> (\<forall>x \<in> set ws. waiting k x)"
proof -
  have "master_ok m"
    using assms(1) by (induction rule: master_reach.induct) (auto simp: master_start_ok intro: master_step_ok)
  then show ?thesis using assms(2) by (auto simp: master_ok_def)
qed

section \<open>Memory reports on the wire\<close>

lemma fetch_report_line:
  "fetch_report c = colon_line [uint (mc_qp c), sint (mc_wid c), sint (mc_size c), sint (mc_free c)]"
  by (simp add: fetch_report_def update_report_def colon_line_def)

lemma colon_line_concat: "concat (map (\<lambda>c. colon_line (f c)) cs) = colon_line (concat (map f cs))"
  by (induction cs) (auto simp: colon_line_def)

lemma abs_uint_less: "\<bar>uint (x :: u32)\<bar> < 2 ^ 64"
  using uint_lt2p [of x] by simp

lemma abs_sint_less: "\<bar>sint (x :: i32)\<bar> < 2 ^ 64" "\<bar>sint (y :: u64)\<bar> < 2 ^ 64"
  using sint_greater_eq [of x] sint_less [of x] sint_greater_eq [of y] sint_less [of y] by simp_all

text \<open>The numbers a worker reads for each reported worker.\<close>

definition report_numbers :: "MClient \<Rightarrow> u64 list" where
  "report_numbers c = [ucast (mc_qp c), scast (mc_wid c), mc_size c, mc_free c]"

text \<open>
  The answer to \<^verbatim>\<open>FETCH_MEM_STATS\<close> is read back by \<^verbatim>\<open>Split\<close> as it was meant: four numbers for every
  worker the master knows, in order, equal to the queue pair, the identifier and the two sizes, whatever
  their values, a size printed as a negative number included.
\<close>

lemma fetch_report_roundtrip: "Split (concat (map fetch_report cs)) = concat (map report_numbers cs)"
proof -
  let ?f = "\<lambda>c. [uint (mc_qp c), sint (mc_wid c), sint (mc_size c), sint (mc_free c)]"
  have "concat (map fetch_report cs) = colon_line (concat (map ?f cs))"
    using colon_line_concat [of ?f cs] by (simp add: fetch_report_line cong: map_cong)
  moreover have "Split (colon_line (concat (map ?f cs))) = map of_int (concat (map ?f cs))"
    by (rule Split_line) (use abs_uint_less abs_sint_less in auto)
  moreover have "map of_int (concat (map ?f cs)) = concat (map report_numbers cs)"
    by (induction cs) (simp_all add: report_numbers_def of_int_uint of_int_sint)
  ultimately show ?thesis by simp
qed

text \<open>
  Two reports of \<^verbatim>\<open>UPDATE_MEM_STATS\<close> in a row have no separator between them: the free memory of the first
  worker and the queue pair of the second are read as one number, or as none.
\<close>

lemma read_digits_merged:
  assumes "list_all is_digit ds" "read_digits (ds @ COLON # r) = Some (v, r')"
  shows "r' = COLON # r"
  using assms take_digits [OF assms(1) colon_ends [of r]] by (auto simp: read_digits_def Let_def split: if_splits)

lemma read_u64_merged:
  assumes "read_u64 (dec_int i @ dec n @ COLON # r) = Some (v, r')"
  shows "r' = COLON # r"
proof -
  have ds: "list_all is_digit (dec (nat j) @ dec n)" for j using dec_digits by simp
  obtain b bs where b: "dec (nat i) = b # bs" "is_digit b" using dec_head by blast
  show ?thesis
  proof (cases "i < 0")
    case True
    then show ?thesis
      using assms read_digits_merged [OF ds [of "- i"], of r] by (auto simp: dec_int_def read_u64_def is_space_def)
  next
    case False
    then show ?thesis
      using assms b digit_not_special [OF b(2)] read_digits_merged [OF ds [of i], of r]
      by (auto simp: dec_int_def read_u64_def)
  qed
qed

lemma Split_loop_step:
  "\<bar>i\<bar> < 2 ^ 64 \<Longrightarrow> Split_loop (Suc n) (dec_int i @ COLON # r) = of_int i # Split_loop n r"
  by (simp add: read_u64_int colon_ends)

lemma Split_loop_last: "\<bar>i\<bar> < 2 ^ 64 \<Longrightarrow> length (Split_loop n (dec_int i)) \<le> 1"
  using read_u64_int [of i "[]"] by (cases n; cases "n - 1") (auto simp: ends_number_def read_u64_def split: option.splits)

lemma Split_loop_bound: "\<bar>i\<bar> < 2 ^ 64 \<Longrightarrow> length (Split_loop n (dec_int i @ COLON # r)) \<le> Suc (length (Split_loop (n - 1) r))"
  by (cases n) (simp_all add: read_u64_int colon_ends)

lemma merged_reports: "length (Split (update_report a @ update_report b)) < 8"
proof -
  let ?t = "dec_int (sint (mc_wid b)) @ COLON # dec_int (sint (mc_size b)) @ COLON # dec_int (sint (mc_free b))"
  let ?m = "dec_int (sint (mc_free a)) @ dec (nat (uint (mc_qp b))) @ COLON # ?t"
  have bs: "update_report a @ update_report b =
      dec_int (uint (mc_qp a)) @ COLON # dec_int (sint (mc_wid a)) @ COLON # dec_int (sint (mc_size a)) @ COLON # ?m"
    by (simp add: update_report_def dec_int_def [of "uint (mc_qp b)"])
  have t: "length (Split_loop n ?t) \<le> 3" for n
    using Split_loop_bound [OF abs_sint_less(1), of n "mc_wid b" "dec_int (sint (mc_size b)) @ COLON # dec_int (sint (mc_free b))"]
      Split_loop_bound [OF abs_sint_less(2), of "n - 1" "mc_size b" "dec_int (sint (mc_free b))"]
      Split_loop_last [OF abs_sint_less(2), of "n - 1 - 1" "mc_free b"] by linarith
  have m: "length (Split_loop n ?m) \<le> 4" for n
    using t read_u64_merged [of "sint (mc_free a)" "nat (uint (mc_qp b))" ?t]
    by (cases n) (auto simp: COLON_def split: option.splits)
  let ?m2 = "dec_int (sint (mc_size a)) @ COLON # ?m"
  let ?m1 = "dec_int (sint (mc_wid a)) @ COLON # ?m2"
  have "length (Split_loop n (dec_int (uint (mc_qp a)) @ COLON # ?m1)) \<le> 7" for n
    using Split_loop_bound [OF abs_uint_less, of n "mc_qp a" ?m1] Split_loop_bound [OF abs_sint_less(1), of "n - 1" "mc_wid a" ?m2]
      Split_loop_bound [OF abs_sint_less(2), of "n - 1 - 1" "mc_size a" ?m] m [of "n - 1 - 1 - 1"] by linarith
  then show ?thesis unfolding Split_def bs by (rule le_less_trans) simp
qed

section \<open>The store at work\<close>

text \<open>A master with an empty store; client 5 asks for a key before it is published.\<close>

definition idle_master :: Master where
  "idle_master = \<lparr>qpCliMap = [], m_widCliMapWorker = [], unsynced_workers = [], kvs = Map.empty,
     to_serve_kv_request = Map.empty, unsynced_th = 1, m_mem = (\<lambda>_. 0), m_alloc_at = (\<lambda>k. if k = 0 then 4096 else 8192),
     m_tick = 0, m_outbox = []\<rparr>"

definition get_3 :: WorkRequest where
  "get_3 = new_WorkRequest\<lparr>wr_op := GET, wr_id := 9, wr_addr := 3\<rparr>"

theorem master_never_strands_witness:
  "\<exists>m ws. master_reach m \<and> to_serve_kv_request m 3 = Some ws \<and> ws = [(5, get_3)] \<and> (\<forall>x \<in> set ws. waiting 3 x) \<and> kvs m 3 = None"
proof -
  let ?m = "idle_master\<lparr>to_serve_kv_request := [3 \<mapsto> [(5, get_3)]]\<rparr>"
  have "master_reach ?m"
    by (rule master_reach.step [OF master_reach.start, of idle_master 5 get_3])
      (simp_all add: idle_master_def get_3_def Master_ProcessRequest_def m_Get_def wr_key_def fun_eq_iff)
  moreover have "to_serve_kv_request ?m 3 = Some [(5, get_3)]" by simp
  ultimately show ?thesis using master_never_strands [of ?m 3 "[(5, get_3)]"] by blast
qed


end
