(* ===== verification/Gam_Server.thy ===== *)
theory Gam_Server
  imports Gam_Fuel Gam_Master
begin

text \<open>
  Incoming completions: \<^verbatim>\<open>Server::ProcessRdmaRequest\<close> of \<^verbatim>\<open>gam/src/server.cc\<close>, shared by the workers and
  the master. A received buffer holds one or more serialised requests separated by zero bytes; each is
  deserialised and handed to the server's \<^verbatim>\<open>ProcessRequest\<close>.
\<close>

section \<open>The receive loop\<close>

text \<open>
  The loop over a received buffer, for a server whose memory is \<open>mem_of\<close> and whose \<^verbatim>\<open>ProcessRequest\<close> is
  \<open>process\<close>. Every round consumes at least the separator.
\<close>

function recv_loop :: "('s \<Rightarrow> memory) \<Rightarrow> ('s \<Rightarrow> WorkRequest \<Rightarrow> 's option) \<Rightarrow> 's \<Rightarrow> ptr \<Rightarrow> nat \<Rightarrow> nat \<Rightarrow> 's option" where
  "recv_loop mem_of process s data byte_len consumed =
     (if consumed < byte_len
      then do {
        (w, len) \<leftarrow> Deser (mem_of s) (data + of_nat consumed) new_WorkRequest;
        s \<leftarrow> process s w;
        recv_loop mem_of process s data byte_len (consumed + len + 1) }
      else Some s)"
  by pat_completeness auto
termination by (relation "measure (\<lambda>(_, _, _, _, byte_len, consumed). byte_len - consumed)") auto

declare recv_loop.simps [simp del]

section \<open>The two servers\<close>

text \<open>A completion of the connection \<^verbatim>\<open>cli\<close>; the identifier of a send or write is the one \<^verbatim>\<open>WriteComp\<close> found.\<close>

datatype completion =
    SendDone u32
  | WriteDone u32
  | Received ptr nat
  | ReceivedImm u32

definition worker_process :: "nat \<Rightarrow> client \<Rightarrow> Worker \<Rightarrow> WorkRequest \<Rightarrow> Worker option" where
  "worker_process n cli s w = (let (r, s) = alloc_wr s w in ProcessRequest n s cli r)"

definition Worker_ProcessRdmaRequest :: "nat \<Rightarrow> Worker \<Rightarrow> client \<Rightarrow> completion \<Rightarrow> Worker option" where
  "Worker_ProcessRdmaRequest n s cli c =
     (let plr = ProcessLocalRequest n; prq = ProcessRequest n
      in case c of
           SendDone i \<Rightarrow> CompletionCheck plr prq s i
         | WriteDone i \<Rightarrow> CompletionCheck plr prq s i
         | Received data len \<Rightarrow>
             recv_loop mem (worker_process n cli) (s\<lparr>mem := (mem s)(data + of_nat len := 0)\<rparr>) data len 0
         | ReceivedImm i \<Rightarrow> ProcessImm n plr prq s cli i)"

text \<open>The master inherits empty handlers for immediate data and completed writes.\<close>

definition Master_ProcessRdmaRequest :: "Master \<Rightarrow> u32 \<Rightarrow> completion \<Rightarrow> Master option" where
  "Master_ProcessRdmaRequest m q c = (case c of
       Received data len \<Rightarrow>
         recv_loop m_mem (\<lambda>m w. Master_ProcessRequest m q w) (m\<lparr>m_mem := (m_mem m)(data + of_nat len := 0)\<rparr>) data len 0
     | _ \<Rightarrow> Some m)"

section \<open>Merged messages\<close>

text \<open>A message and its payload, and the bytes of several messages, each followed by its separator.\<close>

definition message_ok :: "WorkRequest \<times> u8 list \<Rightarrow> bool" where
  "message_ok x \<longleftrightarrow> wr_op (fst x) \<in> set wire_ops \<and> payload_bytes (fst x) (snd x)"

definition message :: "WorkRequest \<times> u8 list \<Rightarrow> u8 list" where
  "message x = wire_header (fst x) @ snd x @ [0]"

definition messages :: "(WorkRequest \<times> u8 list) list \<Rightarrow> u8 list" where
  "messages xs = concat (map message xs)"

text \<open>What the receiver should do: handle the requests one after the other.\<close>

fun deliver_all :: "('s \<Rightarrow> WorkRequest \<Rightarrow> 's option) \<Rightarrow> 's \<Rightarrow> ptr \<Rightarrow> (WorkRequest \<times> u8 list) list \<Rightarrow> 's option" where
  "deliver_all process s p [] = Some s"
| "deliver_all process s p (x # xs) = do {
     s \<leftarrow> process s (received new_WorkRequest (fst x) (p + of_nat (length (wire_header (fst x)))));
     deliver_all process s (p + of_nat (length (message x))) xs }"

lemma message_nonempty: "message_ok x \<Longrightarrow> 4 < length (message x)"
  using wire_header_split [of "fst x"] by (simp add: message_ok_def message_def)

text \<open>The handlers leave the receive buffer alone while they run.\<close>

fun keeps :: "('s \<Rightarrow> memory) \<Rightarrow> ('s \<Rightarrow> WorkRequest \<Rightarrow> 's option) \<Rightarrow> ptr \<Rightarrow> nat \<Rightarrow> 's \<Rightarrow> ptr \<Rightarrow> (WorkRequest \<times> u8 list) list \<Rightarrow> bool" where
  "keeps mem_of process data len s p [] = True"
| "keeps mem_of process data len s p (x # xs) =
     (case process s (received new_WorkRequest (fst x) (p + of_nat (length (wire_header (fst x))))) of
        None \<Rightarrow> True
      | Some s' \<Rightarrow> mem_read (mem_of s') data len = mem_read (mem_of s) data len \<and>
          keeps mem_of process data len s' (p + of_nat (length (message x))) xs)"

lemma messages_Cons: "messages (x # xs) = message x @ messages xs"
  by (simp add: messages_def)

lemma Deser_message:
  assumes "message_ok x" "mem_read m p (length (message x)) = message x"
  shows "Deser m p new_WorkRequest =
    Some (received new_WorkRequest (fst x) (p + of_nat (length (wire_header (fst x)))), length (message x) - 1)"
  using Deser_bytes(1) [of "fst x" "snd x" m p new_WorkRequest] assms by (simp add: message_ok_def message_def)

lemma recv_loop_messages:
  assumes "\<forall>x \<in> set xs. message_ok x" "len = c + length (messages xs)"
    and "mem_read (mem_of s) data len = pre @ messages xs" "length pre = c"
    and "keeps mem_of process data len s (data + of_nat c) xs"
  shows "recv_loop mem_of process s data (len - 1) c = deliver_all process s (data + of_nat c) xs"
  using assms
proof (induction xs arbitrary: s c pre)
  case Nil
  then show ?case by (subst recv_loop.simps) (auto simp: messages_def)
next
  case (Cons x xs)
  let ?r = "received new_WorkRequest (fst x) (data + of_nat c + of_nat (length (wire_header (fst x))))"
  have ok: "message_ok x" using Cons.prems(1) by simp
  have rd: "mem_read (mem_of s) (data + of_nat c) (length (message x)) = message x"
    using Cons.prems(3,4,2) mem_read_sub [of "mem_of s" data pre "message x" "messages xs"] by (simp add: messages_Cons)
  note d = Deser_message [OF ok rd] and big = message_nonempty [OF ok]
  have more: "c < len - 1" using big Cons.prems(2) by (simp add: messages_Cons)
  obtain l where l: "length (message x) = Suc l" using big by (cases "length (message x)") auto
  have next_c: "data + of_nat c + of_nat (length (message x)) = data + of_nat (c + length (message x))" by simp
  show ?case
  proof (cases "process s ?r")
    case None
    then show ?thesis using d more by (subst recv_loop.simps) simp
  next
    case (Some s')
    have "recv_loop mem_of process s' data (len - 1) (c + length (message x)) =
        deliver_all process s' (data + of_nat (c + length (message x))) xs"
      using Cons.prems Some
      by (intro Cons.IH [where pre = "pre @ message x"]) (auto simp: messages_Cons next_c simp del: of_nat_add)
    then show ?thesis
      unfolding recv_loop.simps [of _ _ s] using d more Some l by (simp add: ac_simps)
  qed
qed

text \<open>The buffer as it arrives lacks the last separator; the receiver writes it.\<close>

lemma messages_snoc: "xs \<noteq> [] \<Longrightarrow> \<exists>bs. messages xs = bs @ [0]"
  by (cases xs rule: rev_cases) (auto simp: messages_def message_def)

lemma terminate_buffer:
  assumes "xs \<noteq> []" "length (messages xs) \<le> 2 ^ 64"
    and "mem_read m data (length (messages xs) - 1) = butlast (messages xs)"
  shows "mem_read (m(data + of_nat (length (messages xs) - 1) := 0)) data (length (messages xs)) = messages xs"
proof -
  obtain bs where bs: "messages xs = bs @ [0]" using messages_snoc [OF assms(1)] by blast
  have "mem_read (m(data + of_nat (length bs) := 0)) data (length bs) = mem_read m data (length bs)"
    using assms(2) bs by (intro mem_read_cong) (auto dest: of_nat_distinct)
  then show ?thesis
    using assms(3) bs mem_read_append [of "m(data + of_nat (length bs) := 0)" data "length bs" 1]
    by (simp add: mem_read_def [of _ _ "Suc 0"])
qed

section \<open>What the servers do with a received buffer\<close>

text \<open>
  Merged requests reach the master in order. A buffer that holds the serialised requests \<open>xs\<close>,
  separated by zero bytes, is handled exactly as the requests received one after the other,
  each with its own fields and its pointer on its own payload.
\<close>

lemma master_receives_all:
  assumes "xs \<noteq> []" "\<forall>x \<in> set xs. message_ok x" "length (messages xs) \<le> 2 ^ 64" "len = length (messages xs) - 1"
    and "mem_read (m_mem m) data len = butlast (messages xs)" "m1 = m\<lparr>m_mem := (m_mem m)(data + of_nat len := 0)\<rparr>"
    and "keeps m_mem (\<lambda>m w. Master_ProcessRequest m q w) data (Suc len) m1 data xs"
  shows "Master_ProcessRdmaRequest m q (Received data len) = deliver_all (\<lambda>m w. Master_ProcessRequest m q w) m1 data xs"
proof -
  have len: "length (messages xs) = Suc len" using messages_snoc [OF assms(1)] assms(4) by auto
  have "mem_read (m_mem m1) data (Suc len) = messages xs"
    using terminate_buffer [OF assms(1,3), of "m_mem m" data] assms(5,6) by (simp add: len)
  then have "recv_loop m_mem (\<lambda>m w. Master_ProcessRequest m q w) m1 data (Suc len - 1) 0 =
      deliver_all (\<lambda>m w. Master_ProcessRequest m q w) m1 (data + of_nat 0) xs"
    using recv_loop_messages [where pre = "[]" and c = 0 and len = "Suc len", OF assms(2)] assms(7) len by simp
  then show ?thesis
    unfolding assms(6) by (simp add: Master_ProcessRdmaRequest_def)
qed

text \<open>
  C14. Merged requests reach a worker in order: the buffer is handled exactly as its requests, one
  after the other.
\<close>

theorem worker_receives_all:
  assumes "xs \<noteq> []" "\<forall>x \<in> set xs. message_ok x" "length (messages xs) \<le> 2 ^ 64" "len = length (messages xs) - 1"
    and "mem_read (mem s) data len = butlast (messages xs)" "s1 = s\<lparr>mem := (mem s)(data + of_nat len := 0)\<rparr>"
    and "keeps mem (worker_process n cli) data (Suc len) s1 data xs"
  shows "Worker_ProcessRdmaRequest n s cli (Received data len) = deliver_all (worker_process n cli) s1 data xs"
proof -
  have len: "length (messages xs) = Suc len" using messages_snoc [OF assms(1)] assms(4) by auto
  have "mem_read (mem s1) data (Suc len) = messages xs"
    using terminate_buffer [OF assms(1,3), of "mem s" data] assms(5,6) by (simp add: len)
  then have "recv_loop mem (worker_process n cli) s1 data (Suc len - 1) 0 =
      deliver_all (worker_process n cli) s1 (data + of_nat 0) xs"
    using recv_loop_messages [where pre = "[]" and c = 0 and len = "Suc len", OF assms(2)] assms(7) len by simp
  then show ?thesis
    unfolding assms(6) by (simp add: Worker_ProcessRdmaRequest_def)
qed

section \<open>Memory reports from end to end\<close>

lemma map_of_update_pointwise:
  "map_of (map (\<lambda>(v, j). if v = k then (v, f) else (v, j)) xs) v =
   (if v = k then (if map_of xs k = None then None else Some f) else map_of xs v)"
  by (induction xs) auto

lemma map_of_update_all:
  "map_of xs k = Some i \<Longrightarrow> map_of (map (\<lambda>(v, j). if v = k then (v, f) else (v, j)) xs) = (map_of xs)(k \<mapsto> f)"
  by (rule ext) (simp add: map_of_update_pointwise)

lemma apply_stats_short: "length xs < 4 * k \<Longrightarrow> apply_stats s xs k = None"
  by (induction s xs k rule: apply_stats.induct) (auto simp: Let_def split: bind_splits)

lemma ucast_scast_32 [simp]: "(ucast (scast (w :: i32) :: u64) :: i32) = w"
proof (rule bit_word_eqI)
  fix n assume "n < LENGTH(32)"
  then show "bit (ucast (scast w :: u64) :: i32) n = bit w n"
    by (cases "n = 31") (auto simp: bit_unsigned_iff bit_signed_iff min_def)
qed

lemma apply_stats_reports:
  assumes "\<forall>c \<in> set cs. map_of (widCliMap s) (mc_wid c) \<noteq> None" "distinct (map mc_wid cs)"
  shows "\<exists>s'. apply_stats s (concat (map report_numbers cs)) (length cs) = Some s' \<and>
    (\<forall>c \<in> set cs. \<exists>i. map_of (widCliMap s') (mc_wid c) = Some i \<and>
       cli_size i = through_int (mc_size c) \<and> cli_free i = through_int (mc_free c)) \<and>
    (\<forall>v. v \<notin> mc_wid ` set cs \<longrightarrow> map_of (widCliMap s') v = map_of (widCliMap s) v) \<and>
    set (widCliMapWorker s') = set (widCliMapWorker s) \<union> mc_wid ` set cs"
  using assms
proof (induction cs arbitrary: s)
  case (Cons c cs)
  obtain i where i: "map_of (widCliMap s) (mc_wid c) = Some i" using Cons.prems(1) by auto
  let ?s = "s\<lparr>widCliMapWorker := (if mc_wid c \<in> set (widCliMapWorker s) then widCliMapWorker s else widCliMapWorker s @ [mc_wid c]),
      widCliMap := map (\<lambda>(v, j). if v = mc_wid c then (v, SetMemStat i (mc_size c) (mc_free c)) else (v, j)) (widCliMap s)\<rparr>"
  have m: "map_of (widCliMap ?s) = (map_of (widCliMap s))(mc_wid c \<mapsto> SetMemStat i (mc_size c) (mc_free c))"
    using i map_of_update_all by simp
  have "\<exists>s'. apply_stats ?s (concat (map report_numbers cs)) (length cs) = Some s' \<and>
    (\<forall>c \<in> set cs. \<exists>i. map_of (widCliMap s') (mc_wid c) = Some i \<and>
       cli_size i = through_int (mc_size c) \<and> cli_free i = through_int (mc_free c)) \<and>
    (\<forall>v. v \<notin> mc_wid ` set cs \<longrightarrow> map_of (widCliMap s') v = map_of (widCliMap ?s) v) \<and>
    set (widCliMapWorker s') = set (widCliMapWorker ?s) \<union> mc_wid ` set cs"
    by (rule Cons.IH) (use Cons.prems m in \<open>auto simp: rev_image_eqI\<close>)
  moreover have "apply_stats s (concat (map report_numbers (c # cs))) (length (c # cs)) =
      apply_stats ?s (concat (map report_numbers cs)) (length cs)"
    using i by (simp add: report_numbers_def Let_def)
  ultimately show ?case
    using Cons.prems(2) unfolding m by (auto simp: SetMemStat_def)
qed simp

lemma strlen_bytes:
  assumes "mem_read m p (length bs) = bs" "m (p + of_nat (length bs)) = 0" "0 \<notin> set bs"
  shows "strlen m p = Some (length bs)"
  using assms by (auto simp: strlen_Some) (metis nth_mem nth_mem_read)

lemma dec_int_nonzero: "0 \<notin> set (dec_int i)"
  using dec_digits [of "nat i"] dec_digits [of "nat (- i)"] by (auto simp: dec_int_def is_digit_def list_all_iff)

lemma report_nonzero: "0 \<notin> set (update_report c)" "0 \<notin> set (fetch_report c)"
  by (auto simp: update_report_def fetch_report_def dec_int_nonzero COLON_def)

text \<open>
  C24. A worker learns what the master knows. The answer to \<^verbatim>\<open>FETCH_MEM_STATS\<close>, as the master writes it
  for the workers \<open>cs\<close>, updates the memory statistics of exactly these workers and makes exactly
  these known as workers; the request is gone afterwards. The sizes pass through an \<^verbatim>\<open>int\<close>.
\<close>

theorem reports_reach_worker:
  assumes "reqs s r = Some w" "wr_size w = of_nat (length cs)" "length cs < 2 ^ 64" "bs = concat (map fetch_report cs)"
    and "mem_read (mem s) (wr_ptr w) (length bs) = bs" "mem s (wr_ptr w + of_nat (length bs)) = 0"
    and "\<forall>c \<in> set cs. map_of (widCliMap s) (mc_wid c) \<noteq> None" "distinct (map mc_wid cs)"
  shows "\<exists>s'. ProcessRemoteMemStat s r = Some s' \<and> reqs s' r = None \<and>
    (\<forall>c \<in> set cs. \<exists>i. map_of (widCliMap s') (mc_wid c) = Some i \<and>
       cli_size i = through_int (mc_size c) \<and> cli_free i = through_int (mc_free c)) \<and>
    (\<forall>v. v \<notin> mc_wid ` set cs \<longrightarrow> map_of (widCliMap s') v = map_of (widCliMap s) v) \<and>
    set (widCliMapWorker s') = set (widCliMapWorker s) \<union> mc_wid ` set cs"
proof -
  have "0 \<notin> set bs" using assms(4) report_nonzero by auto
  then have "c_string (mem s) (wr_ptr w) = Some bs"
    using strlen_bytes [OF assms(5,6)] assms(5) by (simp add: c_string_def)
  moreover have "unat (wr_size w) = length cs" using assms(2,3) by (simp add: unat_of_nat)
  ultimately show ?thesis
    using apply_stats_reports [OF assms(7,8)] assms(1) unfolding assms(4)
    by (auto simp: ProcessRemoteMemStat_def fetch_report_roundtrip delete_wr_def)
qed

text \<open>
  C28. Two reports broadcast together stop their receiver. With a threshold of two, the message of
  \<^verbatim>\<open>UPDATE_MEM_STATS\<close> announces two workers but holds at most seven numbers, because the format of a
  report has no final separator; the receiver reads past the end of the list.
\<close>

theorem broadcast_two_fails:
  assumes "reqs s r = Some w" "wr_size w = 2" "bs = update_report a @ update_report b"
    and "mem_read (mem s) (wr_ptr w) (length bs) = bs" "mem s (wr_ptr w + of_nat (length bs)) = 0"
  shows "ProcessRemoteMemStat s r = None"
proof -
  have "c_string (mem s) (wr_ptr w) = Some bs"
    using strlen_bytes [OF assms(4,5)] assms(3,4) report_nonzero by (simp add: c_string_def)
  then show ?thesis
    using assms(1-3) apply_stats_short [of "Split bs" 2 s] merged_reports [of a b] by (simp add: ProcessRemoteMemStat_def)
qed

section \<open>The receivers at work\<close>

lemma buffer_read: "length bs \<le> 2 ^ 64 \<Longrightarrow> length bs = n \<Longrightarrow> mem_read (mem_write m p bs) p n = bs"
  using mem_read_write by blast

theorem worker_receives_all_witness:
  "\<exists>s'. Worker_ProcessRdmaRequest 1 (idle_worker\<lparr>mem := mem_write (\<lambda>_. 0) 100 (butlast (messages [(empty_report, []), (empty_report, [])]))\<rparr>)
       (Peer 2) (Received 100 25) = Some s' \<and> next_req s' = 2 \<and> reqs s' = Map.empty"
proof -
  let ?xs = "[(empty_report, []), (empty_report, [])]"
  let ?s = "idle_worker\<lparr>mem := mem_write (\<lambda>_. 0) 100 (butlast (messages ?xs))\<rparr>"
  let ?s1 = "?s\<lparr>mem := (mem ?s)(100 + of_nat 25 := 0)\<rparr>"
  have ops: "\<forall>x \<in> set ?xs. message_ok x"
    by (simp add: message_ok_def empty_report_def wire_ops_def payload_bytes_def string_op_def value_op_def)
  have len: "length (messages ?xs) = 26" "length (wire_header empty_report) = 12" "length (message (empty_report, [])) = 13"
    by (simp_all add: messages_def message_def wire_header_def ser_items_def empty_report_def items_bytes_def Let_def)
  have rd: "mem_read (mem ?s) 100 25 = butlast (messages ?xs)"
    using buffer_read [of "butlast (messages ?xs)" 25] len by simp
  have "mem_read (mem ?s1) 100 26 = messages ?xs"
    using terminate_buffer [of ?xs "mem ?s" 100] rd len by simp
  then have "mem_read (mem ?s1) 100 26 ! 12 = 0" "mem_read (mem ?s1) 100 26 ! 25 = 0"
    using len by (simp_all add: messages_def message_def nth_append)
  then have z: "mem ?s1 112 = 0" "mem ?s1 125 = 0" by simp_all
  have step: "worker_process 1 (Peer 2) s (received new_WorkRequest empty_report p) =
      Some (s\<lparr>next_req := Suc (next_req s), reqs := (reqs s)(next_req s := None)\<rparr>)" if "mem s p = 0" for s p
  proof -
    have r: "received new_WorkRequest empty_report p = empty_report\<lparr>wr_ptr := p\<rparr>"
      by (simp add: received_def empty_report_def new_WorkRequest_def Let_def)
    show ?thesis
      using that empty_report_handled [of "snd (alloc_wr s (empty_report\<lparr>wr_ptr := p\<rparr>))" "next_req s" p 0 "Peer 2"]
      by (simp add: r worker_process_def alloc_wr_def ProcessRequest_def delete_wr_def)
  qed
  have k: "keeps mem (worker_process 1 (Peer 2)) 100 (Suc 25) ?s1 100 ?xs"
    using step [of ?s1 112] step z by (simp add: len del: fun_upd_apply)
  have "Worker_ProcessRdmaRequest 1 ?s (Peer 2) (Received 100 25) = deliver_all (worker_process 1 (Peer 2)) ?s1 100 ?xs"
    by (rule worker_receives_all [OF _ ops _ _ rd refl k]) (simp_all add: len)
  then show ?thesis
    using step z by (simp add: len idle_worker_def fun_eq_iff del: fun_upd_apply)
qed

definition reported :: "i32 \<Rightarrow> MClient" where
  "reported wid = \<lparr>mc_qp = 17, mc_wid = wid, mc_size = 1000, mc_free = 600\<rparr>"

definition reporting_worker :: "u8 list \<Rightarrow> Worker" where
  "reporting_worker bs = idle_worker\<lparr>reqs := [7 \<mapsto> empty_report\<lparr>wr_size := 2, wr_ptr := 100\<rparr>], mem := mem_write (\<lambda>_. 0) 100 bs\<rparr>"

lemma reporting_worker_mem:
  assumes "length bs < 100"
  shows "mem_read (mem (reporting_worker bs)) 100 (length bs) = bs" "mem (reporting_worker bs) (100 + of_nat (length bs)) = 0"
  using assms mem_read_write [of bs] mem_write_out [of bs "100 + of_nat (length bs)" 100 "\<lambda>_. 0"]
  by (simp_all add: reporting_worker_def unat_of_nat)

theorem reports_reach_worker_witness:
  "\<exists>s'. ProcessRemoteMemStat (reporting_worker (concat (map fetch_report [reported 2, reported 3]))) 7 = Some s' \<and>
     (\<exists>i. map_of (widCliMap s') 2 = Some i \<and> cli_size i = through_int 1000 \<and> cli_free i = through_int 600)"
proof -
  let ?cs = "[reported 2, reported 3]" and ?w = "empty_report\<lparr>wr_size := 2, wr_ptr := 100\<rparr>"
  let ?bs = "concat (map fetch_report ?cs)"
  have l: "length ?bs < 100" by code_simp
  have w: "reqs (reporting_worker bs) 7 = Some ?w" for bs by (simp add: reporting_worker_def)
  have k: "\<forall>c \<in> set ?cs. map_of (widCliMap (reporting_worker ?bs)) (mc_wid c) \<noteq> None" "distinct (map mc_wid ?cs)"
    by (simp_all add: reporting_worker_def idle_worker_def reported_def)
  have "wr_ptr ?w = 100" "wr_size ?w = of_nat (length ?cs)" "length ?cs < 2 ^ 64" by simp_all
  then have "\<exists>s'. ProcessRemoteMemStat (reporting_worker ?bs) 7 = Some s' \<and> (\<forall>c \<in> set ?cs. \<exists>i.
      map_of (widCliMap s') (mc_wid c) = Some i \<and> cli_size i = through_int (mc_size c) \<and> cli_free i = through_int (mc_free c))"
    using reports_reach_worker [OF w _ _ refl _ _ k] reporting_worker_mem [OF l] by metis
  then show ?thesis by (auto simp: reported_def simp del: concat.simps list.map)
qed

theorem broadcast_two_fails_witness:
  "ProcessRemoteMemStat (reporting_worker (update_report (reported 2) @ update_report (reported 3))) 7 = None"
proof -
  let ?bs = "update_report (reported 2) @ update_report (reported 3)" and ?w = "empty_report\<lparr>wr_size := 2, wr_ptr := 100\<rparr>"
  have l: "length ?bs < 100" by code_simp
  have w: "reqs (reporting_worker ?bs) 7 = Some ?w" "wr_ptr ?w = 100" "wr_size ?w = 2" by (simp_all add: reporting_worker_def)
  show ?thesis
    using broadcast_two_fails [OF w(1,3) refl] reporting_worker_mem [OF l] unfolding w(2) by blast
qed

end
