(* ===== verification/Gam_Home.thy ===== *)
theory Gam_Home
  imports Gam_Server
begin

text \<open>
  What the home of a block does with the requests of other workers: the effect of
  \<^verbatim>\<open>ProcessRemoteRead\<close> and \<^verbatim>\<open>ProcessRemoteWrite\<close> on the directory, the memory and the network, for every
  state of the block.
\<close>

text \<open>The sharers, the locks and the state of a block at its home.\<close>

definition sharers :: "Worker \<Rightarrow> ptr \<Rightarrow> gaddr list" where
  "sharers s b = (case directory s b of None \<Rightarrow> [] | Some en \<Rightarrow> dshared en)"

definition block_locks :: "Worker \<Rightarrow> ptr \<Rightarrow> locktab" where
  "block_locks s b = (case directory s b of None \<Rightarrow> [] | Some en \<Rightarrow> dlocks en)"

definition block_state :: "Worker \<Rightarrow> ptr \<Rightarrow> DirState" where
  "block_state s b = GetState_p (directory s) b"

text \<open>Addresses and connections do not depend on the rest of the state.\<close>

lemma cli_ToGlobal_upd [simp]:
  "cli_ToGlobal (s\<lparr>reqs := x_reqs\<rparr>) = cli_ToGlobal s"
  "cli_ToGlobal (s\<lparr>outbox := x_outbox\<rparr>) = cli_ToGlobal s"
  "cli_ToGlobal (s\<lparr>directory := x_directory\<rparr>) = cli_ToGlobal s"
  "cli_ToGlobal (s\<lparr>mem := x_mem\<rparr>) = cli_ToGlobal s"
  "cli_ToGlobal (s\<lparr>next_req := x_next_req\<rparr>) = cli_ToGlobal s"
  "cli_ToGlobal (s\<lparr>wr_psn := x_wr_psn\<rparr>) = cli_ToGlobal s"
  "cli_ToGlobal (s\<lparr>pending_works := x_pending_works\<rparr>) = cli_ToGlobal s"
  "cli_ToGlobal (s\<lparr>caches := x_caches\<rparr>) = cli_ToGlobal s"
  by (simp_all add: cli_ToGlobal_def fun_eq_iff split: client.splits)

lemma ToLocal_upd [simp]:
  "ToLocal (s\<lparr>reqs := x_reqs\<rparr>) = ToLocal s"
  "ToLocal (s\<lparr>outbox := x_outbox\<rparr>) = ToLocal s"
  "ToLocal (s\<lparr>directory := x_directory\<rparr>) = ToLocal s"
  "ToLocal (s\<lparr>mem := x_mem\<rparr>) = ToLocal s"
  "ToLocal (s\<lparr>next_req := x_next_req\<rparr>) = ToLocal s"
  "ToLocal (s\<lparr>wr_psn := x_wr_psn\<rparr>) = ToLocal s"
  "ToLocal (s\<lparr>pending_works := x_pending_works\<rparr>) = ToLocal s"
  "ToLocal (s\<lparr>caches := x_caches\<rparr>) = ToLocal s"
  by (simp_all add: ToLocal_def fun_eq_iff)

lemma cli_wid_upd [simp]:
  "cli_wid (s\<lparr>reqs := x_reqs\<rparr>) = cli_wid s" "cli_wid (s\<lparr>next_req := x_next_req\<rparr>) = cli_wid s"
  "cli_wid (s\<lparr>wr_psn := x_wr_psn\<rparr>) = cli_wid s"
  by (simp_all add: cli_wid_def fun_eq_iff split: client.splits)

lemma most_free_cong:
  "widCliMap t = widCliMap s \<Longrightarrow> my_wid t = my_wid s \<Longrightarrow> most_free t ws mx c = most_free s ws mx c"
  by (induction ws arbitrary: mx c) (auto split: option.splits)

lemma GetClient_cong:
  "widCliMap t = widCliMap s \<Longrightarrow> my_wid t = my_wid s \<Longrightarrow> widCliMapWorker t = widCliMapWorker s \<Longrightarrow>
   GetClient t = GetClient s"
  by (rule ext) (simp add: GetClient_def most_free_cong [of t s])

lemma GetClient_upd [simp]:
  "GetClient (s\<lparr>reqs := x_reqs\<rparr>) = GetClient s"
  "GetClient (s\<lparr>outbox := x_outbox\<rparr>) = GetClient s"
  "GetClient (s\<lparr>directory := x_directory\<rparr>) = GetClient s"
  "GetClient (s\<lparr>mem := x_mem\<rparr>) = GetClient s"
  "GetClient (s\<lparr>next_req := x_next_req\<rparr>) = GetClient s"
  "GetClient (s\<lparr>wr_psn := x_wr_psn\<rparr>) = GetClient s"
  "GetClient (s\<lparr>pending_works := x_pending_works\<rparr>) = GetClient s"
  "GetClient (s\<lparr>caches := x_caches\<rparr>) = GetClient s"
  by (rule GetClient_cong; simp)+

lemma GetEntry_aligned: "BLOCK_ALIGNED b \<Longrightarrow> GetEntry d b = (if d b = None then None else Some b)"
  by (auto simp: GetEntry_def TOBLOCK_id)

lemma home_reads:
  assumes "BLOCK_ALIGNED b"
  shows "GetState_e (directory s) (GetEntry (directory s) b) = block_state s b"
    "InTransitionState_e (directory s) (GetEntry (directory s) b) = InTransitionState_s (block_state s b)"
    "IsBlockWLocked_e (directory s) (GetEntry (directory s) b) = tab_wlocked (block_locks s b)"
    "IsBlockLocked_e (directory s) (GetEntry (directory s) b) \<longleftrightarrow> block_locks s b \<noteq> []"
  using assms
  by (auto simp: GetState_e_def GetState_p_def InTransitionState_e_def IsBlockWLocked_e_def IsBlockLocked_e_def
      IsBlockLocked_en_def GetEntry_aligned deref_def TOBLOCK_id block_state_def block_locks_def
      InTransitionState_s_def split: option.splits)

text \<open>Whether or not the block has an entry, the handlers have the effect of the operation by address.\<close>

lemma entry_or_address:
  assumes "BLOCK_ALIGNED b" "GetEntry d b = Some e"
  shows "ToShared_e d (Some e) g = ToShared_p d b g" "ToDirty_e d (Some e) g = ToDirty_p d b g"
  using assms by (auto simp: ToShared_p_def ToDirty_p_def GetEntry_aligned TOBLOCK_id split: if_splits)

lemma ToShared_p_home:
  assumes "dir_ok d" "BLOCK_ALIGNED b" "GetState_p d b \<in> {DIR_UNSHARED, DIR_SHARED}"
    and "d b = None \<or> (\<exists>en. d b = Some en \<and> \<not> tab_wlocked (dlocks en) \<and> WID g \<notin> WID ` set (dshared en))"
  shows "\<exists>en. ToShared_p d b g = Some (d(b \<mapsto> en)) \<and> dstate en = DIR_SHARED \<and>
    dshared en = (case d b of None \<Rightarrow> [] | Some en \<Rightarrow> dshared en) @ [g] \<and>
    dlocks en = (case d b of None \<Rightarrow> [] | Some en \<Rightarrow> dlocks en) \<and> dir_ok (d(b \<mapsto> en))"
proof -
  have pre: "dir_pre d (DToShared b g)"
    using assms by (auto simp: with_entry_def GetState_p_def TOBLOCK_id split: option.splits)
  obtain d' where d': "ToShared_p d b g = Some d'" "dir_ok d'"
    using dir_exec_ok [OF assms(1) pre] by auto
  then show ?thesis
    using assms(2,3)
    by (cases "d b") (auto simp: ToShared_p_def ToShared_e_def ToShared_en_def dir_simps GetState_p_def new_DirEntry_def)
qed

lemma ToDirty_p_home:
  assumes "dir_ok d" "BLOCK_ALIGNED b" "GetState_p d b \<in> {DIR_UNSHARED, DIR_SHARED, DIR_TO_DIRTY}"
    and "d b = None \<or> (\<exists>en. d b = Some en \<and> dlocks en = [])"
  shows "\<exists>en. ToDirty_p d b g = Some (d(b \<mapsto> en)) \<and> dstate en = DIR_DIRTY \<and> dshared en = [g] \<and> dlocks en = [] \<and>
    dir_ok (d(b \<mapsto> en))"
proof -
  have pre: "dir_pre d (DToDirty b g)"
    using assms by (auto simp: with_entry_def GetState_p_def TOBLOCK_id split: option.splits)
  obtain d' where d': "ToDirty_p d b g = Some d'" "dir_ok d'"
    using dir_exec_ok [OF assms(1) pre] by auto
  then show ?thesis
    using assms(2-4)
    by (cases "d b") (auto simp: ToDirty_p_def ToDirty_e_def dir_simps GetState_p_def new_DirEntry_def)
qed

section \<open>Reads\<close>

text \<open>The state a home is in after it has served a read.\<close>

lemma home_read_run:
  assumes ok: "dir_ok (directory s)" and w: "reqs s r = Some w"
    and b: "b = ToLocal s (wr_addr w)" "BLOCK_ALIGNED b"
    and st: "block_state s b \<in> {DIR_UNSHARED, DIR_SHARED}" "\<not> tab_wlocked (block_locks s b)"
    and g: "cli_ToGlobal s c (wr_ptr w) = Some g" "WID g \<notin> WID ` set (sharers s b)"
  shows "\<exists>en. ProcessRemoteRead s c r = Some (s\<lparr>directory := (directory s)(b \<mapsto> en), reqs := (reqs s)(r := None),
      outbox := outbox s @ [OWriteImm c (wr_ptr w) (mem_read (mem s) b (unat (wr_size w))) (wr_id w) None]\<rparr>) \<and>
    dstate en = DIR_SHARED \<and> dshared en = sharers s b @ [g] \<and> dlocks en = block_locks s b \<and> dir_ok ((directory s)(b \<mapsto> en))"
proof -
  have "directory s b = None \<or> (\<exists>en. directory s b = Some en \<and> \<not> tab_wlocked (dlocks en) \<and> WID g \<notin> WID ` set (dshared en))"
    using st(2) g(2) by (auto simp: block_locks_def sharers_def split: option.splits)
  then obtain en where en: "ToShared_p (directory s) b g = Some ((directory s)(b \<mapsto> en))" "dstate en = DIR_SHARED"
    "dshared en = sharers s b @ [g]" "dlocks en = block_locks s b" "dir_ok ((directory s)(b \<mapsto> en))"
    using ToShared_p_home [OF ok b(2), of g] st(1)
    by (auto simp: block_state_def sharers_def block_locks_def)
  have st': "block_state s b \<noteq> DIR_DIRTY" "\<not> InTransitionState_s (block_state s b)"
    using st(1) by (auto simp: InTransitionState_s_def)
  have "ProcessRemoteRead s c r = Some (s\<lparr>directory := (directory s)(b \<mapsto> en), reqs := (reqs s)(r := None),
      outbox := outbox s @ [OWriteImm c (wr_ptr w) (mem_read (mem s) b (unat (wr_size w))) (wr_id w) None]\<rparr>)"
    using w st' st(2) en(1) g(1) b(2) home_reads [OF b(2), of s]
    by (cases "GetEntry (directory s) b")
      (simp_all add: ProcessRemoteRead_def Let_def entry_or_address cli_WriteWithImm_def emit_def
        set_dir_def delete_wr_def flip: b(1))
  then show ?thesis using en by blast
qed

text \<open>
  A read served by the home. When the block is neither held dirty by another worker nor in
  transition nor write-locked, the home sends its current bytes of the block to the buffer the reader
  named, with the identifier of the request, and nothing else; the reader joins the sharers, the
  locks and every other block stay as they are, and the directory stays consistent.
\<close>

lemma home_read_serves:
  assumes ok: "dir_ok (directory s)" and w: "reqs s r = Some w"
    and b: "b = ToLocal s (wr_addr w)" "BLOCK_ALIGNED b"
    and st: "block_state s b \<in> {DIR_UNSHARED, DIR_SHARED}" "\<not> tab_wlocked (block_locks s b)"
    and g: "cli_ToGlobal s c (wr_ptr w) = Some g" "WID g \<notin> WID ` set (sharers s b)"
  shows "\<exists>s'. ProcessRemoteRead s c r = Some s' \<and>
    outbox s' = outbox s @ [OWriteImm c (wr_ptr w) (mem_read (mem s) b (unat (wr_size w))) (wr_id w) None] \<and>
    block_state s' b = DIR_SHARED \<and> sharers s' b = sharers s b @ [g] \<and> block_locks s' b = block_locks s b \<and>
    (\<forall>b'. b' \<noteq> b \<longrightarrow> directory s' b' = directory s b') \<and> mem s' = mem s \<and> dir_ok (directory s')"
  using home_read_run [OF assms] b(2)
  by (auto simp: block_state_def sharers_def block_locks_def GetState_p_def TOBLOCK_id)

text \<open>
  A read of a block another worker owns. The home clones the request as a forward that names
  the reader and the identifier it waits for, registers the clone as a pending work and sends it to the
  owner alone; the block is in transition until the owner answers, and the request is kept.
\<close>

lemma read_forward_run:
  assumes ok: "dir_ok (directory s)" and w: "reqs s r = Some w" "r \<noteq> next_req s"
    and b: "b = ToLocal s (wr_addr w)" "BLOCK_ALIGNED b" and st: "block_state s b = DIR_DIRTY"
    and ow: "sharers s b = [ow]" "GetClient s ow = Some oc"
  shows "\<exists>s' v. ProcessRemoteRead s c r = Some s' \<and> outbox s' = outbox s @ [OSend oc v] \<and>
    wr_op v = READ_FORWARD \<and> wr_addr v = wr_addr w \<and> wr_size v = wr_size w \<and> wr_ptr v = wr_ptr w \<and>
    wr_pid v = wr_id w \<and> wr_pwid v = cli_wid s c \<and> wr_parent v = Some r \<and>
    pending_works s' (wr_id v) = Some (next_req s) \<and> reqs s' (next_req s) = Some v \<and> reqs s' r = Some w \<and>
    block_state s' b = DIR_TO_SHARED \<and> sharers s' b = [ow] \<and> mem s' = mem s \<and> dir_ok (directory s') \<and>
    s' = s\<lparr>next_req := next_req s', wr_psn := wr_psn s', reqs := reqs s', pending_works := pending_works s', outbox := outbox s', directory := directory s'\<rparr>"
proof -
  obtain en where en: "directory s b = Some en" "dstate en = DIR_DIRTY" "dshared en = [ow]"
    using st ow(1) b(2) by (auto simp: block_state_def GetState_p_def sharers_def TOBLOCK_id split: option.splits)
  let ?d = "(directory s)(b \<mapsto> en\<lparr>dstate := DIR_TO_SHARED\<rparr>)"
  have "dir_pre (directory s) (DToToShared b)"
    using b(2) en by (simp add: with_entry_def TOBLOCK_id)
  then have d: "ToToShared_e (directory s) (Some b) = Some ?d" "dir_ok ?d"
    using dir_exec_ok [OF ok, of "DToToShared b"] en b(2)
    by (auto simp: ToToShared_p_def ToToShared_e_def GetEntry_aligned TOBLOCK_id deref_def store_def)
  have ge: "GetEntry (directory s) b = Some b" using en b(2) by (simp add: GetEntry_aligned)
  show ?thesis
    using w ow(2) home_reads [OF b(2), of s] st d en b(2)
    by (simp add: ProcessRemoteRead_def Let_def InTransitionState_s_def clone_wr_def alloc_wr_def upd_wr_def
        GetSList_def deref_def set_dir_def ge SubmitPending_eq is_reply_iff copy_WorkRequest_def cli_wid_def
        block_state_def GetState_p_def sharers_def TOBLOCK_id split: client.splits flip: b(1))
qed

section \<open>Writes\<close>

text \<open>The state a home is in after it has handed out a block nobody held.\<close>

lemma home_grant_run:
  assumes ok: "dir_ok (directory s)" and w: "reqs s r = Some w"
    and b: "b = ToLocal s (wr_addr w)" "BLOCK_ALIGNED b" and st: "directory s b = None"
    and g: "cli_ToGlobal s c (wr_ptr w) = Some g"
  shows "\<exists>en. ProcessRemoteWrite s c r = Some (s\<lparr>directory := (directory s)(b \<mapsto> en), reqs := (reqs s)(r := None),
      outbox := outbox s @ [OWrite c (wr_ptr w) (mem_read (mem s) b (unat (wr_size w))),
        OSend c (w\<lparr>wr_op := WRITE_REPLY, wr_status := SUCCESS, wr_counter := 0, wr_wid := my_wid s\<rparr>)]\<rparr>) \<and>
    dstate en = DIR_DIRTY \<and> dshared en = [g] \<and> dlocks en = [] \<and> dir_ok ((directory s)(b \<mapsto> en))"
proof -
  obtain en where en: "ToDirty_p (directory s) b g = Some ((directory s)(b \<mapsto> en))" "dstate en = DIR_DIRTY"
    "dshared en = [g]" "dlocks en = []" "dir_ok ((directory s)(b \<mapsto> en))"
    using ToDirty_p_home [OF ok b(2), of g] st b(2) by (auto simp: GetState_p_def TOBLOCK_id)
  have e: "GetEntry (directory s) b = None" using st b(2) by (simp add: GetEntry_aligned)
  have "ProcessRemoteWrite s c r = Some (s\<lparr>directory := (directory s)(b \<mapsto> en), reqs := (reqs s)(r := None),
      outbox := outbox s @ [OWrite c (wr_ptr w) (mem_read (mem s) b (unat (wr_size w))),
        OSend c (w\<lparr>wr_op := WRITE_REPLY, wr_status := SUCCESS, wr_counter := 0, wr_wid := my_wid s\<rparr>)]\<rparr>)"
    using w g en(1) b(2) st
    by (simp add: ProcessRemoteWrite_def Let_def e GetState_e_def IsBlockLocked_e_def deref_def InTransitionState_s_def
        remote_write_grant_def cli_Write_def emit_def upd_wr_def SubmitPlain_eq set_dir_def delete_wr_def
        flip: b(1))
  then show ?thesis using en by blast
qed

text \<open>
  A write of a block nobody holds. The home sends its bytes of the block to the buffer the
  writer named and then the permission, and makes the writer the owner of the block, the only worker
  with a copy.
\<close>

lemma home_write_grants:
  assumes ok: "dir_ok (directory s)" and w: "reqs s r = Some w"
    and b: "b = ToLocal s (wr_addr w)" "BLOCK_ALIGNED b" and st: "directory s b = None"
    and g: "cli_ToGlobal s c (wr_ptr w) = Some g"
  shows "\<exists>s' v. ProcessRemoteWrite s c r = Some s' \<and>
    outbox s' = outbox s @ [OWrite c (wr_ptr w) (mem_read (mem s) b (unat (wr_size w))), OSend c v] \<and>
    wr_op v = WRITE_REPLY \<and> wr_id v = wr_id w \<and> wr_status v = SUCCESS \<and> wr_counter v = 0 \<and>
    block_state s' b = DIR_DIRTY \<and> sharers s' b = [g] \<and> block_locks s' b = [] \<and>
    (\<forall>b'. b' \<noteq> b \<longrightarrow> directory s' b' = directory s b') \<and> mem s' = mem s \<and> dir_ok (directory s')"
  using home_grant_run [OF assms] b(2) by (auto simp: block_state_def GetState_p_def sharers_def block_locks_def TOBLOCK_id)

text \<open>The messages to the workers \<open>cs\<close>, each the request \<open>l\<close> up to its counter and sender.\<close>

definition same_request :: "WorkRequest \<Rightarrow> WorkRequest \<Rightarrow> bool" where
  "same_request l v \<longleftrightarrow> v\<lparr>wr_counter := 0, wr_wid := 0\<rparr> = l\<lparr>wr_counter := 0, wr_wid := 0\<rparr>"

definition sent_to :: "client list \<Rightarrow> WorkRequest \<Rightarrow> outgoing list \<Rightarrow> bool" where
  "sent_to cs l ms \<longleftrightarrow> list_all2 (\<lambda>c m. \<exists>v. m = OSend c v \<and> same_request l v) cs ms"

definition other_sharers :: "Worker \<Rightarrow> client \<Rightarrow> gaddr list \<Rightarrow> gaddr list" where
  "other_sharers s c gs = filter (\<lambda>g. GetClient s g \<noteq> Some c) gs"

lemma same_request_counter: "same_request (l\<lparr>wr_counter := k\<rparr>) v \<longleftrightarrow> same_request l v"
  "same_request (l\<lparr>wr_wid := i\<rparr>) v \<longleftrightarrow> same_request l v" "same_request l l" "same_request l (l\<lparr>wr_wid := i\<rparr>)"
  by (auto simp: same_request_def)

lemma sent_to_counter: "sent_to cs (l\<lparr>wr_counter := k\<rparr>) ms \<longleftrightarrow> sent_to cs l ms"
  "sent_to cs (l\<lparr>wr_wid := i\<rparr>) ms \<longleftrightarrow> sent_to cs l ms"
  by (simp_all add: sent_to_def same_request_counter)

text \<open>The state after request \<open>lr\<close> has become \<open>l\<close> and \<open>ms\<close> have been sent.\<close>

definition with_sent :: "Worker \<Rightarrow> nat \<Rightarrow> WorkRequest \<Rightarrow> outgoing list \<Rightarrow> (u32 \<rightharpoonup> nat) \<Rightarrow> Worker" where
  "with_sent s lr l ms p = s\<lparr>pending_works := p, reqs := (reqs s)(lr \<mapsto> l), outbox := outbox s @ ms\<rparr>"

lemma with_sent_simps [simp]:
  "with_sent (with_sent s lr l ms p) lr l' ms' p' = with_sent s lr l' (ms @ ms') p'"
  "reqs (with_sent s lr l ms p) = (reqs s)(lr \<mapsto> l)" "pending_works (with_sent s lr l ms p) = p"
  "outbox (with_sent s lr l ms p) = outbox s @ ms" "directory (with_sent s lr l ms p) = directory s"
  "mem (with_sent s lr l ms p) = mem s" "my_wid (with_sent s lr l ms p) = my_wid s"
  "GetClient (with_sent s lr l ms p) = GetClient s" "other_sharers (with_sent s lr l ms p) = other_sharers s"
  "cli_ToGlobal (with_sent s lr l ms p) = cli_ToGlobal s"
  by (simp_all add: with_sent_def other_sharers_def fun_eq_iff)

lemma forward_invalidate_step:
  assumes "reqs s lr = Some l"
  shows "GetClient s g = Some c \<Longrightarrow> forward_invalidate s c lr i first (g # gs) =
      forward_invalidate (with_sent s lr (l\<lparr>wr_counter := wr_counter l - 1\<rparr>) [] (pending_works s)) c lr i first gs"
    and "GetClient s g = Some d \<Longrightarrow> d \<noteq> c \<Longrightarrow> forward_invalidate s c lr i first (g # gs) =
      forward_invalidate (with_sent s lr (l\<lparr>wr_wid := my_wid s\<rparr>) [OSend d (l\<lparr>wr_wid := my_wid s\<rparr>)]
        (if first then (pending_works s)(i \<mapsto> lr) else pending_works s)) c lr i False gs"
  using assms by (simp_all add: upd_wr_def AddToPending_def SubmitPlain_eq with_sent_def)

lemma forward_invalidate_sends:
  assumes "reqs s lr = Some l" "\<forall>g \<in> set (other_sharers s c gs). GetClient s g \<noteq> None"
  shows "\<exists>ms wid. forward_invalidate s c lr i first gs =
      Some (with_sent s lr (l\<lparr>wr_wid := wid,
              wr_counter := wr_counter l - of_nat (length gs) + of_nat (length (other_sharers s c gs))\<rparr>) ms
        (if first \<and> other_sharers s c gs \<noteq> [] then (pending_works s)(i \<mapsto> lr) else pending_works s)) \<and>
      sent_to (map (\<lambda>g. the (GetClient s g)) (other_sharers s c gs)) l ms"
  using assms
proof (induction gs arbitrary: s l first)
  case Nil
  show ?case
    by (rule exI [of _ "[]"], rule exI [of _ "wr_wid l"])
      (use Nil in \<open>auto simp: other_sharers_def sent_to_def with_sent_def fun_upd_idem\<close>)
next
  case (Cons g gs)
  show ?case
  proof (cases "GetClient s g = Some c")
    case True
    let ?l = "l\<lparr>wr_counter := wr_counter l - 1\<rparr>"
    let ?s = "with_sent s lr ?l [] (pending_works s)"
    have o: "other_sharers s c (g # gs) = other_sharers s c gs" using True by (simp add: other_sharers_def)
    have "reqs ?s lr = Some ?l" "\<forall>g \<in> set (other_sharers ?s c gs). GetClient ?s g \<noteq> None"
      using Cons.prems(2) by (simp_all add: o)
    from Cons.IH [OF this, of first] show ?thesis
      by (simp add: o forward_invalidate_step(1) [OF Cons.prems(1) True] sent_to_counter diff_diff_eq
          del: forward_invalidate.simps split del: if_split cong: if_cong)
  next
    case False
    then obtain d where d: "GetClient s g = Some d" "d \<noteq> c" using Cons.prems(2) by (auto simp: other_sharers_def)
    let ?l = "l\<lparr>wr_wid := my_wid s\<rparr>"
    let ?s = "with_sent s lr ?l [OSend d ?l] (if first then (pending_works s)(i \<mapsto> lr) else pending_works s)"
    have o: "other_sharers s c (g # gs) = g # other_sharers s c gs" using False by (simp add: other_sharers_def)
    have "reqs ?s lr = Some ?l" "\<forall>g \<in> set (other_sharers ?s c gs). GetClient ?s g \<noteq> None"
      using Cons.prems(2) by (simp_all add: o)
    from Cons.IH [OF this, of False] obtain ms wid where ih: "forward_invalidate ?s c lr i False gs =
        Some (with_sent s lr (l\<lparr>wr_wid := wid,
              wr_counter := wr_counter l - of_nat (length gs) + of_nat (length (other_sharers s c gs))\<rparr>)
              (OSend d ?l # ms) (if first then (pending_works s)(i \<mapsto> lr) else pending_works s))"
      "sent_to (map (\<lambda>g. the (GetClient s g)) (other_sharers s c gs)) l ms"
      by (auto simp: sent_to_counter)
    show ?thesis
      unfolding forward_invalidate_step(2) [OF Cons.prems(1) d] ih(1) o
      by (rule exI [of _ "OSend d ?l # ms"], rule exI [of _ wid])
        (use ih(2) d in \<open>simp add: sent_to_def same_request_counter algebra_simps\<close>)
  qed
qed

text \<open>The shared branch of the handler, in terms of the workers other than the writer.\<close>

definition invalidation :: "Worker \<Rightarrow> client \<Rightarrow> nat \<Rightarrow> WorkRequest \<Rightarrow> WorkRequest" where
  "invalidation s c r w = (copy_WorkRequest w)\<lparr>wr_op := INVALIDATE_FORWARD, wr_parent := Some r, wr_id := next_psn s,
     wr_pwid := cli_wid s c\<rparr>"

lemma invalidation_fields:
  "wr_op (invalidation s c r w) = INVALIDATE_FORWARD" "wr_addr (invalidation s c r w) = wr_addr w"
  "wr_pwid (invalidation s c r w) = cli_wid s c" "wr_parent (invalidation s c r w) = Some r"
  "wr_id (invalidation s c r w) = next_psn s"
  by (simp_all add: invalidation_def copy_WorkRequest_def)

lemma shared_entry:
  assumes "block_state s b = DIR_SHARED" "BLOCK_ALIGNED b"
  obtains en where "directory s b = Some en" "dstate en = DIR_SHARED" "sharers s b = dshared en" "block_locks s b = dlocks en"
    "GetEntry (directory s) b = Some b"
  using assms by (auto simp: block_state_def GetState_p_def sharers_def block_locks_def TOBLOCK_id GetEntry_aligned
      split: option.splits)

text \<open>The home after it has cloned the write as an invalidation and sent it to the other sharers.\<close>

lemma invalidation_round:
  assumes w: "reqs s r = Some w" "r \<noteq> next_req s" and b: "b = ToLocal s (wr_addr w)" "BLOCK_ALIGNED b"
    and st: "block_state s b = DIR_SHARED" "block_locks s b = []" and os: "os = other_sharers s c (sharers s b)"
    and cl: "\<forall>g \<in> set os. GetClient s g \<noteq> None"
  shows "\<exists>ms wid. sent_to (map (\<lambda>g. the (GetClient s g)) os) (invalidation s c r w) ms \<and>
    ProcessRemoteWrite s c r =
      (let s1 = with_sent (s\<lparr>next_req := next_req s + 1, wr_psn := next_psn s\<rparr>) (next_req s)
                  ((invalidation s c r w)\<lparr>wr_wid := wid, wr_counter := of_nat (length os)\<rparr>) ms
                  (if os \<noteq> [] then (pending_works s)(next_psn s \<mapsto> next_req s) else pending_works s)
       in if of_nat (length os) \<noteq> (0 :: i32) then map_option (set_dir s1) (ToToDirty_p (directory s) b)
          else remote_write_grant (delete_wr s1 (next_req s)) c r (Some b) b)"
proof -
  obtain en where en: "directory s b = Some en" "dstate en = DIR_SHARED" "sharers s b = dshared en"
    "block_locks s b = dlocks en" "GetEntry (directory s) b = Some b"
    using shared_entry [OF st(1) b(2)] .
  let ?l = "(invalidation s c r w)\<lparr>wr_counter := of_nat (length (dshared en))\<rparr>"
  let ?s = "s\<lparr>next_req := next_req s + 1, wr_psn := next_psn s, reqs := (reqs s)(next_req s \<mapsto> ?l)\<rparr>"
  have "reqs ?s (next_req s) = Some ?l" "\<forall>g \<in> set (other_sharers ?s c (dshared en)). GetClient ?s g \<noteq> None"
    using cl os en(3) by (simp_all add: other_sharers_def)
  from forward_invalidate_sends [OF this, of "next_psn s" True] obtain ms wid where
    fi: "forward_invalidate ?s c (next_req s) (next_psn s) True (dshared en) =
      Some (with_sent (s\<lparr>next_req := next_req s + 1, wr_psn := next_psn s\<rparr>) (next_req s)
        ((invalidation s c r w)\<lparr>wr_wid := wid, wr_counter := of_nat (length os)\<rparr>) ms
        (if os \<noteq> [] then (pending_works s)(next_psn s \<mapsto> next_req s) else pending_works s))"
    and ms: "sent_to (map (\<lambda>g. the (GetClient s g)) os) (invalidation s c r w) ms"
    by (fastforce simp: os en(3) sent_to_counter other_sharers_def with_sent_def split del: if_split cong: if_cong)
  have "ProcessRemoteWrite s c r = do {
      s1 \<leftarrow> forward_invalidate ?s c (next_req s) (next_psn s) True (dshared en);
      l \<leftarrow> reqs s1 (next_req s);
      if wr_counter l \<noteq> 0 then map_option (set_dir s1) (ToToDirty_e (directory s1) (Some b))
      else remote_write_grant (delete_wr s1 (next_req s)) c r (Some b) b }"
    using w st en home_reads [OF b(2), of s]
    by (simp add: ProcessRemoteWrite_def Let_def InTransitionState_s_def clone_wr_def alloc_wr_def upd_wr_def
        GetSList_def deref_def GetWorkPsn_eq invalidation_def flip: b(1) cong: if_cong)
  then show ?thesis
    using ms en b(2) unfolding fi
    by (auto simp: Let_def ToToDirty_p_def TOBLOCK_id)
qed

text \<open>
  C6. A write by the only sharer. The home sends no data and no invalidation: one message grants the
  permission, and the writer, whose copy is current, becomes the owner.
\<close>

theorem home_write_upgrades:
  assumes ok: "dir_ok (directory s)" and w: "reqs s r = Some w" "r \<noteq> next_req s"
    and b: "b = ToLocal s (wr_addr w)" "BLOCK_ALIGNED b"
    and st: "block_state s b = DIR_SHARED" "block_locks s b = []" and os: "other_sharers s c (sharers s b) = []"
    and g: "cli_ToGlobal s c (wr_ptr w) = Some g"
  shows "\<exists>s' v. ProcessRemoteWrite s c r = Some s' \<and> outbox s' = outbox s @ [OSend c v] \<and>
    wr_op v = WRITE_REPLY \<and> wr_id v = wr_id w \<and> wr_status v = SUCCESS \<and> wr_counter v = 0 \<and>
    block_state s' b = DIR_DIRTY \<and> sharers s' b = [g] \<and> block_locks s' b = [] \<and>
    pending_works s' = pending_works s \<and> mem s' = mem s \<and> dir_ok (directory s')"
proof -
  obtain en where e: "GetEntry (directory s) b = Some b" "directory s b = Some en" "dlocks en = []"
    using shared_entry [OF st(1) b(2)] st(2) by metis
  obtain en where en: "ToDirty_p (directory s) b g = Some ((directory s)(b \<mapsto> en))" "dstate en = DIR_DIRTY"
    "dshared en = [g]" "dlocks en = []" "dir_ok ((directory s)(b \<mapsto> en))"
    using ToDirty_p_home [OF ok b(2), of g] st e by (auto simp: block_state_def)
  obtain wid where pr: "ProcessRemoteWrite s c r = remote_write_grant (delete_wr
        (with_sent (s\<lparr>next_req := next_req s + 1, wr_psn := next_psn s\<rparr>) (next_req s)
          ((invalidation s c r w)\<lparr>wr_wid := wid, wr_counter := 0\<rparr>) [] (pending_works s)) (next_req s)) c r (Some b) b"
    using invalidation_round [OF w b st refl, of c] os by (auto simp: sent_to_def)
  show ?thesis
    unfolding pr
    using w g en b(2) entry_or_address(2) [OF b(2) e(1)]
    by (simp add: remote_write_grant_def delete_wr_def upd_wr_def SubmitPlain_eq set_dir_def
        block_state_def GetState_p_def sharers_def block_locks_def TOBLOCK_id)
qed

text \<open>
  A write of a block another worker owns. The home forwards the write to the owner alone, names
  in it the writer and the identifier the writer waits for, and puts the block in transition; no data
  and no permission leave the home before the owner answers.
\<close>

lemma write_forward_run:
  assumes ok: "dir_ok (directory s)" and w: "reqs s r = Some w" "r \<noteq> next_req s"
    "wr_op w \<in> {WRITE, WRITE_PERMISSION_ONLY, WLOCK}"
    and b: "b = ToLocal s (wr_addr w)" "BLOCK_ALIGNED b" and st: "block_state s b = DIR_DIRTY"
    and ow: "sharers s b = [ow]" "GetClient s ow = Some oc"
  shows "\<exists>s' v. ProcessRemoteWrite s c r = Some s' \<and> outbox s' = outbox s @ [OSend oc v] \<and>
    wr_op v = WRITE_FORWARD \<and> wr_addr v = wr_addr w \<and> wr_size v = wr_size w \<and> wr_ptr v = wr_ptr w \<and>
    wr_pid v = wr_id w \<and> wr_pwid v = cli_wid s c \<and> wr_parent v = Some r \<and>
    pending_works s' (wr_id v) = Some (next_req s) \<and> reqs s' (next_req s) = Some v \<and> reqs s' r = Some w \<and>
    block_state s' b = DIR_TO_DIRTY \<and> sharers s' b = [ow] \<and> mem s' = mem s \<and> dir_ok (directory s') \<and>
    s' = s\<lparr>next_req := next_req s', wr_psn := wr_psn s', reqs := reqs s', pending_works := pending_works s', outbox := outbox s', directory := directory s'\<rparr>"
proof -
  obtain en where en: "directory s b = Some en" "dstate en = DIR_DIRTY" "dshared en = [ow]"
    using st ow(1) b(2) by (auto simp: block_state_def GetState_p_def sharers_def TOBLOCK_id split: option.splits)
  let ?d = "(directory s)(b \<mapsto> en\<lparr>dstate := DIR_TO_DIRTY\<rparr>)"
  have ge: "GetEntry (directory s) b = Some b" using en b(2) by (simp add: GetEntry_aligned)
  have "entry_ok b en" using ok en(1) by (rule dir_ok_entry)
  then have "dlocks en = []" using en(2) by (auto simp: entry_ok_def state_ok_def)
  then have "dir_pre (directory s) (DToToDirty b)"
    using b(2) en by (simp add: with_entry_def TOBLOCK_id)
  then have d: "ToToDirty_e (directory s) (Some b) = Some ?d" "dir_ok ?d"
    using dir_exec_ok [OF ok, of "DToToDirty b"] en b(2) ge
    by (auto simp: ToToDirty_p_def ToToDirty_e_def TOBLOCK_id deref_def store_def)
  show ?thesis
    using w ow(2) home_reads [OF b(2), of s] st d en b(2)
    by (auto simp: ProcessRemoteWrite_def Let_def InTransitionState_s_def clone_wr_def alloc_wr_def upd_wr_def
        GetSList_def deref_def set_dir_def ge SubmitPending_eq is_reply_iff copy_WorkRequest_def
        block_state_def GetState_p_def sharers_def TOBLOCK_id simp flip: b(1))
qed

section \<open>The handlers at work\<close>

text \<open>
  Worker 1 as the home of block 66048, which other workers name 281474976711168, with the
  request of worker 3 in cell 7 and, where there is one, the directory entry of the block.
\<close>

definition home_request :: "Work \<Rightarrow> WorkRequest" where
  "home_request op = new_WorkRequest\<lparr>wr_op := op, wr_id := 9, wr_addr := 281474976711168, wr_size := 512, wr_ptr := 132096\<rparr>"

definition home_worker :: "Work \<Rightarrow> DirEntry option \<Rightarrow> Worker" where
  "home_worker op en = idle_worker\<lparr>next_req := 8, directory := (\<lambda>b. if b = 66048 then en else None),
     reqs := [7 \<mapsto> home_request op]\<rparr>"

definition home_entry :: "DirState \<Rightarrow> gaddr list \<Rightarrow> DirEntry" where
  "home_entry st gs = new_DirEntry\<lparr>dstate := st, daddr := 66048, dshared := gs\<rparr>"

lemma home_worker_address: "BLOCK_ALIGNED 66048"
  "WID 562949953421312 = 2" "WID 844424930132992 = 3" "WID 1125899906842624 = 4"
  "TO_GLOB 132096 131072 3 = 844424930132992"
  by code_simp+

lemma home_worker_ToLocal: "ToLocal (home_worker op en) 281474976711168 = 66048"
proof -
  have "TO_LOCAL 281474976711168 65536 = 66048" by code_simp
  then show ?thesis by (simp add: home_worker_def idle_worker_def ToLocal_def)
qed

lemma home_worker_fields:
  "directory (home_worker op en) = (\<lambda>b. if b = 66048 then en else None)"
  "reqs (home_worker op en) = [7 \<mapsto> home_request op]" "wr_addr (home_request op) = 281474976711168"
  "wr_ptr (home_request op) = 132096" "wr_op (home_request op) = op"
  "next_req (home_worker op en) = 8" "outbox (home_worker op en) = []"
  "cli_ToGlobal (home_worker op en) (Peer 3) 132096 = Some 844424930132992"
  "cli_wid (home_worker op en) (Peer 3) = 3"
  "GetClient (home_worker op en) 562949953421312 = Some (Peer 2)"
  "GetClient (home_worker op en) 844424930132992 = Some (Peer 3)"
  "GetClient (home_worker op en) 1125899906842624 = Some (Peer 4)"
  by (simp_all add: home_worker_def idle_worker_def cli_ToGlobal_def home_worker_address GetClient_def cli_wid_def home_request_def)

lemma home_worker_block:
  "block_state (home_worker op (Some (home_entry st gs))) 66048 = st"
  "sharers (home_worker op (Some (home_entry st gs))) 66048 = gs"
  "block_locks (home_worker op (Some (home_entry st gs))) 66048 = []"
  "block_state (home_worker op None) 66048 = DIR_UNSHARED"
  "sharers (home_worker op None) 66048 = []" "block_locks (home_worker op None) 66048 = []"
  by (simp_all add: block_state_def GetState_p_def sharers_def block_locks_def home_worker_fields home_entry_def
      new_DirEntry_def TOBLOCK_id home_worker_address)

lemma home_worker_dir_ok:
  "dir_ok (directory (home_worker op None))"
  "dir_ok (directory (home_worker op (Some (home_entry DIR_SHARED [562949953421312]))))"
  "dir_ok (directory (home_worker op (Some (home_entry DIR_SHARED [844424930132992]))))"
  "dir_ok (directory (home_worker op (Some (home_entry DIR_SHARED [562949953421312, 844424930132992, 1125899906842624]))))"
  "dir_ok (directory (home_worker op (Some (home_entry DIR_DIRTY [1125899906842624]))))"
  by (simp_all add: home_worker_fields dir_ok_def entry_ok_def state_ok_def home_entry_def home_worker_address
      new_DirEntry_def tab_inv_def tab_in_def tab_wlocked_def)

lemma home_worker_at: "reqs (home_worker op en) 7 = Some (home_request op)"
  "66048 = ToLocal (home_worker op en) (wr_addr (home_request op))" "BLOCK_ALIGNED 66048"
  "7 \<noteq> next_req (home_worker op en)"
  "cli_ToGlobal (home_worker op en) (Peer 3) (wr_ptr (home_request op)) = Some 844424930132992"
  by (simp_all add: home_worker_fields home_worker_ToLocal home_worker_address)

lemmas home_worker_simps = home_worker_fields home_worker_block home_worker_address

theorem home_write_upgrades_witness:
  "\<exists>s' v. ProcessRemoteWrite (home_worker WRITE_PERMISSION_ONLY (Some (home_entry DIR_SHARED [844424930132992]))) (Peer 3) 7 =
       Some s' \<and> outbox s' = [OSend (Peer 3) v] \<and> wr_op v = WRITE_REPLY \<and> block_state s' 66048 = DIR_DIRTY"
proof -
  let ?s = "home_worker WRITE_PERMISSION_ONLY (Some (home_entry DIR_SHARED [844424930132992]))"
  have p: "other_sharers ?s (Peer 3) (sharers ?s 66048) = []" by (simp add: home_worker_simps other_sharers_def)
  have "\<exists>s' v. ProcessRemoteWrite ?s (Peer 3) 7 = Some s' \<and> outbox s' = outbox ?s @ [OSend (Peer 3) v] \<and>
     wr_op v = WRITE_REPLY \<and> block_state s' 66048 = DIR_DIRTY"
    using home_write_upgrades [OF home_worker_dir_ok(3) home_worker_at(1) [of WRITE_PERMISSION_ONLY] home_worker_at(4,2,3)
        home_worker_block(1,3) p home_worker_at(5)] by blast
  then show ?thesis by (simp add: home_worker_simps)
qed

end
