(* ===== verification/Gam_Lru.thy ===== *)
theory Gam_Lru
  imports Gam_Cache "HOL-Library.Sublist"
begin

text \<open>
  The lists of cached lines in order of use: the pointers \<^verbatim>\<open>prev\<close>, \<^verbatim>\<open>next\<close>, \<^verbatim>\<open>pos\<close>, \<^verbatim>\<open>heads\<close> and \<^verbatim>\<open>tails\<close> of
  \<^verbatim>\<open>gam/src/cache.cc\<close> represent one sequence of lines per list, which \<^verbatim>\<open>LinkLRU\<close> extends at the front
  and \<^verbatim>\<open>UnLinkLRU\<close> shrinks, so the line at the tail of a list is the one used least recently.
\<close>

section \<open>Doubly linked segments\<close>

fun hd_or :: "'a option \<Rightarrow> 'a list \<Rightarrow> 'a option" where
  "hd_or n [] = n"
| "hd_or n (x # xs) = Some x"

fun last_or :: "'a option \<Rightarrow> 'a list \<Rightarrow> 'a option" where
  "last_or p [] = p"
| "last_or p (x # xs) = last_or (Some x) xs"

text \<open>The links of a line: its list, its predecessor and its successor.\<close>

type_synonym link = "int \<times> gaddr option \<times> gaddr option"

definition line_link :: "CacheLine \<Rightarrow> link" where
  "line_link l = (cl_pos l, cl_prev l, cl_next l)"

definition links :: "Worker \<Rightarrow> gaddr \<rightharpoonup> link" where
  "links s c = map_option line_link (caches s c)"

text \<open>The lines \<open>xs\<close> of list \<open>i\<close>, between the neighbours \<open>p\<close> and \<open>n\<close>.\<close>

fun lseg :: "(gaddr \<rightharpoonup> link) \<Rightarrow> nat \<Rightarrow> gaddr option \<Rightarrow> gaddr list \<Rightarrow> gaddr option \<Rightarrow> bool" where
  "lseg k i p [] n = True"
| "lseg k i p (x # xs) n = (k x = Some (int i, p, hd_or n xs) \<and> lseg k i (Some x) xs n)"

text \<open>\<open>L i\<close> is the sequence of lines in list \<open>i\<close>; a line in no list has no neighbours.\<close>

definition list_ok :: "Worker \<Rightarrow> nat \<Rightarrow> gaddr list \<Rightarrow> bool" where
  "list_ok s i xs \<longleftrightarrow> heads s i = hd_or None xs \<and> tails s i = last_or None xs \<and> distinct xs \<and> lseg (links s) i None xs None"

definition lru_ok :: "Worker \<Rightarrow> (nat \<Rightarrow> gaddr list) \<Rightarrow> bool" where
  "lru_ok s L \<longleftrightarrow> (\<forall>i. list_ok s i (L i)) \<and>
     (\<forall>c q p n. links s c = Some (q, p, n) \<longrightarrow> (\<forall>i. c \<notin> set (L i)) \<longrightarrow> p = None \<and> n = None)"

text \<open>All of a worker but the lists, and the choices its environment made for them.\<close>

definition bare :: "CacheLine \<Rightarrow> CacheLine" where
  "bare l = l\<lparr>cl_pos := 0, cl_prev := None, cl_next := None\<rparr>"

definition core :: "Worker \<Rightarrow> (gaddr \<rightharpoonup> CacheLine) \<times> Worker" where
  "core s = ((\<lambda>c. map_option bare (caches s c)),
     s\<lparr>caches := Map.empty, heads := (\<lambda>_. None), tails := (\<lambda>_. None), tick := 0\<rparr>)"

lemma hd_or_append [simp]: "hd_or n (xs @ ys) = hd_or (hd_or n ys) xs"
  by (cases xs) auto

lemma last_or_append [simp]: "last_or p (xs @ ys) = last_or (last_or p xs) ys"
  by (induction xs arbitrary: p) auto

lemma last_or_None: "last_or p xs = None \<longleftrightarrow> xs = [] \<and> p = None"
  by (induction xs arbitrary: p) auto

lemma last_or_in: "last_or p xs = Some c \<Longrightarrow> xs \<noteq> [] \<Longrightarrow> c \<in> set xs"
  by (induction xs arbitrary: p) (auto, metis empty_iff empty_set last_or.simps(1) option.inject)

lemma lseg_append [simp]: "lseg k i p (xs @ ys) n \<longleftrightarrow> lseg k i p xs (hd_or n ys) \<and> lseg k i (last_or p xs) ys n"
  by (induction xs arbitrary: p) auto

lemma lseg_cong: "\<forall>x \<in> set xs. k x = k' x \<Longrightarrow> lseg k i p xs n = lseg k' i p xs n"
  by (induction xs arbitrary: p) auto

lemma lseg_upd [simp]: "x \<notin> set xs \<Longrightarrow> lseg (k(x := v)) i p xs n = lseg k i p xs n"
  by (rule lseg_cong) auto

lemma lseg_pos: "lseg k i p xs n \<Longrightarrow> x \<in> set xs \<Longrightarrow> \<exists>y. k x = Some (int i, y)"
  by (induction xs arbitrary: p) auto

lemma upd_line_Some: "caches s c = Some l \<Longrightarrow> upd_line s c f = Some (s\<lparr>caches := (caches s)(c \<mapsto> f l)\<rparr>)"
  by (simp add: upd_line_def)

lemma links_Some: "links s c = Some k \<longleftrightarrow> (\<exists>l. caches s c = Some l \<and> line_link l = k)"
  by (auto simp: links_def)

lemma links_upd [simp]: "links (s\<lparr>caches := m(c \<mapsto> l)\<rparr>) = (links (s\<lparr>caches := m\<rparr>))(c \<mapsto> line_link l)"
  by (auto simp: links_def)

lemma links_same [simp]: "links (s\<lparr>heads := h\<rparr>) = links s" "links (s\<lparr>tails := t\<rparr>) = links s" "links (s\<lparr>tick := n\<rparr>) = links s"
  "links (s\<lparr>caches := caches s\<rparr>) = links s"
  by (auto simp: links_def)

lemma bare_upd [simp]: "bare (l\<lparr>cl_pos := q\<rparr>) = bare l" "bare (l\<lparr>cl_prev := p\<rparr>) = bare l" "bare (l\<lparr>cl_next := n\<rparr>) = bare l"
  by (simp_all add: bare_def)

lemma line_link_upd [simp]:
  "line_link (l\<lparr>cl_pos := q\<rparr>) = (q, snd (line_link l))"
  "line_link (l\<lparr>cl_prev := p\<rparr>) = (fst (line_link l), p, snd (snd (line_link l)))"
  "line_link (l\<lparr>cl_next := n\<rparr>) = (fst (line_link l), fst (snd (line_link l)), n)"
  by (simp_all add: line_link_def)

section \<open>Linking and unlinking\<close>

lemma list_ok_cong:
  "heads s' i = heads s i \<Longrightarrow> tails s' i = tails s i \<Longrightarrow> \<forall>x \<in> set xs. links s' x = links s x \<Longrightarrow> list_ok s' i xs = list_ok s i xs"
  using lseg_cong [of xs "links s'" "links s"] by (simp add: list_ok_def)

lemma lists_apart: "lru_ok s L \<Longrightarrow> x \<in> set (L i) \<Longrightarrow> x \<in> set (L j) \<Longrightarrow> i = j"
  using lseg_pos [of "links s" i None "L i" None x] lseg_pos [of "links s" j None "L j" None x] by (force simp: lru_ok_def list_ok_def)

lemma link_at_list:
  assumes "list_ok s i xs" "c \<notin> set xs" "caches s c = Some l"
  shows "\<exists>s'. link_at s c i = Some s' \<and> list_ok s' i (c # xs) \<and> core s' = core s \<and>
    (\<forall>j. j \<noteq> i \<longrightarrow> heads s' j = heads s j \<and> tails s' j = tails s j) \<and> (\<forall>z. z \<noteq> c \<longrightarrow> z \<notin> set xs \<longrightarrow> links s' z = links s z)"
proof (cases xs)
  case Nil
  then show ?thesis using assms by (auto simp: link_at_def upd_line_Some list_ok_def line_link_def core_def fun_eq_iff)
next
  case (Cons y ys)
  then obtain ly where y: "caches s y = Some ly" "line_link ly = (int i, None, hd_or None ys)" "heads s i = Some y" "y \<noteq> c"
    "last_or (Some y) ys \<noteq> None" using assms by (auto simp: list_ok_def links_Some last_or_None)
  show ?thesis using assms Cons y by (auto simp: link_at_def upd_line_Some list_ok_def core_def fun_eq_iff)
qed

lemma unlink_at_list:
  assumes L: "heads s i = hd_or None (xs @ c # ys)" "tails s i = last_or None (xs @ c # ys)" "distinct (xs @ c # ys)"
    and k: "lseg (links s) i None xs (Some c)" "lseg (links s) i (Some c) ys None" "links s c = Some (q, last_or None xs, hd_or None ys)"
  shows "\<exists>s'. UnLinkLRU_at s c i = Some s' \<and> list_ok s' i (xs @ ys) \<and> core s' = core s \<and> links s' c = Some (q, None, None) \<and>
    (\<forall>j. j \<noteq> i \<longrightarrow> heads s' j = heads s j \<and> tails s' j = tails s j) \<and> (\<forall>z. z \<notin> set (xs @ c # ys) \<longrightarrow> links s' z = links s z)"
proof -
  obtain l where l: "caches s c = Some l" "cl_pos l = q" "cl_prev l = last_or None xs" "cl_next l = hd_or None ys"
    using k(3) by (auto simp: links_Some line_link_def)
  have h: "heads s i = Some c \<longleftrightarrow> xs = []" "tails s i = Some c \<longleftrightarrow> ys = []"
    using L last_or_in [of "Some c" ys c] by (cases xs; auto)+
  show ?thesis
  proof (cases xs rule: rev_cases; cases ys)
    assume e: "xs = []" "ys = []"
    then show ?thesis using L l h by (auto simp: UnLinkLRU_at_def upd_line_Some list_ok_def line_link_def core_def fun_eq_iff)
  next
    fix y ys' assume e: "xs = []" "ys = y # ys'"
    then obtain ly where "caches s y = Some ly" "line_link ly = (int i, Some c, hd_or None ys')" using k by (auto simp: links_Some)
    then show ?thesis using L l h k e by (auto simp: UnLinkLRU_at_def upd_line_Some list_ok_def line_link_def core_def fun_eq_iff)
  next
    fix x xs' assume e: "xs = xs' @ [x]" "ys = []"
    then obtain lx where "caches s x = Some lx" "line_link lx = (int i, last_or None xs', Some c)" using k by (auto simp: links_Some)
    then show ?thesis using L l h k e by (auto simp: UnLinkLRU_at_def upd_line_Some list_ok_def line_link_def core_def fun_eq_iff)
  next
    fix x xs' y ys' assume e: "xs = xs' @ [x]" "ys = y # ys'"
    then obtain lx ly where "caches s x = Some lx" "line_link lx = (int i, last_or None xs', Some c)"
      "caches s y = Some ly" "line_link ly = (int i, Some c, hd_or None ys')" using k by (auto simp: links_Some)
    then show ?thesis using L l h k e by (auto simp: UnLinkLRU_at_def upd_line_Some list_ok_def line_link_def core_def fun_eq_iff)
  qed
qed

text \<open>What equal cores say of the lines.\<close>

lemma core_line:
  assumes "core s' = core s" "caches s c = Some l"
  shows "\<exists>l'. caches s' c = Some l' \<and> bare l' = bare l"
proof -
  have "map_option bare (caches s' c) = map_option bare (caches s c)" using assms(1) by (simp add: core_def fun_eq_iff)
  then show ?thesis using assms(2) by auto
qed

lemma core_known: "core s' = core s \<Longrightarrow> caches s' c = None \<longleftrightarrow> caches s c = None"
  using core_line [of s' s c] core_line [of s s' c] by fastforce

lemma link_at_ok:
  assumes "lru_ok s L" "\<forall>j. c \<notin> set (L j)" "caches s c \<noteq> None"
  shows "\<exists>s'. link_at s c i = Some s' \<and> lru_ok s' (L(i := c # L i)) \<and> core s' = core s"
proof -
  obtain l where "caches s c = Some l" using assms(3) by blast
  then obtain s' where s': "link_at s c i = Some s'" "list_ok s' i (c # L i)" "core s' = core s"
    "\<And>j. j \<noteq> i \<Longrightarrow> heads s' j = heads s j \<and> tails s' j = tails s j" "\<And>z. z \<noteq> c \<Longrightarrow> z \<notin> set (L i) \<Longrightarrow> links s' z = links s z"
    using link_at_list [of s i "L i" c l] assms by (auto simp: lru_ok_def)
  have "list_ok s' j (L j)" if "j \<noteq> i" for j
  proof -
    have "\<forall>x \<in> set (L j). links s' x = links s x" using s'(5) lists_apart [OF assms(1)] that assms(2) by metis
    then show ?thesis using s'(4) [OF that] list_ok_cong [of s' j s "L j"] assms(1) by (simp add: lru_ok_def)
  qed
  moreover have "p = None \<and> n = None" if "links s' z = Some (q, p, n)" "z \<noteq> c" "\<forall>j. z \<notin> set (L j)" for z q p n
    using that s'(5) [of z] assms(1) by (auto simp: lru_ok_def)
  ultimately have "lru_ok s' (L(i := c # L i))" using s'(2) by (auto simp: lru_ok_def) metis+
  then show ?thesis using s' by blast
qed

text \<open>Taking a line out of its list, whether or not its position was reset before.\<close>

lemma unlink_at_ok:
  assumes ok: "lru_ok s L" and c: "c \<in> set (L i)"
    and s0: "s0 = s \<or> (\<exists>l. caches s c = Some l \<and> s0 = s\<lparr>caches := (caches s)(c \<mapsto> l\<lparr>cl_pos := -1\<rparr>)\<rparr>)"
  shows "\<exists>s'. UnLinkLRU_at s0 c i = Some s' \<and> lru_ok s' (\<lambda>j. remove1 c (L j)) \<and> core s' = core s"
proof -
  obtain xs ys where L: "L i = xs @ c # ys" using c by (meson split_list)
  have d: "list_ok s i (xs @ c # ys)" using ok by (simp add: lru_ok_def flip: L)
  have z: "links s0 z = links s z" if "z \<noteq> c" for z using s0 that by auto
  have k: "lseg (links s0) i p zs n = lseg (links s) i p zs n" if "c \<notin> set zs" for p zs n using z that by (intro lseg_cong) metis
  obtain q where q: "links s0 c = Some (q, last_or None xs, hd_or None ys)" using d s0 by (auto simp: list_ok_def links_Some)
  have h: "heads s0 = heads s" "tails s0 = tails s" "core s0 = core s" using s0 by (auto simp: core_def fun_eq_iff)
  obtain s' where s': "UnLinkLRU_at s0 c i = Some s'" "list_ok s' i (xs @ ys)" "core s' = core s" "links s' c = Some (q, None, None)"
    "\<And>j. j \<noteq> i \<Longrightarrow> heads s' j = heads s j \<and> tails s' j = tails s j" "\<And>y. y \<notin> set (L i) \<Longrightarrow> links s' y = links s0 y"
    using unlink_at_list [of s0 i xs c ys q] d q k h L by (auto simp: list_ok_def)
  have r: "remove1 c (L i) = xs @ ys" using d by (simp add: L list_ok_def remove1_append)
  have o: "c \<notin> set (L j)" if "j \<noteq> i" for j using lists_apart [OF ok c] that by blast
  have "list_ok s' j (remove1 c (L j))" for j
  proof (cases "j = i")
    case False
    have "\<forall>x \<in> set (L j). links s' x = links s x" using s'(6) z lists_apart [OF ok] False o by metis
    then show ?thesis using s'(5) [OF False] list_ok_cong [of s' j s "L j"] ok o [OF False] by (simp add: lru_ok_def remove1_idem)
  qed (use s'(2) r in simp)
  moreover have "p = None \<and> n = None" if k: "links s' y = Some (q', p, n)" "\<forall>j. y \<notin> set (remove1 c (L j))" for y q' p n
  proof (cases "y = c")
    case False
    then have "\<forall>j. y \<notin> set (L j)" using k(2) by (metis in_set_remove1)
    then have "links s y = Some (q', p, n)" using s'(6) z [OF False] k(1) by metis
    then show ?thesis using ok \<open>\<forall>j. y \<notin> set (L j)\<close> unfolding lru_ok_def by blast
  qed (use k s'(4) in simp)
  ultimately show ?thesis using s'(1,3) unfolding lru_ok_def by blast
qed

section \<open>The order of use\<close>

text \<open>
  The interface: lines are put at the front of one of several lists and taken out of the list they
  are in. \<open>lists s L\<close> says that the state \<open>s\<close> holds the sequences \<open>L\<close>.
\<close>

locale use_order =
  fixes lists :: "'s \<Rightarrow> (nat \<Rightarrow> 'a list) \<Rightarrow> bool"
    and known :: "'s \<Rightarrow> 'a \<Rightarrow> bool"
    and rest :: "'s \<Rightarrow> 'r"
    and link unlink :: "'s \<Rightarrow> 'a \<Rightarrow> 's option"
  assumes lists_distinct: "lists s L \<Longrightarrow> distinct (L i)"
    and lists_disjoint: "lists s L \<Longrightarrow> c \<in> set (L i) \<Longrightarrow> c \<in> set (L j) \<Longrightarrow> i = j"
    and link_front: "lists s L \<Longrightarrow> known s c \<Longrightarrow> \<forall>i. c \<notin> set (L i) \<Longrightarrow>
      \<exists>s' i. link s c = Some s' \<and> lists s' (L(i := c # L i)) \<and> rest s' = rest s"
    and unlink_out: "lists s L \<Longrightarrow> known s c \<Longrightarrow>
      \<exists>s'. unlink s c = Some s' \<and> lists s' (\<lambda>i. remove1 c (L i)) \<and> rest s' = rest s"
    and known_rest: "rest s' = rest s \<Longrightarrow> known s' c = known s c"
begin

definition use_line :: "'s \<Rightarrow> 'a \<Rightarrow> 's option" where
  "use_line s c = Option.bind (unlink s c) (\<lambda>s. link s c)"

fun use_all :: "'s \<Rightarrow> 'a list \<Rightarrow> 's option" where
  "use_all s [] = Some s"
| "use_all s (c # cs) = Option.bind (use_line s c) (\<lambda>s. use_all s cs)"

lemma use_line_front:
  assumes "lists s L" "known s c"
  shows "\<exists>s' i. use_line s c = Some s' \<and> lists s' (\<lambda>j. (if j = i then [c] else []) @ filter (\<lambda>x. x \<noteq> c) (L j)) \<and> rest s' = rest s"
proof -
  obtain s1 where u: "unlink s c = Some s1" "lists s1 (\<lambda>i. remove1 c (L i))" "rest s1 = rest s" using unlink_out [OF assms] by blast
  have f: "remove1 c (L j) = filter (\<lambda>x. x \<noteq> c) (L j)" for j
    using distinct_remove1_removeAll [OF lists_distinct [OF assms(1)], of c] by (simp add: removeAll_filter_not_eq eq_commute)
  have "known s1 c" using known_rest [OF u(3)] assms(2) by simp
  moreover have "lists s1 (\<lambda>j. filter (\<lambda>x. x \<noteq> c) (L j))" using u(2) by (simp add: f)
  ultimately obtain s' i where l: "link s1 c = Some s'" "rest s' = rest s1"
    "lists s' ((\<lambda>j. filter (\<lambda>x. x \<noteq> c) (L j))(i := c # filter (\<lambda>x. x \<noteq> c) (L i)))"
    using link_front [of s1 "\<lambda>j. filter (\<lambda>x. x \<noteq> c) (L j)" c] by fastforce
  moreover have "(\<lambda>j. filter (\<lambda>x. x \<noteq> c) (L j))(i := c # filter (\<lambda>x. x \<noteq> c) (L i)) =
      (\<lambda>j. (if j = i then [c] else []) @ filter (\<lambda>x. x \<noteq> c) (L j))" by auto
  ultimately have "lists s' (\<lambda>j. (if j = i then [c] else []) @ filter (\<lambda>x. x \<noteq> c) (L j))" by simp
  then show ?thesis using u l by (auto simp: use_line_def)
qed

lemma use_all_recent:
  assumes "lists s L" "\<forall>c \<in> set cs. known s c"
  shows "\<exists>s' L'. use_all s cs = Some s' \<and> lists s' L' \<and> rest s' = rest s \<and>
    (\<forall>i. \<exists>us. L' i = us @ filter (\<lambda>x. x \<notin> set cs) (L i) \<and> subseq us (rev cs)) \<and> (\<forall>c \<in> set cs. \<exists>i. c \<in> set (L' i))"
  using assms
proof (induction cs arbitrary: s L)
  case (Cons c cs)
  obtain s1 i where u: "use_line s c = Some s1" "lists s1 (\<lambda>j. (if j = i then [c] else []) @ filter (\<lambda>x. x \<noteq> c) (L j))" "rest s1 = rest s"
    using use_line_front [of s L c] Cons.prems by auto
  let ?L = "\<lambda>j. (if j = i then [c] else []) @ filter (\<lambda>x. x \<noteq> c) (L j)"
  have "\<forall>d \<in> set cs. known s1 d" using known_rest [OF u(3)] Cons.prems(2) by simp
  then obtain s' L' where r: "use_all s1 cs = Some s'" "lists s' L'" "rest s' = rest s1"
    "\<And>j. \<exists>us. L' j = us @ filter (\<lambda>x. x \<notin> set cs) (?L j) \<and> subseq us (rev cs)" "\<forall>d \<in> set cs. \<exists>j. d \<in> set (L' j)"
    using Cons.IH [OF u(2)] by blast
  have "\<exists>us. L' j = us @ filter (\<lambda>x. x \<notin> set (c # cs)) (L j) \<and> subseq us (rev (c # cs))" for j
  proof -
    obtain us where us: "L' j = us @ filter (\<lambda>x. x \<notin> set cs) (?L j)" "subseq us (rev cs)" using r(4) by blast
    let ?u = "us @ (if j = i \<and> c \<notin> set cs then [c] else [])"
    have "L' j = ?u @ filter (\<lambda>x. x \<notin> set (c # cs)) (L j)" using us(1) by (auto intro!: filter_cong)
    moreover have "subseq ?u (rev (c # cs))" using us(2) by (auto intro: list_emb_append_mono)
    ultimately show ?thesis by blast
  qed
  moreover have "\<exists>j. c \<in> set (L' j)"
  proof (cases "c \<in> set cs")
    case False
    obtain us where "L' i = us @ filter (\<lambda>x. x \<notin> set cs) (?L i)" using r(4) by blast
    then show ?thesis using False by (intro exI [of _ i]) simp
  qed (use r(5) in blast)
  ultimately show ?case using u r by auto
qed auto

end

text \<open>The list \<^verbatim>\<open>LinkLRU\<close> picks is one of the ten; picking it only consumes answers of the environment.\<close>

lemma pick_random_tick: "\<exists>n. snd (pick_random k s) = s\<lparr>tick := n\<rparr>"
proof (induction k arbitrary: s)
  case 0
  show ?case by (intro exI [of _ "tick s"]) simp
next
  case (Suc k)
  obtain n where "snd (pick_random k (s\<lparr>tick := Suc (Suc (tick s))\<rparr>)) = s\<lparr>tick := n\<rparr>"
    using Suc [of "s\<lparr>tick := Suc (Suc (tick s))\<rparr>"] by auto
  then show ?case by (auto simp: GetRandom_def try_lock_def Let_def)
qed

lemma pick_first_tick: "\<exists>n. snd (pick_first k s) = s\<lparr>tick := n\<rparr>"
proof (induction k arbitrary: s)
  case 0
  show ?case by (intro exI [of _ "tick s"]) simp
next
  case (Suc k)
  obtain n where "snd (pick_first k (s\<lparr>tick := Suc (tick s)\<rparr>)) = s\<lparr>tick := n\<rparr>"
    using Suc [of "s\<lparr>tick := Suc (tick s)\<rparr>"] by auto
  then show ?case by (auto simp: try_lock_def Let_def)
qed

lemma lru_pick_tick: "\<exists>i n. lru_pick s = (i, s\<lparr>tick := n\<rparr>)"
  using pick_random_tick [of sample_num s] pick_first_tick [of LRU_NUM "snd (pick_random sample_num s)"]
  by (auto simp: lru_pick_def GetRandom_def split: prod.splits option.splits)

lemma lru_ok_tick [simp]: "lru_ok (s\<lparr>tick := n\<rparr>) L = lru_ok s L"
  by (simp add: lru_ok_def list_ok_def)

lemma LinkLRU_ok:
  assumes "lru_ok s L" "caches s c \<noteq> None" "\<forall>j. c \<notin> set (L j)"
  shows "\<exists>s' i. LinkLRU s c = Some s' \<and> lru_ok s' (L(i := c # L i)) \<and> core s' = core s"
proof -
  obtain i n where p: "lru_pick s = (i, s\<lparr>tick := n\<rparr>)" using lru_pick_tick by blast
  have "core (s\<lparr>tick := n\<rparr>) = core s" by (simp add: core_def)
  then show ?thesis using link_at_ok [of "s\<lparr>tick := n\<rparr>" L c i] assms p by (auto simp: LinkLRU_def)
qed

lemma UnLinkLRU_at_absent:
  assumes "lru_ok s L" "\<forall>j. c \<notin> set (L j)" "caches s c = Some l"
  shows "UnLinkLRU_at (s\<lparr>caches := (caches s)(c \<mapsto> l\<lparr>cl_pos := q\<rparr>)\<rparr>) c i =
    Some (s\<lparr>caches := (caches s)(c \<mapsto> l\<lparr>cl_pos := q, cl_next := None, cl_prev := None\<rparr>)\<rparr>)"
proof -
  have "list_ok s i (L i)" using assms(1) by (simp add: lru_ok_def)
  then have h: "heads s i = hd_or None (L i)" "tails s i = last_or None (L i)" by (simp_all add: list_ok_def)
  have "heads s i \<noteq> Some c" using h(1) assms(2) [rule_format, of i] by (cases "L i") auto
  moreover have "tails s i \<noteq> Some c" using h(2) assms(2) last_or_in [of None "L i" c] by (cases "L i = []") auto
  moreover have "links s c = Some (cl_pos l, cl_prev l, cl_next l)" using assms(3) by (simp add: links_def line_link_def)
  then have "cl_prev l = None \<and> cl_next l = None" using assms(1,2) unfolding lru_ok_def by blast
  ultimately show ?thesis by (simp add: UnLinkLRU_at_def upd_line_Some)
qed

lemma UnLinkLRU_ok:
  assumes "lru_ok s L" "caches s c \<noteq> None"
  shows "\<exists>s'. UnLinkLRU s c = Some s' \<and> lru_ok s' (\<lambda>i. remove1 c (L i)) \<and> core s' = core s"
proof -
  obtain l where l: "caches s c = Some l" using assms(2) by blast
  show ?thesis
  proof (cases "\<exists>i. c \<in> set (L i)")
    case True
    then obtain i where i: "c \<in> set (L i)" by blast
    then have "cl_pos l = int i" using assms(1) l lseg_pos [of "links s" i None "L i" None c]
      by (auto simp: lru_ok_def list_ok_def links_def line_link_def)
    then show ?thesis using unlink_at_ok [OF assms(1) i] l by (simp add: UnLinkLRU_def upd_line_Some)
  next
    case False
    let ?s = "s\<lparr>caches := (caches s)(c \<mapsto> l\<lparr>cl_pos := -1, cl_next := None, cl_prev := None\<rparr>)\<rparr>"
    have "list_ok ?s i (L i)" for i
      using list_ok_cong [of ?s i s "L i"] assms(1) False by (auto simp: lru_ok_def)
    moreover have "p = None \<and> n = None" if "links ?s y = Some (q, p, n)" "\<forall>i. y \<notin> set (L i)" for y q p n
    proof (cases "y = c")
      case False
      then have "links s y = Some (q, p, n)" using that(1) by simp
      then show ?thesis using assms(1) that(2) unfolding lru_ok_def by blast
    qed (use that(1) in \<open>simp add: line_link_def\<close>)
    ultimately have "lru_ok ?s L" unfolding lru_ok_def by blast
    moreover have "remove1 c (L i) = L i" for i using False by (simp add: remove1_idem)
    moreover have "core ?s = core s" using l by (auto simp: core_def fun_eq_iff bare_def)
    moreover have "UnLinkLRU s c = Some (if cl_pos l = -1 then s else ?s)"
      using UnLinkLRU_at_absent [OF assms(1) _ l, of "-1" "nat (cl_pos l)"] False l by (simp add: UnLinkLRU_def upd_line_Some)
    ultimately show ?thesis using assms(1) by (cases "cl_pos l = -1") simp_all
  qed
qed

interpretation lru: use_order lru_ok "\<lambda>s c. caches s c \<noteq> None" core LinkLRU UnLinkLRU
proof
  show "distinct (L i)" if "lru_ok s L" for s L i using that by (simp add: lru_ok_def list_ok_def)
  show "i = j" if "lru_ok s L" "c \<in> set (L i)" "c \<in> set (L j)" for s L c i j using lists_apart that by blast
  show "\<exists>s' i. LinkLRU s c = Some s' \<and> lru_ok s' (L(i := c # L i)) \<and> core s' = core s"
    if "lru_ok s L" "caches s c \<noteq> None" "\<forall>i. c \<notin> set (L i)" for s L c using LinkLRU_ok that by blast
  show "\<exists>s'. UnLinkLRU s c = Some s' \<and> lru_ok s' (\<lambda>i. remove1 c (L i)) \<and> core s' = core s"
    if "lru_ok s L" "caches s c \<noteq> None" for s L c using UnLinkLRU_ok that by blast
  show "(caches s' c \<noteq> None) = (caches s c \<noteq> None)" if "core s' = core s" for s s' c using core_known [OF that] by simp
qed

fun use_lines :: "Worker \<Rightarrow> gaddr list \<Rightarrow> Worker option" where
  "use_lines s [] = Some s"
| "use_lines s (c # cs) = do { s \<leftarrow> relink s c; use_lines s cs }"

lemma use_lines_eq: "use_lines s cs = lru.use_all s cs"
  by (induction cs arbitrary: s) (auto simp: relink_def lru.use_line_def)

text \<open>
  C34. Lines are kept in the order of their use. After the hits on the lines \<open>cs\<close>, one after the other,
  every list holds lines of \<open>cs\<close> first, the one used last in front, and behind them its other lines
  in the order they had; every line used is in a list. So the tail of a list, where eviction looks
  for its victim, is used less recently than all lines in front of it. Nothing but the lists changes.
\<close>

theorem lru_order:
  assumes "lru_ok s L" "\<forall>c \<in> set cs. caches s c \<noteq> None"
  shows "\<exists>s' L'. use_lines s cs = Some s' \<and> lru_ok s' L' \<and> core s' = core s \<and>
    (\<forall>i. \<exists>us. L' i = us @ filter (\<lambda>x. x \<notin> set cs) (L i) \<and> subseq us (rev cs)) \<and> (\<forall>c \<in> set cs. \<exists>i. c \<in> set (L' i))"
  unfolding use_lines_eq by (rule lru.use_all_recent [OF assms])

text \<open>Two lines in the first list.\<close>

definition two_lines :: Worker where
  "two_lines = idle_worker\<lparr>caches := [512 \<mapsto> new_CacheLine\<lparr>cl_addr := 512, cl_pos := 0, cl_next := Some 1024\<rparr>,
       1024 \<mapsto> new_CacheLine\<lparr>cl_addr := 1024, cl_pos := 0, cl_prev := Some 512\<rparr>],
     heads := (\<lambda>_. None)(0 := Some 512), tails := (\<lambda>_. None)(0 := Some 1024)\<rparr>"

lemma two_lines_ok: "lru_ok two_lines ((\<lambda>_. [])(0 := [512, 1024]))"
  by (auto simp: lru_ok_def list_ok_def two_lines_def links_def line_link_def new_CacheLine_def)

theorem lru_order_witness:
  "\<exists>s' L' i. use_lines two_lines [1024] = Some s' \<and> lru_ok s' L' \<and> 1024 \<in> set (L' i)"
  using lru_order [OF two_lines_ok, of "[1024]"] by (fastforce simp: two_lines_def)

end
