(* ===== verification/Gam_Slab_Inv.thy ===== *)
theory Gam_Slab_Inv
  imports Gam_Slabs
begin

text \<open>
  The consistency of the slab allocator: the chunks are cut from the slabs of the region, every chunk
  belongs to the class of its slab, and the free lists are lists of free chunks. The operations of
  \<open>Gam_Slabs\<close> keep it; \<open>Gam_Allocator\<close> states what that means for the users of the allocator.
\<close>

section \<open>Chains of items\<close>

primrec chain :: "(ptr \<rightharpoonup> ptr option) \<Rightarrow> ptr option \<Rightarrow> ptr list \<Rightarrow> bool" where
  "chain h x [] \<longleftrightarrow> x = None"
| "chain h x (p # ps) \<longleftrightarrow> x = Some p \<and> (\<exists>y. h p = Some y \<and> chain h y ps)"

lemma chain_upd [simp]: "p \<notin> set ps \<Longrightarrow> chain (h(p := v)) x ps = chain h x ps"
  by (induction ps arbitrary: x) auto

lemma chain_head: "chain h (Some p) ps \<Longrightarrow> h p \<noteq> None"
  by (cases ps) auto

section \<open>Views of the allocator\<close>

definition SLAB :: nat where
  "SLAB = 1048576"

definition csize :: "SlabAllocator \<Rightarrow> nat \<Rightarrow> nat" where
  "csize sb i = unat (sc_size (slabclass sb ! i))"

definition slots :: "SlabAllocator \<Rightarrow> nat \<Rightarrow> ptr option" where
  "slots sb i = sc_slots (slabclass sb ! i)"

definition curr :: "SlabAllocator \<Rightarrow> nat \<Rightarrow> u32" where
  "curr sb i = sc_curr (slabclass sb ! i)"

definition nxt :: "SlabAllocator \<Rightarrow> ptr \<rightharpoonup> ptr option" where
  "nxt sb p = map_option it_next (stats_map sb p)"

definition use :: "SlabAllocator \<Rightarrow> ptr \<rightharpoonup> u8 \<times> i32" where
  "use sb p = map_option (\<lambda>it. (it_clsid it, it_size it)) (stats_map sb p)"

text \<open>The blocks in use and how many bytes each may hold.\<close>

definition live :: "SlabAllocator \<Rightarrow> ptr \<rightharpoonup> nat" where
  "live sb p = (case use sb p of None \<Rightarrow> None
     | Some (c, _) \<Rightarrow> if c = 0 then None else Some (csize sb (unat c)))"

text \<open>The parts of the allocator that allocation and release leave alone.\<close>

definition geometry :: "SlabAllocator \<Rightarrow> (u32 \<times> u32) list \<times> nat \<times> u64 \<times> ptr \<times> u32 \<times> bool" where
  "geometry sb = (map (\<lambda>c. (sc_size c, sc_perslab c)) (slabclass sb), power_largest sb, mem_limit sb, mem_base sb,
     item_size_max sb, slab_reassign sb)"

lemma geometry_size: "geometry sb' = geometry sb \<Longrightarrow> length (slabclass sb') = length (slabclass sb)"
  by (auto simp: geometry_def dest: map_eq_imp_length_eq)

lemma geometry_csize:
  assumes "geometry sb' = geometry sb" "i < length (slabclass sb)"
  shows "csize sb' i = csize sb i" "sc_perslab (slabclass sb' ! i) = sc_perslab (slabclass sb ! i)"
proof -
  have "map (\<lambda>c. (sc_size c, sc_perslab c)) (slabclass sb') ! i = map (\<lambda>c. (sc_size c, sc_perslab c)) (slabclass sb) ! i"
    using assms(1) by (simp add: geometry_def)
  then show "csize sb' i = csize sb i" "sc_perslab (slabclass sb' ! i) = sc_perslab (slabclass sb ! i)"
    using assms geometry_size [OF assms(1)] by (simp_all add: csize_def)
qed

section \<open>The invariant\<close>

definition classes_ok :: "SlabAllocator \<Rightarrow> bool" where
  "classes_ok sb \<longleftrightarrow> length (slabclass sb) = 201 \<and> 1 \<le> power_largest sb \<and> power_largest sb \<le> 200 \<and>
     item_size_max sb = 1048576 \<and> slab_reassign sb \<and>
     (\<forall>i \<in> {1..power_largest sb}. 48 \<le> csize sb i \<and> csize sb i \<le> SLAB \<and>
        unat (sc_perslab (slabclass sb ! i)) = SLAB div csize sb i)"

text \<open>
  \<open>D\<close> are the chunks, \<open>cls\<close> their classes, \<open>fl i\<close> the free list of class \<open>i\<close>. A chunk is on the free list of its
  class and marked free, or marked with its class and a size that fits.
\<close>

definition use_ok :: "SlabAllocator \<Rightarrow> nat \<Rightarrow> bool \<Rightarrow> u8 \<times> i32 \<Rightarrow> bool" where
  "use_ok sb i free u \<longleftrightarrow> (if free then fst u = 0
     else fst u = of_nat i \<and> unat (scast (snd u) :: u64) \<le> csize sb i)"

definition lists_ok :: "SlabAllocator \<Rightarrow> ptr set \<Rightarrow> (ptr \<Rightarrow> nat) \<Rightarrow> (nat \<Rightarrow> ptr list) \<Rightarrow> bool" where
  "lists_ok sb D cls fl \<longleftrightarrow> dom (use sb) = D \<and> 0 \<notin> D \<and> (\<forall>p \<in> D. cls p \<in> {1..power_largest sb}) \<and>
     (\<forall>i \<in> {1..power_largest sb}. chain (nxt sb) (slots sb i) (fl i) \<and> distinct (fl i) \<and>
        curr sb i = of_nat (length (fl i)) \<and> (\<forall>p \<in> set (fl i). p \<in> D \<and> cls p = i)) \<and>
     (\<forall>p \<in> D. \<exists>u. use sb p = Some u \<and> use_ok sb (cls p) (p \<in> set (fl (cls p))) u)"

text \<open>\<open>pages ! j\<close> is the class of the \<open>j\<close>-th slab cut from the region.\<close>

definition chunk :: "SlabAllocator \<Rightarrow> nat list \<Rightarrow> nat \<Rightarrow> nat \<Rightarrow> ptr" where
  "chunk sb pages j k = mem_base sb + of_nat (j * SLAB + k * csize sb (pages ! j))"

definition chunks :: "SlabAllocator \<Rightarrow> nat list \<Rightarrow> ptr set" where
  "chunks sb pages = {chunk sb pages j k | j k. j < length pages \<and> k < SLAB div csize sb (pages ! j)}"

definition cls_of :: "SlabAllocator \<Rightarrow> nat list \<Rightarrow> ptr \<Rightarrow> nat" where
  "cls_of sb pages p = pages ! (unat (p - mem_base sb) div SLAB)"

definition region_ok :: "SlabAllocator \<Rightarrow> nat list \<Rightarrow> bool" where
  "region_ok sb pages \<longleftrightarrow> mem_base sb \<noteq> 0 \<and> BLOCK_ALIGNED (mem_base sb) \<and> mem_limit sb \<noteq> 0 \<and>
     unat (mem_base sb) + unat (mem_limit sb) \<le> 2 ^ 64 \<and> unat (mem_limit sb) \<le> 2 ^ 37 \<and>
     length pages * SLAB + unat (mem_avail sb) = unat (mem_limit sb) \<and>
     mem_current sb = mem_base sb + of_nat (length pages * SLAB) \<and> set pages \<subseteq> {1..power_largest sb}"

definition slab_rep :: "SlabAllocator \<Rightarrow> nat list \<Rightarrow> (nat \<Rightarrow> ptr list) \<Rightarrow> bool" where
  "slab_rep sb pages fl \<longleftrightarrow> classes_ok sb \<and> region_ok sb pages \<and> lists_ok sb (chunks sb pages) (cls_of sb pages) fl"

definition slab_ok :: "SlabAllocator \<Rightarrow> bool" where
  "slab_ok sb \<longleftrightarrow> (\<exists>pages fl. slab_rep sb pages fl)"

section \<open>Pushing and popping\<close>

lemma set_class_views:
  assumes "i < length (slabclass sb)"
  shows "csize (set_class sb i c) k = (if k = i then unat (sc_size c) else csize sb k)"
    "slots (set_class sb i c) k = (if k = i then sc_slots c else slots sb k)"
    "curr (set_class sb i c) k = (if k = i then sc_curr c else curr sb k)"
  using assms by (auto simp: csize_def slots_def curr_def set_class_def)

lemma set_class_geometry:
  assumes "i < length (slabclass sb)" "sc_size c = sc_size (slabclass sb ! i)" "sc_perslab c = sc_perslab (slabclass sb ! i)"
  shows "geometry (set_class sb i c) = geometry sb"
  using assms by (auto simp: geometry_def set_class_def map_update intro!: list_update_same_conv [THEN iffD2])

lemma views_upd [simp]:
  "csize (sb\<lparr>stats_map := st\<rparr>) = csize sb" "slots (sb\<lparr>stats_map := st\<rparr>) = slots sb" "curr (sb\<lparr>stats_map := st\<rparr>) = curr sb"
  "csize (sb\<lparr>mem_free := f\<rparr>) = csize sb" "slots (sb\<lparr>mem_free := f\<rparr>) = slots sb" "curr (sb\<lparr>mem_free := f\<rparr>) = curr sb"
  "nxt (sb\<lparr>mem_free := f\<rparr>) = nxt sb" "use (sb\<lparr>mem_free := f\<rparr>) = use sb" "nxt (set_class sb i c) = nxt sb" "use (set_class sb i c) = use sb"
  "geometry (sb\<lparr>stats_map := st\<rparr>) = geometry sb" "geometry (sb\<lparr>mem_free := f\<rparr>) = geometry sb"
  by (auto simp: csize_def slots_def curr_def nxt_def use_def set_class_def geometry_def fun_eq_iff)

text \<open>Setting the back pointer of a head changes nothing the lists depend on.\<close>

lemma relink_views:
  assumes "\<forall>n. x = Some n \<longrightarrow> st n \<noteq> None"
  shows "\<exists>st'. (case x of None \<Rightarrow> Some st | Some n \<Rightarrow> map_option (\<lambda>ni. st(n \<mapsto> ni\<lparr>it_prev := v\<rparr>)) (st n)) = Some st' \<and>
    (\<forall>q. map_option it_next (st' q) = map_option it_next (st q)) \<and>
    (\<forall>q. map_option (\<lambda>it. (it_clsid it, it_size it)) (st' q) = map_option (\<lambda>it. (it_clsid it, it_size it)) (st q))"
  using assms by (cases x) auto

text \<open>What \<^verbatim>\<open>do_slabs_free\<close> does to a chunk \<open>p\<close>: it becomes the head of the list; its marks stay.\<close>

lemma do_slabs_free_views:
  assumes i: "i \<in> {1..power_largest sb}" "i < length (slabclass sb)" and head: "\<forall>n. slots sb i = Some n \<longrightarrow> stats_map sb n \<noteq> None"
  shows "\<exists>sb'. do_slabs_free sb p sz i = Some sb' \<and> nxt sb' = (nxt sb)(p \<mapsto> slots sb i) \<and>
    use sb' = (use sb)(p \<mapsto> (case use sb p of None \<Rightarrow> (0, 0) | Some u \<Rightarrow> u)) \<and>
    slots sb' = (slots sb)(i := Some p) \<and> curr sb' = (curr sb)(i := curr sb i + 1) \<and>
    geometry sb' = geometry sb \<and> mem_current sb' = mem_current sb \<and> mem_avail sb' = mem_avail sb"
proof -
  let ?c = "slabclass sb ! i"
  let ?it = "(case stats_map sb p of Some it \<Rightarrow> it | None \<Rightarrow> new_item)"
  let ?st = "(stats_map sb)(p \<mapsto> ?it\<lparr>it_flags := it_flags ?it OR ITEM_SLABBED, it_prev := None, it_next := sc_slots ?c\<rparr>)"
  have hd: "\<forall>n. sc_slots ?c = Some n \<longrightarrow> ?st n \<noteq> None" using head by (simp add: slots_def)
  obtain st where st: "(case sc_slots ?c of None \<Rightarrow> Some ?st
      | Some n \<Rightarrow> map_option (\<lambda>ni. ?st(n \<mapsto> ni\<lparr>it_prev := Some p\<rparr>)) (?st n)) = Some st"
    "\<forall>q. map_option it_next (st q) = map_option it_next (?st q)"
    "\<forall>q. map_option (\<lambda>it. (it_clsid it, it_size it)) (st q) = map_option (\<lambda>it. (it_clsid it, it_size it)) (?st q)"
    using relink_views [OF hd, of "Some p"] by blast
  let ?c' = "?c\<lparr>sc_slots := Some p, sc_curr := sc_curr ?c + 1, sc_requested := sc_requested ?c - sz\<rparr>"
  let ?sb = "set_class (sb\<lparr>stats_map := st\<rparr>) i ?c'"
  let ?sb' = "if sz \<noteq> 0 then ?sb\<lparr>mem_free := mem_free sb + ucast (sc_size ?c)\<rparr> else ?sb"
  have run: "do_slabs_free sb p sz i = Some ?sb'"
    unfolding do_slabs_free_def class_of_def using i st(1) by (simp add: POWER_SMALLEST_def set_class_def Let_def)
  have v: "nxt ?sb = (nxt sb)(p \<mapsto> slots sb i)"
    "use ?sb = (use sb)(p \<mapsto> (case use sb p of None \<Rightarrow> (0, 0) | Some u \<Rightarrow> u))"
    using st(2,3) by (auto simp: nxt_def use_def fun_eq_iff slots_def set_class_def new_item_def split: option.splits)
  have w: "slots ?sb = (slots sb)(i := Some p)" "curr ?sb = (curr sb)(i := curr sb i + 1)" "geometry ?sb = geometry sb"
    using i(2) set_class_views [of i "sb\<lparr>stats_map := st\<rparr>" ?c'] set_class_geometry [of i "sb\<lparr>stats_map := st\<rparr>" ?c']
    by (auto simp: fun_eq_iff curr_def)
  show ?thesis
    unfolding run using v w by (auto simp: set_class_def)
qed

text \<open>What \<^verbatim>\<open>do_slabs_alloc\<close> does when the list of the class is not empty.\<close>

lemma do_slabs_alloc_views:
  assumes i: "i \<in> {1..power_largest sb}" "i < length (slabclass sb)" and c: "curr sb i \<noteq> 0" and p: "slots sb i = Some p" "p \<noteq> 0"
    and n: "nxt sb p = Some x" "\<forall>n. x = Some n \<longrightarrow> stats_map sb n \<noteq> None"
  shows "\<exists>sb'. do_slabs_alloc sb sz i = Some (p, sb') \<and> nxt sb' = nxt sb \<and> use sb' = (use sb)(p \<mapsto> (of_nat i, ucast sz)) \<and>
    slots sb' = (slots sb)(i := x) \<and> curr sb' = (curr sb)(i := curr sb i - 1) \<and>
    geometry sb' = geometry sb \<and> mem_current sb' = mem_current sb \<and> mem_avail sb' = mem_avail sb"
proof -
  let ?c = "slabclass sb ! i"
  obtain it where it: "stats_map sb p = Some it" "it_next it = x" using n(1) by (auto simp: nxt_def)
  obtain st where st: "(case x of None \<Rightarrow> Some (stats_map sb)
      | Some n \<Rightarrow> map_option (\<lambda>ni. (stats_map sb)(n \<mapsto> ni\<lparr>it_prev := None\<rparr>)) (stats_map sb n)) = Some st"
    "\<forall>q. map_option it_next (st q) = map_option it_next (stats_map sb q)"
    "\<forall>q. map_option (\<lambda>it. (it_clsid it, it_size it)) (st q) = map_option (\<lambda>it. (it_clsid it, it_size it)) (stats_map sb q)"
    using relink_views [of x "stats_map sb" None] n(2) by blast
  obtain it' where it': "st p = Some it'" "it_next it' = x" using st(2) [rule_format, of p] it by auto
  let ?c' = "?c\<lparr>sc_slots := x, sc_curr := sc_curr ?c - 1, sc_requested := sc_requested ?c + sz\<rparr>"
  let ?st = "st(p \<mapsto> it'\<lparr>it_size := ucast sz, it_clsid := of_nat i\<rparr>)"
  let ?sb = "set_class (sb\<lparr>stats_map := ?st\<rparr>) i ?c'"
  have run: "do_slabs_alloc sb sz i = Some (p, ?sb\<lparr>mem_free := mem_free sb - ucast (sc_size ?c)\<rparr>)"
    unfolding do_slabs_alloc_def class_of_def
    using i c p it st(1) it' by (simp add: POWER_SMALLEST_def curr_def slots_def set_class_def Let_def)
  have v: "nxt ?sb = nxt sb" "use ?sb = (use sb)(p \<mapsto> (of_nat i, ucast sz))"
    using st(2,3) it it' by (auto simp: nxt_def use_def fun_eq_iff set_class_def)
  have w: "slots ?sb = (slots sb)(i := x)" "curr ?sb = (curr sb)(i := curr sb i - 1)" "geometry ?sb = geometry sb"
    using i(2) set_class_views [of i "sb\<lparr>stats_map := ?st\<rparr>" ?c'] set_class_geometry [of i "sb\<lparr>stats_map := ?st\<rparr>" ?c']
    by (auto simp: fun_eq_iff curr_def)
  show ?thesis
    unfolding run using v w by (auto simp: set_class_def)
qed

section \<open>The free lists under the operations\<close>

lemma dom_views: "stats_map sb p \<noteq> None \<longleftrightarrow> use sb p \<noteq> None" "nxt sb p \<noteq> None \<longleftrightarrow> use sb p \<noteq> None"
  by (simp_all add: nxt_def use_def)

lemma lists_okD:
  assumes "lists_ok sb D cls fl" "i \<in> {1..power_largest sb}"
  shows "chain (nxt sb) (slots sb i) (fl i)" "distinct (fl i)" "curr sb i = of_nat (length (fl i))"
    "\<And>p. p \<in> set (fl i) \<Longrightarrow> p \<in> D \<and> cls p = i" "\<And>n. slots sb i = Some n \<Longrightarrow> stats_map sb n \<noteq> None"
proof -
  show c: "chain (nxt sb) (slots sb i) (fl i)" "distinct (fl i)" "curr sb i = of_nat (length (fl i))"
    "\<And>p. p \<in> set (fl i) \<Longrightarrow> p \<in> D \<and> cls p = i"
    using assms by (simp_all add: lists_ok_def)
  show "\<And>n. slots sb i = Some n \<Longrightarrow> stats_map sb n \<noteq> None"
    using c(1) chain_head [of "nxt sb"] by (auto simp: nxt_def)
qed

lemma lists_use:
  assumes "lists_ok sb D cls fl" "p \<in> D"
  shows "\<exists>u. use sb p = Some u \<and> use_ok sb (cls p) (p \<in> set (fl (cls p))) u" "cls p \<in> {1..power_largest sb}"
  using assms by (auto simp: lists_ok_def)

lemma lists_dom: "lists_ok sb D cls fl \<Longrightarrow> dom (use sb) = D"
  by (simp add: lists_ok_def)

lemma use_ok_geometry:
  "classes_ok sb \<Longrightarrow> geometry sb' = geometry sb \<Longrightarrow> i \<in> {1..power_largest sb} \<Longrightarrow> use_ok sb' i free u = use_ok sb i free u"
  using geometry_csize(1) [of sb' sb i] by (auto simp: use_ok_def classes_ok_def)

lemma geometry_largest: "geometry sb' = geometry sb \<Longrightarrow> power_largest sb' = power_largest sb"
  by (simp add: geometry_def)

lemma lists_push:
  assumes cl: "classes_ok sb" and ok: "lists_ok sb D cls fl" and i: "i \<in> {1..power_largest sb}"
    and p: "p \<notin> set (fl i)" "p \<noteq> 0" "cls p = i"
    and v: "nxt sb' = (nxt sb)(p \<mapsto> slots sb i)" "use sb' = (use sb)(p \<mapsto> (0, z))"
      "slots sb' = (slots sb)(i := Some p)" "curr sb' = (curr sb)(i := curr sb i + 1)" "geometry sb' = geometry sb"
  shows "lists_ok sb' (insert p D) cls (fl(i := p # fl i))"
proof -
  note pl = geometry_largest [OF v(5)]
  have other: "p \<notin> set (fl k)" if "k \<in> {1..power_largest sb}" for k
    using lists_okD(4) [OF ok that] p by (cases "k = i") auto
  have "chain (nxt sb') (slots sb' k) ((fl(i := p # fl i)) k) \<and> distinct ((fl(i := p # fl i)) k) \<and>
      curr sb' k = of_nat (length ((fl(i := p # fl i)) k)) \<and> (\<forall>q \<in> set ((fl(i := p # fl i)) k). q \<in> insert p D \<and> cls q = k)"
    if k: "k \<in> {1..power_largest sb}" for k
    using lists_okD [OF ok k] other [OF k] p by (auto simp: v)
  moreover have "\<exists>u. use sb' q = Some u \<and> use_ok sb' (cls q) (q \<in> set ((fl(i := p # fl i)) (cls q))) u" if "q \<in> insert p D" for q
  proof (cases "q = p")
    case True
    then show ?thesis using p by (simp add: v use_ok_def)
  next
    case False
    then have q: "q \<in> D" using that by simp
    show ?thesis
      using lists_use [OF ok q] use_ok_geometry [OF cl v(5)] False by (auto simp: v)
  qed
  ultimately show ?thesis
    using ok p i unfolding lists_ok_def pl by (auto simp: v)
qed

lemma lists_pop:
  assumes cl: "classes_ok sb" and ok: "lists_ok sb D cls fl" and i: "i \<in> {1..power_largest sb}" and l: "fl i = p # ps"
    and sz: "unat (scast (z :: i32) :: u64) \<le> csize sb i"
    and v: "nxt sb' = nxt sb" "use sb' = (use sb)(p \<mapsto> (of_nat i, z))" "nxt sb p = Some x"
      "slots sb' = (slots sb)(i := x)" "curr sb' = (curr sb)(i := curr sb i - 1)" "geometry sb' = geometry sb"
  shows "lists_ok sb' D cls (fl(i := ps))"
proof -
  note pl = geometry_largest [OF v(6)] and D = lists_okD [OF ok i]
  have p: "p \<in> D" "cls p = i" "p \<notin> set ps" using D(2,4) l by auto
  have "chain (nxt sb') (slots sb' k) ((fl(i := ps)) k) \<and> distinct ((fl(i := ps)) k) \<and>
      curr sb' k = of_nat (length ((fl(i := ps)) k)) \<and> (\<forall>q \<in> set ((fl(i := ps)) k). q \<in> D \<and> cls q = k)"
    if k: "k \<in> {1..power_largest sb}" for k
    using lists_okD [OF ok k] D l by (auto simp: v)
  moreover have "\<exists>u. use sb' q = Some u \<and> use_ok sb' (cls q) (q \<in> set ((fl(i := ps)) (cls q))) u" if q: "q \<in> D" for q
  proof (cases "q = p")
    case True
    then show ?thesis using p sz use_ok_geometry [OF cl v(6) i] by (simp add: v) (simp add: use_ok_def)
  next
    case False
    then show ?thesis
      using lists_use [OF ok q] use_ok_geometry [OF cl v(6)] l by (cases "cls q = i") (auto simp: v)
  qed
  ultimately show ?thesis
    using ok p unfolding lists_ok_def pl by (auto simp: v)
qed

section \<open>Addresses of chunks\<close>

lemma classD:
  assumes "classes_ok sb" "i \<in> {1..power_largest sb}"
  shows "i < 201" "48 \<le> csize sb i" "csize sb i \<le> SLAB" "unat (sc_perslab (slabclass sb ! i)) = SLAB div csize sb i"
    "0 < SLAB div csize sb i" "i < length (slabclass sb)"
proof -
  show z: "i < 201" "48 \<le> csize sb i" "csize sb i \<le> SLAB" "unat (sc_perslab (slabclass sb ! i)) = SLAB div csize sb i"
    "i < length (slabclass sb)" using assms by (auto simp: classes_ok_def)
  show "0 < SLAB div csize sb i" using z by (simp add: div_greater_zero_iff)
qed

lemma chunk_fits: "0 < z \<Longrightarrow> k < SLAB div z \<Longrightarrow> k * z + z \<le> SLAB"
proof -
  assume "k < SLAB div z"
  then have "(k + 1) * z \<le> SLAB div z * z" by (intro mult_right_mono) simp_all
  also have "\<dots> \<le> SLAB" by (rule div_times_less_eq_dividend)
  finally show ?thesis by simp
qed

lemma page_fits: "j < n \<Longrightarrow> o1 + z \<le> SLAB \<Longrightarrow> j * SLAB + o1 + z \<le> n * SLAB"
proof -
  assume "j < n" "o1 + z \<le> SLAB"
  then have "(j + 1) * SLAB \<le> n * SLAB" by (intro mult_right_mono) simp_all
  then show ?thesis using \<open>o1 + z \<le> SLAB\<close> by simp
qed

lemma chunk_class: "region_ok sb pages \<Longrightarrow> j < length pages \<Longrightarrow> pages ! j \<in> {1..power_largest sb}"
  by (meson nth_mem region_ok_def subsetD)

lemma chunk_offset:
  assumes "classes_ok sb" "region_ok sb pages" "j < length pages" "k < SLAB div csize sb (pages ! j)"
  shows "unat (chunk sb pages j k - mem_base sb) = j * SLAB + k * csize sb (pages ! j)"
    "j * SLAB + k * csize sb (pages ! j) + csize sb (pages ! j) \<le> length pages * SLAB"
    "cls_of sb pages (chunk sb pages j k) = pages ! j" "chunk sb pages j k \<noteq> 0"
proof -
  let ?z = "csize sb (pages ! j)"
  note z = classD(2,3) [OF assms(1) chunk_class [OF assms(2,3)]]
  have f: "k * ?z + ?z \<le> SLAB" using chunk_fits [of ?z k] z assms(4) by simp
  show le: "j * SLAB + k * ?z + ?z \<le> length pages * SLAB" using page_fits [OF assms(3) f] .
  have r: "length pages * SLAB \<le> unat (mem_limit sb)" "unat (mem_base sb) + unat (mem_limit sb) \<le> 2 ^ 64"
    "mem_base sb \<noteq> 0" using assms(2) by (simp_all add: region_ok_def)
  have lt: "unat (mem_base sb) + (j * SLAB + k * ?z) < 2 ^ 64" using le r z by linarith
  show off: "unat (chunk sb pages j k - mem_base sb) = j * SLAB + k * ?z"
    using lt by (simp add: chunk_def unat_of_nat del: of_nat_add of_nat_mult)
  have "(j * SLAB + k * ?z) div SLAB = j" using f z by (simp add: SLAB_def div_add1_eq)
  then show "cls_of sb pages (chunk sb pages j k) = pages ! j" by (simp add: cls_of_def off)
  have "unat (chunk sb pages j k) = unat (mem_base sb) + (j * SLAB + k * ?z)"
    using lt by (simp add: chunk_def unat_word_ariths unat_of_nat del: of_nat_add of_nat_mult)
  then show "chunk sb pages j k \<noteq> 0" using r(3) by (auto simp: unat_eq_0 [symmetric])
qed

lemma chunks_E:
  assumes "p \<in> chunks sb pages"
  obtains j k where "p = chunk sb pages j k" "j < length pages" "k < SLAB div csize sb (pages ! j)"
  using assms by (auto simp: chunks_def)

text \<open>The chunks of a page as the loop visits them.\<close>

fun addr_list :: "ptr \<Rightarrow> u64 \<Rightarrow> nat \<Rightarrow> ptr list" where
  "addr_list p sz 0 = []"
| "addr_list p sz (Suc n) = p # addr_list (p + sz) sz n"

lemma addr_list_map: "addr_list p (of_nat z) n = map (\<lambda>k. p + of_nat (k * z)) [0..<n]"
proof (induction n arbitrary: p)
  case (Suc n)
  have "[0..<Suc n] = 0 # map Suc [0..<n]" by (simp add: map_Suc_upt upt_conv_Cons)
  then show ?case using Suc by (simp add: algebra_simps o_def)
qed simp

lemma chunks_UN: "chunks sb pages = (\<Union>j<length pages. chunk sb pages j ` {..<SLAB div csize sb (pages ! j)})"
  by (auto simp: chunks_def)

lemma chunks_snoc:
  "chunks sb (pages @ [i]) = chunks sb pages \<union>
    set (addr_list (mem_base sb + of_nat (length pages * SLAB)) (of_nat (csize sb i)) (SLAB div csize sb i))"
proof -
  have old: "(\<Union>j<length pages. chunk sb (pages @ [i]) j ` {..<SLAB div csize sb ((pages @ [i]) ! j)}) = chunks sb pages"
    unfolding chunks_UN by (rule SUP_cong) (auto simp: chunk_def nth_append)
  have "chunk sb (pages @ [i]) (length pages) k = mem_base sb + of_nat (length pages * SLAB) + of_nat (k * csize sb i)" for k
    by (simp add: chunk_def algebra_simps)
  then show ?thesis
    unfolding chunks_UN [of sb "pages @ [i]"]
    by (simp add: lessThan_Suc old addr_list_map atLeast0LessThan Un_commute del: of_nat_add of_nat_mult)
qed

text \<open>The next page is free: it lies behind every chunk cut so far.\<close>

lemma page_address:
  assumes "classes_ok sb" "region_ok sb pages" "i \<in> {1..power_largest sb}" "SLAB \<le> unat (mem_avail sb)"
    and k: "k < SLAB div csize sb i"
  shows "unat (mem_current sb + of_nat (k * csize sb i) - mem_base sb) = length pages * SLAB + k * csize sb i"
    "mem_current sb + of_nat (k * csize sb i) \<noteq> 0" "(length pages * SLAB + k * csize sb i) div SLAB = length pages"
proof -
  let ?z = "csize sb i" and ?n = "length pages"
  note z = classD(2,3) [OF assms(1,3)]
  have r: "unat (mem_base sb) + (?n * SLAB + SLAB) \<le> 2 ^ 64" "mem_base sb \<noteq> 0"
    using assms(2,4) by (simp_all add: region_ok_def)
  have f: "k * ?z + ?z \<le> SLAB" using chunk_fits [OF _ k] z by simp
  have e: "mem_current sb + of_nat (k * ?z) = mem_base sb + of_nat (?n * SLAB + k * ?z)"
    using assms(2) by (simp add: region_ok_def)
  have lt: "unat (mem_base sb) + (?n * SLAB + k * ?z) < 2 ^ 64" using f r(1) z by linarith
  show "unat (mem_current sb + of_nat (k * ?z) - mem_base sb) = ?n * SLAB + k * ?z"
    unfolding e using lt by (simp add: unat_of_nat del: of_nat_add of_nat_mult)
  have "unat (mem_current sb + of_nat (k * ?z)) = unat (mem_base sb) + (?n * SLAB + k * ?z)"
    unfolding e using lt by (simp add: unat_word_ariths unat_of_nat del: of_nat_add of_nat_mult)
  then show "mem_current sb + of_nat (k * ?z) \<noteq> 0" using r(2) by (metis add_is_0 unat_0 unat_eq_0)
  show "(?n * SLAB + k * ?z) div SLAB = ?n" using f z by (simp add: SLAB_def div_add1_eq)
qed

lemma old_chunk_offset:
  assumes "classes_ok sb" "region_ok sb pages" "p \<in> chunks sb pages"
  shows "unat (p - mem_base sb) < length pages * SLAB"
  using assms(3)
proof (rule chunks_E)
  fix j k assume jk: "p = chunk sb pages j k" "j < length pages" "k < SLAB div csize sb (pages ! j)"
  show ?thesis
    using chunk_offset(1,2) [OF assms(1,2) jk(2,3)] classD(2) [OF assms(1) chunk_class [OF assms(2) jk(2)]] by (simp add: jk(1))
qed

lemma old_chunk_class:
  assumes "classes_ok sb" "region_ok sb pages" "p \<in> chunks sb pages"
  shows "cls_of sb (pages @ [i]) p = cls_of sb pages p"
  using old_chunk_offset [OF assms] by (simp add: cls_of_def nth_append less_mult_imp_div_less)

lemma new_page:
  assumes "classes_ok sb" "region_ok sb pages" "i \<in> {1..power_largest sb}" "SLAB \<le> unat (mem_avail sb)"
  shows "distinct (addr_list (mem_current sb) (of_nat (csize sb i)) (SLAB div csize sb i))"
    "p \<in> set (addr_list (mem_current sb) (of_nat (csize sb i)) (SLAB div csize sb i)) \<Longrightarrow>
       p \<notin> chunks sb pages \<and> p \<noteq> 0 \<and> cls_of sb (pages @ [i]) p = i"
proof -
  let ?z = "csize sb i"
  note a = page_address [OF assms]
  have "inj_on (\<lambda>k. mem_current sb + of_nat (k * ?z)) {0..<SLAB div ?z}"
  proof (rule inj_onI)
    fix k l assume kl: "k \<in> {0..<SLAB div ?z}" "l \<in> {0..<SLAB div ?z}" "mem_current sb + of_nat (k * ?z) = mem_current sb + of_nat (l * ?z)"
    then have "k * ?z = l * ?z" using a(1) [of k] a(1) [of l] by simp
    then show "k = l" using classD(2) [OF assms(1,3)] by simp
  qed
  then show "distinct (addr_list (mem_current sb) (of_nat ?z) (SLAB div ?z))"
    by (simp add: addr_list_map distinct_map del: of_nat_mult)
  show "p \<notin> chunks sb pages \<and> p \<noteq> 0 \<and> cls_of sb (pages @ [i]) p = i"
    if p: "p \<in> set (addr_list (mem_current sb) (of_nat ?z) (SLAB div ?z))"
  proof -
    obtain k where k: "k < SLAB div ?z" "p = mem_current sb + of_nat (k * ?z)"
      using p by (auto simp: addr_list_map simp del: of_nat_mult)
    then have "p \<notin> chunks sb pages"
      using old_chunk_offset [OF assms(1,2), of p] a(1) [OF k(1)] by auto
    then show ?thesis
      using a(2) [OF k(1)] by (simp add: cls_of_def k(2) a(1,3) [OF k(1)] del: of_nat_mult)
  qed
qed

section \<open>New slabs\<close>

definition same_lists :: "SlabAllocator \<Rightarrow> SlabAllocator \<Rightarrow> bool" where
  "same_lists sb sb' \<longleftrightarrow> nxt sb' = nxt sb \<and> use sb' = use sb \<and> slots sb' = slots sb \<and> curr sb' = curr sb \<and> geometry sb' = geometry sb"

lemma classes_geometry: "geometry sb' = geometry sb \<Longrightarrow> classes_ok sb \<Longrightarrow> classes_ok sb'"
  using geometry_size [of sb' sb] geometry_csize [of sb' sb] by (auto simp: classes_ok_def geometry_def)

lemma lists_same:
  assumes "classes_ok sb" "lists_ok sb D cls fl" "same_lists sb sb'"
  shows "lists_ok sb' D cls fl"
proof -
  have g: "geometry sb' = geometry sb" and n: "nxt sb' = nxt sb" "use sb' = use sb" "slots sb' = slots sb" "curr sb' = curr sb"
    using assms(3) by (simp_all add: same_lists_def)
  have u: "use_ok sb' (cls p) f u = use_ok sb (cls p) f u" if "p \<in> D" for p f u
    using use_ok_geometry [OF assms(1) g lists_use(2) [OF assms(2) that]] .
  show ?thesis
    using assms(2) u unfolding lists_ok_def geometry_largest [OF g] n by blast
qed

lemma split_loop_ok:
  assumes "classes_ok sb" "lists_ok sb D cls fl" "i \<in> {1..power_largest sb}" "distinct (addr_list p sz n)"
    and "\<forall>q \<in> set (addr_list p sz n). q \<notin> D \<and> q \<noteq> 0 \<and> cls q = i"
  shows "\<exists>sb'. split_loop n sb p sz i = Some sb' \<and>
    lists_ok sb' (D \<union> set (addr_list p sz n)) cls (fl(i := rev (addr_list p sz n) @ fl i)) \<and>
    geometry sb' = geometry sb \<and> mem_current sb' = mem_current sb \<and> mem_avail sb' = mem_avail sb \<and>
    (\<forall>q. q \<notin> set (addr_list p sz n) \<longrightarrow> use sb' q = use sb q)"
  using assms
proof (induction n arbitrary: sb p D fl)
  case 0
  then show ?case by (simp add: fun_upd_idem)
next
  case (Suc n)
  have p: "p \<notin> D" "p \<noteq> 0" "cls p = i" using Suc.prems(5) by simp_all
  then have p': "p \<notin> set (fl i)" "use sb p = None"
    using lists_okD(4) [OF Suc.prems(2,3)] lists_dom [OF Suc.prems(2)] by auto
  obtain sb1 where sb1: "do_slabs_free sb p 0 i = Some sb1" "nxt sb1 = (nxt sb)(p \<mapsto> slots sb i)"
    "use sb1 = (use sb)(p \<mapsto> (0, 0))" "slots sb1 = (slots sb)(i := Some p)" "curr sb1 = (curr sb)(i := curr sb i + 1)"
    "geometry sb1 = geometry sb" "mem_current sb1 = mem_current sb" "mem_avail sb1 = mem_avail sb"
    using do_slabs_free_views [OF Suc.prems(3) classD(6) [OF Suc.prems(1,3)], of p 0] lists_okD(5) [OF Suc.prems(2,3)] p'(2)
    by auto
  have cl1: "classes_ok sb1" using classes_geometry [OF sb1(6) Suc.prems(1)] .
  have ok1: "lists_ok sb1 (insert p D) cls (fl(i := p # fl i))"
    using lists_push [OF Suc.prems(1-3) p'(1) p(2,3) sb1(2-6)] .
  have i1: "i \<in> {1..power_largest sb1}" using Suc.prems(3) geometry_largest [OF sb1(6)] by simp
  have d: "distinct (addr_list (p + sz) sz n)" "\<forall>q \<in> set (addr_list (p + sz) sz n). q \<notin> insert p D \<and> q \<noteq> 0 \<and> cls q = i"
    using Suc.prems(4,5) by auto
  have f: "(fl(i := p # fl i))(i := rev (addr_list (p + sz) sz n) @ (fl(i := p # fl i)) i) = fl(i := rev (addr_list p sz (Suc n)) @ fl i)"
    "insert p D \<union> set (addr_list (p + sz) sz n) = D \<union> set (addr_list p sz (Suc n))" by auto
  show ?case
    using Suc.IH [OF cl1 ok1 i1 d] sb1(1,3,6-8) unfolding f by auto
qed

lemma live_eq:
  assumes "classes_ok sb" "lists_ok sb D cls fl"
  shows "live sb q = (if q \<in> D \<and> q \<notin> set (fl (cls q)) then Some (csize sb (cls q)) else None)"
proof (cases "q \<in> D")
  case True
  obtain u where u: "use sb q = Some u" "use_ok sb (cls q) (q \<in> set (fl (cls q))) u" using lists_use(1) [OF assms(2) True] by blast
  have c: "cls q \<in> {1..power_largest sb}" using lists_use(2) [OF assms(2) True] .
  then have "cls q < 256" using classD(1) [OF assms(1) c] by simp
  then have n: "unat (of_nat (cls q) :: u8) = cls q" by (simp add: unat_of_nat)
  then have "(of_nat (cls q) :: u8) \<noteq> 0" using c by (metis atLeastAtMost_iff not_one_le_zero unat_0)
  then show ?thesis
    using True u n by (cases u) (auto simp: live_def use_ok_def split: if_splits)
next
  case False
  then have "use sb q = None" using lists_dom [OF assms(2)] by auto
  then show ?thesis using False by (simp add: live_def)
qed

lemma layout_geometry:
  assumes "geometry sb' = geometry sb" "classes_ok sb" "set pages \<subseteq> {1..power_largest sb}"
  shows "chunks sb' pages = chunks sb pages" "cls_of sb' pages = cls_of sb pages"
proof -
  have b: "mem_base sb' = mem_base sb" using assms(1) by (simp add: geometry_def)
  have "csize sb' (pages ! j) = csize sb (pages ! j)" if "j < length pages" for j
    using that assms(3) classD(6) [OF assms(2), of "pages ! j"] nth_mem [OF that] geometry_csize(1) [OF assms(1)] by blast
  then show "chunks sb' pages = chunks sb pages"
    unfolding chunks_UN by (intro SUP_cong) (auto simp: chunk_def b)
  show "cls_of sb' pages = cls_of sb pages" by (simp add: cls_of_def b fun_eq_iff)
qed

lemma grow_same:
  assumes "i < length (slabclass sb)"
  shows "\<exists>sb'. grow_slab_list sb i = Some sb' \<and> same_lists sb sb' \<and> mem_current sb' = mem_current sb \<and> mem_avail sb' = mem_avail sb"
proof -
  let ?c = "slabclass sb ! i"
  let ?c' = "?c\<lparr>sc_list_size := (if sc_list_size ?c \<noteq> 0 then sc_list_size ?c * 2 else 16)\<rparr>"
  have "same_lists sb (set_class sb i ?c')"
    using assms set_class_views [OF assms, of ?c'] set_class_geometry [OF assms, of ?c']
    by (auto simp: same_lists_def fun_eq_iff slots_def curr_def)
  then show ?thesis
    using assms by (auto simp: grow_slab_list_def class_of_def same_lists_def set_class_def)
qed

text \<open>Taking the next page from the region.\<close>

lemma memory_allocate_page:
  assumes "region_ok sb pages" "i \<in> {1..power_largest sb}"
  shows "if unat (mem_avail sb) < SLAB then memory_allocate sb 1048576 = (0, sb)
    else \<exists>sb'. memory_allocate sb 1048576 = (mem_current sb, sb') \<and> mem_current sb \<noteq> 0 \<and> same_lists sb sb' \<and>
      slabclass sb' = slabclass sb \<and> region_ok sb' (pages @ [i])"
proof (cases "unat (mem_avail sb) < SLAB")
  case True
  then show ?thesis using assms(1) by (simp add: memory_allocate_def region_ok_def SLAB_def word_less_nat_alt)
next
  case False
  let ?n = "length pages"
  let ?sb' = "sb\<lparr>mem_current := mem_current sb + 1048576, mem_avail := mem_avail sb - 1048576\<rparr>"
  have av: "(1048576 :: u64) \<le> mem_avail sb" "\<not> 1048576 > mem_avail sb" using False by (simp_all add: word_le_nat_alt SLAB_def not_less)
  have r: "?n * SLAB + unat (mem_avail sb) = unat (mem_limit sb)" "mem_current sb = mem_base sb + of_nat (?n * SLAB)"
    "unat (mem_base sb) + unat (mem_limit sb) \<le> 2 ^ 64" "mem_base sb \<noteq> 0" using assms(1) by (simp_all add: region_ok_def)
  have "unat (mem_base sb) + ?n * SLAB < 2 ^ 64" using r(1,3) False by (simp add: SLAB_def)
  then have "unat (mem_current sb) = unat (mem_base sb) + ?n * SLAB"
    unfolding r(2) by (simp add: unat_word_ariths unat_of_nat del: of_nat_mult)
  then have nz: "mem_current sb \<noteq> 0" using r(4) by (metis add_is_0 unat_0 unat_eq_0)
  have "unat (mem_avail sb - 1048576) = unat (mem_avail sb) - SLAB" using unat_sub [OF av(1)] by (simp add: SLAB_def)
  then have "region_ok ?sb' (pages @ [i])"
    using assms False r(1,2) by (auto simp: region_ok_def SLAB_def)
  moreover have "memory_allocate sb 1048576 = (mem_current sb, ?sb')"
    using av r(4) by (auto simp: memory_allocate_def Let_def)
  moreover have "same_lists sb ?sb'"
    by (auto simp: same_lists_def nxt_def use_def slots_def curr_def geometry_def fun_eq_iff)
  ultimately show ?thesis using False nz by (simp del: One_nat_def)
qed

lemma slab_repD:
  assumes "slab_rep sb pages fl"
  shows "classes_ok sb" "region_ok sb pages" "lists_ok sb (chunks sb pages) (cls_of sb pages) fl" "set pages \<subseteq> {1..power_largest sb}"
  using assms by (simp_all add: slab_rep_def region_ok_def)

lemma slab_rep_same:
  assumes "slab_rep sb pages fl" "same_lists sb sb'" "mem_current sb' = mem_current sb" "mem_avail sb' = mem_avail sb"
  shows "slab_rep sb' pages fl"
proof -
  note R = slab_repD [OF assms(1)]
  have g: "geometry sb' = geometry sb" using assms(2) by (simp add: same_lists_def)
  have "region_ok sb' pages" using R(2) g assms(3,4) by (simp add: region_ok_def geometry_def)
  then show ?thesis
    using lists_same [OF R(1,3) assms(2)] classes_geometry [OF g R(1)] layout_geometry [OF g R(1,4)] by (simp add: slab_rep_def)
qed

lemma live_same:
  assumes "slab_rep sb pages fl" "slab_rep sb' pages fl" "geometry sb' = geometry sb"
  shows "live sb' = live sb"
proof
  fix q
  note R = slab_repD [OF assms(1)] and R' = slab_repD [OF assms(2)] and L = layout_geometry [OF assms(3) slab_repD(1,4) [OF assms(1)]]
  have "csize sb' (cls_of sb pages q) = csize sb (cls_of sb pages q)" if "q \<in> chunks sb pages"
    using geometry_csize(1) [OF assms(3)] classD(6) [OF R(1) lists_use(2) [OF R(3) that]] .
  then show "live sb' q = live sb q"
    using live_eq [OF R(1,3), of q] live_eq [OF R'(1,3), of q] unfolding L by simp
qed

text \<open>A page cut into chunks of class \<open>i\<close>.\<close>

lemma split_page_ok:
  assumes R: "slab_rep sb pages fl" and i: "i \<in> {1..power_largest sb}" and av: "SLAB \<le> unat (mem_avail sb)"
    and sb1: "same_lists sb sb1" "slabclass sb1 = slabclass sb" "region_ok sb1 (pages @ [i])"
  shows "\<exists>sb' ps. split_slab_page_into_freelist sb1 (mem_current sb) i = Some sb' \<and> ps \<noteq> [] \<and>
    slab_rep sb' (pages @ [i]) (fl(i := ps @ fl i)) \<and> geometry sb' = geometry sb \<and> live sb' = live sb"
proof -
  note D = slab_repD [OF R]
  let ?as = "addr_list (mem_current sb) (of_nat (csize sb i)) (SLAB div csize sb i)"
  let ?cls = "cls_of sb (pages @ [i])"
  have g1: "geometry sb1 = geometry sb" using sb1(1) by (simp add: same_lists_def)
  have cl1: "classes_ok sb1" using classes_geometry [OF g1 D(1)] .
  have i1: "i \<in> {1..power_largest sb1}" using i geometry_largest [OF g1] by simp
  have "lists_ok sb1 (chunks sb pages) (cls_of sb pages) fl" using lists_same [OF D(1,3) sb1(1)] .
  then have ok1: "lists_ok sb1 (chunks sb pages) ?cls fl"
    using old_chunk_class [OF D(1,2)] unfolding lists_ok_def by (auto 0 4)
  note N = new_page [OF D(1,2) i av]
  obtain sb' where sb': "split_loop (SLAB div csize sb i) sb1 (mem_current sb) (of_nat (csize sb i)) i = Some sb'"
    "lists_ok sb' (chunks sb pages \<union> set ?as) ?cls (fl(i := rev ?as @ fl i))" "geometry sb' = geometry sb1"
    "mem_current sb' = mem_current sb1" "mem_avail sb' = mem_avail sb1"
    using split_loop_ok [OF cl1 ok1 i1 N(1)] N(2) by blast
  have g: "geometry sb' = geometry sb" using sb'(3) g1 by simp
  have cl: "classes_ok sb'" using classes_geometry [OF g D(1)] .
  have run: "split_slab_page_into_freelist sb1 (mem_current sb) i = Some sb'"
    using sb'(1) sb1(2) classD(4,6) [OF D(1) i] by (simp add: split_slab_page_into_freelist_def class_of_def csize_def)
  have "mem_current sb = mem_base sb + of_nat (length pages * SLAB)" using D(2) by (simp add: region_ok_def)
  then have ch: "chunks sb (pages @ [i]) = chunks sb pages \<union> set ?as" using chunks_snoc [of sb pages i] by simp
  have L: "chunks sb' (pages @ [i]) = chunks sb (pages @ [i])" "cls_of sb' (pages @ [i]) = ?cls"
    using layout_geometry [OF g D(1), of "pages @ [i]"] D(4) i by auto
  have rep: "slab_rep sb' (pages @ [i]) (fl(i := rev ?as @ fl i))"
    using cl sb'(2) sb1(3) sb'(3-5) unfolding slab_rep_def L ch by (simp add: region_ok_def geometry_def)
  have "live sb' q = live sb q" for q
  proof -
    have c: "csize sb' (?cls q) = csize sb (?cls q)" if "q \<in> chunks sb pages \<union> set ?as"
      using lists_use(2) [OF sb'(2) that] geometry_largest [OF g] geometry_csize(1) [OF g] classD(6) [OF D(1)] by simp
    show ?thesis
      using live_eq [OF cl sb'(2), of q] live_eq [OF D(1,3), of q] c old_chunk_class [OF D(1,2), of q i] N(2) [of q]
      by (cases "q \<in> set ?as") auto
  qed
  moreover have "rev ?as \<noteq> []" using classD(5) [OF D(1) i] by (simp add: addr_list_map)
  ultimately show ?thesis using run rep g by blast
qed

lemma do_slabs_newslab_ok:
  assumes R: "slab_rep sb pages fl" and i: "i \<in> {1..power_largest sb}"
  shows "\<exists>ok sb'. do_slabs_newslab sb i = Some (ok, sb') \<and> geometry sb' = geometry sb \<and> live sb' = live sb \<and>
    (if ok then \<exists>ps. ps \<noteq> [] \<and> slab_rep sb' (pages @ [i]) (fl(i := ps @ fl i)) else slab_rep sb' pages fl)"
proof -
  note D = slab_repD [OF R] and c = classD [OF slab_repD(1) [OF R] i]
  have len: "(ucast (if slab_reassign sb then item_size_max sb else z) :: u64) = 1048576" for z
    using D(1) by (simp add: classes_ok_def)
  obtain sb1 where sb1: "grow_slab_list sb i = Some sb1" "same_lists sb sb1" "mem_current sb1 = mem_current sb" "mem_avail sb1 = mem_avail sb"
    using grow_same [OF c(6)] by blast
  have g1: "geometry sb1 = geometry sb" using sb1(2) by (simp add: same_lists_def)
  have R1: "slab_rep sb1 pages fl" using slab_rep_same [OF R sb1(2-4)] .
  have i1: "i \<in> {1..power_largest sb1}" using i geometry_largest [OF g1] by simp
  note same = live_same [OF R R1 g1] and A = memory_allocate_page [OF slab_repD(2) [OF R1] i1]
  let ?full = "mem_limit sb \<noteq> 0 \<and> mem_malloced sb + 1048576 > mem_limit sb \<and> sc_slabs (slabclass sb ! i) > 0"
  consider "?full" | "\<not> ?full" "unat (mem_avail sb1) < SLAB" | "\<not> ?full" "\<not> unat (mem_avail sb1) < SLAB" by blast
  then show ?thesis
  proof cases
    case 1
    then show ?thesis using R c(6) by (auto simp: do_slabs_newslab_def class_of_def len Let_def)
  next
    case 2
    then have "do_slabs_newslab sb i = Some (False, sb1)"
      using A c(6) sb1(1) unfolding do_slabs_newslab_def class_of_def Let_def len by auto
    then show ?thesis using R1 g1 same by (intro exI [of _ False]) simp
  next
    case 3
    then obtain sb2 where sb2: "memory_allocate sb1 1048576 = (mem_current sb1, sb2)" "mem_current sb1 \<noteq> 0" "same_lists sb1 sb2"
      "slabclass sb2 = slabclass sb1" "region_ok sb2 (pages @ [i])" using A by auto
    obtain sb3 ps where sb3: "split_slab_page_into_freelist sb2 (mem_current sb1) i = Some sb3" "ps \<noteq> []"
      "slab_rep sb3 (pages @ [i]) (fl(i := ps @ fl i))" "geometry sb3 = geometry sb1" "live sb3 = live sb1"
      using split_page_ok [OF R1 i1 _ sb2(3-5)] 3(2) by auto
    have c3: "i < length (slabclass sb3)" using geometry_size [OF sb3(4)] geometry_size [OF g1] c(6) by simp
    let ?c = "slabclass sb3 ! i"
    let ?c' = "?c\<lparr>sc_slab_list := sc_slab_list ?c @ [mem_current sb1], sc_slabs := sc_slabs ?c + 1\<rparr>"
    let ?sb = "(set_class sb3 i ?c')\<lparr>mem_malloced := mem_malloced sb3 + 1048576\<rparr>"
    have s: "same_lists sb3 ?sb"
      using set_class_views [OF c3, of ?c'] set_class_geometry [OF c3, of ?c']
      by (auto simp: same_lists_def fun_eq_iff slots_def curr_def nxt_def use_def geometry_def set_class_def)
    have R4: "slab_rep ?sb (pages @ [i]) (fl(i := ps @ fl i))"
      using slab_rep_same [OF sb3(3) s] by (simp add: set_class_def)
    have "geometry ?sb = geometry sb" using s sb3(4) g1 by (simp add: same_lists_def)
    moreover have "live ?sb = live sb"
      using live_same [OF sb3(3) R4] s sb3(5) same by (simp add: same_lists_def)
    moreover have "do_slabs_newslab sb i = Some (True, ?sb)"
      using 3(1) sb1(1) sb2(1,2) sb3(1) c(6) c3 unfolding do_slabs_newslab_def class_of_def Let_def len by simp
    ultimately show ?thesis using R4 sb3(2) by auto
  qed
qed

section \<open>Chunks do not overlap\<close>

lemma chunks_apart:
  assumes "classes_ok sb" "region_ok sb pages" "p \<in> chunks sb pages" "q \<in> chunks sb pages"
    and lt: "unat (p - mem_base sb) < unat (q - mem_base sb)"
  shows "unat (p - mem_base sb) + csize sb (cls_of sb pages p) \<le> unat (q - mem_base sb)"
proof -
  obtain j k where p: "p = chunk sb pages j k" "j < length pages" "k < SLAB div csize sb (pages ! j)" using assms(3) by (rule chunks_E)
  obtain l m where q: "q = chunk sb pages l m" "l < length pages" "m < SLAB div csize sb (pages ! l)" using assms(4) by (rule chunks_E)
  note P = chunk_offset [OF assms(1,2) p(2,3)] and Q = chunk_offset [OF assms(1,2) q(2,3)]
  have zp: "0 < csize sb (pages ! j)" and zq: "0 < csize sb (pages ! l)"
    using classD(2) [OF assms(1) chunk_class [OF assms(2)]] p(2) q(2) by fastforce+
  note fp = chunk_fits [OF zp p(3)] and fq = chunk_fits [OF zq q(3)]
  consider "j < l" | "j = l" | "l < j" by linarith
  then show ?thesis
  proof cases
    case 1
    then have "Suc j * SLAB \<le> l * SLAB" by (intro mult_right_mono) simp_all
    then show ?thesis using fp P(1,3) Q(1) p(1) q(1) by simp
  next
    case 2
    then have "k < m" using lt P(1) Q(1) p(1) q(1) by (auto intro: ccontr)
    then have "Suc k * csize sb (pages ! j) \<le> m * csize sb (pages ! j)" by (intro mult_right_mono) simp_all
    then show ?thesis using 2 P(1,3) Q(1) p(1) q(1) by simp
  next
    case 3
    then have "Suc l * SLAB \<le> j * SLAB" by (intro mult_right_mono) simp_all
    then show ?thesis using fq P(1) Q(1) p(1) q(1) lt by simp
  qed
qed

lemma offset_inj: "unat (p - b) = unat (q - b) \<Longrightarrow> p = (q :: u64)"
  using word_eqI_unat [of "p - b" "q - b"] by simp

lemma offset_add: "unat (p - b) + i < 2 ^ 64 \<Longrightarrow> unat (p + of_nat i - b) = unat (p - (b :: u64)) + i"
proof -
  assume i: "unat (p - b) + i < 2 ^ 64"
  have e: "p + of_nat i - b = (p - b) + of_nat i" by simp
  have "unat (of_nat i :: u64) = i" using i by (simp add: unat_of_nat)
  then show ?thesis unfolding e using i unat_add_no_wrap [of "p - b" "of_nat i"] by simp
qed

lemma free_list_length:
  assumes R: "slab_rep sb pages fl" and i: "i \<in> {1..power_largest sb}"
  shows "length (fl i) < 2 ^ 32"
proof -
  note D = slab_repD [OF R] and F = lists_okD [OF slab_repD(3) [OF R] i]
  let ?f = "\<lambda>p. unat (p - mem_base sb) div 48"
  have lim: "length pages * SLAB \<le> 2 ^ 37" using D(2) unfolding region_ok_def by linarith
  have apart: "?f p < ?f q" if "p \<in> set (fl i)" "q \<in> set (fl i)" "unat (p - mem_base sb) < unat (q - mem_base sb)" for p q
    using chunks_apart [OF D(1,2) _ _ that(3)] F(4) that classD(2) [OF D(1) i] by fastforce
  have "inj_on ?f (set (fl i))"
  proof (rule inj_onI)
    fix p q assume "p \<in> set (fl i)" "q \<in> set (fl i)" "?f p = ?f q"
    then show "p = q" using apart [of p q] apart [of q p] offset_inj by (metis less_irrefl linorder_neqE_nat)
  qed
  moreover have "?f ` set (fl i) \<subseteq> {..<2 ^ 37}"
    using old_chunk_offset [OF D(1,2)] F(4) lim by (force intro: le_less_trans [OF div_le_dividend])
  moreover have "?f ` set (fl i) \<subseteq> {..2 ^ 37 div 48}"
    using old_chunk_offset [OF D(1,2)] F(4) lim by (force intro!: div_le_mono)
  ultimately have "card (set (fl i)) \<le> card {..(2 ^ 37 :: nat) div 48}"
    by (metis card_image card_mono finite_atMost)
  then show ?thesis using F(2) by (simp add: distinct_card)
qed

section \<open>Allocation and release\<close>

lemma size_kept: "unat sz < 2 ^ 31 \<Longrightarrow> (scast (ucast (sz :: u64) :: i32) :: u64) = sz"
proof -
  assume sz: "unat sz < 2 ^ 31"
  have "(ucast sz :: i32) = of_nat (unat sz)" by simp
  moreover have "sint (of_nat (unat sz) :: i32) = int (unat sz)"
    using sz by (rule sint_of_nat_small)
  ultimately have "sint (ucast sz :: i32) = int (unat sz)" by metis
  moreover have "(scast (ucast sz :: i32) :: u64) = word_of_int (sint (ucast sz :: i32))" by simp
  moreover have "word_of_int (int (unat sz)) = sz" by simp
  ultimately show ?thesis by metis
qed

lemma do_slabs_alloc_new:
  assumes "i \<in> {1..power_largest sb}" "i < length (slabclass sb)" "curr sb i = 0"
    and "do_slabs_newslab sb i = Some (True, sb')" "geometry sb' = geometry sb" "curr sb' i \<noteq> 0"
  shows "do_slabs_alloc sb sz i = do_slabs_alloc sb' sz i"
  using assms geometry_size [OF assms(5)] geometry_largest [OF assms(5)]
  by (simp add: do_slabs_alloc_def [of sb] do_slabs_alloc_def [of sb'] class_of_def curr_def POWER_SMALLEST_def)

lemma curr_zero: "slab_rep sb pages fl \<Longrightarrow> i \<in> {1..power_largest sb} \<Longrightarrow> curr sb i = 0 \<longleftrightarrow> fl i = []"
  using lists_okD(3) [OF slab_repD(3), of sb pages fl i] free_list_length [of sb pages fl i]
  by (auto simp: word_of_nat_eq_0_iff dest: nat_dvd_not_less)

text \<open>The result of taking the first chunk of a class's list.\<close>

lemma alloc_pop:
  assumes R: "slab_rep sb pages fl" and i: "i \<in> {1..power_largest sb}" and l: "fl i = p # ps" and sz: "unat sz \<le> csize sb i"
  shows "\<exists>sb'. do_slabs_alloc sb sz i = Some (p, sb') \<and> p \<noteq> 0 \<and> slab_rep sb' pages (fl(i := ps)) \<and> geometry sb' = geometry sb \<and>
    live sb p = None \<and> live sb' = (live sb)(p \<mapsto> csize sb i)"
proof -
  note D = slab_repD [OF R] and F = lists_okD [OF slab_repD(3) [OF R] i] and c = classD [OF slab_repD(1) [OF R] i]
  have p: "p \<in> chunks sb pages" "cls_of sb pages p = i" "p \<notin> set ps" "p \<noteq> 0"
    using F(2,4) l D(3) by (auto simp: lists_ok_def)
  obtain x where x: "slots sb i = Some p" "nxt sb p = Some x" "chain (nxt sb) x ps" using F(1) l by auto
  have n: "\<forall>n. x = Some n \<longrightarrow> stats_map sb n \<noteq> None" using x(3) chain_head [of "nxt sb" _ ps] by (auto simp: nxt_def)
  obtain sb' where sb': "do_slabs_alloc sb sz i = Some (p, sb')" "nxt sb' = nxt sb" "use sb' = (use sb)(p \<mapsto> (of_nat i, ucast sz))"
    "slots sb' = (slots sb)(i := x)" "curr sb' = (curr sb)(i := curr sb i - 1)" "geometry sb' = geometry sb"
    "mem_current sb' = mem_current sb" "mem_avail sb' = mem_avail sb"
    using do_slabs_alloc_views [OF i c(6) _ x(1) p(4) x(2) n, of sz] curr_zero [OF R i] l by auto
  have "unat (scast (ucast sz :: i32) :: u64) \<le> csize sb i" using sz c(3) size_kept [of sz] by (simp add: SLAB_def)
  then have ok: "lists_ok sb' (chunks sb pages) (cls_of sb pages) (fl(i := ps))"
    using lists_pop [OF D(1,3) i l _ sb'(2,3) x(2) sb'(4-6)] by simp
  have cl: "classes_ok sb'" using classes_geometry [OF sb'(6) D(1)] .
  note L = layout_geometry [OF sb'(6) D(1,4)]
  have rep: "slab_rep sb' pages (fl(i := ps))"
    using cl ok D(2) sb'(6-8) unfolding slab_rep_def L by (simp add: region_ok_def geometry_def)
  have c': "csize sb' (cls_of sb pages q) = csize sb (cls_of sb pages q)" if "q \<in> chunks sb pages" for q
    using geometry_csize(1) [OF sb'(6)] classD(6) [OF D(1) lists_use(2) [OF D(3) that]] .
  have "live sb' q = ((live sb)(p \<mapsto> csize sb i)) q" for q
    using live_eq [OF D(1,3), of q] live_eq [OF cl ok, of q] c' [of q] p l by auto
  moreover have "live sb p = None" using live_eq [OF D(1,3), of p] p l by simp
  ultimately show ?thesis using sb'(1,6) rep p(4) by blast
qed

lemma do_slabs_alloc_ok:
  assumes R: "slab_rep sb pages fl" and i: "i \<in> {1..power_largest sb}" and sz: "unat sz \<le> csize sb i"
  shows "\<exists>p sb'. do_slabs_alloc sb sz i = Some (p, sb') \<and> slab_ok sb' \<and> geometry sb' = geometry sb \<and>
    (p = 0 \<and> live sb' = live sb \<or> p \<noteq> 0 \<and> live sb p = None \<and> live sb' = (live sb)(p \<mapsto> csize sb i))"
proof (cases "fl i")
  case (Cons p ps)
  then show ?thesis using alloc_pop [OF R i Cons sz] by (auto simp: slab_ok_def)
next
  case Nil
  note c = classD [OF slab_repD(1) [OF R] i]
  have z: "curr sb i = 0" using curr_zero [OF R i] Nil by simp
  obtain ok sb1 where n: "do_slabs_newslab sb i = Some (ok, sb1)" "geometry sb1 = geometry sb" "live sb1 = live sb"
    "if ok then \<exists>ps. ps \<noteq> [] \<and> slab_rep sb1 (pages @ [i]) (fl(i := ps @ fl i)) else slab_rep sb1 pages fl"
    using do_slabs_newslab_ok [OF R i] by blast
  have i1: "i \<in> {1..power_largest sb1}" using i geometry_largest [OF n(2)] by simp
  have c1: "csize sb1 i = csize sb i" using geometry_csize(1) [OF n(2) c(6)] .
  show ?thesis
  proof (cases ok)
    case False
    then have "do_slabs_alloc sb sz i = Some (0, sb1)"
      using n(1) i z c(6) geometry_size [OF n(2)]
      by (simp add: do_slabs_alloc_def class_of_def curr_def POWER_SMALLEST_def)
    then show ?thesis using n False by (auto simp: slab_ok_def)
  next
    case True
    then obtain p ps where R1: "slab_rep sb1 (pages @ [i]) (fl(i := p # ps))" using n(4) Nil by (auto simp: neq_Nil_conv)
    have "curr sb1 i \<noteq> 0" using curr_zero [OF R1 i1] by simp
    then have "do_slabs_alloc sb sz i = do_slabs_alloc sb1 sz i"
      using do_slabs_alloc_new [OF i c(6) z _ n(2)] n(1) True by simp
    then show ?thesis
      using alloc_pop [OF R1 i1, of p ps sz] sz c1 n(2,3) by (auto simp: slab_ok_def)
  qed
qed

lemma free_push:
  assumes R: "slab_rep sb pages fl" and lv: "live sb p = Some n"
  shows "\<exists>it. stats_map sb p = Some it \<and> unat (scast (it_size it) :: u64) \<le> n \<and>
    (\<exists>sb'. do_slabs_free (sb\<lparr>stats_map := (stats_map sb)(p \<mapsto> it\<lparr>it_clsid := 0, it_size := 0\<rparr>)\<rparr>) p sz (unat (it_clsid it)) = Some sb' \<and>
      slab_ok sb' \<and> geometry sb' = geometry sb \<and> live sb' = (live sb)(p := None))"
proof -
  note D = slab_repD [OF R]
  let ?i = "cls_of sb pages p"
  have p: "p \<in> chunks sb pages" "p \<notin> set (fl ?i)" "n = csize sb ?i"
    using lv live_eq [OF D(1,3), of p] by (auto split: if_splits)
  have i: "?i \<in> {1..power_largest sb}" using lists_use(2) [OF D(3) p(1)] .
  note c = classD [OF D(1) i] and F = lists_okD [OF D(3) i]
  obtain u where u: "use sb p = Some u" "use_ok sb ?i False u" using lists_use(1) [OF D(3) p(1)] p(2) by auto
  obtain it where it: "stats_map sb p = Some it" "it_clsid it = of_nat ?i" "unat (scast (it_size it) :: u64) \<le> n"
    using u p(3) by (auto simp: use_def use_ok_def)
  have cid: "unat (it_clsid it) = ?i" using c(1) it(2) by (simp add: unat_of_nat)
  let ?sb = "sb\<lparr>stats_map := (stats_map sb)(p \<mapsto> it\<lparr>it_clsid := 0, it_size := 0\<rparr>)\<rparr>"
  have v: "nxt ?sb = nxt sb" "use ?sb = (use sb)(p \<mapsto> (0, 0))"
    using it(1) by (auto simp: nxt_def use_def fun_eq_iff)
  have hd: "\<forall>m. slots ?sb ?i = Some m \<longrightarrow> stats_map ?sb m \<noteq> None" using F(5) by simp
  obtain sb' where sb': "do_slabs_free ?sb p sz ?i = Some sb'" "nxt sb' = (nxt sb)(p \<mapsto> slots sb ?i)" "use sb' = (use sb)(p \<mapsto> (0, 0))"
    "slots sb' = (slots sb)(?i := Some p)" "curr sb' = (curr sb)(?i := curr sb ?i + 1)" "geometry sb' = geometry sb"
    "mem_current sb' = mem_current sb" "mem_avail sb' = mem_avail sb"
    using do_slabs_free_views [of ?i ?sb p sz, OF _ _ hd] i c(6) v by auto
  have p0: "p \<noteq> 0" using D(3) p(1) by (auto simp: lists_ok_def)
  have ok: "lists_ok sb' (chunks sb pages) (cls_of sb pages) (fl(?i := p # fl ?i))"
    using lists_push [OF D(1,3) i p(2) p0 refl sb'(2-6)] p(1) by (simp add: insert_absorb)
  have cl: "classes_ok sb'" using classes_geometry [OF sb'(6) D(1)] .
  have rep: "slab_rep sb' pages (fl(?i := p # fl ?i))"
    using cl ok D(2) sb'(6-8) unfolding slab_rep_def layout_geometry [OF sb'(6) D(1,4)] by (simp add: region_ok_def geometry_def)
  have c': "csize sb' (cls_of sb pages q) = csize sb (cls_of sb pages q)" if "q \<in> chunks sb pages" for q
    using geometry_csize(1) [OF sb'(6)] classD(6) [OF D(1) lists_use(2) [OF D(3) that]] .
  have "live sb' q = ((live sb)(p := None)) q" for q
    using live_eq [OF D(1,3), of q] live_eq [OF cl ok, of q] c' [of q] by auto
  then show ?thesis
    using it(1,3) sb'(1,6) rep cid by (intro exI [of _ it] conjI exI [of _ sb'] ext) (auto simp: slab_ok_def)
qed

section \<open>Choosing a class\<close>

lemma clsid_loop_ok:
  assumes cl: "classes_ok sb" and r: "r \<in> {1..power_largest sb}" "power_largest sb < r + n" and below: "\<forall>k \<in> {1..<r}. csize sb k < unat sz"
  shows "\<exists>i. clsid_loop n sb sz r = Some i \<and> (if i = 0 then \<forall>k \<in> {1..power_largest sb}. csize sb k < unat sz
    else i \<in> {1..power_largest sb} \<and> unat sz \<le> csize sb i \<and> (\<forall>k \<in> {1..<i}. csize sb k < unat sz))"
  using r below
proof (induction n arbitrary: r)
  case (Suc n)
  note c = classD [OF cl Suc.prems(1)]
  have gt: "sz > ucast (sc_size (slabclass sb ! r)) \<longleftrightarrow> csize sb r < unat sz" by (simp add: word_less_nat_alt csize_def)
  show ?case
  proof (cases "csize sb r < unat sz")
    case False
    then show ?thesis using Suc.prems c(6) gt by (auto simp: class_of_def)
  next
    case True
    then have b: "\<forall>k \<in> {1..<r + 1}. csize sb k < unat sz" using Suc.prems(3) by (auto simp: less_Suc_eq)
    show ?thesis
    proof (cases "r = power_largest sb")
      case True
      then show ?thesis using b c(6) gt \<open>csize sb r < unat sz\<close> by (auto simp: class_of_def less_Suc_eq_le)
    next
      case False
      then show ?thesis
        using Suc.IH [of "r + 1"] Suc.prems b c(6) gt True by (simp add: class_of_def)
    qed
  qed
qed simp

lemma slabs_clsid_ok:
  assumes "classes_ok sb"
  shows "\<exists>i. slabs_clsid sb sz = Some i \<and>
    (if i = 0 then sz = 0 \<or> (\<forall>k \<in> {1..power_largest sb}. csize sb k < unat sz)
     else i \<in> {1..power_largest sb} \<and> unat sz \<le> csize sb i \<and> (\<forall>k \<in> {1..<i}. csize sb k < unat sz))"
proof (cases "sz = 0")
  case False
  then show ?thesis
    using clsid_loop_ok [OF assms, of 1 201 sz] assms by (auto simp: slabs_clsid_def POWER_SMALLEST_def classes_ok_def)
qed (simp add: slabs_clsid_def)

end
