(* ===== verification/Gam_Allocator.thy ===== *)
theory Gam_Allocator
  imports Gam_Slab_Inv
begin

text \<open>
  What the slab allocator guarantees: the interface \<open>block_allocator\<close> of memory blocks in use, its
  provision by \<^verbatim>\<open>sb_malloc\<close>, \<^verbatim>\<open>sb_aligned_malloc\<close> and \<^verbatim>\<open>sb_free\<close>, and the placement and alignment of blocks.
\<close>

section \<open>Aligned blocks\<close>

text \<open>
  Before the first size past a multiple of the block size the table has a class of exactly that
  multiple, so the first class that holds a whole number of blocks is a whole number of blocks.
\<close>

definition prev_size :: "SlabAllocator \<Rightarrow> nat \<Rightarrow> nat" where
  "prev_size sb i = (if i = 1 then 0 else csize sb (i - 1))"

definition aligned_table :: "SlabAllocator \<Rightarrow> bool" where
  "aligned_table sb \<longleftrightarrow> (\<forall>i \<in> {1..power_largest sb}. csize sb i mod 512 = 0 \<or>
     csize sb i div 512 = prev_size sb i div 512)"

lemma aligned_class:
  assumes "aligned_table sb" "i \<in> {1..power_largest sb}" "n mod 512 = 0" "0 < n" "n \<le> csize sb i" "\<forall>k \<in> {1..<i}. csize sb k < n"
  shows "csize sb i mod 512 = 0"
proof (rule ccontr)
  assume "csize sb i mod 512 \<noteq> 0"
  then have d: "csize sb i div 512 = prev_size sb i div 512" using assms(1,2) unfolding aligned_table_def by metis
  have n: "n div 512 \<le> csize sb i div 512" "n = 512 * (n div 512)" "0 < n div 512" using assms(3-5) by (auto intro: div_le_mono)
  then have "i \<noteq> 1" using d by (auto simp: prev_size_def)
  then have "1 \<le> i - 1" "i - 1 < i" using assms(2) by auto
  then have "csize sb (i - 1) < n" using assms(6) by simp
  moreover have "n \<le> 512 * (csize sb (i - 1) div 512)" using n d \<open>i \<noteq> 1\<close> by (simp add: prev_size_def)
  ultimately show False using times_div_less_eq_dividend [of 512 "csize sb (i - 1)"] by linarith
qed

definition slab_inv :: "SlabAllocator \<Rightarrow> bool" where
  "slab_inv sb \<longleftrightarrow> slab_ok sb \<and> aligned_table sb"

lemma aligned_table_geometry:
  assumes "geometry sb' = geometry sb" "slab_ok sb" "aligned_table sb"
  shows "aligned_table sb'"
proof -
  have cl: "classes_ok sb" using assms(2) by (auto simp: slab_ok_def slab_rep_def)
  have c: "csize sb' k = csize sb k" if "k \<le> power_largest sb" for k
    using that cl by (intro geometry_csize(1) [OF assms(1)]) (auto simp: classes_ok_def)
  show ?thesis
    unfolding aligned_table_def geometry_largest [OF assms(1)]
  proof
    fix i assume i: "i \<in> {1..power_largest sb}"
    then have "csize sb i mod 512 = 0 \<or> csize sb i div 512 = prev_size sb i div 512"
      using assms(3) unfolding aligned_table_def by blast
    moreover have c1: "csize sb' (i - 1) = csize sb (i - 1)" using c [of "i - 1"] i by (simp add: le_diff_conv)
    ultimately show "csize sb' i mod 512 = 0 \<or> csize sb' i div 512 = prev_size sb' i div 512"
      using c [of i] c1 i by (auto simp: prev_size_def)
  qed
qed

section \<open>The interface\<close>

locale block_allocator =
  fixes inv :: "'s \<Rightarrow> bool" and used :: "'s \<Rightarrow> ptr \<rightharpoonup> nat" and bytes :: "'s \<Rightarrow> memory"
    and alloc :: "'s \<Rightarrow> u64 \<Rightarrow> (ptr \<times> 's) option" and release :: "'s \<Rightarrow> ptr \<Rightarrow> 's option"
  assumes alloc_returns: "inv s \<Longrightarrow> \<exists>p s'. alloc s sz = Some (p, s') \<and> inv s'"
    and alloc_used: "inv s \<Longrightarrow> alloc s sz = Some (p, s') \<Longrightarrow> p \<noteq> 0 \<Longrightarrow>
      used s p = None \<and> (\<exists>n \<ge> unat sz. used s' = (used s)(p \<mapsto> n))"
    and alloc_fails: "inv s \<Longrightarrow> alloc s sz = Some (0, s') \<Longrightarrow> used s' = used s"
    and alloc_bytes: "inv s \<Longrightarrow> alloc s sz = Some (p, s') \<Longrightarrow> bytes s' = bytes s"
    and release_used: "inv s \<Longrightarrow> used s p = Some n \<Longrightarrow> \<exists>s'. release s p = Some s' \<and> inv s' \<and> used s' = (used s)(p := None) \<and>
      (\<forall>q k. apart p n q k \<longrightarrow> mem_read (bytes s') q k = mem_read (bytes s) q k)"
    and used_apart: "inv s \<Longrightarrow> used s p = Some m \<Longrightarrow> used s q = Some n \<Longrightarrow> p \<noteq> q \<Longrightarrow> apart p m q n"
begin

text \<open>A new block overlaps no block in use, and its release gives the old state of use back.\<close>

lemma new_block_apart:
  assumes "inv s" "alloc s sz = Some (p, s')" "p \<noteq> 0" "used s q = Some n"
  shows "apart p (unat sz) q n"
proof -
  obtain m where m: "unat sz \<le> m" "used s' = (used s)(p \<mapsto> m)" and new: "used s p = None"
    using alloc_used [OF assms(1-3)] by blast
  have "inv s'" using alloc_returns [OF assms(1), of sz] assms(2) by auto
  moreover have "p \<noteq> q" using new assms(4) by auto
  ultimately have "apart p m q n" using used_apart [of s' p m q n] m(2) assms(4) by simp
  then show ?thesis using m(1) by (auto simp: apart_def)
qed

lemma release_new_block:
  assumes "inv s" "alloc s sz = Some (p, s')" "p \<noteq> 0"
  shows "\<exists>s''. release s' p = Some s'' \<and> inv s'' \<and> used s'' = used s"
proof -
  obtain m where m: "used s' = (used s)(p \<mapsto> m)" "used s p = None" using alloc_used [OF assms] by blast
  have "inv s'" using alloc_returns [OF assms(1), of sz] assms(2) by auto
  then show ?thesis using release_used [of s' p m] m by (auto simp: fun_upd_idem)
qed

text \<open>The contents of a block in use survive the release of another.\<close>

lemma release_keeps_others:
  assumes "inv s" "used s p = Some m" "used s q = Some n" "p \<noteq> q"
  shows "\<exists>s'. release s p = Some s' \<and> used s' q = Some n \<and> mem_read (bytes s') q n = mem_read (bytes s) q n"
  using release_used [OF assms(1,2)] used_apart [OF assms] assms(3,4) by auto

end

section \<open>The slab allocator provides it\<close>

lemma live_chunk:
  assumes R: "slab_rep sb pages fl" and lv: "live sb p = Some n"
  shows "p \<in> chunks sb pages" "n = csize sb (cls_of sb pages p)" "unat p = unat (mem_base sb) + unat (p - mem_base sb)"
    "unat (p - mem_base sb) + n \<le> unat (mem_limit sb)"
proof -
  note D = slab_repD [OF R]
  show p: "p \<in> chunks sb pages" and n: "n = csize sb (cls_of sb pages p)" using lv live_eq [OF D(1,3), of p] by (auto split: if_splits)
  obtain j k where jk: "p = chunk sb pages j k" "j < length pages" "k < SLAB div csize sb (pages ! j)" using p by (rule chunks_E)
  note o = chunk_offset [OF D(1,2) jk(2,3)]
  have r: "length pages * SLAB \<le> unat (mem_limit sb)" "unat (mem_base sb) + unat (mem_limit sb) \<le> 2 ^ 64"
    using D(2) unfolding region_ok_def by linarith+
  show e: "unat (p - mem_base sb) + n \<le> unat (mem_limit sb)" using o r(1) jk(1) n by simp
  have "0 < n" using classD(2) [OF D(1) chunk_class [OF D(2) jk(2)]] n o(3) jk(1) by simp
  then have "unat (mem_base sb) + unat (p - mem_base sb) < 2 ^ 64" using e r(2) by linarith
  then show "unat p = unat (mem_base sb) + unat (p - mem_base sb)" using unat_add_no_wrap [of "mem_base sb" "p - mem_base sb"] by simp
qed

lemma live_apart:
  assumes "slab_ok sb" "live sb p = Some m" "live sb q = Some n" "p \<noteq> q"
  shows "apart p m q n"
proof -
  obtain pages fl where R: "slab_rep sb pages fl" using assms(1) by (auto simp: slab_ok_def)
  note D = slab_repD [OF R] and P = live_chunk [OF R assms(2)] and Q = live_chunk [OF R assms(3)]
  have lim: "unat (mem_limit sb) < 2 ^ 64" using unat_bound [of "mem_limit sb"] by simp
  have d: "unat (p - mem_base sb) + m \<le> unat (q - mem_base sb) \<or> unat (q - mem_base sb) + n \<le> unat (p - mem_base sb)"
    using chunks_apart [OF D(1,2) P(1) Q(1)] chunks_apart [OF D(1,2) Q(1) P(1)] P(2) Q(2) offset_inj assms(4)
    by (metis linorder_neqE_nat)
  have p: "unat (p + of_nat i - mem_base sb) = unat (p - mem_base sb) + i" if "i < m" for i
  proof -
    have "unat (p - mem_base sb) + i < 2 ^ 64" using that P(4) lim by linarith
    then show ?thesis by (rule offset_add)
  qed
  have q: "unat (q + of_nat j - mem_base sb) = unat (q - mem_base sb) + j" if "j < n" for j
  proof -
    have "unat (q - mem_base sb) + j < 2 ^ 64" using that Q(4) lim by linarith
    then show ?thesis by (rule offset_add)
  qed
  have "unat (p + of_nat i - mem_base sb) \<noteq> unat (q + of_nat j - mem_base sb)" if "i < m" "j < n" for i j
    using d p [OF that(1)] q [OF that(2)] that by linarith
  then show ?thesis unfolding apart_def by metis
qed

lemma sb_malloc_ok:
  assumes "slab_inv sb"
  shows "\<exists>p sb'. sb_malloc sb sz = Some (p, sb') \<and> slab_inv sb' \<and> geometry sb' = geometry sb \<and>
    (p = 0 \<and> live sb' = live sb \<or> p \<noteq> 0 \<and> live sb p = None \<and> (\<exists>n \<ge> unat sz. live sb' = (live sb)(p \<mapsto> n)))"
proof -
  obtain pages fl where R: "slab_rep sb pages fl" using assms by (auto simp: slab_inv_def slab_ok_def)
  obtain i where i: "slabs_clsid sb sz = Some i" "i \<noteq> 0 \<Longrightarrow> i \<in> {1..power_largest sb} \<and> unat sz \<le> csize sb i"
    using slabs_clsid_ok [OF slab_repD(1) [OF R], of sz] by (auto split: if_splits)
  have lim: "mem_limit sb \<noteq> 0" using slab_repD(2) [OF R] by (simp add: region_ok_def)
  show ?thesis
  proof (cases "i = 0")
    case True
    then show ?thesis using assms i(1) lim by (simp add: sb_malloc_def do_slabs_alloc_def POWER_SMALLEST_def)
  next
    case False
    then show ?thesis
      using do_slabs_alloc_ok [OF R, of i sz] i lim assms aligned_table_geometry [of _ sb]
      by (fastforce simp: sb_malloc_def slab_inv_def)
  qed
qed

lemma sb_free_ok:
  assumes "slab_inv sb" "live sb p = Some n"
  shows "\<exists>sz m' sb'. sb_free m sb p = Some (sz, m', sb') \<and> slab_inv sb' \<and> geometry sb' = geometry sb \<and> live sb' = (live sb)(p := None) \<and>
    unat sz \<le> n \<and> m' = memset m p 0 (unat sz)"
proof -
  obtain pages fl where R: "slab_rep sb pages fl" using assms by (auto simp: slab_inv_def slab_ok_def)
  have lim: "mem_limit sb \<noteq> 0" using slab_repD(2) [OF R] by (simp add: region_ok_def)
  obtain it where it: "stats_map sb p = Some it" "unat (scast (it_size it) :: u64) \<le> n"
    "\<exists>sb'. do_slabs_free (sb\<lparr>stats_map := (stats_map sb)(p \<mapsto> it\<lparr>it_clsid := 0, it_size := 0\<rparr>)\<rparr>) p (scast (it_size it)) (unat (it_clsid it)) = Some sb' \<and>
      slab_ok sb' \<and> geometry sb' = geometry sb \<and> live sb' = (live sb)(p := None)"
    using free_push [OF R assms(2), of "scast (it_size (the (stats_map sb p)))"] by fastforce
  then show ?thesis
    using lim assms(1) aligned_table_geometry [of _ sb] by (auto simp: sb_free_def slab_inv_def Let_def)
qed

lemma memset_apart: "apart p n q k \<Longrightarrow> z \<le> n \<Longrightarrow> mem_read (memset m p 0 z) q k = mem_read m q k"
proof (rule mem_read_cong)
  fix i assume a: "apart p n q k" "z \<le> n" "i < k"
  have "\<not> unat (q + of_nat i - p) < z"
  proof
    assume "unat (q + of_nat i - p) < z"
    then have "p + of_nat (unat (q + of_nat i - p)) \<noteq> q + of_nat i" using a unfolding apart_def by (metis less_le_trans)
    then show False by simp
  qed
  then show "memset m p 0 z (q + of_nat i) = m (q + of_nat i)" by (simp add: memset_def mem_write_def)
qed

text \<open>The operations on the memory and the allocator together.\<close>

definition slab_alloc :: "memory \<times> SlabAllocator \<Rightarrow> u64 \<Rightarrow> (ptr \<times> memory \<times> SlabAllocator) option" where
  "slab_alloc s sz = map_option (\<lambda>(p, sb). (p, fst s, sb)) (sb_malloc (snd s) sz)"

definition slab_aligned_alloc :: "memory \<times> SlabAllocator \<Rightarrow> u64 \<Rightarrow> (ptr \<times> memory \<times> SlabAllocator) option" where
  "slab_aligned_alloc s sz = map_option (\<lambda>(p, sb). (p, fst s, sb)) (sb_aligned_malloc (snd s) sz 512)"

definition slab_release :: "memory \<times> SlabAllocator \<Rightarrow> ptr \<Rightarrow> (memory \<times> SlabAllocator) option" where
  "slab_release s p = map_option snd (sb_free (fst s) (snd s) p)"

lemma aligned_as_malloc: "sb_aligned_malloc sb sz 512 = sb_malloc sb (ALIGN sz 512)"
  by (simp add: sb_aligned_malloc_def sb_malloc_def Let_def)

lemma unat_ALIGN: "unat (ALIGN sz 512) = (unat (sz + 511) div 512) * 512" "ALIGN sz 512 = 0 \<or> unat sz \<le> unat (ALIGN sz 512)"
proof -
  have "ALIGN sz 512 = TOBLOCK (sz + 511)" by (simp add: ALIGN_def TOBLOCK_def BLOCK_MASK_eq mask_eq_exp_minus_1)
  then show e: "unat (ALIGN sz 512) = (unat (sz + 511) div 512) * 512" using unat_TOBLOCK [of "sz + 511"] by simp
  show "ALIGN sz 512 = 0 \<or> unat sz \<le> unat (ALIGN sz 512)"
  proof (cases "unat sz + 511 < 2 ^ 64")
    case True
    then have "unat (sz + 511) = unat sz + 511" by (simp add: unat_word_ariths)
    then show ?thesis using e by (simp, linarith)
  next
    case False
    then have "unat (sz + 511) = unat sz + 511 - 2 ^ 64" using unat_bound [of sz] by (simp add: unat_word_ariths mod_if)
    then have "unat (sz + 511) < 512" using unat_bound [of sz] by simp
    then have "unat (ALIGN sz 512) = 0" using e by simp
    then show ?thesis by (simp add: unat_eq_zero)
  qed
qed

interpretation slab: block_allocator "\<lambda>s. slab_inv (snd s)" "\<lambda>s. live (snd s)" fst slab_alloc slab_release
proof
  fix s :: "memory \<times> SlabAllocator" and sz
  assume inv: "slab_inv (snd s)"
  note A = sb_malloc_ok [OF inv, of sz]
  show "\<exists>p s'. slab_alloc s sz = Some (p, s') \<and> slab_inv (snd s')" using A by (auto simp: slab_alloc_def)
  show "live (snd s) p = None \<and> (\<exists>n \<ge> unat sz. live (snd s') = (live (snd s))(p \<mapsto> n))"
    if "slab_alloc s sz = Some (p, s')" "p \<noteq> 0" for p s' using A that by (auto simp: slab_alloc_def)
  show "live (snd s') = live (snd s)" if "slab_alloc s sz = Some (0, s')" for s' using A that by (auto simp: slab_alloc_def)
  show "fst s' = fst s" if "slab_alloc s sz = Some (p, s')" for p s' using that by (auto simp: slab_alloc_def)
  show "\<exists>s'. slab_release s p = Some s' \<and> slab_inv (snd s') \<and> live (snd s') = (live (snd s))(p := None) \<and>
      (\<forall>q k. apart p n q k \<longrightarrow> mem_read (fst s') q k = mem_read (fst s) q k)" if "live (snd s) p = Some n" for p n
    using sb_free_ok [OF inv that, of "fst s"] memset_apart by (fastforce simp: slab_release_def)
  show "apart p m q n" if "live (snd s) p = Some m" "live (snd s) q = Some n" "p \<noteq> q" for p m q n
    using live_apart [OF _ that] inv by (simp add: slab_inv_def)
qed

interpretation aligned: block_allocator "\<lambda>s. slab_inv (snd s)" "\<lambda>s. live (snd s)" fst slab_aligned_alloc slab_release
proof
  fix s :: "memory \<times> SlabAllocator" and sz
  assume inv: "slab_inv (snd s)"
  have e: "slab_aligned_alloc s sz = slab_alloc s (ALIGN sz 512)"
    by (simp add: slab_aligned_alloc_def slab_alloc_def aligned_as_malloc)
  show "\<exists>p s'. slab_aligned_alloc s sz = Some (p, s') \<and> slab_inv (snd s')" unfolding e using slab.alloc_returns [of s] inv by simp
  show "live (snd s) p = None \<and> (\<exists>n \<ge> unat sz. live (snd s') = (live (snd s))(p \<mapsto> n))"
    if a: "slab_aligned_alloc s sz = Some (p, s')" "p \<noteq> 0" for p s'
  proof -
    have "ALIGN sz 512 \<noteq> 0"
      using a inv by (auto simp: e slab_alloc_def sb_malloc_def slabs_clsid_def do_slabs_alloc_def POWER_SMALLEST_def split: if_splits)
    then have "unat sz \<le> unat (ALIGN sz 512)" using unat_ALIGN(2) [of sz] by blast
    then show ?thesis using slab.alloc_used [of s "ALIGN sz 512" p s'] inv a unfolding e by (auto intro: order_trans)
  qed
  show "live (snd s') = live (snd s)" if "slab_aligned_alloc s sz = Some (0, s')" for s'
    using slab.alloc_fails [of s] inv that unfolding e by blast
  show "fst s' = fst s" if "slab_aligned_alloc s sz = Some (p, s')" for p s'
    using slab.alloc_bytes [of s] inv that unfolding e by blast
  show "\<exists>s'. slab_release s p = Some s' \<and> slab_inv (snd s') \<and> live (snd s') = (live (snd s))(p := None) \<and>
      (\<forall>q k. apart p n q k \<longrightarrow> mem_read (fst s') q k = mem_read (fst s) q k)" if "live (snd s) p = Some n" for p n
    using slab.release_used [of s p n] inv that by simp
  show "apart p m q n" if "live (snd s) p = Some m" "live (snd s) q = Some n" "p \<noteq> q" for p m q n
    using slab.used_apart [of s p m q n] inv that by simp
qed

section \<open>Guarantees of the allocator\<close>

lemma live_region:
  assumes "slab_ok sb" "live sb p = Some n"
  shows "unat (mem_base sb) \<le> unat p" "unat p + n \<le> unat (mem_base sb) + unat (mem_limit sb)"
proof -
  obtain pages fl where R: "slab_rep sb pages fl" using assms(1) by (auto simp: slab_ok_def)
  show "unat (mem_base sb) \<le> unat p" "unat p + n \<le> unat (mem_base sb) + unat (mem_limit sb)"
    using live_chunk(3,4) [OF R assms(2)] by linarith+
qed

lemma live_aligned:
  assumes "slab_ok sb" "live sb p = Some n" "n mod 512 = 0"
  shows "BLOCK_ALIGNED p"
proof -
  obtain pages fl where R: "slab_rep sb pages fl" using assms(1) by (auto simp: slab_ok_def)
  note D = slab_repD [OF R] and P = live_chunk [OF R assms(2)]
  obtain j k where jk: "p = chunk sb pages j k" "j < length pages" "k < SLAB div csize sb (pages ! j)" using P(1) by (rule chunks_E)
  note o = chunk_offset [OF D(1,2) jk(2,3)]
  have "csize sb (pages ! j) mod 512 = 0" using assms(3) P(2) o(3) jk(1) by simp
  then have "unat (p - mem_base sb) mod 512 = 0" using o(1) jk(1) by (auto simp: SLAB_def mod_eq_0_iff_dvd)
  moreover have "unat (mem_base sb) mod 512 = 0" using D(2) by (simp add: region_ok_def BLOCK_ALIGNED_iff)
  ultimately show ?thesis unfolding BLOCK_ALIGNED_iff P(3) by (simp add: mod_eq_0_iff_dvd)
qed

text \<open>
  C29. Allocation is safe. \<^verbatim>\<open>sb_malloc\<close> always returns. It returns the null pointer and leaves the blocks
  in use as they are, or it returns a block that was not in use, holds the size asked for, lies
  inside the region and overlaps no block in use. The allocator stays consistent.
\<close>

theorem slab_malloc_safe:
  assumes "slab_inv sb"
  shows "\<exists>p sb'. sb_malloc sb sz = Some (p, sb') \<and> slab_inv sb' \<and>
    (if p = 0 then live sb' = live sb
     else live sb p = None \<and> (\<exists>n \<ge> unat sz. live sb' = (live sb)(p \<mapsto> n)) \<and>
       unat (mem_base sb) \<le> unat p \<and> unat p + unat sz \<le> unat (mem_base sb) + unat (mem_limit sb) \<and>
       (\<forall>q n. live sb q = Some n \<longrightarrow> apart p (unat sz) q n))"
proof -
  obtain p sb' where a: "sb_malloc sb sz = Some (p, sb')" "slab_inv sb'" "geometry sb' = geometry sb"
    "p = 0 \<and> live sb' = live sb \<or> p \<noteq> 0 \<and> live sb p = None \<and> (\<exists>n \<ge> unat sz. live sb' = (live sb)(p \<mapsto> n))"
    using sb_malloc_ok [OF assms] by blast
  have g: "mem_base sb' = mem_base sb" "mem_limit sb' = mem_limit sb" using a(3) by (simp_all add: geometry_def)
  show ?thesis
  proof (cases "p = 0")
    case False
    then obtain n where n: "unat sz \<le> n" "live sb' = (live sb)(p \<mapsto> n)" "live sb p = None" using a(4) by auto
    have "unat (mem_base sb) \<le> unat p" "unat p + unat sz \<le> unat (mem_base sb) + unat (mem_limit sb)"
      using live_region [of sb' p n] a(2) n g by (simp_all add: slab_inv_def)
    moreover have "apart p (unat sz) q k" if "live sb q = Some k" for q k
      using slab.new_block_apart [of "(\<lambda>_. 0, sb)" sz p "(\<lambda>_. 0, sb')" q k] assms a(1) False that by (simp add: slab_alloc_def)
    ultimately show ?thesis using a(1,2) False n by auto
  qed (use a in auto)
qed

text \<open>
  C30. Release is safe. Releasing a block in use returns, takes exactly this block out of use, keeps the
  allocator consistent, and leaves the contents of every other block in use as they are.
\<close>

theorem slab_free_safe:
  assumes "slab_inv sb" "live sb p = Some n"
  shows "\<exists>sz m' sb'. sb_free m sb p = Some (sz, m', sb') \<and> slab_inv sb' \<and> live sb' = (live sb)(p := None) \<and> unat sz \<le> n \<and>
    (\<forall>q k. live sb' q = Some k \<longrightarrow> mem_read m' q k = mem_read m q k)"
proof -
  obtain sz m' sb' where f: "sb_free m sb p = Some (sz, m', sb')" "slab_inv sb'" "live sb' = (live sb)(p := None)" "unat sz \<le> n"
    "m' = memset m p 0 (unat sz)" using sb_free_ok [OF assms] by blast
  have "mem_read m' q k = mem_read m q k" if "live sb' q = Some k" for q k
    using that f(3-5) live_apart [OF _ assms(2), of q k] assms(1) memset_apart [of p n q k "unat sz" m]
    by (auto simp: slab_inv_def split: if_splits)
  then show ?thesis using f by blast
qed

text \<open>
  C31. Cache lines and shared blocks are aligned. A block from \<^verbatim>\<open>sb_aligned_malloc\<close> with the block size starts
  on a block boundary, whatever class serves it, and overlaps no block in use.
\<close>

theorem slab_aligned_safe:
  assumes "slab_inv sb"
  shows "\<exists>p sb'. sb_aligned_malloc sb sz BLOCK_SIZE = Some (p, sb') \<and> slab_inv sb' \<and>
    (p \<noteq> 0 \<longrightarrow> BLOCK_ALIGNED p \<and> live sb p = None \<and> (\<exists>n \<ge> unat sz. live sb' = (live sb)(p \<mapsto> n)) \<and>
       (\<forall>q n. live sb q = Some n \<longrightarrow> apart p (unat sz) q n))"
proof -
  obtain p m sb' where a: "slab_aligned_alloc (\<lambda>_. 0, sb) sz = Some (p, m, sb')" "slab_inv sb'"
    using aligned.alloc_returns [of "(\<lambda>_. 0, sb)" sz] assms by auto
  have run: "sb_aligned_malloc sb sz BLOCK_SIZE = Some (p, sb')" using a(1) by (auto simp: slab_aligned_alloc_def BLOCK_SIZE_def BLOCK_POWER_def)
  show ?thesis
  proof (cases "p = 0")
    case False
    note U = aligned.alloc_used [OF _ a(1) False] and N = aligned.new_block_apart [OF _ a(1) False]
    obtain pages fl where R: "slab_rep sb pages fl" using assms by (auto simp: slab_inv_def slab_ok_def)
    have lim: "mem_limit sb \<noteq> 0" using slab_repD(2) [OF R] by (simp add: region_ok_def)
    obtain i where i: "slabs_clsid sb (ALIGN sz 512) = Some i" "if i = 0 then True else i \<in> {1..power_largest sb} \<and>
        unat (ALIGN sz 512) \<le> csize sb i \<and> (\<forall>k \<in> {1..<i}. csize sb k < unat (ALIGN sz 512))"
      using slabs_clsid_ok [OF slab_repD(1) [OF R], of "ALIGN sz 512"] by (auto split: if_splits)
    have al: "do_slabs_alloc sb (ALIGN sz 512) i = Some (p, sb')" "ALIGN sz 512 \<noteq> 0" "i \<noteq> 0"
      using run lim i(1) False
      by (auto simp: sb_aligned_malloc_def BLOCK_SIZE_def BLOCK_POWER_def Let_def slabs_clsid_def do_slabs_alloc_def POWER_SMALLEST_def split: if_splits)
    have "0 < unat (ALIGN sz 512)" using al(2) by (simp add: unat_gt_0)
    then have "csize sb i mod 512 = 0"
      using aligned_class [of sb i "unat (ALIGN sz 512)"] assms i(2) al(3) unat_ALIGN(1) [of sz] by (simp add: slab_inv_def)
    moreover have "live sb' p = Some (csize sb i)"
      using do_slabs_alloc_ok [OF R, of i "ALIGN sz 512"] i(2) al False by auto
    ultimately have "BLOCK_ALIGNED p" using live_aligned [of sb' p] a(2) by (simp add: slab_inv_def)
    then show ?thesis using run a(2) U N assms False by auto
  qed (use run a in auto)
qed

section \<open>Reallocation\<close>

text \<open>
  C33. Moving a block loses its contents. When \<^verbatim>\<open>sb_realloc\<close> moves a block to another class, the copy
  runs from the new block onto itself: no byte of the memory changes, so the new block holds what was
  there before and not the contents of the old one.
\<close>

theorem realloc_copies_nothing:
  assumes "sb_realloc m sb p sz = Some (q, m', sb')"
  shows "m' = m"
proof -
  have "memcpy m r r n = m" for m :: memory and r n
    by (auto simp: memcpy_def mem_write_def fun_eq_iff)
  then show ?thesis
    using assms by (auto simp: sb_realloc_def Let_def split: if_splits bind_splits option.splits)
qed

section \<open>A small allocator\<close>

text \<open>Two classes, of 524288 and of 1048576 bytes, and four slabs of memory at 4096.\<close>

definition small_allocator :: SlabAllocator where
  "small_allocator = new_SlabAllocator\<lparr>
     slabclass := (replicate 201 new_slabclass)[1 := new_slabclass\<lparr>sc_size := 524288, sc_perslab := 2\<rparr>,
       2 := new_slabclass\<lparr>sc_size := 1048576, sc_perslab := 1\<rparr>],
     power_largest := 2, mem_limit := 4194304, mem_free := 4194304, mem_base := 4096, mem_current := 4096, mem_avail := 4194304\<rparr>"

lemma small_allocator_inv: "slab_inv small_allocator" "live small_allocator = Map.empty"
proof -
  let ?sb = small_allocator
  have two: "{1..2} = {1, 2 :: nat}" by auto
  have pl: "power_largest ?sb = 2" by (simp add: small_allocator_def)
  have cl: "classes_ok ?sb"
    unfolding classes_ok_def pl two by (simp add: small_allocator_def new_SlabAllocator_def csize_def new_slabclass_def SLAB_def)
  have use: "use ?sb = Map.empty" by (simp add: use_def small_allocator_def new_SlabAllocator_def fun_eq_iff)
  have ch: "chunks ?sb [] = {}" by (simp add: chunks_def)
  have "lists_ok ?sb (chunks ?sb []) (cls_of ?sb []) (\<lambda>_. [])"
    unfolding lists_ok_def use ch pl two
    by (simp add: slots_def curr_def small_allocator_def new_slabclass_def)
  moreover have "region_ok ?sb []"
    by (simp add: region_ok_def small_allocator_def BLOCK_ALIGNED_iff)
  ultimately have "slab_rep ?sb [] (\<lambda>_. [])" using cl by (simp add: slab_rep_def)
  moreover have "aligned_table ?sb"
    unfolding aligned_table_def pl two by (simp add: csize_def small_allocator_def)
  ultimately show "slab_inv ?sb" by (auto simp: slab_inv_def slab_ok_def)
  show "live ?sb = Map.empty" using use by (simp add: live_def fun_eq_iff)
qed

theorem slab_malloc_safe_witness:
  "\<exists>p sb'. sb_malloc small_allocator 100 = Some (p, sb') \<and> slab_inv sb' \<and> (p \<noteq> 0 \<longrightarrow> 4096 \<le> unat p)"
proof -
  have "unat (mem_base small_allocator) = 4096" by (simp add: small_allocator_def)
  then show ?thesis using slab_malloc_safe [OF small_allocator_inv(1), of 100] by (auto split: if_splits)
qed

theorem slab_aligned_safe_witness:
  "\<exists>p sb'. sb_aligned_malloc small_allocator 512 BLOCK_SIZE = Some (p, sb') \<and> slab_inv sb' \<and> (p \<noteq> 0 \<longrightarrow> BLOCK_ALIGNED p)"
  using slab_aligned_safe [OF small_allocator_inv(1), of 512] by blast

lemma small_malloc: "map_option fst (sb_malloc small_allocator 100) = Some 528384"
  by code_simp

theorem slab_free_safe_witness:
  "\<exists>sb sz m' sb'. live sb 528384 \<noteq> None \<and> sb_free (\<lambda>_. 7) sb 528384 = Some (sz, m', sb') \<and> slab_inv sb' \<and> live sb' = Map.empty"
proof -
  obtain sb where sb: "sb_malloc small_allocator 100 = Some (528384, sb)" using small_malloc by auto
  obtain n where n: "slab_inv sb" "live sb = [528384 \<mapsto> n]"
    using sb_malloc_ok [OF small_allocator_inv(1), of 100] sb by (auto simp: small_allocator_inv(2))
  then show ?thesis using slab_free_safe [of sb 528384 n "\<lambda>_. 7"] by (intro exI [of _ sb]) auto
qed

text \<open>The first block, whose bytes are ones, is moved to the class of whole slabs, whose bytes are zeros.\<close>

lemma small_realloc:
  "map_option fst (do { (p, sb) \<leftarrow> sb_malloc small_allocator 100; sb_realloc (\<lambda>a. if a < 1052672 then 1 else 0) sb p 600000 }) = Some 1052672"
  by code_simp

theorem realloc_copies_nothing_witness:
  "\<exists>sb m' sb'. sb_realloc (\<lambda>a. if a < 1052672 then 1 else 0) sb 528384 600000 = Some (1052672, m', sb') \<and> m' 528384 = 1 \<and> m' 1052672 = 0"
proof -
  let ?m = "\<lambda>a :: ptr. if a < 1052672 then 1 else 0 :: u8"
  obtain sb where sb: "sb_malloc small_allocator 100 = Some (528384, sb)" using small_malloc by auto
  then obtain m' sb' where r: "sb_realloc ?m sb 528384 600000 = Some (1052672, m', sb')" using small_realloc by auto
  then show ?thesis using realloc_copies_nothing [OF r] by (intro exI [of _ sb] exI [of _ m'] exI [of _ sb']) auto
qed

end
