(* ===== verification/Gam_Evict.thy ===== *)
theory Gam_Evict
  imports Gam_Lru Gam_Allocator
begin

text \<open>
  The cache as a whole: every line has its own memory from the slab allocator and is counted in
  \<^verbatim>\<open>used_bytes\<close>, and eviction implements an abstract specification in which a step drops one unlocked
  shared block or writes back one unlocked dirty block, and tells its home.
\<close>

section \<open>Consistent caches\<close>

definition line_block :: "Worker \<Rightarrow> gaddr \<Rightarrow> CacheLine \<Rightarrow> bool" where
  "line_block s c l \<longleftrightarrow> cl_addr l = c \<and> (\<exists>n \<ge> 512. live (sb s) (cl_line l) = Some n)"

definition lines_ok :: "Worker \<Rightarrow> bool" where
  "lines_ok s \<longleftrightarrow> slab_inv (sb s) \<and> finite (dom (caches s)) \<and> used_bytes s = 512 * of_nat (card (dom (caches s))) \<and>
     (\<forall>c l. caches s c = Some l \<longrightarrow> line_block s c l) \<and>
     (\<forall>c d l k. caches s c = Some l \<longrightarrow> caches s d = Some k \<longrightarrow> cl_line l = cl_line k \<longrightarrow> c = d)"

definition cache_ok :: "Worker \<Rightarrow> (nat \<Rightarrow> gaddr list) \<Rightarrow> bool" where
  "cache_ok s L \<longleftrightarrow> lru_ok s L \<and> lines_ok s"

text \<open>What a reader of the cache can see: the state, the locks and the bytes of each block.\<close>

definition line_seen :: "memory \<Rightarrow> CacheLine \<Rightarrow> CacheState \<times> locktab \<times> u8 list" where
  "line_seen m l = (cl_state l, cl_locks l, mem_read m (cl_line l) 512)"

definition cache_view :: "Worker \<Rightarrow> gaddr \<rightharpoonup> CacheState \<times> locktab \<times> u8 list" where
  "cache_view s c = map_option (line_seen (mem s)) (caches s c)"

text \<open>Equal cores are equal in all of this.\<close>

lemma coreD:
  assumes "core s' = core s"
  shows "reqs s' = reqs s" "next_req s' = next_req s" "mem s' = mem s" "sb s' = sb s" "outbox s' = outbox s" "used_bytes s' = used_bytes s"
    "widCliMap s' = widCliMap s" "widCliMapWorker s' = widCliMapWorker s" "my_wid s' = my_wid s" "to_evicted s' = to_evicted s"
    "wr_psn s' = wr_psn s" "pending_works s' = pending_works s" "max_cache_mem s' = max_cache_mem s"
proof -
  have e: "snd (core s') = snd (core s)" using assms by simp
  show "reqs s' = reqs s" "next_req s' = next_req s" "mem s' = mem s" "sb s' = sb s" "outbox s' = outbox s" "used_bytes s' = used_bytes s"
    "widCliMap s' = widCliMap s" "widCliMapWorker s' = widCliMapWorker s" "my_wid s' = my_wid s" "to_evicted s' = to_evicted s"
    "wr_psn s' = wr_psn s" "pending_works s' = pending_works s" "max_cache_mem s' = max_cache_mem s"
    using arg_cong [OF e, of reqs] arg_cong [OF e, of next_req] arg_cong [OF e, of mem] arg_cong [OF e, of sb] arg_cong [OF e, of outbox]
      arg_cong [OF e, of used_bytes] arg_cong [OF e, of widCliMap] arg_cong [OF e, of widCliMapWorker] arg_cong [OF e, of my_wid]
      arg_cong [OF e, of to_evicted] arg_cong [OF e, of wr_psn] arg_cong [OF e, of pending_works] arg_cong [OF e, of max_cache_mem]
    by (simp_all add: core_def)
qed

lemma core_waiting:
  assumes "core s' = core s"
  shows "to_serve_requests s' = to_serve_requests s" "to_serve_local_requests s' = to_serve_local_requests s" "directory s' = directory s"
    "base s' = base s"
proof -
  have e: "snd (core s') = snd (core s)" using assms by simp
  show "to_serve_requests s' = to_serve_requests s" "to_serve_local_requests s' = to_serve_local_requests s" "directory s' = directory s"
    "base s' = base s"
    using arg_cong [OF e, of to_serve_requests] arg_cong [OF e, of to_serve_local_requests] arg_cong [OF e, of directory] arg_cong [OF e, of base]
    by (simp_all add: core_def)
qed

lemma bareD:
  assumes "bare l' = bare l"
  shows "cl_line l' = cl_line l" "cl_addr l' = cl_addr l" "cl_state l' = cl_state l" "cl_locks l' = cl_locks l"
  using arg_cong [OF assms, of cl_line] arg_cong [OF assms, of cl_addr] arg_cong [OF assms, of cl_state] arg_cong [OF assms, of cl_locks]
  by (simp_all add: bare_def)

lemma core_dom: "core s' = core s \<Longrightarrow> dom (caches s') = dom (caches s)"
  using core_known [of s' s] by (auto simp: dom_def)

lemma lines_block: "lines_ok s \<Longrightarrow> caches s c = Some l \<Longrightarrow> cl_addr l = c \<and> (\<exists>n \<ge> 512. live (sb s) (cl_line l) = Some n)"
  unfolding lines_ok_def line_block_def by blast

lemma lines_okI:
  assumes "slab_inv (sb s)" "finite (dom (caches s))" "used_bytes s = 512 * of_nat (card (dom (caches s)))"
    and "\<And>c l. caches s c = Some l \<Longrightarrow> line_block s c l"
    and "\<And>c d l k. caches s c = Some l \<Longrightarrow> caches s d = Some k \<Longrightarrow> cl_line l = cl_line k \<Longrightarrow> c = d"
  shows "lines_ok s"
  unfolding lines_ok_def using assms by blast

lemma lines_inj: "lines_ok s \<Longrightarrow> caches s c = Some l \<Longrightarrow> caches s d = Some k \<Longrightarrow> cl_line l = cl_line k \<Longrightarrow> c = d"
  unfolding lines_ok_def by blast

lemma lines_ok_core:
  assumes "core s' = core s" "lines_ok s"
  shows "lines_ok s'"
proof -
  have l: "\<exists>k. caches s c = Some k \<and> cl_line k = cl_line l \<and> cl_addr k = cl_addr l" if l: "caches s' c = Some l" for c l
  proof -
    obtain k where k: "caches s c = Some k" "bare k = bare l" using core_line [OF assms(1) [symmetric] l] by blast
    then show ?thesis using bareD(1,2) [OF k(2)] by blast
  qed
  have "line_block s' c l" if "caches s' c = Some l" for c l
    using l [OF that] lines_block [OF assms(2)] unfolding line_block_def coreD(4) [OF assms(1)] by metis
  moreover have "c = d" if "caches s' c = Some l" "caches s' d = Some k" "cl_line l = cl_line k" for c d l k
    using l [OF that(1)] l [OF that(2)] that(3) assms(2) unfolding lines_ok_def by metis
  moreover have "slab_inv (sb s')" "finite (dom (caches s'))" "used_bytes s' = 512 * of_nat (card (dom (caches s')))"
    using assms(2) by (simp_all add: lines_ok_def coreD(4,6) [OF assms(1)] core_dom [OF assms(1)])
  ultimately show ?thesis by (intro lines_okI)
qed

lemma cache_view_core: "core s' = core s \<Longrightarrow> cache_view s' = cache_view s"
proof
  fix c assume e: "core s' = core s"
  show "cache_view s' c = cache_view s c"
  proof (cases "caches s c")
    case (Some l)
    then obtain l' where "caches s' c = Some l'" "bare l' = bare l" using core_line [OF e] by blast
    then show ?thesis using Some bareD [of l' l] by (simp add: cache_view_def line_seen_def coreD(3) [OF e])
  qed (use core_known [OF e] in \<open>simp add: cache_view_def\<close>)
qed

section \<open>Dropping a line\<close>

lemma lru_ok_fields: "caches s' = caches s \<Longrightarrow> heads s' = heads s \<Longrightarrow> tails s' = tails s \<Longrightarrow> lru_ok s' L = lru_ok s L"
proof -
  assume "caches s' = caches s" "heads s' = heads s" "tails s' = tails s"
  moreover from this have "links s' = links s" by (simp add: links_def fun_eq_iff)
  ultimately show ?thesis by (simp add: lru_ok_def list_ok_def)
qed

lemma lru_ok_drop:
  assumes "lru_ok s L" "\<forall>i. c \<notin> set (L i)"
  shows "lru_ok (s\<lparr>caches := (caches s)(c := None)\<rparr>) L"
proof -
  let ?s = "s\<lparr>caches := (caches s)(c := None)\<rparr>"
  have k: "links ?s z = (if z = c then None else links s z)" for z by (simp add: links_def)
  have "list_ok ?s i (L i)" for i using list_ok_cong [of ?s i s "L i"] assms k by (auto simp: lru_ok_def)
  then show ?thesis using assms(1) unfolding lru_ok_def k by (metis option.distinct(1))
qed

lemma remove1_absent: "\<forall>i. c \<notin> set (L i) \<Longrightarrow> (\<lambda>i. remove1 c (L i)) = L"
  by (simp add: remove1_idem)

lemma remove_absent: "lru_ok s L \<Longrightarrow> \<forall>i. c \<notin> set (remove1 c (L i))"
  by (simp add: lru_ok_def list_ok_def)

lemma lines_apart:
  assumes "lines_ok s" "caches s c = Some l" "caches s d = Some k" "c \<noteq> d"
  shows "cl_line l \<noteq> cl_line k" "apart (cl_line l) n (cl_line k) 512 \<or> live (sb s) (cl_line l) \<noteq> Some n"
proof -
  show ne: "cl_line l \<noteq> cl_line k" using assms unfolding lines_ok_def by blast
  obtain j where "512 \<le> j" "live (sb s) (cl_line k) = Some j" using assms(1,3) unfolding lines_ok_def line_block_def by blast
  then show "apart (cl_line l) n (cl_line k) 512 \<or> live (sb s) (cl_line l) \<noteq> Some n"
    using live_apart [of "sb s" "cl_line l" n "cl_line k" j] ne assms(1) by (auto simp: lines_ok_def slab_inv_def apart_def)
qed

lemma GetClient_fields:
  assumes "widCliMap s' = widCliMap s" "widCliMapWorker s' = widCliMapWorker s" "my_wid s' = my_wid s"
  shows "GetClient s' a = GetClient s a" "cli_ToLocal s' cl a = cli_ToLocal s cl a"
proof -
  have "most_free s' ws mx k = most_free s ws mx k" for ws mx k
    by (induction ws arbitrary: mx k) (simp_all add: assms split: option.split)
  then show "GetClient s' a = GetClient s a" by (simp add: GetClient_def assms)
  show "cli_ToLocal s' cl a = cli_ToLocal s cl a" by (simp add: cli_ToLocal_def cli_info_def assms split: client.split)
qed

text \<open>
  \<^verbatim>\<open>ToInvalid\<close> gives exactly the memory of its line back; the bytes of the other lines stay, and so does
  everything a worker sends or waits for.
\<close>

lemma Cache_ToInvalid_ok:
  assumes ok: "cache_ok s L" and c: "caches s c = Some l"
  shows "\<exists>s'. Cache_ToInvalid s c = Some s' \<and> cache_ok s' (\<lambda>i. remove1 c (L i)) \<and> cache_view s' = (cache_view s)(c := None) \<and>
    reqs s' = reqs s \<and> outbox s' = outbox s \<and> widCliMap s' = widCliMap s \<and> widCliMapWorker s' = widCliMapWorker s \<and> my_wid s' = my_wid s \<and>
    to_evicted s' = to_evicted s \<and> to_serve_requests s' = to_serve_requests s \<and> to_serve_local_requests s' = to_serve_local_requests s"
proof -
  have L: "lru_ok s L" "lines_ok s" using ok by (simp_all add: cache_ok_def)
  obtain n where n: "512 \<le> n" "live (sb s) (cl_line l) = Some n" "cl_addr l = c" using L(2) c unfolding lines_ok_def line_block_def by blast
  have inv: "slab_inv (sb s)" using L(2) by (simp add: lines_ok_def)
  obtain sz m' sb' where f: "sb_free (mem s) (sb s) (cl_line l) = Some (sz, m', sb')" "slab_inv sb'" "live sb' = (live (sb s))(cl_line l := None)"
    "unat sz \<le> n" "m' = memset (mem s) (cl_line l) 0 (unat sz)" using sb_free_ok [OF inv n(2), of "mem s"] by blast
  let ?s = "s\<lparr>mem := m', sb := sb', used_bytes := used_bytes s - BLOCK_SIZE\<rparr>"
  have "lru_ok ?s L" using L(1) lru_ok_fields [of ?s s] by simp
  then obtain s1 where u: "UnLinkLRU ?s c = Some s1" "lru_ok s1 (\<lambda>i. remove1 c (L i))" "core s1 = core ?s" using UnLinkLRU_ok [of ?s L c] c by auto
  let ?s' = "s1\<lparr>caches := (caches s1)(c := None)\<rparr>"
  have run: "Cache_ToInvalid s c = Some ?s'" using c f(1) u(1) n(3) by (simp add: Cache_ToInvalid_def)
  note D = coreD [OF u(3)]
  have old: "\<exists>k'. caches s d = Some k' \<and> bare k' = bare k" if "caches s1 d = Some k" for d k using core_line [OF u(3) [symmetric] that] by simp
  have dom: "dom (caches ?s') = dom (caches s) - {c}" using core_dom [OF u(3)] by simp
  have lb: "line_block ?s' d k" if k: "caches ?s' d = Some k" for d k
  proof -
    have d: "d \<noteq> c" "caches s1 d = Some k" using k by (auto split: if_splits)
    then obtain k' where k': "caches s d = Some k'" "bare k' = bare k" using old by blast
    then show ?thesis using lines_apart(1) [OF L(2) c k'(1)] d lines_block [OF L(2) k'(1)] bareD [OF k'(2)] f(3) D(4)
      by (simp add: line_block_def)
  qed
  have inj: "a = b" if e: "caches ?s' a = Some k" "caches ?s' b = Some j" "cl_line k = cl_line j" for a b k j
  proof -
    obtain k' j' where k: "caches s a = Some k'" "bare k' = bare k" "caches s b = Some j'" "bare j' = bare j"
      using e(1,2) old [of a k] old [of b j] by (auto split: if_splits)
    then show ?thesis using lines_inj [OF L(2) k(1,3)] e(3) bareD(1) [OF k(2)] bareD(1) [OF k(4)] by simp
  qed
  have "card (dom (caches s)) = Suc (card (dom (caches ?s')))"
    unfolding dom using L(2) c by (metis card_Suc_Diff1 domI lines_ok_def)
  then have "used_bytes ?s' = 512 * of_nat (card (dom (caches ?s')))"
    using L(2) D(6) by (simp add: lines_ok_def BLOCK_SIZE_eq algebra_simps)
  moreover have "slab_inv (sb ?s')" "finite (dom (caches ?s'))" using f(2) D(4) L(2) dom by (simp_all add: lines_ok_def)
  ultimately have "lines_ok ?s'" using lb inj by (intro lines_okI)
  moreover have "lru_ok ?s' (\<lambda>i. remove1 c (L i))" using lru_ok_drop [OF u(2)] remove_absent [OF L(1)] by blast
  moreover have "cache_view ?s' d = ((cache_view s)(c := None)) d" for d
  proof (cases "d = c \<or> caches s d = None")
    case True
    then show ?thesis using core_known [OF u(3), of d] by (auto simp: cache_view_def)
  next
    case False
    then obtain k where k: "caches s d = Some k" "d \<noteq> c" by auto
    then have "mem_read m' (cl_line k) 512 = mem_read (mem s) (cl_line k) 512"
      using lines_apart(2) [OF L(2) c k(1), of n] n(2) memset_apart [of "cl_line l" n "cl_line k" 512 "unat sz" "mem s"] f(4,5) by auto
    then show ?thesis using cache_view_core [OF u(3), THEN fun_cong, of d] k by (simp add: cache_view_def line_seen_def)
  qed
  ultimately show ?thesis using run D core_waiting [OF u(3)] by (auto simp: cache_ok_def)
qed

lemma cache_ok_fields:
  assumes "caches s' = caches s" "heads s' = heads s" "tails s' = tails s" "sb s' = sb s" "used_bytes s' = used_bytes s"
  shows "cache_ok s' L = cache_ok s L"
  using lru_ok_fields [OF assms(1-3)] assms by (simp add: cache_ok_def lines_ok_def line_block_def)

lemma cache_ok_line:
  assumes ok: "cache_ok s L" and c: "caches s c = Some l" and l': "cl_line l' = cl_line l" "cl_addr l' = cl_addr l" "line_link l' = line_link l"
  shows "cache_ok (s\<lparr>caches := (caches s)(c \<mapsto> l')\<rparr>) L"
proof -
  let ?s = "s\<lparr>caches := (caches s)(c \<mapsto> l')\<rparr>"
  have ls: "lines_ok s" "lru_ok s L" using ok by (simp_all add: cache_ok_def)
  have "links ?s = links s" using c l'(3) by (auto simp: links_def fun_eq_iff)
  then have "lru_ok ?s L" using ls(2) by (simp add: lru_ok_def list_ok_def)
  moreover have old: "\<exists>j. caches s d = Some j \<and> cl_line j = cl_line k \<and> cl_addr j = cl_addr k" if "caches ?s d = Some k" for d k
    using that c l' by (auto split: if_splits)
  have d: "dom (caches ?s) = dom (caches s)" using c by auto
  have "lines_ok ?s"
  proof (rule lines_okI)
    show "line_block ?s d k" if "caches ?s d = Some k" for d k
      using old [OF that] lines_block [OF ls(1), of d] by (auto simp: line_block_def)
    show "d = e" if "caches ?s d = Some k" "caches ?s e = Some j" "cl_line k = cl_line j" for d e j k
      using old [OF that(1)] old [OF that(2)] that(3) lines_inj [OF ls(1), of d _ e] by auto
    show "slab_inv (sb ?s)" using ls(1) by (simp add: lines_ok_def)
    show "finite (dom (caches ?s))" "used_bytes ?s = 512 * of_nat (card (dom (caches ?s)))"
      unfolding d using ls(1) by (simp_all add: lines_ok_def)
  qed
  ultimately show ?thesis by (simp add: cache_ok_def)
qed

section \<open>Eviction\<close>

text \<open>
  The specification. \<open>notice\<close> is what another worker is told: a request for a block, or bytes stored at an
  address of its memory. \<open>home c\<close> is the connection to the home of block \<open>c\<close> and \<open>dest c\<close> the address of the
  block there.
\<close>

datatype notice = Told client Work gaddr | Stored client ptr "u8 list"

fun notice_of :: "outgoing \<Rightarrow> notice" where
  "notice_of (OSend c w) = Told c (wr_op w) (wr_addr w)"
| "notice_of (OWrite c p bs) = Stored c p bs"
| "notice_of (OWriteImm c p bs i j) = Stored c p bs"

type_synonym cache_abs = "(gaddr \<rightharpoonup> CacheState \<times> locktab \<times> u8 list) \<times> notice list"

definition abs_cache :: "Worker \<Rightarrow> cache_abs" where
  "abs_cache s = (cache_view s, map notice_of (outbox s))"

inductive evict_step :: "(gaddr \<Rightarrow> client) \<Rightarrow> (gaddr \<Rightarrow> ptr) \<Rightarrow> cache_abs \<Rightarrow> cache_abs \<Rightarrow> bool" for home dest where
  drop_shared: "V c = Some (CACHE_SHARED, [], bs) \<Longrightarrow>
    evict_step home dest (V, out) (V(c := None), out @ [Told (home c) ACTIVE_INVALIDATE c])"
| write_back: "V c = Some (CACHE_DIRTY, [], bs) \<Longrightarrow>
    evict_step home dest (V, out) (V(c \<mapsto> (CACHE_TO_INVALID, [], bs)), out @ [Stored (home c) (dest c) bs, Told (home c) WRITE_BACK c])"

definition homes :: "Worker \<Rightarrow> (gaddr \<Rightarrow> client) \<Rightarrow> (gaddr \<Rightarrow> ptr) \<Rightarrow> bool" where
  "homes s home dest \<longleftrightarrow> (\<forall>c \<in> dom (caches s). GetClient s c = Some (home c) \<and> cli_ToLocal s (home c) c = Some (dest c))"

lemma homes_fields:
  assumes "homes s home dest" "dom (caches s') \<subseteq> dom (caches s)"
    and "widCliMap s' = widCliMap s" "widCliMapWorker s' = widCliMapWorker s" "my_wid s' = my_wid s"
  shows "homes s' home dest"
  using assms(1,2) GetClient_fields [OF assms(3-5)] unfolding homes_def by (metis subsetD)

lemma cache_view_dom: "dom (cache_view s) = dom (caches s)"
  by (auto simp: cache_view_def)

lemma Evict_shared_ok:
  assumes ok: "cache_ok s L" and c: "caches s c = Some l" "\<forall>i. c \<notin> set (L i)" and l: "cl_locks l = []" "cl_state l = CACHE_SHARED"
    and h: "homes s home dest"
  shows "\<exists>s'. Evict_line s c = Some s' \<and> cache_ok s' L \<and> homes s' home dest \<and> evict_step home dest (abs_cache s) (abs_cache s')"
proof -
  have a: "cl_addr l = c" using ok c(1) lines_block by (auto simp: cache_ok_def)
  have cl: "GetClient s c = Some (home c)" using h c(1) by (auto simp: homes_def)
  let ?w = "new_WorkRequest\<lparr>wr_addr := c, wr_ptr := cl_line l, wr_op := ACTIVE_INVALIDATE\<rparr>"
  let ?s = "s\<lparr>next_req := next_req s + 1, reqs := (reqs s)(next_req s \<mapsto> ?w)\<rparr>"
  obtain s1 where t: "Cache_ToInvalid ?s c = Some s1" "cache_ok s1 (\<lambda>i. remove1 c (L i))" "cache_view s1 = (cache_view ?s)(c := None)"
    "reqs s1 = reqs ?s" "outbox s1 = outbox ?s" "widCliMap s1 = widCliMap ?s" "widCliMapWorker s1 = widCliMapWorker ?s" "my_wid s1 = my_wid ?s"
    using Cache_ToInvalid_ok [of ?s L c l] cache_ok_fields [of ?s s L] ok c by auto
  let ?s' = "delete_wr (s1\<lparr>reqs := (reqs s1)(next_req s \<mapsto> ?w\<lparr>wr_wid := my_wid s1\<rparr>), outbox := outbox s1 @ [OSend (home c) (?w\<lparr>wr_wid := my_wid s1\<rparr>)]\<rparr>) (next_req s)"
  have g: "GetClient (s\<lparr>reqs := q, next_req := n\<rparr>) c = Some (home c)" for q n 
    using cl GetClient_fields(1) [of "s\<lparr>reqs := q, next_req := n\<rparr>" s c] by simp
  have run: "Evict_line s c = Some ?s'"
    using c(1) a cl l t(1) SubmitPlain_eq [of s1 "next_req s" ?w "home c"] t(4)
    by (simp add: Evict_line_def alloc_wr_def upd_wr_def g)
  have v: "cache_view ?s' = (cache_view s)(c := None)" using t(3) by (simp add: cache_view_def delete_wr_def fun_eq_iff)
  have "cache_ok ?s' L" using t(2) remove1_absent [OF c(2)] cache_ok_fields [of ?s' s1 L] by (simp add: delete_wr_def)
  moreover have "homes ?s' home dest"
    using homes_fields [OF h, of ?s'] t(6-8) arg_cong [OF v, of dom] by (auto simp: delete_wr_def cache_view_dom)
  moreover have "evict_step home dest (abs_cache s) (abs_cache ?s')"
    using drop_shared [of "cache_view s" c _ home dest "map notice_of (outbox s)"] v t(5) c(1) l
    by (simp add: abs_cache_def delete_wr_def cache_view_def line_seen_def)
  ultimately show ?thesis using run by blast
qed

lemma Evict_dirty_ok:
  assumes ok: "cache_ok s L" and c: "caches s c = Some l" and l: "cl_locks l = []" "cl_state l = CACHE_DIRTY"
    and h: "homes s home dest"
  shows "\<exists>s'. Evict_line s c = Some s' \<and> cache_ok s' L \<and> homes s' home dest \<and> evict_step home dest (abs_cache s) (abs_cache s')"
proof -
  have a: "cl_addr l = c" using ok c(1) lines_block by (auto simp: cache_ok_def)
  have cl: "GetClient s c = Some (home c)" "cli_ToLocal s (home c) c = Some (dest c)" using h c(1) by (auto simp: homes_def)
  let ?w = "new_WorkRequest\<lparr>wr_addr := c, wr_ptr := cl_line l, wr_op := WRITE_BACK\<rparr>"
  let ?l = "l\<lparr>cl_state := CACHE_TO_INVALID\<rparr>" and ?bs = "mem_read (mem s) (cl_line l) 512"
  have g: "GetClient (s\<lparr>next_req := n, reqs := q\<rparr>) c = Some (home c)" "GetClient (s\<lparr>reqs := q, next_req := n\<rparr>) c = Some (home c)"
    "cli_ToLocal (s\<lparr>next_req := n, reqs := q\<rparr>) (home c) c = Some (dest c)" for q n
    using cl GetClient_fields [of "s\<lparr>reqs := q, next_req := n\<rparr>" s] GetClient_fields [of "s\<lparr>next_req := n, reqs := q\<rparr>" s] by simp_all
  define s1 where "s1 = s\<lparr>next_req := next_req s + 1, reqs := (reqs s)(next_req s \<mapsto> ?w), outbox := outbox s @ [OWrite (home c) (dest c) ?bs],
    caches := (caches s)(c \<mapsto> ?l), to_evicted := to_evicted s + 1\<rparr>"
  have r: "reqs s1 (next_req s) = Some ?w" "\<not> is_reply (wr_op ?w)" by (simp_all add: s1_def is_reply_def work_code_def)
  obtain v s' where s': "SubmitPending s1 (Some (home c)) (next_req s) = Some s'" "outbox s' = outbox s1 @ [OSend (home c) v]"
      "wr_op v = WRITE_BACK" "wr_addr v = c" "caches s' = caches s1" "heads s' = heads s1" "tails s' = tails s1" "sb s' = sb s1" "mem s' = mem s1"
      "used_bytes s' = used_bytes s1" "widCliMap s' = widCliMap s1" "widCliMapWorker s' = widCliMapWorker s1" "my_wid s' = my_wid s1"
    using SubmitPending_eq [OF r, of "home c"] by (simp add: Let_def)
  have run: "Evict_line s c = Some s'"
    using c(1) a l s'(1) g by (simp add: Evict_line_def alloc_wr_def upd_wr_def cli_Write_def emit_def Cache_ToToInvalid_def upd_line_def BLOCK_SIZE_eq s1_def)
  have "cache_ok (s\<lparr>caches := (caches s)(c \<mapsto> ?l)\<rparr>) L" using cache_ok_line [OF ok c(1), of ?l] by (simp add: line_link_def)
  then have "cache_ok s' L" using cache_ok_fields [of s' "s\<lparr>caches := (caches s)(c \<mapsto> ?l)\<rparr>" L] s' by (simp add: s1_def)
  moreover have "homes s' home dest" using homes_fields [OF h, of s'] s' c(1) by (auto simp: s1_def)
  moreover have "cache_view s' = (cache_view s)(c \<mapsto> (CACHE_TO_INVALID, [], ?bs))"
    using s' l by (auto simp: cache_view_def line_seen_def s1_def intro!: ext)
  then have "evict_step home dest (abs_cache s) (abs_cache s')"
    using write_back [of "cache_view s" c ?bs home dest "map notice_of (outbox s)"] s' c(1) l
    by (simp add: abs_cache_def cache_view_def line_seen_def s1_def)
  ultimately show ?thesis using run by blast
qed

text \<open>A step of the specification, or none.\<close>

definition evicts :: "(gaddr \<Rightarrow> client) \<Rightarrow> (gaddr \<Rightarrow> ptr) \<Rightarrow> nat \<Rightarrow> cache_abs \<Rightarrow> cache_abs \<Rightarrow> bool" where
  "evicts home dest n a b \<longleftrightarrow> (\<exists>k \<le> n. (evict_step home dest ^^ k) a b)"

lemma evicts_refl: "evicts home dest n a a"
  by (auto simp: evicts_def intro: exI [of _ 0])

lemma evicts_step: "evicts home dest (Suc 0) a b \<Longrightarrow> evicts home dest n b c \<Longrightarrow> evicts home dest (Suc n) a c"
proof -
  assume "evicts home dest (Suc 0) a b" "evicts home dest n b c"
  then obtain j k where "j \<le> Suc 0" "(evict_step home dest ^^ j) a b" "k \<le> n" "(evict_step home dest ^^ k) b c" by (auto simp: evicts_def)
  then have "(evict_step home dest ^^ (j + k)) a c" "j + k \<le> Suc n" by (auto simp: relpowp_add)
  then show ?thesis unfolding evicts_def by blast
qed

lemma evicts_more: "evicts home dest n a b \<Longrightarrow> n \<le> m \<Longrightarrow> evicts home dest m a b"
  unfolding evicts_def using order_trans by blast

lemma Evict_line_ok:
  assumes ok: "cache_ok s L" and c: "caches s c = Some l" "\<forall>i. c \<notin> set (L i)" and l: "cl_locks l = []"
    and h: "homes s home dest"
  shows "\<exists>s'. Evict_line s c = Some s' \<and> cache_ok s' L \<and> homes s' home dest \<and> evicts home dest (Suc 0) (abs_cache s) (abs_cache s')"
proof -
  have one: "evict_step home dest (abs_cache s) b \<Longrightarrow> evicts home dest (Suc 0) (abs_cache s) b" for b
    unfolding evicts_def by (intro exI [of _ "Suc 0"]) auto
  consider "cl_state l = CACHE_SHARED" | "cl_state l = CACHE_DIRTY" | "cl_state l \<noteq> CACHE_SHARED" "cl_state l \<noteq> CACHE_DIRTY" by blast
  then show ?thesis
  proof cases
    case 3
    let ?s = "s\<lparr>next_req := next_req s + 1, reqs := (reqs s)(next_req s \<mapsto> new_WorkRequest\<lparr>wr_addr := cl_addr l, wr_ptr := cl_line l\<rparr>)\<rparr>"
    have "Evict_line s c = Some ?s" using c 3 by (simp add: Evict_line_def alloc_wr_def)
    moreover have "cache_ok ?s L" using ok cache_ok_fields [of ?s s L] by simp
    moreover have "homes ?s home dest" using homes_fields [OF h, of ?s] by simp
    moreover have "abs_cache ?s = abs_cache s" by (simp add: abs_cache_def cache_view_def fun_eq_iff)
    ultimately show ?thesis using evicts_refl by metis
  qed (use one Evict_shared_ok [OF ok c l _ h] Evict_dirty_ok [OF ok c(1) l _ h] in blast)+
qed

lemma cache_ok_core:
  assumes "core s' = core s" "lru_ok s' L'" "cache_ok s L"
  shows "cache_ok s' L'"
  using lines_ok_core [OF assms(1)] assms(2,3) by (simp add: cache_ok_def)

lemma homes_core: "core s' = core s \<Longrightarrow> homes s home dest \<Longrightarrow> homes s' home dest"
  using homes_fields [of s home dest s'] core_dom [of s' s] coreD(7-9) [of s' s] by simp

lemma abs_cache_core: "core s' = core s \<Longrightarrow> abs_cache s' = abs_cache s"
  using cache_view_core [of s' s] coreD(5) [of s' s] by (simp add: abs_cache_def)

lemma core_tick [simp]: "core (s\<lparr>tick := n\<rparr>) = core s"
  by (simp add: core_def)

text \<open>The victim: the tail of a list, unlocked and in no transition, if there is such a line to take.\<close>

lemma evict_victim_ok:
  assumes ok: "cache_ok s L" and t: "tails s i = Some c" and h: "homes s home dest"
  shows "\<exists>l. caches s c = Some l \<and> cl_pos l = int i \<and> (\<exists>s1. UnLinkLRU_at s c i = Some s1 \<and>
    (cl_locks l = [] \<longrightarrow> (\<exists>s'. Evict_line s1 c = Some s' \<and> cache_ok s' (\<lambda>j. remove1 c (L j)) \<and> homes s' home dest \<and>
       evicts home dest (Suc 0) (abs_cache s) (abs_cache s'))))"
proof -
  have L: "lru_ok s L" "list_ok s i (L i)" using ok by (simp_all add: cache_ok_def lru_ok_def)
  then have c: "c \<in> set (L i)" using t last_or_in [of None "L i" c] by (cases "L i = []") (auto simp: list_ok_def)
  obtain l where l: "caches s c = Some l" "cl_pos l = int i"
    using lseg_pos [of "links s" i None "L i" None c] L(2) c by (auto simp: list_ok_def links_Some line_link_def)
  obtain s1 where u: "UnLinkLRU_at s c i = Some s1" "lru_ok s1 (\<lambda>j. remove1 c (L j))" "core s1 = core s"
    using unlink_at_ok [OF L(1) c] by blast
  obtain l1 where l1: "caches s1 c = Some l1" "bare l1 = bare l" using core_line [OF u(3) l(1)] by blast
  have "\<exists>s'. Evict_line s1 c = Some s' \<and> cache_ok s' (\<lambda>j. remove1 c (L j)) \<and> homes s' home dest \<and> evicts home dest (Suc 0) (abs_cache s1) (abs_cache s')"
    if "cl_locks l = []"
    using Evict_line_ok [OF cache_ok_core [OF u(3,2) ok] l1(1) remove_absent [OF L(1)] _ homes_core [OF u(3) h]] bareD(4) [OF l1(2)] that by simp
  then show ?thesis using l u abs_cache_core [OF u(3)] by auto
qed

lemma evict_loop_ok:
  assumes "cache_ok s L" "homes s home dest"
  shows "\<exists>s' L'. evict_loop n s = Some s' \<and> cache_ok s' L' \<and> evicts home dest n (abs_cache s) (abs_cache s')"
  using assms
proof (induction n arbitrary: s L)
  case 0
  then show ?case using evicts_refl by auto
next
  case (Suc n)
  have tick: "cache_ok (s\<lparr>tick := t\<rparr>) L" "homes (s\<lparr>tick := t\<rparr>) home dest" "abs_cache (s\<lparr>tick := t\<rparr>) = abs_cache s" for t
    using cache_ok_fields [of "s\<lparr>tick := t\<rparr>" s] homes_core [of "s\<lparr>tick := t\<rparr>" s] abs_cache_core [of "s\<lparr>tick := t\<rparr>" s] Suc.prems by simp_all
  have again: "\<exists>s' L'. evict_loop n (s\<lparr>tick := t\<rparr>) = Some s' \<and> cache_ok s' L' \<and> evicts home dest (Suc n) (abs_cache s) (abs_cache s')" for t
  proof -
    obtain s' L' where e: "evict_loop n (s\<lparr>tick := t\<rparr>) = Some s'" "cache_ok s' L'" "evicts home dest n (abs_cache s) (abs_cache s')"
      using Suc.IH [OF tick(1,2), of t] by (auto simp: tick(3))
    then show ?thesis using evicts_more [OF e(3), of "Suc n"] by auto
  qed
  let ?i = "rand_at s (tick s) mod LRU_NUM" and ?t = "Suc (Suc (tick s))" and ?s = "s\<lparr>tick := Suc (Suc (Suc (tick s)))\<rparr>"
  show ?case
  proof (cases "try_lock_at s (Suc (tick s))")
    case False
    then show ?thesis using again [of ?t] by (simp add: GetRandom_def try_lock_def)
  next
    case lock: True
    show ?thesis
    proof (cases "tails s ?i")
      case None
      then have "evict_loop (Suc n) s = Some (s\<lparr>tick := ?t\<rparr>)" using lock by (simp add: GetRandom_def try_lock_def)
      then show ?thesis using tick [of ?t] evicts_refl by metis
    next
      case (Some c)
      obtain l s1 where v: "caches s c = Some l" "cl_pos l = int ?i" "UnLinkLRU_at ?s c ?i = Some s1"
        "cl_locks l = [] \<longrightarrow> (\<exists>s'. Evict_line s1 c = Some s' \<and> cache_ok s' (\<lambda>j. remove1 c (L j)) \<and> homes s' home dest \<and>
           evicts home dest (Suc 0) (abs_cache s) (abs_cache s'))"
        using evict_victim_ok [OF tick(1), of "Suc (Suc (Suc (tick s)))" ?i c home dest] Some tick(2,3) by auto
      show ?thesis
      proof (cases "try_lock_at s ?t \<and> cl_locks l = [] \<and> \<not> Cache_InTransition (cl_state l)")
        case False
        then show ?thesis using again [of "Suc ?t"] lock Some v(1) by (auto simp: GetRandom_def try_lock_def)
      next
        case True
        then obtain s' where e: "Evict_line s1 c = Some s'" "cache_ok s' (\<lambda>j. remove1 c (L j))" "homes s' home dest"
          "evicts home dest (Suc 0) (abs_cache s) (abs_cache s')" using v(4) by blast
        have r: "evict_loop (Suc n) s = evict_loop n s'" using True lock Some v e(1) by (simp add: GetRandom_def try_lock_def)
        show ?thesis unfolding r using Suc.IH [OF e(2,3)] evicts_step [OF e(4), of n] by metis
      qed
    qed
  qed
qed

text \<open>
  C35. Eviction implements its specification. In a consistent cache whose homes are connected, \<^verbatim>\<open>Evict(n)\<close>
  returns, leaves the cache consistent and takes at most \<open>n\<close>, and at most 16, steps of the specification:
  a step drops an unlocked shared block and tells its home, or stores the bytes of an unlocked dirty block
  in its home's memory, tells the home, and keeps the line, in transition, until the home answers. No
  other block changes its state, its locks or its bytes, and nothing else is sent.
\<close>

theorem evict_refines:
  assumes "cache_ok s L" "homes s home dest"
  shows "\<exists>s' L' k. Evict_n s n = Some s' \<and> cache_ok s' L' \<and> k \<le> 16 \<and> k \<le> nat n \<and> (evict_step home dest ^^ k) (abs_cache s) (abs_cache s')"
proof -
  have stay: "\<exists>L' k. cache_ok s L' \<and> k \<le> 16 \<and> k \<le> nat n \<and> (evict_step home dest ^^ k) (abs_cache s) (abs_cache s)"
    using assms(1) by (intro exI [of _ L] exI [of _ 0]) simp
  have loop: "\<exists>s' L' k. evict_loop (nat m) s = Some s' \<and> cache_ok s' L' \<and> k \<le> 16 \<and> k \<le> nat n \<and> (evict_step home dest ^^ k) (abs_cache s) (abs_cache s')"
    if "m \<le> 16" "m \<le> n" for m
  proof -
    obtain s' L' k where "evict_loop (nat m) s = Some s'" "cache_ok s' L'" "k \<le> nat m" "(evict_step home dest ^^ k) (abs_cache s) (abs_cache s')"
      using evict_loop_ok [OF assms, of "nat m"] by (auto simp: evicts_def)
    then show ?thesis using that by (intro exI [of _ s'] exI [of _ L'] exI [of _ k]) auto
  qed
  show ?thesis using stay loop by (auto simp: Evict_n_def Let_def)
qed

text \<open>A cache of one shared line, of a block of worker 2, that is over its limit.\<close>

definition one_line :: "ptr \<Rightarrow> SlabAllocator \<Rightarrow> Worker" where
  "one_line p a = idle_worker\<lparr>caches := [562949953421824 \<mapsto> new_CacheLine\<lparr>cl_line := p, cl_addr := 562949953421824,
       cl_state := CACHE_SHARED, cl_pos := 0\<rparr>],
     used_bytes := 512, max_cache_mem := 0, sb := a,
     heads := (\<lambda>_. None)(0 := Some 562949953421824), tails := (\<lambda>_. None)(0 := Some 562949953421824)\<rparr>"

lemma one_line_ok:
  assumes "slab_inv a" "live a p = Some n" "512 \<le> n"
  shows "cache_ok (one_line p a) ((\<lambda>_. [])(0 := [562949953421824]))" "homes (one_line p a) (\<lambda>_. Peer 2) (\<lambda>_. 131584)"
proof -
  have "lru_ok (one_line p a) ((\<lambda>_. [])(0 := [562949953421824]))"
    by (auto simp: lru_ok_def list_ok_def one_line_def links_def line_link_def new_CacheLine_def)
  moreover have "lines_ok (one_line p a)" using assms by (auto simp: lines_ok_def line_block_def one_line_def)
  ultimately show "cache_ok (one_line p a) ((\<lambda>_. [])(0 := [562949953421824]))" by (simp add: cache_ok_def)
  have "WID 562949953421824 = 2" "TO_LOCAL 562949953421824 131072 = 131584" by code_simp+
  then show "homes (one_line p a) (\<lambda>_. Peer 2) (\<lambda>_. 131584)"
    by (simp add: homes_def one_line_def idle_worker_def GetClient_def cli_ToLocal_def cli_info_def)
qed

lemma small_line: "\<exists>a n. slab_inv a \<and> live a 528384 = Some n \<and> 512 \<le> n"
proof -
  have "map_option fst (sb_malloc small_allocator 600) = Some 528384" by code_simp
  then obtain a where "sb_malloc small_allocator 600 = Some (528384, a)" by auto
  then obtain n where "slab_inv a" "600 \<le> n" "live a 528384 = Some n" using sb_malloc_ok [OF small_allocator_inv(1), of 600] by auto
  then show ?thesis by (intro exI [of _ a] exI [of _ n]) simp
qed

theorem evict_refines_witness:
  "\<exists>p a s' L' k. Evict_n (one_line p a) 5 = Some s' \<and> cache_ok s' L' \<and> k \<le> 5 \<and>
     (evict_step (\<lambda>_. Peer 2) (\<lambda>_. 131584) ^^ k) (abs_cache (one_line p a)) (abs_cache s')"
proof -
  obtain a n where n: "slab_inv a" "live a 528384 = Some n" "512 \<le> n" using small_line by blast
  obtain s' L' k where "Evict_n (one_line 528384 a) 5 = Some s'" "cache_ok s' L'" "k \<le> nat 5"
    "(evict_step (\<lambda>_. Peer 2) (\<lambda>_. 131584) ^^ k) (abs_cache (one_line 528384 a)) (abs_cache s')"
    using evict_refines [OF one_line_ok [OF n], of 5] by auto
  then show ?thesis by (intro exI [of _ "528384 :: ptr"] exI [of _ a] exI [of _ s'] exI [of _ L'] exI [of _ k]) simp
qed

end
