(* ===== verification/Gam_Access.thy ===== *)
theory Gam_Access
  imports Gam_Local Gam_Evict
begin

text \<open>
  Reads and writes as operations on whole ranges. The handlers copy a request block by block; here the
  copies are put together: a read or write at home is one copy between the buffer and the home's memory,
  and a read of cached blocks gathers the bytes of their lines.
\<close>

section \<open>Copies in pieces\<close>

text \<open>The blocks \<open>bs\<close> cut the addresses from \<open>c\<close> to the end \<open>e\<close> of a request into consecutive pieces.\<close>

fun tiles :: "gaddr \<Rightarrow> gaddr \<Rightarrow> nat \<Rightarrow> gaddr list \<Rightarrow> bool" where
  "tiles start e c [] \<longleftrightarrow> c = unat e"
| "tiles start e c (b # bs) \<longleftrightarrow> unat (seg_start start b) = c \<and> unat b \<le> c \<and> c + seg_len start e b \<le> min (unat e) (unat b + 512) \<and>
     BLOCK_ALIGNED b \<and> tiles start e (c + seg_len start e b) bs"

lemma block_loop_tiles:
  assumes "BLOCK_ALIGNED i" "unat e + 512 \<le> 2 ^ 64" "start \<le> e" "unat start < unat i + 512" "unat e \<le> unat i + 512 * n"
  shows "\<exists>bs. block_loop n i e = Some bs \<and> tiles start e (min (unat e) (max (unat i) (unat start))) bs \<and>
    (\<forall>b \<in> set bs. i \<le> b \<and> b < e)"
  using assms
proof (induction n arbitrary: i)
  case 0
  then show ?case by (auto simp: word_less_nat_alt word_le_nat_alt)
next
  case (Suc n)
  show ?case
  proof (cases "i < e")
    case False
    then show ?thesis using Suc.prems(3) by (auto simp: word_less_nat_alt word_le_nat_alt)
  next
    case True
    have nb: "unat (BADD i 1) = unat i + 512" using Suc.prems True by (intro unat_BADD1) (simp_all add: word_less_nat_alt)
    have c: "min (unat e) (max (unat (BADD i 1)) (unat start)) = min (unat e) (unat i + 512)" using Suc.prems(4) by (simp add: nb max_def)
    obtain bs where bs: "block_loop n (BADD i 1) e = Some bs" "tiles start e (min (unat e) (unat i + 512)) bs" "\<forall>b \<in> set bs. BADD i 1 \<le> b \<and> b < e"
      using Suc.IH [of "BADD i 1"] Suc.prems BADD_aligned [of i 1] unfolding c by (auto simp: nb)
    have gs: "unat (seg_start start i) = max (unat i) (unat start)" by (auto simp: seg_start_def word_less_nat_alt)
    have le: "max (unat i) (unat start) \<le> min (unat e) (unat i + 512)"
      using True Suc.prems(3,4) by (auto simp: word_less_nat_alt word_le_nat_alt)
    have l: "seg_len start e i = min (unat e) (unat i + 512) - max (unat i) (unat start)" using seg_len_eq [OF Suc.prems(1,2) True Suc.prems(3,4)] .
    have "i \<le> BADD i 1" using nb by (simp add: word_le_nat_alt)
    then show ?thesis using True bs gs le l Suc.prems(1) by (auto intro: order_trans)
  qed
qed

lemma blocks_of_tiles:
  assumes "unat start + unat sz + 512 \<le> 2 ^ 64"
  shows "\<exists>bs. blocks_of start sz = Some bs \<and> tiles start (GADD start sz) (unat start) bs \<and> unat (GADD start sz) = unat start + unat sz \<and>
    (\<forall>b \<in> set bs. TOBLOCK start \<le> b \<and> b < GADD start sz)"
proof -
  have e: "unat (GADD start sz) = unat start + unat sz" unfolding GADD_def using assms by (intro unat_add_no_wrap) simp
  have b: "unat (TOBLOCK start) \<le> unat start" "unat start < unat (TOBLOCK start) + 512"
    by (simp_all add: unat_TOBLOCK div_times_less_eq_dividend dividend_less_div_times)
  then have "min (unat (GADD start sz)) (max (unat (TOBLOCK start)) (unat start)) = unat start" by (simp add: e)
  then show ?thesis
    unfolding blocks_of_def using block_loop_tiles [of "TOBLOCK start" "GADD start sz" start "unat sz div 512 + 2"] assms b e
    by (auto simp: word_le_nat_alt)
qed

lemma memcpy_append:
  assumes "apart d (a + b) s (a + b)" "a + b \<le> 2 ^ 64"
  shows "memcpy (memcpy m d s a) (d + of_nat a) (s + of_nat a) b = memcpy m d s (a + b)"
proof
  fix x
  let ?k = "unat (x - d)"
  have x: "x = d + of_nat ?k" by simp
  have src: "memcpy m d s a (s + of_nat j) = m (s + of_nat j)" if "j < a + b" for j
  proof (rule memcpy_out, rule ccontr)
    assume "\<not> a \<le> unat (s + of_nat j - d)"
    then have "d + of_nat (unat (s + of_nat j - d)) \<noteq> s + of_nat j" using assms(1) that unfolding apart_def by (metis not_le trans_less_add1)
    then show False by simp
  qed
  consider "?k < a" | "a \<le> ?k" "?k < a + b" | "a + b \<le> ?k" by linarith
  then show "memcpy (memcpy m d s a) (d + of_nat a) (s + of_nat a) b x = memcpy m d s (a + b) x"
  proof cases
    case 1
    then have "unat (x - (d + of_nat a)) \<ge> b"
    proof -
      have "x - (d + of_nat a) = of_nat ?k - of_nat a" by simp
      also have "\<dots> = of_nat (2 ^ 64 + ?k - a)" using 1 assms(2) by (simp add: of_nat_diff)
      finally have e: "x - (d + of_nat a) = of_nat (2 ^ 64 + ?k - a)" .
      have "unat (x - (d + of_nat a)) = 2 ^ 64 + ?k - a"
        unfolding e unat_of_nat using 1 assms(2) by (intro mod_less) simp
      then show ?thesis using 1 assms(2) by linarith
    qed
    then show ?thesis using 1 assms(2) memcpy_in [of ?k a m d s] memcpy_in [of ?k "a + b" m d s] x by (simp add: memcpy_out)
  next
    case 2
    then have k: "x = (d + of_nat a) + of_nat (?k - a)" using x by (simp add: of_nat_diff)
    have "memcpy (memcpy m d s a) (d + of_nat a) (s + of_nat a) b x = memcpy m d s a ((s + of_nat a) + of_nat (?k - a))"
      using 2 assms(2) by (subst k) (rule memcpy_in, linarith+)
    also have "(s + of_nat a) + of_nat (?k - a) = s + of_nat ?k" using 2 by (simp add: of_nat_diff)
    finally show ?thesis using src [of ?k] 2 assms(2) memcpy_in [of ?k "a + b" m d s] x by simp
  next
    case 3
    have "a < 2 ^ 64" using 3 unat_bound [of "x - d"] by simp
    then have u: "unat (of_nat a :: u64) = a" by (simp add: unat_of_nat)
    have "x - (d + of_nat a) = (x - d) - of_nat a" by simp
    then have "unat (x - (d + of_nat a)) = ?k - a" using unat_sub_le [of "of_nat a" "x - d"] 3 u by (simp only: word_le_nat_alt)
    then show ?thesis using 3 by (simp add: memcpy_out)
  qed
qed

section \<open>At home\<close>

lemma OFF_add:
  assumes "unat (OFF a) + k < 2 ^ 48"
  shows "OFF (a + of_nat k) = OFF a + of_nat k"
proof (rule word_eqI_unat)
  have k: "k < 281474976710656" using assms by simp
  have o: "unat a mod 281474976710656 + k < 281474976710656" using assms by (simp add: unat_OFF)
  have s: "unat a = 281474976710656 * (unat a div 281474976710656) + unat a mod 281474976710656" by simp
  have "unat a div 281474976710656 < 65536" using unat_bound [of a] by (simp add: less_mult_imp_div_less)
  then have b: "unat a + k < 18446744073709551616" using s o by linarith
  then have "unat (a + of_nat k) = unat a + k" using k by (simp add: unat_word_ariths unat_of_nat)
  then have "unat (OFF (a + of_nat k)) = (unat a + k) mod 281474976710656" by (simp add: unat_OFF)
  also have "\<dots> = (unat a mod 281474976710656 + k) mod 281474976710656" by (simp only: mod_add_left_eq)
  also have "\<dots> = unat a mod 281474976710656 + k" using o by (rule mod_less)
  also have "\<dots> = unat (OFF a + of_nat k)" using o k by (simp add: unat_word_ariths unat_of_nat unat_OFF)
  finally show "unat (OFF (a + of_nat k)) = unat (OFF a + of_nat k)" .
qed

lemma ToLocal_add: "unat (OFF a) + k < 2 ^ 48 \<Longrightarrow> ToLocal s (a + of_nat k) = ToLocal s a + of_nat k"
  by (simp add: ToLocal_def TO_LOCAL_def OFF_add)

text \<open>The place of a piece in the buffer and in the home's memory.\<close>

lemma piece_buf: "unat (seg_start start b) = c \<Longrightarrow> unat start \<le> c \<Longrightarrow> seg_buf w start b = wr_ptr w + of_nat (c - unat start)"
  by (auto simp: seg_buf_def GMINUS_def of_nat_diff)

lemma piece_home:
  assumes "unat (seg_start start b) = c" "unat start \<le> c" "unat (OFF start) + (c - unat start) < 2 ^ 48"
  shows "ToLocal s (seg_start start b) = ToLocal s start + of_nat (c - unat start)"
proof -
  have "seg_start start b = start + of_nat (c - unat start)" using assms(1,2) by (auto simp: of_nat_diff)
  then show ?thesis using ToLocal_add [OF assms(3)] by simp
qed

definition at_rest :: "Worker \<Rightarrow> gaddr \<Rightarrow> DirState set \<Rightarrow> bool" where
  "at_rest s b S \<longleftrightarrow> GetState_e (directory s) (GetEntry (directory s) (ToLocal s b)) \<in> S"

lemma local_read_pieces:
  assumes w: "reqs s r = Some w" and t: "tiles start e c bs" "unat start \<le> c" and a: "apart (wr_ptr w) (unat e - unat start) (ToLocal s start) (unat e - unat start)"
    and o: "unat (OFF start) + (unat e - unat start) < 2 ^ 48" and rd: "\<forall>b \<in> set bs. at_rest s b {DIR_UNSHARED, DIR_SHARED}"
  shows "local_read_loop (s\<lparr>mem := memcpy (mem s) (wr_ptr w) (ToLocal s start) (c - unat start)\<rparr>) r start e bs =
    Some (Go (), s\<lparr>mem := memcpy (mem s) (wr_ptr w) (ToLocal s start) (unat e - unat start)\<rparr>)"
  using t rd
proof (induction bs arbitrary: c)
  case (Cons b bs)
  let ?n = "seg_len start e b" and ?m = "memcpy (mem s) (wr_ptr w) (ToLocal s start)" and ?A = "unat start"
  let ?s = "s\<lparr>mem := ?m (c - ?A)\<rparr>"
  have p: "unat (seg_start start b) = c" "c + ?n \<le> unat e" "tiles start e (c + ?n) bs" using Cons.prems(1) by auto
  have "c - ?A + ?n \<le> unat e - ?A" using p(2) Cons.prems(2) by simp
  then have ap: "apart (wr_ptr w) (c - ?A + ?n) (ToLocal s start) (c - ?A + ?n)" using a unfolding apart_def by (meson order_less_le_trans)
  have n: "c + ?n - ?A = c - ?A + ?n" using Cons.prems(2) by simp
  have h: "ToLocal s (seg_start start b) = ToLocal s start + of_nat (c - ?A)" using o p(2) by (intro piece_home [OF p(1) Cons.prems(2)]) linarith
  have "memcpy (?m (c - ?A)) (seg_buf w start b) (ToLocal s (seg_start start b)) ?n = ?m (c + ?n - ?A)"
    unfolding piece_buf [OF p(1) Cons.prems(2)] h n using p(2) unat_bound [of e] by (intro memcpy_append [OF ap]) simp
  moreover have "GetState_e (directory s) (GetEntry (directory s) (ToLocal s b)) \<in> {DIR_UNSHARED, DIR_SHARED}" using Cons.prems(3) by (simp add: at_rest_def)
  ultimately have "local_read_block ?s r start e b = Some (Go (), s\<lparr>mem := ?m (c + ?n - ?A)\<rparr>)"
    using w by (auto simp: local_read_block_def mcpy_def ToLocal_def InTransitionState_s_def)
  then show ?case using Cons.IH [OF p(3)] Cons.prems(2,3) by simp
qed simp

lemma local_write_pieces:
  assumes w: "reqs s r = Some w" "\<not> has w GFUNC" and t: "tiles start e c bs" "unat start \<le> c"
    and a: "apart (ToLocal s start) (unat e - unat start) (wr_ptr w) (unat e - unat start)"
    and o: "unat (OFF start) + (unat e - unat start) < 2 ^ 48" and rd: "\<forall>b \<in> set bs. at_rest s b {DIR_UNSHARED}"
  shows "local_write_loop (s\<lparr>mem := memcpy (mem s) (ToLocal s start) (wr_ptr w) (c - unat start)\<rparr>) r start e bs =
    Some (Go r, s\<lparr>mem := memcpy (mem s) (ToLocal s start) (wr_ptr w) (unat e - unat start)\<rparr>)"
  using t rd
proof (induction bs arbitrary: c)
  case (Cons b bs)
  let ?n = "seg_len start e b" and ?m = "memcpy (mem s) (ToLocal s start) (wr_ptr w)" and ?A = "unat start"
  let ?s = "s\<lparr>mem := ?m (c - ?A)\<rparr>"
  have p: "unat (seg_start start b) = c" "c + ?n \<le> unat e" "tiles start e (c + ?n) bs" using Cons.prems(1) by auto
  have "c - ?A + ?n \<le> unat e - ?A" using p(2) Cons.prems(2) by simp
  then have ap: "apart (ToLocal s start) (c - ?A + ?n) (wr_ptr w) (c - ?A + ?n)" using a unfolding apart_def by (meson order_less_le_trans)
  have n: "c + ?n - ?A = c - ?A + ?n" using Cons.prems(2) by simp
  have h: "ToLocal s (seg_start start b) = ToLocal s start + of_nat (c - ?A)" using o p(2) by (intro piece_home [OF p(1) Cons.prems(2)]) linarith
  have "memcpy (?m (c - ?A)) (ToLocal s (seg_start start b)) (seg_buf w start b) ?n = ?m (c + ?n - ?A)"
    unfolding piece_buf [OF p(1) Cons.prems(2)] h n using p(2) unat_bound [of e] by (intro memcpy_append [OF ap]) simp
  moreover have "GetState_e (directory s) (GetEntry (directory s) (ToLocal s b)) = DIR_UNSHARED" using Cons.prems(3) by (simp add: at_rest_def)
  ultimately have "local_write_block ?s r start e b = Some (Go r, s\<lparr>mem := ?m (c + ?n - ?A)\<rparr>)"
    using w by (auto simp: local_write_block_def mcpy_def ToLocal_def InTransitionState_s_def)
  then show ?case using Cons.IH [OF p(3)] Cons.prems(2,3) by simp
qed simp

text \<open>The range of a request, and that no part of it is in transition or needs another worker.\<close>

definition range_ok :: "WorkRequest \<Rightarrow> bool" where
  "range_ok w \<longleftrightarrow> unat (OFF (wr_addr w)) + unat (wr_size w) < 2 ^ 48 \<and> unat (wr_addr w) + unat (wr_size w) + 512 \<le> 2 ^ 64"

definition blocks_in :: "WorkRequest \<Rightarrow> gaddr set" where
  "blocks_in w = {b. TOBLOCK (wr_addr w) \<le> b \<and> b < GADD (wr_addr w) (wr_size w)}"

lemma memcpy_0 [simp]: "memcpy m d s 0 = m"
  by (simp add: memcpy_def mem_read_def)

lemma local_read_run:
  assumes w: "reqs s r = Some w" "IsLocal s (wr_addr w)" "\<not> has w TO_SERVE" "\<not> has w FENCE" "wr_counter w = 0" "range_ok w"
    and f: "fences s (wr_fd w) = Some f" "\<not> mfenced f"
    and a: "apart (wr_ptr w) (unat (wr_size w)) (ToLocal s (wr_addr w)) (unat (wr_size w))"
    and rd: "\<forall>b \<in> blocks_in w. at_rest s b {DIR_UNSHARED, DIR_SHARED}"
  shows "ProcessLocalRead n plr s r = Some (SUCCESS,
    count_read (s\<lparr>mem := memcpy (mem s) (wr_ptr w) (ToLocal s (wr_addr w)) (unat (wr_size w))\<rparr>) (w\<lparr>wr_hit := True\<rparr>))"
proof -
  obtain bs where bs: "blocks_of (wr_addr w) (wr_size w) = Some bs" "tiles (wr_addr w) (GADD (wr_addr w) (wr_size w)) (unat (wr_addr w)) bs"
    "unat (GADD (wr_addr w) (wr_size w)) = unat (wr_addr w) + unat (wr_size w)" "\<forall>b \<in> set bs. b \<in> blocks_in w"
    using blocks_of_tiles [of "wr_addr w" "wr_size w"] w(6) by (auto simp: range_ok_def blocks_in_def)
  have "local_read_loop s r (wr_addr w) (GADD (wr_addr w) (wr_size w)) bs =
      Some (Go (), s\<lparr>mem := memcpy (mem s) (wr_ptr w) (ToLocal s (wr_addr w)) (unat (wr_size w))\<rparr>)"
    using local_read_pieces [OF w(1) bs(2) order_refl] bs(3,4) a rd w(6) by (simp add: range_ok_def)
  then show ?thesis using w f bs(1)
    by (simp add: ProcessLocalRead_def serve_dec_def IsMFenced_def notify_deferred_def SUCCESS_def)
qed

text \<open>
  C37. A read at home. When no block of the range is in transition or owned by another worker, the handler
  copies exactly the bytes of the range, however many blocks they span, from the home's memory to the
  buffer of the request, counts a hit and reports success. It sends nothing and changes nothing else.
\<close>

theorem home_read_copies:
  assumes w: "reqs s r = Some w" "IsLocal s (wr_addr w)" "\<not> has w TO_SERVE" "\<not> has w FENCE" "wr_counter w = 0" "range_ok w"
    and f: "fences s (wr_fd w) = Some f" "\<not> mfenced f"
    and a: "apart (wr_ptr w) (unat (wr_size w)) (ToLocal s (wr_addr w)) (unat (wr_size w))"
    and rd: "\<forall>b \<in> blocks_in w. at_rest s b {DIR_UNSHARED, DIR_SHARED}"
  shows "ProcessLocalRead n plr s r = Some (SUCCESS,
    count_read (s\<lparr>mem := memcpy (mem s) (wr_ptr w) (ToLocal s (wr_addr w)) (unat (wr_size w))\<rparr>) (w\<lparr>wr_hit := True\<rparr>))"
  by (rule local_read_run [OF assms])

lemma home_write_loop:
  assumes w: "reqs s r = Some w" "\<not> has w GFUNC" "range_ok w"
    and a: "apart (ToLocal s (wr_addr w)) (unat (wr_size w)) (wr_ptr w) (unat (wr_size w))"
    and rd: "\<forall>b \<in> blocks_in w. at_rest s b {DIR_UNSHARED}"
  shows "\<exists>bs. blocks_of (wr_addr w) (wr_size w) = Some bs \<and> local_write_loop s r (wr_addr w) (GADD (wr_addr w) (wr_size w)) bs =
    Some (Go r, s\<lparr>mem := memcpy (mem s) (ToLocal s (wr_addr w)) (wr_ptr w) (unat (wr_size w))\<rparr>)"
proof -
  obtain bs where bs: "blocks_of (wr_addr w) (wr_size w) = Some bs" "tiles (wr_addr w) (GADD (wr_addr w) (wr_size w)) (unat (wr_addr w)) bs"
    "unat (GADD (wr_addr w) (wr_size w)) = unat (wr_addr w) + unat (wr_size w)" "\<forall>b \<in> set bs. b \<in> blocks_in w"
    using blocks_of_tiles [of "wr_addr w" "wr_size w"] w(3) by (auto simp: range_ok_def blocks_in_def)
  have "local_write_loop s r (wr_addr w) (GADD (wr_addr w) (wr_size w)) bs =
      Some (Go r, s\<lparr>mem := memcpy (mem s) (ToLocal s (wr_addr w)) (wr_ptr w) (unat (wr_size w))\<rparr>)"
    using local_write_pieces [OF w(1,2) bs(2) order_refl] bs(3,4) a rd w(3) by (simp add: range_ok_def)
  then show ?thesis using bs(1) by blast
qed

text \<open>\<^verbatim>\<open>GAlloc::Write\<close> is asynchronous: the write is counted at the fence of its thread while it runs.\<close>

lemma home_write_async:
  assumes w: "reqs s r = Some w" "wr_op w = WRITE" "IsLocal s (wr_addr w)" "has w ASYNC" "\<not> has w TO_SERVE" "\<not> has w FENCE" "\<not> has w COPY" "\<not> has w GFUNC"
      "wr_counter w = 0" "range_ok w"
    and f: "fences s (wr_fd w) = Some f" "\<not> mfenced f" "\<not> sfenced f"
    and a: "apart (ToLocal s (wr_addr w)) (unat (wr_size w)) (wr_ptr w) (unat (wr_size w))"
    and rd: "\<forall>b \<in> blocks_in w. at_rest s b {DIR_UNSHARED}"
  shows "ProcessLocalWrite n plr s r =
    Some (SUCCESS, count_write (s\<lparr>mem := memcpy (mem s) (ToLocal s (wr_addr w)) (wr_ptr w) (unat (wr_size w))\<rparr>) w)"
proof -
  let ?m = "memcpy (mem s) (ToLocal s (wr_addr w)) (wr_ptr w) (unat (wr_size w))" and ?fd = "wr_fd w"
  let ?s = "s\<lparr>fences := (fences s)(?fd \<mapsto> f\<lparr>pending_writes := pending_writes f + 1\<rparr>)\<rparr>"
  have l: "ToLocal ?s = ToLocal s" "IsLocal ?s = IsLocal s" by (simp_all add: ToLocal_def IsLocal_def fun_eq_iff)
  have "at_rest ?s b S = at_rest s b S" for b S by (simp add: at_rest_def l)
  then obtain bs where bs: "blocks_of (wr_addr w) (wr_size w) = Some bs" "local_write_loop ?s r (wr_addr w) (GADD (wr_addr w) (wr_size w)) bs = Some (Go r, ?s\<lparr>mem := ?m\<rparr>)"
    using home_write_loop [of ?s r w] w a rd by (auto simp: l)
  have fe: "(fences s)(?fd \<mapsto> f) = fences s" using f(1) by (simp add: fun_upd_idem)
  have "Notify n plr (?s\<lparr>mem := ?m\<rparr>) r = Some (count_write (s\<lparr>mem := ?m\<rparr>) w)"
    using w f fe by (simp add: Notify_def upd_fence_def ProcessFenced_def count_write_def bump_def IsLocal_def)
  then show ?thesis using w f bs l by (simp add: ProcessLocalWrite_def upd_fence_def serve_dec_def IsFenced_def SUCCESS_def)
qed

text \<open>
  C38. A write at home. When no other worker holds a copy of a block of the range, the handler copies
  exactly the bytes of the buffer into the home's memory, however many blocks they span, and reports
  success. It sends nothing and changes nothing else.
\<close>

theorem home_write_stores:
  assumes w: "reqs s r = Some w" "IsLocal s (wr_addr w)" "\<not> has w TO_SERVE" "\<not> has w FENCE" "\<not> has w ASYNC" "\<not> has w GFUNC"
      "wr_counter w = 0" "range_ok w"
    and f: "fences s (wr_fd w) = Some f" "\<not> mfenced f" "\<not> sfenced f"
    and a: "apart (ToLocal s (wr_addr w)) (unat (wr_size w)) (wr_ptr w) (unat (wr_size w))"
    and rd: "\<forall>b \<in> blocks_in w. at_rest s b {DIR_UNSHARED}"
  shows "ProcessLocalWrite n plr s r =
    Some (SUCCESS, s\<lparr>mem := memcpy (mem s) (ToLocal s (wr_addr w)) (wr_ptr w) (unat (wr_size w))\<rparr>)"
  using home_write_loop [OF w(1,6,8) a rd] w f by (auto simp: ProcessLocalWrite_def serve_dec_def IsFenced_def SUCCESS_def)

section \<open>In the cache\<close>

text \<open>The byte of the global address \<open>a\<close> in the line of its block, and where it is.\<close>

definition byte_at :: "(gaddr \<Rightarrow> ptr) \<Rightarrow> gaddr \<Rightarrow> ptr" where
  "byte_at line a = line (TOBLOCK a) + (a - TOBLOCK a)"

definition line_of :: "Worker \<Rightarrow> gaddr \<Rightarrow> ptr" where
  "line_of s b = (case caches s b of None \<Rightarrow> 0 | Some l \<Rightarrow> cl_line l)"

definition cached_byte :: "Worker \<Rightarrow> gaddr \<Rightarrow> u8" where
  "cached_byte s a = mem s (byte_at (line_of s) a)"

text \<open>The memory after the bytes at addresses from \<open>c\<close> to \<open>B\<close> of a request that starts at \<open>A\<close> have been gathered in its buffer.\<close>

definition gather :: "memory \<Rightarrow> ptr \<Rightarrow> (nat \<Rightarrow> ptr) \<Rightarrow> nat \<Rightarrow> nat \<Rightarrow> nat \<Rightarrow> memory" where
  "gather m buf src A c B = (\<lambda>x. if c - A \<le> unat (x - buf) \<and> unat (x - buf) < B - A then m (src (A + unat (x - buf))) else m x)"

lemma gather_step:
  assumes "A \<le> c" "c + n \<le> B" "B < 2 ^ 64" and src: "\<forall>t<n. p + of_nat t = src (c + t)"
    and out: "\<forall>a. A \<le> a \<longrightarrow> a < B \<longrightarrow> B - A \<le> unat (src a - buf)"
  shows "gather (memcpy m (buf + of_nat (c - A)) p n) buf src A (c + n) B = gather m buf src A c B"
proof
  fix x
  let ?k = "unat (x - buf)" and ?d = "buf + of_nat (c - A)"
  have u: "unat (of_nat (c - A) :: u64) = c - A" unfolding unat_of_nat using assms(1-3) by (intro mod_less) simp
  have far: "memcpy m ?d p n y = m y" if "unat (y - buf) < c - A \<or> c + n - A \<le> unat (y - buf)" for y
  proof (rule memcpy_out)
    have e: "y - ?d = (y - buf) - of_nat (c - A)" by simp
    show "n \<le> unat (y - ?d)"
    proof (cases "c - A \<le> unat (y - buf)")
      case True
      then have "unat (y - ?d) = unat (y - buf) - (c - A)" unfolding e using unat_sub_le [of "of_nat (c - A)" "y - buf"] u by (simp only: word_le_nat_alt)
      then show ?thesis using that True assms(1) by linarith
    next
      case False
      have w: "of_nat (c - A) - (y - buf) = (of_nat (c - A - unat (y - buf)) :: u64)" using False by (simp add: of_nat_diff)
      have "y - ?d = - (of_nat (c - A) - (y - buf))" by simp
      also have "\<dots> = - of_nat (c - A - unat (y - buf))" unfolding w ..
      also have "\<dots> = of_nat (2 ^ 64 - (c - A - unat (y - buf)))" using False assms(1-3) by (simp add: of_nat_diff)
      finally have z: "y - ?d = of_nat (2 ^ 64 - (c - A - unat (y - buf)))" .
      have "unat (y - ?d) = 2 ^ 64 - (c - A - unat (y - buf))" unfolding z unat_of_nat using False by (intro mod_less) simp
      then show ?thesis using assms(1-3) by linarith
    qed
  qed
  consider "?k < c - A" | "c - A \<le> ?k" "?k < c + n - A" | "c + n - A \<le> ?k" by linarith
  then show "gather (memcpy m ?d p n) buf src A (c + n) B x = gather m buf src A c B x"
  proof cases
    case 1
    then have "\<not> c - A \<le> ?k" "\<not> c + n - A \<le> ?k" by linarith+
    then show ?thesis using far [of x] 1 by (simp add: gather_def)
  next
    case 2
    define t where "t = ?k - (c - A)"
    have t: "t < n" "?k = c - A + t" using 2 assms(1) by (auto simp: t_def)
    have "x = buf + of_nat ?k" by simp
    then have "x = ?d + of_nat t" using t(2) by (simp only: of_nat_add add.assoc)
    then have "memcpy m ?d p n x = m (p + of_nat t)" using memcpy_in [of t n m ?d p] t(1) assms(2,3) by simp
    also have "\<dots> = m (src (A + ?k))" using src t assms(1) by simp
    finally have "memcpy m ?d p n x = m (src (A + ?k))" .
    moreover have "?k < B - A" "\<not> c + n - A \<le> ?k" using 2 assms(1,2) by linarith+
    ultimately show ?thesis using 2(1) by (simp only: gather_def simp_thms if_True if_False)
  next
    case 3
    have "memcpy m ?d p n (src (A + ?k)) = m (src (A + ?k))" if "?k < B - A"
    proof (rule far)
      have "B - A \<le> unat (src (A + ?k) - buf)" using out that by simp
      then show "unat (src (A + ?k) - buf) < c - A \<or> c + n - A \<le> unat (src (A + ?k) - buf)" using assms(2) by linarith
    qed
    then show ?thesis using far [of x] 3 assms(1) by (simp add: gather_def)
  qed
qed

lemma relink_ok:
  assumes "lru_ok s L" "caches s c \<noteq> None"
  shows "\<exists>s' L'. relink s c = Some s' \<and> lru_ok s' L' \<and> core s' = core s"
  using lru.use_line_front [OF assms] by (auto simp: relink_def lru.use_line_def)

lemma line_of_core: "core s' = core s \<Longrightarrow> line_of s' = line_of s"
proof
  fix b assume e: "core s' = core s"
  show "line_of s' b = line_of s b"
  proof (cases "caches s b")
    case None
    then show ?thesis using core_known [OF e, of b] by (simp add: line_of_def)
  next
    case (Some l)
    then obtain l' where l': "caches s' b = Some l'" "bare l' = bare l" using core_line [OF e] by blast
    then show ?thesis using Some bareD(1) [OF l'(2)] by (simp add: line_of_def)
  qed
qed

definition stable_line :: "Worker \<Rightarrow> gaddr \<Rightarrow> bool" where
  "stable_line s b \<longleftrightarrow> (\<exists>l. caches s b = Some l \<and> cl_state l \<in> {CACHE_SHARED, CACHE_DIRTY})"

lemma stable_line_core: "core s' = core s \<Longrightarrow> stable_line s b \<Longrightarrow> stable_line s' b"
  using core_line [of s' s b] by (auto simp: stable_line_def dest!: bareD(3))

lemma TOBLOCK_in:
  assumes "BLOCK_ALIGNED b" "unat b \<le> a" "a < unat b + 512" "a < 2 ^ 64"
  shows "TOBLOCK (of_nat a) = b"
proof (rule word_eqI_unat)
  obtain q where q: "unat b = 512 * q" using assms(1) by (metis BLOCK_ALIGNED_iff mod_eq_0_iff_dvd dvdE)
  have "unat (of_nat a :: u64) = a" unfolding unat_of_nat using assms(4) by (intro mod_less) simp
  moreover have "a div 512 = q" using assms(2,3) q by (intro div_nat_eqI) simp_all
  ultimately show "unat (TOBLOCK (of_nat a)) = unat b" by (simp add: unat_TOBLOCK q)
qed

text \<open>One block of a read that hits.\<close>

lemma read_hit_block:
  assumes w: "reqs s r = Some w" "wr_op w = READ" and b: "stable_line s b" "BLOCK_ALIGNED b" and L: "lru_ok s L"
  shows "\<exists>s' L' l. GetCLine s b = Some b \<and> caches s b = Some l \<and> ReadWrite_hit s cli r start e b b l = Some (Go r, s') \<and> lru_ok s' L' \<and>
    core s' = core (s\<lparr>mem := memcpy (mem s) (seg_buf w start b) (line_of s b + (seg_start start b - b)) (seg_len start e b)\<rparr>)"
proof -
  obtain l where l: "caches s b = Some l" "cl_state l \<in> {CACHE_SHARED, CACHE_DIRTY}" using b(1) by (auto simp: stable_line_def)
  let ?s = "s\<lparr>mem := memcpy (mem s) (seg_buf w start b) (seg_line l start b) (seg_len start e b)\<rparr>"
  have "lru_ok ?s L" using L lru_ok_fields [of ?s s] by simp
  then obtain s' L' where "relink ?s b = Some s'" "lru_ok s' L'" "core s' = core ?s" using relink_ok [of ?s L b] l(1) by auto
  moreover have "seg_line l start b = line_of s b + (seg_start start b - b)" using l(1) by (simp add: seg_line_def line_of_def GMINUS_def)
  moreover have "GetCLine s b = Some b" using l(1) TOBLOCK_id [OF b(2)] by (simp add: GetCLine_def)
  ultimately show ?thesis using l w by (auto simp: ReadWrite_hit_def mcpy_def Cache_InTransition_def)
qed

lemma core_mem: "core a = core b \<Longrightarrow> core (a\<lparr>mem := m\<rparr>) = core (b\<lparr>mem := m\<rparr>)"
proof -
  have "core (x\<lparr>mem := m\<rparr>) = (fst (core x), (snd (core x))\<lparr>mem := m\<rparr>)" for x by (simp add: core_def)
  then show "core a = core b \<Longrightarrow> ?thesis" by simp
qed

lemma read_hit_loop:
  assumes "reqs s r = Some w" "wr_op w = READ" "tiles start e c bs" "unat start \<le> c" "lru_ok s L" "\<forall>b \<in> set bs. stable_line s b"
    and "\<forall>a. unat start \<le> a \<longrightarrow> a < unat e \<longrightarrow> unat e - unat start \<le> unat (byte_at (line_of s) (of_nat a) - wr_ptr w)"
  shows "\<exists>s' L'. rw_loop s cli r start e bs 0 = Some (Go r, 0, s') \<and> lru_ok s' L' \<and> core (s'\<lparr>mem := mem s\<rparr>) = core s \<and>
    mem s' = gather (mem s) (wr_ptr w) (\<lambda>a. byte_at (line_of s) (of_nat a)) (unat start) c (unat e)"
  using assms
proof (induction bs arbitrary: c s L)
  case Nil
  then show ?case by (auto simp: gather_def fun_eq_iff)
next
  case (Cons b bs)
  let ?n = "seg_len start e b" and ?A = "unat start" and ?src = "\<lambda>a. byte_at (line_of s) (of_nat a)" and ?p = "line_of s b + (seg_start start b - b)"
  let ?M = "memcpy (mem s) (seg_buf w start b) ?p ?n"
  have p: "unat (seg_start start b) = c" "unat b \<le> c" "c + ?n \<le> unat e" "c + ?n \<le> unat b + 512" "BLOCK_ALIGNED b" "tiles start e (c + ?n) bs"
    using Cons.prems(3) by auto
  have eb: "unat e < 2 ^ 64" using unat_bound [of e] by simp
  obtain s1 L1 l where h: "GetCLine s b = Some b" "caches s b = Some l" "ReadWrite_hit s cli r start e b b l = Some (Go r, s1)" "lru_ok s1 L1"
    "core s1 = core (s\<lparr>mem := ?M\<rparr>)" using read_hit_block [OF Cons.prems(1,2) _ p(5) Cons.prems(5)] Cons.prems(6) by fastforce
  have ln: "line_of s1 = line_of s" using line_of_core [OF h(5)] by (simp add: line_of_def fun_eq_iff)
  have st: "\<forall>b \<in> set bs. stable_line s1 b" using stable_line_core [OF h(5)] Cons.prems(6) by (simp add: stable_line_def)
  have m1: "mem s1 = ?M" and r1: "reqs s1 r = Some w" using coreD(1,3) [OF h(5)] Cons.prems(1) by simp_all
  obtain s' L' where i: "rw_loop s1 cli r start e bs 0 = Some (Go r, 0, s')" "lru_ok s' L'" "core (s'\<lparr>mem := mem s1\<rparr>) = core s1"
    "mem s' = gather (mem s1) (wr_ptr w) ?src ?A (c + ?n) (unat e)"
    using Cons.IH [OF r1 Cons.prems(2) p(6) _ h(4) st] Cons.prems(4,7) unfolding ln by auto
  have "?p + of_nat t = ?src (c + t)" if "t < ?n" for t
  proof -
    have "TOBLOCK (of_nat (c + t)) = b" using TOBLOCK_in [OF p(5), of "c + t"] p(2-4) that eb by linarith
    moreover have "seg_start start b = of_nat c" using p(1) by auto
    ultimately show ?thesis by (simp add: byte_at_def)
  qed
  then have "gather ?M (wr_ptr w) ?src ?A (c + ?n) (unat e) = gather (mem s) (wr_ptr w) ?src ?A c (unat e)"
    using gather_step [OF Cons.prems(4) p(3) eb, of ?p ?src "wr_ptr w" "mem s"] Cons.prems(7) piece_buf [OF p(1) Cons.prems(4), of w] by simp
  moreover have "core (s'\<lparr>mem := mem s\<rparr>) = core s" using core_mem [OF i(3), of "mem s"] core_mem [OF h(5), of "mem s"] by simp
  ultimately show ?case using h(1-3) i m1 by auto
qed

text \<open>
  C36. A read of cached blocks. When every block of the range is cached and in no transition, the handler
  fills the buffer of the request with exactly the bytes of the range as the lines hold them, however
  many blocks they span, counts a hit and reports success. Beyond the buffer and the order of use of the
  lines it changes nothing; no message is sent.
\<close>

theorem cached_read_gathers:
  assumes w: "reqs s r = Some w" "wr_op w = READ" "\<not> IsLocal s (wr_addr w)" "\<not> has w TO_SERVE" "\<not> has w FENCE" "wr_counter w = 0" "range_ok w"
    and f: "fences s (wr_fd w) = Some f" "\<not> mfenced f" and L: "lru_ok s L"
    and st: "\<forall>b \<in> blocks_in w. BLOCK_ALIGNED b \<longrightarrow> stable_line s b"
    and out: "\<forall>k < unat (wr_size w). unat (wr_size w) \<le> unat (byte_at (line_of s) (wr_addr w + of_nat k) - wr_ptr w)"
  shows "\<exists>s1 L1. ProcessLocalRead n plr s r = Some (SUCCESS, count_read s1 (w\<lparr>wr_hit := True\<rparr>)) \<and> lru_ok s1 L1 \<and>
    core (s1\<lparr>mem := mem s\<rparr>) = core s \<and>
    (\<forall>x. mem s1 x = (if x - wr_ptr w < wr_size w then cached_byte s (wr_addr w + (x - wr_ptr w)) else mem s x))"
proof -
  let ?a = "wr_addr w" and ?e = "GADD (wr_addr w) (wr_size w)"
  obtain bs where bs: "blocks_of ?a (wr_size w) = Some bs" "tiles ?a ?e (unat ?a) bs"
    "unat ?e = unat ?a + unat (wr_size w)" "\<forall>b \<in> set bs. b \<in> blocks_in w"
    using blocks_of_tiles [of ?a "wr_size w"] w(7) by (auto simp: range_ok_def blocks_in_def)
  have "BLOCK_ALIGNED b" if "b \<in> set bs" "tiles ?a ?e c bs" for b c using that by (induction bs arbitrary: c) auto
  then have "\<forall>b \<in> set bs. stable_line s b" using bs(2,4) st by blast
  moreover have "unat ?e - unat ?a \<le> unat (byte_at (line_of s) (of_nat x) - wr_ptr w)" if "unat ?a \<le> x" "x < unat ?e" for x
    using out [rule_format, of "x - unat ?a"] that bs(3) by (simp add: of_nat_diff)
  ultimately obtain s1 L1 where l: "rw_loop s (GetClient s ?a) r ?a ?e bs 0 = Some (Go r, 0, s1)" "lru_ok s1 L1" "core (s1\<lparr>mem := mem s\<rparr>) = core s"
    "mem s1 = gather (mem s) (wr_ptr w) (\<lambda>a. byte_at (line_of s) (of_nat a)) (unat ?a) (unat ?a) (unat ?e)"
    using read_hit_loop [OF w(1,2) bs(2) order_refl L] by blast
  have "reqs s1 r = Some w" using coreD(1) [OF l(3)] w(1) by simp
  then have "ProcessLocalRead n plr s r = Some (SUCCESS, count_read s1 (w\<lparr>wr_hit := True\<rparr>))"
    using w f bs(1) l(1) by (simp add: ProcessLocalRead_def Cache_Read_def Cache_ReadWrite_def serve_dec_def IsMFenced_def notify_deferred_def SUCCESS_def)
  moreover have "mem s1 x = (if x - wr_ptr w < wr_size w then cached_byte s (?a + (x - wr_ptr w)) else mem s x)" for x
    unfolding l(4) using bs(3) by (simp add: gather_def cached_byte_def word_less_nat_alt)
  ultimately show ?thesis using l(2,3) by blast
qed

section \<open>Small requests\<close>

text \<open>A request of 600 bytes for the second block of worker 1 and the block behind it.\<close>

definition home_access :: "Work \<Rightarrow> WorkRequest" where
  "home_access op = new_WorkRequest\<lparr>wr_op := op, wr_addr := 281474976711168, wr_size := 600, wr_ptr := 262144, wr_fd := 7\<rparr>"

definition accessing :: "Work \<Rightarrow> Worker" where
  "accessing op = idle_worker\<lparr>reqs := [7 \<mapsto> home_access op]\<rparr>"

lemma accessing_ok:
  "reqs (accessing op) 7 = Some (home_access op)" "IsLocal (accessing op) (wr_addr (home_access op))"
  "\<not> has (home_access op) x" "wr_counter (home_access op) = 0" "range_ok (home_access op)" "fences (accessing op) (wr_fd (home_access op)) = Some new_Fence"
  "ToLocal (accessing op) (wr_addr (home_access op)) = 66048" "DIR_UNSHARED \<in> S \<Longrightarrow> at_rest (accessing op) b S"
proof -
  have "WID 281474976711168 = 1" "wid64 1 = 1" "OFF 281474976711168 = 512" "TO_LOCAL 281474976711168 65536 = 66048" by code_simp+
  then show "reqs (accessing op) 7 = Some (home_access op)" "IsLocal (accessing op) (wr_addr (home_access op))"
    "\<not> has (home_access op) x" "wr_counter (home_access op) = 0" "range_ok (home_access op)" "fences (accessing op) (wr_fd (home_access op)) = Some new_Fence"
    "ToLocal (accessing op) (wr_addr (home_access op)) = 66048" "DIR_UNSHARED \<in> S \<Longrightarrow> at_rest (accessing op) b S"
    by (simp_all add: accessing_def home_access_def idle_worker_def IsLocal_def has_def new_WorkRequest_def range_ok_def ToLocal_def
        at_rest_def GetEntry_def GetState_e_def deref_def)
qed

lemma accessing_apart: "apart (262144 :: ptr) 600 66048 600" "apart (66048 :: ptr) 600 262144 600"
  using apart_below [of "66048 :: ptr" 600 262144 600] by simp_all

theorem home_read_copies_witness:
  "\<exists>s'. ProcessLocalRead 1 (\<lambda>_ _. None) (accessing READ) 7 = Some (SUCCESS, s') \<and> mem s' = memcpy (mem (accessing READ)) 262144 66048 600"
proof -
  let ?w = "home_access READ"
  have f: "\<not> mfenced new_Fence" by (simp add: new_Fence_def)
  have a: "apart (wr_ptr ?w) (unat (wr_size ?w)) (ToLocal (accessing READ) (wr_addr ?w)) (unat (wr_size ?w))"
    unfolding accessing_ok(7) using accessing_apart(1) by (simp add: home_access_def)
  have r: "\<forall>b \<in> blocks_in ?w. at_rest (accessing READ) b {DIR_UNSHARED, DIR_SHARED}" by (simp add: accessing_ok(8))
  show ?thesis
    using home_read_copies [OF accessing_ok(1,2) accessing_ok(3) accessing_ok(3) accessing_ok(4,5,6) f a r, of 1 "\<lambda>_ _. None"]
    by (simp add: count_read_def bump_def accessing_ok(7)) (simp add: home_access_def)
qed

theorem home_write_stores_witness:
  "\<exists>s'. ProcessLocalWrite 1 (\<lambda>_ _. None) (accessing WRITE) 7 = Some (SUCCESS, s') \<and> mem s' = memcpy (mem (accessing WRITE)) 66048 262144 600"
proof -
  let ?w = "home_access WRITE"
  have f: "\<not> mfenced new_Fence" "\<not> sfenced new_Fence" by (simp_all add: new_Fence_def)
  have a: "apart (ToLocal (accessing WRITE) (wr_addr ?w)) (unat (wr_size ?w)) (wr_ptr ?w) (unat (wr_size ?w))"
    unfolding accessing_ok(7) using accessing_apart(2) by (simp add: home_access_def)
  have r: "\<forall>b \<in> blocks_in ?w. at_rest (accessing WRITE) b {DIR_UNSHARED}" by (simp add: accessing_ok(8))
  show ?thesis
    using home_write_stores [OF accessing_ok(1,2) accessing_ok(3) accessing_ok(3) accessing_ok(3) accessing_ok(3) accessing_ok(4,5,6) f a r, of 1 "\<lambda>_ _. None"]
    by (simp add: accessing_ok(7)) (simp add: home_access_def)
qed

text \<open>A block of worker 2 in a line at 4096, and a read of its first hundred bytes.\<close>

definition cached_access :: WorkRequest where
  "cached_access = new_WorkRequest\<lparr>wr_op := READ, wr_addr := 562949953421824, wr_size := 100, wr_ptr := 1024, wr_fd := 7\<rparr>"

definition caching :: Worker where
  "caching = idle_worker\<lparr>reqs := [7 \<mapsto> cached_access],
     caches := [562949953421824 \<mapsto> new_CacheLine\<lparr>cl_line := 4096, cl_addr := 562949953421824, cl_state := CACHE_SHARED\<rparr>]\<rparr>"

lemma caching_byte:
  assumes "k < 100"
  shows "byte_at (line_of caching) (562949953421824 + of_nat k) = 4096 + of_nat k"
proof -
  have "(562949953421824 + of_nat k :: gaddr) = of_nat (562949953421824 + k)" by simp
  moreover have "TOBLOCK (of_nat (562949953421824 + k)) = 562949953421824" using assms by (intro TOBLOCK_in) (simp_all add: BLOCK_ALIGNED_iff)
  ultimately show ?thesis by (simp add: byte_at_def line_of_def caching_def)
qed

theorem cached_read_gathers_witness:
  "\<exists>s1. ProcessLocalRead 1 (\<lambda>_ _. None) caching 7 = Some (SUCCESS, count_read s1 (cached_access\<lparr>wr_hit := True\<rparr>)) \<and>
     mem s1 1025 = cached_byte caching 562949953421825"
proof -
  have c: "WID 562949953421824 = 2" "wid64 1 = 1" "OFF 562949953421824 = 512" "TOBLOCK 562949953421824 = 562949953421824" by code_simp+
  have p: "reqs caching 7 = Some cached_access" "wr_op cached_access = READ" "\<not> IsLocal caching (wr_addr cached_access)" "\<And>x. \<not> has cached_access x"
    "wr_counter cached_access = 0" "range_ok cached_access" "fences caching (wr_fd cached_access) = Some new_Fence" "\<not> mfenced new_Fence"
    using c by (simp_all add: caching_def cached_access_def idle_worker_def IsLocal_def has_def new_WorkRequest_def range_ok_def new_Fence_def)
  have l: "lru_ok caching (\<lambda>_. [])"
    by (auto simp: lru_ok_def list_ok_def caching_def idle_worker_def links_def line_link_def new_CacheLine_def)
  have "b = 562949953421824" if "b \<in> blocks_in cached_access" "BLOCK_ALIGNED b" for b
  proof (rule word_eqI_unat)
    have "562949953421824 \<le> unat b" "unat b < 562949953421924" "unat b mod 512 = 0"
      using that c(4) by (simp_all add: blocks_in_def cached_access_def GADD_def word_le_nat_alt word_less_nat_alt BLOCK_ALIGNED_iff)
    then show "unat b = unat (562949953421824 :: gaddr)" by (auto simp: mod_eq_0_iff_dvd elim!: dvdE)
  qed
  then have st: "\<forall>b \<in> blocks_in cached_access. BLOCK_ALIGNED b \<longrightarrow> stable_line caching b" by (simp add: stable_line_def caching_def)
  have o: "\<forall>k < unat (wr_size cached_access). unat (wr_size cached_access) \<le> unat (byte_at (line_of caching) (wr_addr cached_access + of_nat k) - wr_ptr cached_access)"
  proof (intro allI impI)
    fix k assume "k < unat (wr_size cached_access)"
    then have k: "k < 100" by (simp add: cached_access_def)
    have "unat (3072 + of_nat k :: u64) = 3072 + k" using k by (simp add: unat_word_ariths unat_of_nat)
    moreover have "byte_at (line_of caching) (wr_addr cached_access + of_nat k) - wr_ptr cached_access = 3072 + of_nat k"
      using caching_byte [OF k] by (simp add: cached_access_def)
    moreover have "unat (wr_size cached_access) = 100" by (simp add: cached_access_def)
    ultimately show "unat (wr_size cached_access) \<le> unat (byte_at (line_of caching) (wr_addr cached_access + of_nat k) - wr_ptr cached_access)" by simp
  qed
  have "(1025 :: ptr) - wr_ptr cached_access = 1" "wr_size cached_access = 100" "wr_addr cached_access = 562949953421824" by (simp_all add: cached_access_def)
  then show ?thesis using cached_read_gathers [OF p(1-3) p(4) p(4) p(5-8) l st o, of 1 "\<lambda>_ _. None"] by fastforce
qed

end
