(* ===== verification/Gam_Remote_Access.thy ===== *)
theory Gam_Remote_Access
  imports Gam_Home Gam_Access
begin

text \<open>
  Reads and writes of a block of another worker from end to end: the worker misses in its cache and asks
  the home, the home writes its bytes into the worker's line and, for a write, hands the block over, and
  the worker finishes the request. The theorems compose the handlers of both workers with the messages
  between them.
\<close>

section \<open>A miss\<close>

text \<open>A synchronous request without locks, inside one block of the address space.\<close>

definition plain :: "WorkRequest \<Rightarrow> bool" where
  "plain w \<longleftrightarrow> (\<forall>f \<in> {ASYNC, TO_SERVE, FENCE, LOCKED, REPEATED, TRY_LOCK, GFUNC}. \<not> has w f)"

definition one_block :: "WorkRequest \<Rightarrow> bool" where
  "one_block w \<longleftrightarrow> 0 < unat (wr_size w) \<and> unat (wr_addr w) mod 512 + unat (wr_size w) \<le> 512 \<and> unat (wr_addr w) + unat (wr_size w) + 512 < 2 ^ 64"

lemma one_block_blocks:
  assumes "one_block w"
  shows "blocks_of (wr_addr w) (wr_size w) = Some [TOBLOCK (wr_addr w)]" "unat (GADD (wr_addr w) (wr_size w)) = unat (wr_addr w) + unat (wr_size w)"
proof -
  let ?b = "TOBLOCK (wr_addr w)" and ?e = "GADD (wr_addr w) (wr_size w)"
  have o: "0 < unat (wr_size w)" "unat (wr_addr w) mod 512 + unat (wr_size w) \<le> 512" "unat (wr_addr w) + unat (wr_size w) + 512 < 2 ^ 64"
    using assms by (simp_all add: one_block_def)
  show e: "unat ?e = unat (wr_addr w) + unat (wr_size w)" unfolding GADD_def using o(3) by (intro unat_add_no_wrap) simp
  have b: "unat ?b = unat (wr_addr w) - unat (wr_addr w) mod 512" by (simp add: unat_TOBLOCK minus_mod_eq_div_mult)
  have m: "unat (wr_addr w) mod 512 \<le> unat (wr_addr w)" by simp
  have "unat (BADD ?b 1) = unat ?b + 512" using b m o(3) by (intro unat_BADD1) (simp_all only: TOBLOCK_aligned)
  then have "?b < ?e" "\<not> BADD ?b 1 < ?e" unfolding word_less_nat_alt e using b m o by linarith+
  then show "blocks_of (wr_addr w) (wr_size w) = Some [?b]"
    by (simp add: blocks_of_def numeral_2_eq_2)
qed

lemma sint_le_uint: "sint (x :: u64) \<le> uint x"
proof (cases "sint x < 0")
  case False
  then show ?thesis by (simp add: sint_uint signed_take_bit_eq_if_positive take_bit_eq_mod zmod_le_nonneg_dividend)
qed (use uint_ge_0 [of x] in linarith)

lemma Evict_within:
  assumes "unat (used_bytes s) \<le> unat (max_cache_mem s)" "to_evicted s = 0"
  shows "Evict_n s n = Some s"
proof -
  have "cache_used s \<le> uint (used_bytes s)" using sint_le_uint [of "used_bytes s"] assms(2) by (simp add: cache_used_def)
  also have "\<dots> \<le> uint (max_cache_mem s)" using assms(1) by (simp add: word_le_nat_alt flip: word_le_def)
  finally show ?thesis by (simp add: Evict_n_def)
qed

text \<open>The line of the missing block and the request for it.\<close>

definition fresh_line :: "Work \<Rightarrow> gaddr \<Rightarrow> ptr \<Rightarrow> CacheLine" where
  "fresh_line op b p = new_CacheLine\<lparr>cl_line := p, cl_addr := b, cl_state := (if op = READ then CACHE_TO_SHARED else CACHE_TO_DIRTY)\<rparr>"

definition ask_home :: "Worker \<Rightarrow> nat \<Rightarrow> WorkRequest \<Rightarrow> ptr \<Rightarrow> WorkRequest" where
  "ask_home s r w p = (set_flag (copy_WorkRequest w) CACHED)\<lparr>wr_counter := 0, wr_addr := TOBLOCK (wr_addr w),
     wr_size := BLOCK_SIZE, wr_ptr := p, wr_parent := Some r, wr_wid := my_wid s, wr_id := next_psn s\<rparr>"

definition missed :: "Worker \<Rightarrow> client \<Rightarrow> nat \<Rightarrow> WorkRequest \<Rightarrow> ptr \<Rightarrow> memory \<Rightarrow> SlabAllocator \<Rightarrow> Worker" where
  "missed s c r w p m a = s\<lparr>mem := m, sb := a, used_bytes := used_bytes s + BLOCK_SIZE,
     caches := (caches s)(TOBLOCK (wr_addr w) \<mapsto> fresh_line (wr_op w) (TOBLOCK (wr_addr w)) p),
     reqs := (reqs s)(next_req s \<mapsto> ask_home s r w p, r \<mapsto> w\<lparr>wr_hit := False, wr_counter := 1\<rparr>), next_req := next_req s + 1,
     wr_psn := next_psn s, pending_works := (pending_works s)(next_psn s \<mapsto> next_req s),
     outbox := outbox s @ [OSend c (ask_home s r w p)]\<rparr>"

lemma next_psn_lines [simp]:
  "next_psn (s\<lparr>mem := m\<rparr>) = next_psn s" "next_psn (s\<lparr>sb := a\<rparr>) = next_psn s" "next_psn (s\<lparr>used_bytes := u\<rparr>) = next_psn s"
  "next_psn (s\<lparr>caches := k\<rparr>) = next_psn s"
  by (simp_all add: next_psn_def GetWorkPsn_def Let_def)

lemma miss_block:
  assumes w: "reqs s r = Some w" "wr_op w = READ \<or> wr_op w = WRITE" "\<not> has w ASYNC" "wr_counter w = 0" "r < next_req s"
    and b: "caches s (TOBLOCK (wr_addr w)) = None"
    and a: "sb_aligned_calloc (mem s) (sb s) 1 BLOCK_SIZE BLOCK_SIZE = Some (p, m, a)"
  shows "ReadWrite_miss s (Some c) r (TOBLOCK (wr_addr w)) = Some (Go r, missed s c r w p m a)"
proof -
  let ?b = "TOBLOCK (wr_addr w)"
  let ?s = "s\<lparr>mem := m, sb := a, used_bytes := used_bytes s + BLOCK_SIZE, caches := (caches s)(?b \<mapsto> fresh_line (wr_op w) ?b p),
     next_req := next_req s + 1, reqs := (reqs s)(next_req s \<mapsto> (ask_home s r w p)\<lparr>wr_wid := wr_wid w, wr_id := wr_id w\<rparr>, r \<mapsto> w\<lparr>wr_hit := False, wr_counter := 1\<rparr>)\<rparr>"
  have "SubmitPending ?s (Some c) (next_req s) = Some (missed s c r w p m a)"
    using SubmitPending_eq [of ?s "next_req s" "(ask_home s r w p)\<lparr>wr_wid := wr_wid w, wr_id := wr_id w\<rparr>" c] w(2,5)
    by (auto simp: is_reply_def work_code_def ask_home_def missed_def Let_def fun_upd_twist set_flag_def copy_WorkRequest_def)
  moreover have "ReadWrite_miss s (Some c) r ?b = map_option (Pair (Go r)) (SubmitPending ?s (Some c) (next_req s))"
  proof -
    let ?A = "s\<lparr>mem := m, sb := a, used_bytes := used_bytes s + BLOCK_SIZE, caches := (caches s)(?b \<mapsto> new_CacheLine\<lparr>cl_line := p, cl_addr := ?b\<rparr>)\<rparr>"
    let ?B = "?A\<lparr>next_req := next_req s + 1, reqs := (reqs s)(next_req s \<mapsto> (ask_home s r w p)\<lparr>wr_wid := wr_wid w, wr_id := wr_id w\<rparr>,
        r \<mapsto> w\<lparr>wr_hit := False, wr_counter := 1\<rparr>)\<rparr>"
    have 1: "SetCLine s ?b 0 = Some (?b, ?A)" using a b by (simp add: SetCLine_def Let_def)
    have 2: "block_request ?A r None CACHED ?b p = Some (next_req s, r, ?B)"
      using w by (simp add: block_request_def clone_wr_def alloc_wr_def upd_wr_def miss_def async_copy_def ask_home_def has_def set_flag_def
          copy_WorkRequest_def fun_upd_twist)
    have 3: "(if wr_op w = READ then Cache_ToToShared ?B ?b else Cache_ToToDirty ?B ?b) = Some ?s"
      by (simp add: Cache_ToToShared_def Cache_ToToDirty_def upd_line_def fresh_line_def)
    show ?thesis using w(1) 1 2 3
      by (cases "wr_op w = READ") (simp_all add: ReadWrite_miss_def map_option_case bind_split split: option.split)
  qed
  ultimately show ?thesis by simp
qed

text \<open>
  What a worker needs to fetch a block: the request is a plain read or write inside one block that is not
  cached, no fence holds it back, there is memory for a line within the limit of the cache, and nobody else
  waits for the block.
\<close>

definition miss_ready :: "Worker \<Rightarrow> nat \<Rightarrow> WorkRequest \<Rightarrow> client \<Rightarrow> ptr \<Rightarrow> memory \<Rightarrow> SlabAllocator \<Rightarrow> bool" where
  "miss_ready s r w c p m a \<longleftrightarrow> reqs s r = Some w \<and> (wr_op w = READ \<or> wr_op w = WRITE) \<and> \<not> IsLocal s (wr_addr w) \<and> plain w \<and> wr_counter w = 0 \<and>
     wr_status w = SUCCESS \<and> one_block w \<and> r < next_req s \<and> wr_notify_buf w \<noteq> 0 \<and>
     (\<exists>f. fences s (wr_fd w) = Some f \<and> \<not> mfenced f \<and> \<not> sfenced f) \<and> GetClient s (wr_addr w) = Some c \<and>
     caches s (TOBLOCK (wr_addr w)) = None \<and> sb_aligned_calloc (mem s) (sb s) 1 BLOCK_SIZE BLOCK_SIZE = Some (p, m, a) \<and>
     unat (used_bytes s) + 512 \<le> unat (max_cache_mem s) \<and> to_evicted s = 0 \<and>
     to_serve_requests s (TOBLOCK (wr_addr w)) = None \<and> to_serve_local_requests s (TOBLOCK (wr_addr w)) = None"

text \<open>
  The handler creates the line in transition and sends one request for the whole block to its home. The
  message names the line as the place for the bytes and carries a new identifier, under which a copy of
  it waits for the answer.
\<close>

lemma miss_run:
  assumes "miss_ready s r w c p m a"
  shows "ProcessLocalRequest (Suc n) s r = Some (REMOTE_REQUEST, missed s c r w p m a)"
proof -
  obtain f where w: "reqs s r = Some w" "wr_op w = READ \<or> wr_op w = WRITE" "\<not> IsLocal s (wr_addr w)" "plain w" "wr_counter w = 0" "one_block w" "r < next_req s"
    and f: "fences s (wr_fd w) = Some f" "\<not> mfenced f" "\<not> sfenced f" and c: "GetClient s (wr_addr w) = Some c"
    and b: "caches s (TOBLOCK (wr_addr w)) = None" and a: "sb_aligned_calloc (mem s) (sb s) 1 BLOCK_SIZE BLOCK_SIZE = Some (p, m, a)"
    and u: "unat (used_bytes s) + 512 \<le> unat (max_cache_mem s)" "to_evicted s = 0"
    using assms by (auto simp: miss_ready_def)
  have p: "\<not> has w ASYNC" "\<not> has w TO_SERVE" "\<not> has w FENCE" using w(4) by (simp_all add: plain_def)
  have g: "GetCLine s (TOBLOCK (wr_addr w)) = None" using b by (simp add: GetCLine_def)
  have "unat (used_bytes s + BLOCK_SIZE) = unat (used_bytes s) + 512"
    using u(1) unat_bound [of "max_cache_mem s"] unat_add_no_wrap [of "used_bytes s" BLOCK_SIZE] by (simp add: BLOCK_SIZE_eq)
  then have "Evict_n (missed s c r w p m a) 1 = Some (missed s c r w p m a)" using u by (intro Evict_within) (simp_all add: missed_def)
  moreover have "reqs (missed s c r w p m a) r = Some (w\<lparr>wr_hit := False, wr_counter := 1\<rparr>)" by (simp add: missed_def)
  ultimately have "Cache_ReadWrite s r = Some (1, missed s c r w p m a)"
    using w(1,5) p c g one_block_blocks [OF w(6)] miss_block [OF w(1,2) p(1) w(5,7) b a, of c]
    by (simp add: Cache_ReadWrite_def serve_dec_def)
  then show ?thesis using w(1-3) p f
    by (auto simp: ProcessLocalRequest_def ProcessLocalRequest_body_def ProcessLocalRead_def ProcessLocalWrite_def Cache_Read_def Cache_Write_def
        IsMFenced_def IsFenced_def REMOTE_REQUEST_def SUCCESS_def)
qed

section \<open>The answer arrives\<close>

lemma overlap_block:
  assumes "one_block w" "wr_addr v = TOBLOCK (wr_addr w)" "wr_size v = BLOCK_SIZE"
  shows "overlap w v = (wr_ptr w, wr_ptr v + (wr_addr w - TOBLOCK (wr_addr w)), unat (wr_size w))"
proof -
  let ?a = "wr_addr w" and ?b = "TOBLOCK (wr_addr w)"
  have o: "0 < unat (wr_size w)" "unat ?a mod 512 + unat (wr_size w) \<le> 512" "unat ?a + unat (wr_size w) + 512 < 2 ^ 64"
    using assms(1) by (simp_all add: one_block_def)
  have b: "unat ?b = unat ?a - unat ?a mod 512" "unat ?a mod 512 \<le> unat ?a" by (simp_all add: unat_TOBLOCK minus_mod_eq_div_mult)
  have "unat (GADD ?b BLOCK_SIZE) = unat ?b + 512"
    unfolding GADD_def using unat_add_no_wrap [of ?b BLOCK_SIZE] b o(3) by (simp add: BLOCK_SIZE_eq)
  then have "GADD ?b BLOCK_SIZE > GADD ?a (wr_size w) \<or> GADD ?b BLOCK_SIZE = GADD ?a (wr_size w)"
    using one_block_blocks(2) [OF assms(1)] b o(2) by (auto simp: word_less_nat_alt intro!: word_eqI_unat)
  moreover have "\<not> ?a < ?b" using TOBLOCK_le [of ?a] by simp
  moreover have "GMINUS (GADD ?a (wr_size w)) ?a = wr_size w" by (simp add: GMINUS_def GADD_def)
  ultimately show ?thesis using assms(2,3) by (auto simp: overlap_def Let_def GMINUS_def)
qed

text \<open>A line in transition to shared, linked again and shared.\<close>

lemma Cache_ToShared_links:
  assumes "lru_ok s L" "\<forall>j. b \<notin> set (L j)" "caches s b = Some l" "cl_state l = CACHE_TO_SHARED"
  shows "\<exists>s1 s' l' L'. Cache_ToShared s b = Some s' \<and> core s1 = core s \<and> s' = s1\<lparr>caches := (caches s1)(b \<mapsto> l')\<rparr> \<and> lru_ok s' L' \<and>
    cl_state l' = CACHE_SHARED \<and> cl_line l' = cl_line l \<and> cl_locks l' = cl_locks l"
proof -
  obtain s1 i where s1: "LinkLRU s b = Some s1" "lru_ok s1 (L(i := b # L i))" "core s1 = core s" using LinkLRU_ok [OF assms(1) _ assms(2)] assms(3) by auto
  obtain l1 where l1: "caches s1 b = Some l1" "bare l1 = bare l" using core_line [OF s1(3) assms(3)] by blast
  let ?l = "l1\<lparr>cl_state := CACHE_SHARED\<rparr>"
  let ?s = "s1\<lparr>caches := (caches s1)(b \<mapsto> ?l)\<rparr>"
  have "links ?s = links s1" using l1(1) by (auto simp: links_def line_link_def fun_eq_iff)
  then have "lru_ok ?s (L(i := b # L i))" using s1(2) by (simp add: lru_ok_def list_ok_def)
  moreover have "Cache_ToShared s b = Some ?s" using assms(3,4) s1(1) l1(1) by (simp add: Cache_ToShared_def upd_line_def)
  moreover have "cl_line ?l = cl_line l" "cl_locks ?l = cl_locks l" using bareD [OF l1(2)] by simp_all
  ultimately show ?thesis using s1(3) by (intro exI [of _ s1] exI [of _ ?s] exI [of _ ?l] exI conjI) simp_all
qed

text \<open>
  The state of a worker whose request \<open>r\<close> waits for block \<open>b\<close> under the identifier \<open>i\<close>: the line is in transition and in no
  list of use, and no other request waits for the block.
\<close>

definition awaiting :: "Worker \<Rightarrow> nat \<Rightarrow> nat \<Rightarrow> WorkRequest \<Rightarrow> ptr \<Rightarrow> u32 \<Rightarrow> bool" where
  "awaiting t r k w p i \<longleftrightarrow> reqs t r = Some w \<and> \<not> has w ASYNC \<and> wr_counter w = 1 \<and> wr_notify_buf w \<noteq> 0 \<and> one_block w \<and> r \<noteq> k \<and>
     (\<exists>v. reqs t k = Some v \<and> wr_op v = wr_op w \<and> wr_status v = SUCCESS \<and> \<not> has v GFUNC \<and> wr_parent v = Some r \<and> wr_addr v = TOBLOCK (wr_addr w) \<and> wr_size v = BLOCK_SIZE \<and>
        wr_ptr v = p \<and> wr_id v = i \<and> has v CACHED \<and> \<not> has v LOCKED \<and> \<not> has v REPEATED) \<and> pending_works t i = Some k \<and>
     (\<exists>l. caches t (TOBLOCK (wr_addr w)) = Some l \<and> cl_line l = p \<and> cl_state l = (if wr_op w = READ then CACHE_TO_SHARED else CACHE_TO_DIRTY)) \<and>
     to_serve_requests t (TOBLOCK (wr_addr w)) = None \<and> to_serve_local_requests t (TOBLOCK (wr_addr w)) = None"

text \<open>
  When the bytes of the block have arrived in the line, the completion copies exactly the bytes the thread
  asked for to its buffer, makes the line shared and puts it in front of a list of use, drops the
  pending request and its identifier, and wakes the thread through its notification word.
\<close>

lemma read_answer_run:
  assumes "awaiting t r k w p i" "lru_ok t L" "\<forall>j. TOBLOCK (wr_addr w) \<notin> set (L j)" "wr_op w = READ"
  shows "\<exists>t' L' l. Worker_ProcessRdmaRequest n t c (ReceivedImm i) = Some t' \<and> lru_ok t' L' \<and>
    mem t' = mem_write (memcpy (mem t) (wr_ptr w) (p + (wr_addr w - TOBLOCK (wr_addr w))) (unat (wr_size w))) (wr_notify_buf w) (le_bytes 4 2) \<and>
    caches t' (TOBLOCK (wr_addr w)) = Some l \<and> cl_state l = CACHE_SHARED \<and> cl_line l = p \<and>
    pending_works t' = (pending_works t)(i := None) \<and> reqs t' = (reqs t)(r \<mapsto> w\<lparr>wr_counter := 0\<rparr>, k := None) \<and> outbox t' = outbox t"
proof -
  let ?b = "TOBLOCK (wr_addr w)" and ?M = "memcpy (mem t) (wr_ptr w) (p + (wr_addr w - TOBLOCK (wr_addr w))) (unat (wr_size w))"
  obtain v l where A: "reqs t r = Some w" "wr_op w = READ" "\<not> has w ASYNC" "wr_counter w = 1" "wr_notify_buf w \<noteq> 0" "one_block w" "r \<noteq> k"
    "reqs t k = Some v" "wr_op v = READ" "wr_parent v = Some r" "wr_addr v = ?b" "wr_size v = BLOCK_SIZE" "wr_ptr v = p" "wr_id v = i"
    "has v CACHED" "\<not> has v LOCKED" "\<not> has v REPEATED" "pending_works t i = Some k"
    "caches t ?b = Some l" "cl_line l = p" "cl_state l = CACHE_TO_SHARED"
    "to_serve_requests t ?b = None" "to_serve_local_requests t ?b = None" using assms(1,4) by (auto simp: awaiting_def)
  have ov: "overlap w v = (wr_ptr w, p + (wr_addr w - ?b), unat (wr_size w))" using overlap_block [OF A(6,11,12)] A(13) by simp
  have "lru_ok (t\<lparr>mem := ?M\<rparr>) L" using assms(2) lru_ok_fields [of "t\<lparr>mem := ?M\<rparr>" t] by simp
  then obtain s1 s' l' L' where T: "Cache_ToShared (t\<lparr>mem := ?M\<rparr>) ?b = Some s'" "core s1 = core (t\<lparr>mem := ?M\<rparr>)"
    "s' = s1\<lparr>caches := (caches s1)(?b \<mapsto> l')\<rparr>" "lru_ok s' L'" "cl_state l' = CACHE_SHARED" "cl_line l' = p"
    using Cache_ToShared_links [of "t\<lparr>mem := ?M\<rparr>" L ?b l] assms(3) A(19-21) by auto
  note C = coreD [OF T(2)] core_waiting [OF T(2)]
  let ?t = "delete_wr (count_read (ErasePendingWork s' i\<lparr>reqs := (reqs t)(r \<mapsto> w\<lparr>wr_counter := 0\<rparr>),
      mem := mem_write ?M (wr_notify_buf w) (le_bytes 4 2)\<rparr>) (w\<lparr>wr_counter := 0\<rparr>)) k"
  have "Worker_ProcessRdmaRequest n t c (ReceivedImm i) = Some ?t"
    using A ov T(1) C T(3)
    by (auto simp: Worker_ProcessRdmaRequest_def ProcessImm_def GetPendingWork_def ProcessPendingRequest_def ProcessPendingRead_def pending_line_def
        GetCLine_def mcpy_def ErasePendingWork_def dec_counter_def upd_wr_def Notify_def count_read_def bump_def IsLocal_def ProcessToServeRequest_def
        delete_wr_def Let_def has_def)
  moreover have "lru_ok ?t L'" using T(4) lru_ok_fields [of ?t s'] by (simp add: delete_wr_def count_read_def bump_def ErasePendingWork_def)
  moreover have "mem ?t = mem_write ?M (wr_notify_buf w) (le_bytes 4 2)" "caches ?t ?b = Some l'" "pending_works ?t = (pending_works t)(i := None)"
    "reqs ?t = (reqs t)(r \<mapsto> w\<lparr>wr_counter := 0\<rparr>, k := None)" "outbox ?t = outbox t"
    using T(3) C by (simp_all add: delete_wr_def count_read_def bump_def ErasePendingWork_def)
  ultimately show ?thesis using T(5,6) by (intro exI [of _ ?t] exI [of _ L'] exI [of _ l'] conjI) simp_all
qed

section \<open>From end to end\<close>

lemma block_offset: "unat (a - TOBLOCK a) = unat a mod 512"
  using unat_sub_le [OF TOBLOCK_le [of a]] by (simp add: unat_TOBLOCK minus_div_mult_eq_mod)

lemma ToLocal_block: "ToLocal s a = ToLocal s (TOBLOCK a) + (a - TOBLOCK a)"
proof -
  have d: "(512 :: nat) dvd 281474976710656" by simp
  have "unat (OFF (TOBLOCK a)) mod 512 = 0"
    unfolding unat_OFF unat_TOBLOCK using d by (simp add: mod_mod_cancel)
  moreover have "unat (OFF (TOBLOCK a)) < 281474976710656" by (simp add: unat_OFF)
  ultimately have "unat (OFF (TOBLOCK a)) + 512 \<le> 281474976710656" by (auto simp: mod_eq_0_iff_dvd elim!: dvdE)
  then have "unat (OFF (TOBLOCK a)) + unat (a - TOBLOCK a) < 2 ^ 48" unfolding block_offset using mod_less_divisor [of 512 "unat a"] by simp
  then have "ToLocal s (TOBLOCK a + of_nat (unat (a - TOBLOCK a))) = ToLocal s (TOBLOCK a) + of_nat (unat (a - TOBLOCK a))" by (rule ToLocal_add)
  then show ?thesis by simp
qed

lemma has_copy: "has (copy_WorkRequest w) f \<Longrightarrow> has w f"
  by (auto simp: has_def copy_WorkRequest_def bit_eq_iff bit_simps)

lemma ask_home_fields:
  "wr_op (ask_home s r w p) = wr_op w" "wr_addr (ask_home s r w p) = TOBLOCK (wr_addr w)" "wr_size (ask_home s r w p) = BLOCK_SIZE"
  "wr_ptr (ask_home s r w p) = p" "wr_id (ask_home s r w p) = next_psn s" "wr_parent (ask_home s r w p) = Some r"
  "wr_counter (ask_home s r w p) = 0" "wr_status (ask_home s r w p) = wr_status w" "has (ask_home s r w p) CACHED"
  "plain w \<Longrightarrow> \<not> has (ask_home s r w p) LOCKED" "plain w \<Longrightarrow> \<not> has (ask_home s r w p) REPEATED" "plain w \<Longrightarrow> \<not> has (ask_home s r w p) GFUNC"
proof -
  have h: "has (ask_home s r w p) f \<longleftrightarrow> has (set_flag (copy_WorkRequest w) CACHED) f" for f by (simp add: has_def ask_home_def set_flag_def)
  have "CACHED AND LOCKED = 0" "CACHED AND REPEATED = 0" "CACHED AND GFUNC = 0" "CACHED AND CACHED \<noteq> 0"
    by (simp_all add: CACHED_def LOCKED_def REPEATED_def GFUNC_def)
  then show "has (ask_home s r w p) CACHED" "plain w \<Longrightarrow> \<not> has (ask_home s r w p) LOCKED" "plain w \<Longrightarrow> \<not> has (ask_home s r w p) REPEATED"
    "plain w \<Longrightarrow> \<not> has (ask_home s r w p) GFUNC"
    by (auto simp: h has_set_flag plain_def dest: has_copy)
qed (simp_all add: ask_home_def set_flag_def copy_WorkRequest_def)

text \<open>
  What the home needs: the block is at rest and not write-locked, and the reader is no sharer yet.
\<close>

definition home_ready :: "Worker \<Rightarrow> client \<Rightarrow> ptr \<Rightarrow> ptr \<Rightarrow> gaddr \<Rightarrow> bool" where
  "home_ready h c b p g \<longleftrightarrow> dir_ok (directory h) \<and> BLOCK_ALIGNED b \<and> block_state h b \<in> {DIR_UNSHARED, DIR_SHARED} \<and>
     \<not> tab_wlocked (block_locks h b) \<and> cli_ToGlobal h c p = Some g \<and> WID g \<notin> WID ` set (sharers h b)"

lemma uncached_unlisted:
  assumes "lru_ok s L" "caches s b = None"
  shows "b \<notin> set (L j)"
proof
  assume "b \<in> set (L j)"
  then obtain y where "links s b = Some (int j, y)" using lseg_pos [of "links s" j None "L j" None b] assms(1) by (auto simp: lru_ok_def list_ok_def)
  then show False using assms(2) by (simp add: links_def)
qed

lemma missed_awaits:
  assumes "miss_ready s r w c p m a"
  shows "awaiting ((missed s c r w p m a)\<lparr>mem := x\<rparr>) r (next_req s) (w\<lparr>wr_hit := False, wr_counter := 1\<rparr>) p (next_psn s)"
proof -
  have "has (w\<lparr>wr_hit := False, wr_counter := 1\<rparr>) f = has w f" "one_block (w\<lparr>wr_hit := False, wr_counter := 1\<rparr>) = one_block w" for f
    by (simp_all add: has_def one_block_def)
  moreover have "\<not> has w ASYNC" "plain w" using assms by (simp_all add: miss_ready_def plain_def)
  ultimately show ?thesis using assms by (auto simp: miss_ready_def awaiting_def missed_def ask_home_fields fresh_line_def)
qed

lemma missed_lists:
  assumes "miss_ready s r w c p m a" "lru_ok s L"
  shows "lru_ok ((missed s c r w p m a)\<lparr>mem := x\<rparr>) L"
proof -
  let ?s = "(missed s c r w p m a)\<lparr>mem := x\<rparr>"
  have un: "caches s (TOBLOCK (wr_addr w)) = None" using assms(1) by (simp add: miss_ready_def)
  have k: "links ?s = (links s)(TOBLOCK (wr_addr w) \<mapsto> (-1, None, None))"
    by (auto simp: links_def missed_def fresh_line_def line_link_def new_CacheLine_def)
  have "list_ok ?s j (L j)" for j
    using assms(2) uncached_unlisted [OF assms(2) un, of j] list_ok_cong [of ?s j s "L j"] unfolding k by (auto simp: lru_ok_def missed_def)
  then show ?thesis using assms(2) unfolding lru_ok_def k by (simp add: split_beta)
qed

lemma home_answers:
  assumes "home_ready h c b p g" "b = ToLocal h (TOBLOCK (wr_addr w))" "wr_op w = READ"
  shows "\<exists>h'. worker_process (Suc n) c h (received new_WorkRequest (ask_home s r w p) q) = Some h' \<and>
    outbox h' = outbox h @ [OWriteImm c p (mem_read (mem h) b 512) (next_psn s) None] \<and> sharers h' b = sharers h b @ [g]"
proof -
  let ?v = "received new_WorkRequest (ask_home s r w p) q"
  let ?h = "h\<lparr>reqs := (reqs h)(next_req h \<mapsto> ?v), next_req := next_req h + 1\<rparr>"
  have v: "wr_op ?v = READ" "wr_addr ?v = TOBLOCK (wr_addr w)" "wr_size ?v = BLOCK_SIZE" "wr_ptr ?v = p" "wr_id ?v = next_psn s"
    using assms(3) by (simp_all add: received_def Let_def ask_home_fields)
  have d: "directory ?h = directory h" "mem ?h = mem h" "outbox ?h = outbox h" "cli_ToGlobal ?h c p = cli_ToGlobal h c p" "ToLocal ?h x = ToLocal h x" for x
    by (simp_all add: cli_ToGlobal_def ToLocal_def)
  have k: "block_state ?h = block_state h" "sharers ?h = sharers h" "block_locks ?h = block_locks h"
    by (simp_all add: block_state_def sharers_def block_locks_def fun_eq_iff)
  obtain en where "ProcessRemoteRead ?h c (next_req h) = Some (?h\<lparr>directory := (directory ?h)(b \<mapsto> en), reqs := (reqs ?h)(next_req h := None),
      outbox := outbox ?h @ [OWriteImm c (wr_ptr ?v) (mem_read (mem ?h) b (unat (wr_size ?v))) (wr_id ?v) None]\<rparr>)" "dshared en = sharers h b @ [g]"
    using home_read_run [of ?h "next_req h" ?v b c g] assms(1,2) unfolding home_ready_def k d v by auto
  then show ?thesis
    by (simp add: worker_process_def alloc_wr_def ProcessRequest_def ProcessRequest_body_def v sharers_def BLOCK_SIZE_eq)
qed

text \<open>
  When the bytes \<open>bs\<close> of the block have been written to the line, by whichever worker, the completion gives the
  thread the part of them it asked for.
\<close>

lemma read_delivered:
  assumes rd: "miss_ready s r w c p m a" "wr_op w = READ" and L: "lru_ok s L" and nb: "apart (wr_notify_buf w) 4 (wr_ptr w) (unat (wr_size w))"
    and bs: "length bs = 512" and s1: "s1 = (missed s c r w p m a)\<lparr>mem := mem_write m p bs\<rparr>"
  shows "\<exists>s2 l. Worker_ProcessRdmaRequest n s1 c' (ReceivedImm (next_psn s)) = Some s2 \<and>
    mem_read (mem s2) (wr_ptr w) (unat (wr_size w)) = take (unat (wr_size w)) (drop (unat (wr_addr w - TOBLOCK (wr_addr w))) bs) \<and>
    mem_read (mem s2) (wr_notify_buf w) 4 = le_bytes 4 2 \<and> caches s2 (TOBLOCK (wr_addr w)) = Some l \<and> cl_state l = CACHE_SHARED \<and> outbox s2 = outbox s1"
proof -
  let ?z = "unat (wr_size w)" and ?o = "wr_addr w - TOBLOCK (wr_addr w)" and ?m = "mem_write m p bs"
  have un: "caches s (TOBLOCK (wr_addr w)) = None" and ob: "one_block w" using rd(1) by (simp_all add: miss_ready_def)
  have "lru_ok s1 L" unfolding s1 by (rule missed_lists [OF rd(1) L])
  then obtain s2 L' l where A: "Worker_ProcessRdmaRequest n s1 c' (ReceivedImm (next_psn s)) = Some s2"
    "mem s2 = mem_write (memcpy ?m (wr_ptr w) (p + ?o) ?z) (wr_notify_buf w) (le_bytes 4 2)"
    "caches s2 (TOBLOCK (wr_addr w)) = Some l" "cl_state l = CACHE_SHARED" "outbox s2 = outbox s1"
    using read_answer_run [OF missed_awaits [OF rd(1)], of ?m L n c'] uncached_unlisted [OF L un] rd(2) unfolding s1 by auto
  have z: "unat ?o + ?z \<le> 512" "?z \<le> 2 ^ 64" using ob unfolding block_offset one_block_def by linarith+
  have "mem_read (mem s2) (wr_ptr w) ?z = mem_read (memcpy ?m (wr_ptr w) (p + ?o) ?z) (wr_ptr w) ?z"
    unfolding A(2) using nb by (intro mem_read_write_apart) (simp add: length_le_bytes)
  also have "\<dots> = mem_read ?m (p + ?o) ?z" unfolding memcpy_def using mem_read_write [of "mem_read ?m (p + ?o) ?z"] z(2) by simp
  also have "\<dots> = take ?z (drop (unat ?o) bs)"
  proof (rule nth_equalityI)
    fix j assume "j < length (mem_read ?m (p + ?o) ?z)"
    then have j: "j < ?z" by simp
    have e: "p + ?o + of_nat j = p + of_nat (unat ?o + j)" by simp
    have "mem_read ?m (p + ?o) ?z ! j = ?m (p + of_nat (unat ?o + j))" unfolding nth_mem_read [OF j] e ..
    also have "\<dots> = bs ! (unat ?o + j)" using j z(1) bs by (intro mem_write_in) simp_all
    finally show "mem_read ?m (p + ?o) ?z ! j = take ?z (drop (unat ?o) bs) ! j" using j z(1) bs by simp
  qed (use z(1) bs in simp)
  finally have "mem_read (mem s2) (wr_ptr w) ?z = take ?z (drop (unat ?o) bs)" .
  moreover have "mem_read (mem s2) (wr_notify_buf w) 4 = le_bytes 4 2"
    unfolding A(2) using mem_read_write [of "le_bytes 4 2"] by (simp add: length_le_bytes del: le_bytes.simps)
  ultimately show ?thesis using A(1,3-5) by blast
qed

lemma take_drop_read:
  assumes "d + z \<le> 512"
  shows "take z (drop d (mem_read m p 512)) = mem_read m (p + of_nat d) z"
  using assms by (intro nth_equalityI) (simp_all add: nth_mem_read add.assoc)

lemma one_block_piece: "one_block w \<Longrightarrow> unat (wr_addr w - TOBLOCK (wr_addr w)) + unat (wr_size w) \<le> 512"
  unfolding block_offset one_block_def by linarith

text \<open>
  C1. A remote read returns the bytes of its home. The reader handles the thread's request and sends one
  message to the home; the home, receiving it, sends one answer and records the reader as a sharer; when
  the answer has been written to the reader's memory and its completion is handled, the buffer of the
  thread holds the bytes of the home's memory at the address it read, the line is shared, and the thread
  is woken.
\<close>

theorem remote_read_end_to_end:
  assumes rd: "miss_ready s r w c p m a" "wr_op w = READ" and hm: "home_ready h rc b p g" "b = ToLocal h (TOBLOCK (wr_addr w))"
    and L: "lru_ok s L" and nb: "apart (wr_notify_buf w) 4 (wr_ptr w) (unat (wr_size w))"
  shows "\<exists>s1 v h' s2 l. ProcessLocalRequest (Suc n) s r = Some (REMOTE_REQUEST, s1) \<and> outbox s1 = outbox s @ [OSend c v] \<and>
    worker_process (Suc n) rc h (received new_WorkRequest v q) = Some h' \<and> sharers h' b = sharers h b @ [g] \<and>
    outbox h' = outbox h @ [OWriteImm rc p (mem_read (mem h) b 512) (wr_id v) None] \<and>
    Worker_ProcessRdmaRequest n (s1\<lparr>mem := mem_write (mem s1) p (mem_read (mem h) b 512)\<rparr>) c (ReceivedImm (wr_id v)) = Some s2 \<and>
    mem_read (mem s2) (wr_ptr w) (unat (wr_size w)) = mem_read (mem h) (ToLocal h (wr_addr w)) (unat (wr_size w)) \<and>
    mem_read (mem s2) (wr_notify_buf w) 4 = le_bytes 4 2 \<and>
    caches s2 (TOBLOCK (wr_addr w)) = Some l \<and> cl_state l = CACHE_SHARED \<and> outbox s2 = outbox s1"
proof -
  let ?s1 = "missed s c r w p m a" and ?v = "ask_home s r w p" and ?bs = "mem_read (mem h) b 512"
  obtain h' where H: "worker_process (Suc n) rc h (received new_WorkRequest ?v q) = Some h'" "sharers h' b = sharers h b @ [g]"
    "outbox h' = outbox h @ [OWriteImm rc p ?bs (next_psn s) None]" using home_answers [OF hm rd(2), of n s r q] by blast
  have m: "mem ?s1 = m" "outbox ?s1 = outbox s @ [OSend c ?v]" by (simp_all add: missed_def)
  have ob: "one_block w" using rd(1) by (simp add: miss_ready_def)
  have "take (unat (wr_size w)) (drop (unat (wr_addr w - TOBLOCK (wr_addr w))) ?bs) = mem_read (mem h) (ToLocal h (wr_addr w)) (unat (wr_size w))"
    unfolding take_drop_read [OF one_block_piece [OF ob]] using ToLocal_block [of h "wr_addr w"] hm(2) by simp
  then obtain s2 l where A: "Worker_ProcessRdmaRequest n (?s1\<lparr>mem := mem_write (mem ?s1) p ?bs\<rparr>) c (ReceivedImm (next_psn s)) = Some s2"
    "mem_read (mem s2) (wr_ptr w) (unat (wr_size w)) = mem_read (mem h) (ToLocal h (wr_addr w)) (unat (wr_size w))"
    "mem_read (mem s2) (wr_notify_buf w) 4 = le_bytes 4 2" "caches s2 (TOBLOCK (wr_addr w)) = Some l" "cl_state l = CACHE_SHARED" "outbox s2 = outbox ?s1"
    using read_delivered [OF rd L nb _ refl, of ?bs n c] unfolding m(1) by auto
  then show ?thesis using miss_run [OF rd(1), of n] H ask_home_fields(5) [of s r w p] m(2)
    by (intro exI [of _ ?s1] exI [of _ ?v] exI [of _ h'] exI [of _ s2] exI [of _ l]) simp
qed

text \<open>Worker 1 reads a hundred bytes of the second block of worker 2.\<close>

definition reading :: WorkRequest where
  "reading = cached_access\<lparr>wr_notify_buf := 2048\<rparr>"

definition reader :: Worker where
  "reader = idle_worker\<lparr>reqs := [7 \<mapsto> reading], next_req := 8, sb := small_allocator\<rparr>"

definition owner :: Worker where
  "owner = idle_worker\<lparr>my_wid := 2, mem := (\<lambda>_. 5), widCliMap := [(1, \<lparr>cli_base = 4096, cli_size = 1000000, cli_free = 5000\<rparr>)], widCliMapWorker := [1]\<rparr>"

text \<open>The same worker with a thread that writes the hundred bytes of its buffer at 1024.\<close>

definition writing :: WorkRequest where
  "writing = reading\<lparr>wr_op := WRITE\<rparr>"

definition writer :: Worker where
  "writer = reader\<lparr>reqs := [7 \<mapsto> writing]\<rparr>"

lemma accessed_addresses: "WID 562949953421824 = 2" "wid64 1 = 1" "TOBLOCK 562949953421824 = 562949953421824" "TO_LOCAL 562949953421824 65536 = 66048"
  "TO_GLOB 528384 4096 1 = 281474977234944" "BLOCK_ALIGNED 66048"
  by code_simp+

lemma accessing_fields:
  "w \<in> {reading, writing} \<Longrightarrow> wr_addr w = 562949953421824 \<and> wr_size w = 100 \<and> wr_ptr w = 1024 \<and> wr_notify_buf w = 2048 \<and> wr_fd w = 7 \<and> wr_flag w = 0 \<and> wr_counter w = 0 \<and> wr_status w = SUCCESS"
  "wr_op reading = READ" "wr_op writing = WRITE"
  by (auto simp: writing_def reading_def cached_access_def new_WorkRequest_def SUCCESS_def)

lemma accessing_misses:
  assumes w: "w \<in> {reading, writing}" and s: "s = reader\<lparr>reqs := [7 \<mapsto> w]\<rparr>"
  shows "\<exists>m a. miss_ready s 7 w (Peer 2) 528384 m a" "lru_ok s (\<lambda>_. [])" "outbox s = []" "mem s = (\<lambda>_. 0)"
    "apart (wr_notify_buf w) 4 (wr_ptr w) (unat (wr_size w))" "apart 528384 512 (wr_ptr w) (unat (wr_size w))" "apart (wr_notify_buf w) 4 528384 512"
proof -
  note f = accessing_fields(1) [OF w]
  have "map_option fst (sb_aligned_calloc (\<lambda>_. 0) small_allocator 1 BLOCK_SIZE BLOCK_SIZE) = Some 528384" by code_simp
  then obtain m a where "sb_aligned_calloc (\<lambda>_. 0) small_allocator 1 BLOCK_SIZE BLOCK_SIZE = Some (528384, m, a)" by auto
  moreover have "wr_op w = READ \<or> wr_op w = WRITE" using w accessing_fields(2,3) by auto
  ultimately show "\<exists>m a. miss_ready s 7 w (Peer 2) 528384 m a" using f
    by (simp add: miss_ready_def s reader_def idle_worker_def IsLocal_def plain_def has_def one_block_def new_Fence_def GetClient_def accessed_addresses)
  show "lru_ok s (\<lambda>_. [])" by (auto simp: lru_ok_def list_ok_def s reader_def idle_worker_def links_def)
  show "outbox s = []" "mem s = (\<lambda>_. 0)" by (simp_all add: s reader_def idle_worker_def)
  show "apart (wr_notify_buf w) 4 (wr_ptr w) (unat (wr_size w))" "apart 528384 512 (wr_ptr w) (unat (wr_size w))" "apart (wr_notify_buf w) 4 528384 512"
    using apart_below(2) [of "1024 :: ptr" 100 2048 4] apart_below(2) [of "1024 :: ptr" 100 528384 512] apart_below(1) [of "2048 :: ptr" 4 528384 512] f by simp_all
qed

theorem remote_read_end_to_end_witness:
  "\<exists>s1 v h' s2. ProcessLocalRequest 1 reader 7 = Some (REMOTE_REQUEST, s1) \<and> outbox s1 = [OSend (Peer 2) v] \<and>
     worker_process 1 (Peer 1) owner (received new_WorkRequest v 0) = Some h' \<and>
     Worker_ProcessRdmaRequest 0 (s1\<lparr>mem := mem_write (mem s1) 528384 (mem_read (mem owner) 66048 512)\<rparr>) (Peer 2) (ReceivedImm (wr_id v)) = Some s2 \<and>
     mem_read (mem s2) 1024 100 = mem_read (mem owner) 66048 100"
proof -
  have s: "reader = reader\<lparr>reqs := [7 \<mapsto> reading]\<rparr>" by (simp add: reader_def)
  note A = accessing_misses [OF _ s, simplified]
  note f = accessing_fields(1) [of reading, simplified]
  obtain m a where rd: "miss_ready reader 7 reading (Peer 2) 528384 m a" using A(1) by blast
  have hm: "home_ready owner (Peer 1) 66048 528384 281474977234944" "66048 = ToLocal owner (TOBLOCK (wr_addr reading))" "ToLocal owner (wr_addr reading) = 66048"
    using accessed_addresses f by (simp_all add: home_ready_def owner_def idle_worker_def dir_ok_def block_state_def GetState_p_def block_locks_def tab_wlocked_def
        sharers_def cli_ToGlobal_def ToLocal_def)
  show ?thesis using remote_read_end_to_end [OF rd accessing_fields(2) hm(1,2) A(2,5), of 0 0] unfolding A(3) hm(3) using f by auto
qed

section \<open>Writes\<close>

text \<open>A line that becomes dirty and is linked.\<close>

lemma Cache_ToDirty_links:
  assumes "lru_ok s L" "\<forall>j. b \<notin> set (L j)" "caches s b = Some l"
  shows "\<exists>s' L'. Cache_ToDirty s b = Some s' \<and> core s' = core (s\<lparr>caches := (caches s)(b \<mapsto> l\<lparr>cl_state := CACHE_DIRTY\<rparr>)\<rparr>) \<and> lru_ok s' L'"
proof -
  let ?s = "s\<lparr>caches := (caches s)(b \<mapsto> l\<lparr>cl_state := CACHE_DIRTY\<rparr>)\<rparr>"
  have "links ?s = links s" using assms(3) by (auto simp: links_def line_link_def fun_eq_iff)
  then have "lru_ok ?s L" using assms(1) by (simp add: lru_ok_def list_ok_def)
  then obtain s' i where "LinkLRU ?s b = Some s'" "lru_ok s' (L(i := b # L i))" "core s' = core ?s" using LinkLRU_ok [of ?s L b] assms(2) by auto
  then show ?thesis using assms(3) by (auto simp: Cache_ToDirty_def upd_line_def)
qed

text \<open>
  The replies a write waits for are counted: one from the home adds one to the counter of the pending request, one from
  another worker takes one. The last one brings it to 0, unless the home has said that it is done.
\<close>

definition settled :: "Worker \<Rightarrow> client \<Rightarrow> gaddr \<Rightarrow> i32 \<Rightarrow> i32" where
  "settled t c b n = (if WID b = wid64 (cli_wid t c) then n + 1 else n - 1)"

definition last_reply :: "Worker \<Rightarrow> client \<Rightarrow> gaddr \<Rightarrow> WorkRequest \<Rightarrow> bool" where
  "last_reply t c b v \<longleftrightarrow> has v REQUEST_DONE \<or> settled t c b (wr_counter v) = 0"

text \<open>
  With the last permission in, the completion copies the bytes of the thread's buffer into the line, makes
  the line dirty, drops the pending request and wakes the thread.
\<close>

lemma write_commit_run:
  assumes "awaiting t r k w p i" "lru_ok t L" "\<forall>j. TOBLOCK (wr_addr w) \<notin> set (L j)" "wr_op w = WRITE" "\<forall>v. reqs t k = Some v \<longrightarrow> last_reply t c (TOBLOCK (wr_addr w)) v"
  shows "\<exists>t' L' l. ProcessPendingWrite n plr prq t c k = Some t' \<and> lru_ok t' L' \<and>
    mem t' = mem_write (memcpy (mem t) (p + (wr_addr w - TOBLOCK (wr_addr w))) (wr_ptr w) (unat (wr_size w))) (wr_notify_buf w) (le_bytes 4 2) \<and>
    caches t' (TOBLOCK (wr_addr w)) = Some l \<and> cl_state l = CACHE_DIRTY \<and> cl_line l = p \<and>
    pending_works t' = (pending_works t)(i := None) \<and> reqs t' = (reqs t)(r \<mapsto> w\<lparr>wr_counter := 0\<rparr>, k := None) \<and> outbox t' = outbox t"
proof -
  let ?b = "TOBLOCK (wr_addr w)" and ?M = "memcpy (mem t) (p + (wr_addr w - TOBLOCK (wr_addr w))) (wr_ptr w) (unat (wr_size w))"
  obtain v0 where v0: "reqs t k = Some v0" "wr_addr v0 = ?b" "\<not> has v0 REPEATED" "last_reply t c ?b v0" using assms(1,5) by (auto simp: awaiting_def)
  define v where "v = (if has v0 REQUEST_DONE then v0 else v0\<lparr>wr_counter := 0\<rparr>)"
  define u where "u = t\<lparr>reqs := (reqs t)(k \<mapsto> v)\<rparr>"
  have S: "settle_counter t c k = Some u"
    using v0 by (auto simp: settle_counter_def last_reply_def settled_def upd_wr_def u_def v_def fun_upd_idem)
  have hv: "has v f = has v0 f" for f by (simp add: v_def has_def)
  have A: "reqs t r = Some w" "wr_op w = WRITE" "\<not> has w ASYNC" "wr_counter w = 1" "wr_notify_buf w \<noteq> 0" "one_block w" "r \<noteq> k" "reqs u k = Some v" "reqs u r = Some w"
    "wr_op v = WRITE" "wr_parent v = Some r" "wr_parent v0 = Some r" "wr_addr v = ?b" "wr_size v = BLOCK_SIZE" "wr_ptr v = p" "wr_id v = i"
    "has v CACHED" "has v0 CACHED" "\<not> has v LOCKED" "\<not> has v REPEATED" "\<not> has v GFUNC" "wr_status v = SUCCESS" "wr_counter v = 0 \<or> has v REQUEST_DONE"
    using assms(1,4) v0 unfolding hv by (auto simp: awaiting_def u_def v_def)
  obtain l where l: "caches t ?b = Some l" "cl_line l = p" "to_serve_requests t ?b = None" "to_serve_local_requests t ?b = None"
    using assms(1) by (auto simp: awaiting_def)
  have ov: "overlap w v = (wr_ptr w, p + (wr_addr w - ?b), unat (wr_size w))" using overlap_block [OF A(6,13,14)] A(15) by simp
  have "lru_ok (u\<lparr>mem := ?M\<rparr>) L" using assms(2) lru_ok_fields [of "u\<lparr>mem := ?M\<rparr>" t] by (simp add: u_def)
  then obtain s' L' where T: "Cache_ToDirty (u\<lparr>mem := ?M\<rparr>) ?b = Some s'"
    "core s' = core (u\<lparr>mem := ?M, caches := (caches t)(?b \<mapsto> l\<lparr>cl_state := CACHE_DIRTY\<rparr>)\<rparr>)" "lru_ok s' L'"
    using Cache_ToDirty_links [of "u\<lparr>mem := ?M\<rparr>" L ?b l] assms(3) l(1) by (auto simp: u_def)
  note C = coreD [OF T(2)] core_waiting [OF T(2)]
  obtain l' where l': "caches s' ?b = Some l'" "bare l' = bare (l\<lparr>cl_state := CACHE_DIRTY\<rparr>)"
    using core_line [OF T(2), of ?b "l\<lparr>cl_state := CACHE_DIRTY\<rparr>"] by auto
  have U: "mem u = mem t" "caches u = caches t" "reqs u = (reqs t)(k \<mapsto> v)" "pending_works u = pending_works t" "outbox u = outbox t"
    "to_serve_requests u = to_serve_requests t" "to_serve_local_requests u = to_serve_local_requests t" by (simp_all add: u_def)
  let ?t = "delete_wr (count_write (ErasePendingWork s' i\<lparr>reqs := (reqs u)(r \<mapsto> w\<lparr>wr_counter := 0\<rparr>),
      mem := mem_write ?M (wr_notify_buf w) (le_bytes 4 2)\<rparr>) (w\<lparr>wr_counter := 0\<rparr>)) k"
  have "pending_line t v0 = Some ?b" using A(18) v0(2) l(1) by (simp add: pending_line_def GetCLine_def)
  then have "ProcessPendingWrite n plr prq t c k = Some ?t"
    using v0(1) A S ov T(1) C l(3,4) U
    by (auto simp: ProcessPendingWrite_def pending_write_commit_def pending_write_lock_def SUCCESS_def
        mcpy_def ErasePendingWork_def dec_counter_def upd_wr_def Notify_def count_write_def bump_def IsLocal_def ProcessToServeRequest_def
        delete_wr_def Let_def has_def)
  moreover have "lru_ok ?t L'" using T(3) lru_ok_fields [of ?t s'] by (simp add: delete_wr_def count_write_def bump_def ErasePendingWork_def)
  moreover have "mem ?t = mem_write ?M (wr_notify_buf w) (le_bytes 4 2)" "caches ?t ?b = Some l'" "pending_works ?t = (pending_works t)(i := None)"
    "reqs ?t = (reqs t)(r \<mapsto> w\<lparr>wr_counter := 0\<rparr>, k := None)" "outbox ?t = outbox t"
    using l'(1) C U by (auto simp: delete_wr_def count_write_def bump_def ErasePendingWork_def fun_eq_iff)
  moreover have "cl_state l' = CACHE_DIRTY" "cl_line l' = p" using bareD [OF l'(2)] l(2) by simp_all
  ultimately show ?thesis by (intro exI [of _ ?t] exI [of _ L'] exI [of _ l'] conjI) simp_all
qed

text \<open>The permission of the home, as it is received.\<close>

lemma write_granted_run:
  assumes aw: "awaiting t r k w p i" and L: "lru_ok t L" "\<forall>j. TOBLOCK (wr_addr w) \<notin> set (L j)" and w: "wr_op w = WRITE"
    and n: "r < next_req t" "k < next_req t" "\<forall>v. reqs t k = Some v \<longrightarrow> wr_counter v = 0" and v: "wr_op v = WRITE_REPLY" "wr_id v = i" "wr_status v = SUCCESS" "wr_counter v = 0"
  shows "\<exists>t' l. worker_process (Suc n) c t (received new_WorkRequest v q) = Some t' \<and>
    mem t' = mem_write (memcpy (mem t) (p + (wr_addr w - TOBLOCK (wr_addr w))) (wr_ptr w) (unat (wr_size w))) (wr_notify_buf w) (le_bytes 4 2) \<and>
    caches t' (TOBLOCK (wr_addr w)) = Some l \<and> cl_state l = CACHE_DIRTY \<and> cl_line l = p \<and> outbox t' = outbox t"
proof -
  let ?x = "received new_WorkRequest v q" and ?j = "next_req t"
  let ?t1 = "t\<lparr>reqs := (reqs t)(?j \<mapsto> ?x), next_req := Suc ?j\<rparr>"
  obtain v0 where v0: "reqs t k = Some v0" "wr_op v0 = WRITE" "wr_counter v0 = 0" "pending_works t i = Some k" using aw w n(3) by (auto simp: awaiting_def)
  let ?d = "\<lambda>v. set_flag v REQUEST_DONE"
  let ?u = "?t1\<lparr>reqs := (reqs ?t1)(k \<mapsto> ?d v0)\<rparr>"
  have x: "wr_op ?x = WRITE_REPLY" "wr_id ?x = i" "wr_status ?x = 0" "wr_counter ?x = 0" using v by (simp_all add: received_def Let_def SUCCESS_def)
  have fl: "has (?d v0) f \<longleftrightarrow> has v0 f" if "REQUEST_DONE AND f = 0" for f using that by (simp add: has_set_flag)
  have "REQUEST_DONE AND CACHED = 0" "REQUEST_DONE AND LOCKED = 0" "REQUEST_DONE AND REPEATED = 0" "REQUEST_DONE AND GFUNC = 0" "has (?d v0) REQUEST_DONE"
    by (simp_all add: REQUEST_DONE_def CACHED_def LOCKED_def REPEATED_def GFUNC_def has_set_flag)
  note fl' = this fl [OF this(1)] fl [OF this(2)] fl [OF this(3)] fl [OF this(4)]
  have "awaiting ?u r k w p i" using aw v0 n fl' by (auto simp: awaiting_def set_flag_def)
  moreover have "lru_ok ?u L" using L(1) lru_ok_fields [of ?u t] by simp
  ultimately obtain u' l where u: "ProcessPendingWrite n (\<lambda>s r. handle n s (LocalCall r)) (\<lambda>s cli r. map_option snd (handle n s (RemoteCall cli r))) ?u c k = Some u'"
    "mem u' = mem_write (memcpy (mem t) (p + (wr_addr w - TOBLOCK (wr_addr w))) (wr_ptr w) (unat (wr_size w))) (wr_notify_buf w) (le_bytes 4 2)"
    "caches u' (TOBLOCK (wr_addr w)) = Some l" "cl_state l = CACHE_DIRTY" "cl_line l = p" "outbox u' = outbox t"
    using write_commit_run [of ?u r k w p i L c n] L(2) w fl'(5) by (fastforce simp: last_reply_def)
  have "set_flag (v0\<lparr>wr_counter := 0\<rparr>) REQUEST_DONE = ?d v0" using v0(3) by (simp add: set_flag_def)
  then have "worker_process (Suc n) c t ?x = Some (delete_wr u' ?j)"
    using v0 x n u(1)
    by (simp add: worker_process_def alloc_wr_def ProcessRequest_def ProcessRequest_body_def ProcessRemoteWriteReply_def GetPendingWork_def upd_wr_def
        ProcessPendingRequest_def set_flag_def)
  then show ?thesis using u by (auto simp: delete_wr_def)
qed

lemma home_grants:
  assumes h: "dir_ok (directory h)" "BLOCK_ALIGNED b" "directory h b = None" "cli_ToGlobal h c p = Some g" "b = ToLocal h (TOBLOCK (wr_addr w))" and w: "wr_op w = WRITE"
  shows "\<exists>h' v. worker_process (Suc n) c h (received new_WorkRequest (ask_home s r w p) q) = Some h' \<and>
    outbox h' = outbox h @ [OWrite c p (mem_read (mem h) b 512), OSend c v] \<and> block_state h' b = DIR_DIRTY \<and> sharers h' b = [g] \<and>
    wr_op v = WRITE_REPLY \<and> wr_id v = next_psn s \<and> wr_status v = SUCCESS \<and> wr_counter v = 0"
proof -
  let ?v = "received new_WorkRequest (ask_home s r w p) q"
  let ?h = "h\<lparr>reqs := (reqs h)(next_req h \<mapsto> ?v), next_req := next_req h + 1\<rparr>"
  have v: "wr_op ?v = WRITE" "wr_addr ?v = TOBLOCK (wr_addr w)" "wr_size ?v = BLOCK_SIZE" "wr_ptr ?v = p" "wr_id ?v = next_psn s"
    using w by (simp_all add: received_def Let_def ask_home_fields)
  have d: "directory ?h = directory h" "mem ?h = mem h" "outbox ?h = outbox h" "cli_ToGlobal ?h c p = cli_ToGlobal h c p" "ToLocal ?h x = ToLocal h x" for x
    by (simp_all add: cli_ToGlobal_def ToLocal_def)
  obtain en where "ProcessRemoteWrite ?h c (next_req h) = Some (?h\<lparr>directory := (directory ?h)(b \<mapsto> en), reqs := (reqs ?h)(next_req h := None),
      outbox := outbox ?h @ [OWrite c (wr_ptr ?v) (mem_read (mem ?h) b (unat (wr_size ?v))),
        OSend c (?v\<lparr>wr_op := WRITE_REPLY, wr_status := SUCCESS, wr_counter := 0, wr_wid := my_wid ?h\<rparr>)]\<rparr>)" "dstate en = DIR_DIRTY" "dshared en = [g]"
    using home_grant_run [of ?h "next_req h" ?v b c g] h unfolding d v by auto
  then show ?thesis using v(5) TOBLOCK_id [OF h(2)]
    by (simp add: worker_process_def alloc_wr_def ProcessRequest_def ProcessRequest_body_def v sharers_def block_state_def GetState_p_def BLOCK_SIZE_eq)
qed

text \<open>A block after a piece of it, at offset \<open>d\<close>, has been overwritten from a buffer elsewhere.\<close>

lemma memcpy_piece:
  assumes "d + z \<le> 512" "k < 512"
  shows "memcpy m (p + of_nat d) q z (p + of_nat k) = (if d \<le> k \<and> k < d + z then m (q + of_nat (k - d)) else m (p + of_nat k))"
proof (cases "d \<le> k")
  case True
  then have e: "p + of_nat k = (p + of_nat d) + of_nat (k - d)" by (simp add: of_nat_diff)
  show ?thesis
  proof (cases "k < d + z")
    case True
    then show ?thesis unfolding e using \<open>d \<le> k\<close> assms memcpy_in [of "k - d" z m "p + of_nat d" q] by simp
  next
    case False
    have "unat (p + of_nat k - (p + of_nat d)) = k - d" unfolding e using assms(2) \<open>d \<le> k\<close> by (simp only: add_diff_cancel_left' unat_of_nat) simp
    then show ?thesis using False \<open>d \<le> k\<close> by (simp add: memcpy_out)
  qed
next
  case False
  have "p + of_nat k - (p + of_nat d) = (of_nat (2 ^ 64 - (d - k)) :: u64)" using False assms by (simp add: of_nat_diff)
  then have "unat (p + of_nat k - (p + of_nat d)) = 2 ^ 64 - (d - k)" using False assms by (simp only: unat_of_nat) (rule mod_less, simp)
  then show ?thesis using False assms by (simp add: memcpy_out)
qed

text \<open>The bytes of a line after the block has arrived in it and the thread's bytes have been written.\<close>

lemma written_line:
  assumes wr: "miss_ready s r w c p m a" "p \<noteq> 0" and bs: "length bs = 512"
    and ap: "apart p 512 (wr_ptr w) (unat (wr_size w))" "apart (wr_notify_buf w) 4 p 512"
    and M: "M = mem_write (memcpy (mem_write m p bs) (p + (wr_addr w - TOBLOCK (wr_addr w))) (wr_ptr w) (unat (wr_size w))) (wr_notify_buf w) (le_bytes 4 2)"
  shows "k < 512 \<Longrightarrow> M (p + of_nat k) = (let d = unat (wr_addr w - TOBLOCK (wr_addr w))
      in if d \<le> k \<and> k < d + unat (wr_size w) then mem s (wr_ptr w + of_nat (k - d)) else bs ! k)"
    and "mem_read M (wr_notify_buf w) 4 = le_bytes 4 2"
proof -
  let ?z = "unat (wr_size w)" and ?o = "wr_addr w - TOBLOCK (wr_addr w)" and ?m = "mem_write m p bs"
  have ob: "one_block w" and m: "sb_aligned_calloc (mem s) (sb s) 1 BLOCK_SIZE BLOCK_SIZE = Some (p, m, a)" using wr(1) by (simp_all add: miss_ready_def)
  have m0: "m = memset (mem s) p 0 512" using m wr(2) by (auto simp: sb_aligned_calloc_def BLOCK_SIZE_eq split: if_splits bind_splits)
  assume k: "k < 512"
  have "M (p + of_nat k) = memcpy ?m (p + of_nat (unat ?o)) (wr_ptr w) ?z (p + of_nat k)"
    unfolding M using mem_write_apart_at [of "wr_notify_buf w" "le_bytes 4 2" p 512 k] ap(2) k by simp
  also have "\<dots> = (if unat ?o \<le> k \<and> k < unat ?o + ?z then ?m (wr_ptr w + of_nat (k - unat ?o)) else ?m (p + of_nat k))"
    by (rule memcpy_piece [OF one_block_piece [OF ob] k])
  also have "?m (p + of_nat k) = bs ! k" using mem_write_in [of k bs m p] k bs by simp
  finally have e: "M (p + of_nat k) = (if unat ?o \<le> k \<and> k < unat ?o + ?z then ?m (wr_ptr w + of_nat (k - unat ?o)) else bs ! k)" .
  have "?m (wr_ptr w + of_nat j) = mem s (wr_ptr w + of_nat j)" if "j < ?z" for j
    using mem_write_apart_at [of p bs "wr_ptr w" ?z j m] mem_write_apart_at [of p "replicate 512 0" "wr_ptr w" ?z j "mem s"] ap(1) bs that
    by (simp add: m0 memset_def)
  then have "k - unat ?o < ?z \<Longrightarrow> ?m (wr_ptr w + of_nat (k - unat ?o)) = mem s (wr_ptr w + of_nat (k - unat ?o))" .
  then show "M (p + of_nat k) = (let d = unat ?o in if d \<le> k \<and> k < d + ?z then mem s (wr_ptr w + of_nat (k - d)) else bs ! k)"
    unfolding e Let_def by (intro if_cong refl) linarith
next
  show "mem_read M (wr_notify_buf w) 4 = le_bytes 4 2"
    unfolding M using mem_read_write [of "le_bytes 4 2"] by (simp add: length_le_bytes del: le_bytes.simps)
qed

text \<open>
  C2. A remote write takes effect. The writer handles the thread's request and sends one message to the home;
  the home, where nobody holds the block, sends its bytes and then its permission and records the writer
  as the owner; when both have arrived, the writer's line is dirty and holds the bytes of the thread's
  buffer at the addresses written and the home's bytes everywhere else in the block, and the thread is
  woken.
\<close>

theorem remote_write_end_to_end:
  assumes wr: "miss_ready s r w c p m a" "wr_op w = WRITE" "p \<noteq> 0"
    and hm: "dir_ok (directory h)" "BLOCK_ALIGNED b" "directory h b = None" "cli_ToGlobal h rc p = Some g" "b = ToLocal h (TOBLOCK (wr_addr w))"
    and L: "lru_ok s L" and ap: "apart p 512 (wr_ptr w) (unat (wr_size w))" "apart (wr_notify_buf w) 4 p 512"
  shows "\<exists>s1 v h' v' s2 l. ProcessLocalRequest (Suc n) s r = Some (REMOTE_REQUEST, s1) \<and> outbox s1 = outbox s @ [OSend c v] \<and>
    worker_process (Suc n) rc h (received new_WorkRequest v q) = Some h' \<and> block_state h' b = DIR_DIRTY \<and> sharers h' b = [g] \<and>
    outbox h' = outbox h @ [OWrite rc p (mem_read (mem h) b 512), OSend rc v'] \<and>
    worker_process (Suc n) c (s1\<lparr>mem := mem_write (mem s1) p (mem_read (mem h) b 512)\<rparr>) (received new_WorkRequest v' q') = Some s2 \<and>
    caches s2 (TOBLOCK (wr_addr w)) = Some l \<and> cl_state l = CACHE_DIRTY \<and> cl_line l = p \<and> outbox s2 = outbox s1 \<and>
    (\<forall>k < 512. mem s2 (p + of_nat k) =
       (let d = unat (wr_addr w - TOBLOCK (wr_addr w))
        in if d \<le> k \<and> k < d + unat (wr_size w) then mem s (wr_ptr w + of_nat (k - d)) else mem h (b + of_nat k))) \<and>
    mem_read (mem s2) (wr_notify_buf w) 4 = le_bytes 4 2"
proof -
  let ?s1 = "missed s c r w p m a" and ?v = "ask_home s r w p" and ?bs = "mem_read (mem h) b 512"
  obtain h' v' where H: "worker_process (Suc n) rc h (received new_WorkRequest ?v q) = Some h'" "block_state h' b = DIR_DIRTY" "sharers h' b = [g]"
    "outbox h' = outbox h @ [OWrite rc p ?bs, OSend rc v']" "wr_op v' = WRITE_REPLY" "wr_id v' = next_psn s" "wr_status v' = SUCCESS" "wr_counter v' = 0"
    using home_grants [OF hm wr(2), of n s r q] by blast
  have un: "caches s (TOBLOCK (wr_addr w)) = None" and r: "r < next_req s" using wr(1) by (simp_all add: miss_ready_def)
  have m: "mem ?s1 = m" "outbox ?s1 = outbox s @ [OSend c ?v]" by (simp_all add: missed_def)
  obtain s2 l where A: "worker_process (Suc n) c (?s1\<lparr>mem := mem_write (mem ?s1) p ?bs\<rparr>) (received new_WorkRequest v' q') = Some s2"
    "mem s2 = mem_write (memcpy (mem_write m p ?bs) (p + (wr_addr w - TOBLOCK (wr_addr w))) (wr_ptr w) (unat (wr_size w))) (wr_notify_buf w) (le_bytes 4 2)"
    "caches s2 (TOBLOCK (wr_addr w)) = Some l" "cl_state l = CACHE_DIRTY" "cl_line l = p" "outbox s2 = outbox ?s1"
    using write_granted_run [OF missed_awaits [OF wr(1)] missed_lists [OF wr(1) L], of "mem_write m p ?bs" v' n c q'] uncached_unlisted [OF L un] wr(2) H(5-8) r
    by (auto simp: missed_def ask_home_fields(7))
  note W = written_line [OF wr(1,3) _ ap A(2)]
  show ?thesis using miss_run [OF wr(1), of n] H(1-4) A(1,3-6) W m(2)
    by (intro exI [of _ ?s1] exI [of _ ?v] exI [of _ h'] exI [of _ v'] exI [of _ s2] exI [of _ l]) (simp add: Let_def nth_mem_read cong: if_cong)
qed

theorem remote_write_end_to_end_witness:
  "\<exists>s1 v h' v' s2. ProcessLocalRequest 1 writer 7 = Some (REMOTE_REQUEST, s1) \<and> outbox s1 = [OSend (Peer 2) v] \<and>
     worker_process 1 (Peer 1) owner (received new_WorkRequest v 0) = Some h' \<and>
     outbox h' = [OWrite (Peer 1) 528384 (mem_read (mem owner) 66048 512), OSend (Peer 1) v'] \<and>
     worker_process 1 (Peer 2) (s1\<lparr>mem := mem_write (mem s1) 528384 (mem_read (mem owner) 66048 512)\<rparr>) (received new_WorkRequest v' 0) = Some s2 \<and>
     mem s2 528387 = 0 \<and> mem s2 528587 = 5"
proof -
  have s: "writer = reader\<lparr>reqs := [7 \<mapsto> writing]\<rparr>" by (simp add: writer_def)
  note A = accessing_misses [OF _ s, simplified]
  note f = accessing_fields(1) [of writing, simplified]
  obtain m a where wr: "miss_ready writer 7 writing (Peer 2) 528384 m a" using A(1) by blast
  have p: "(528384 :: ptr) \<noteq> 0" by simp
  have hm: "dir_ok (directory owner)" "directory owner 66048 = None" "cli_ToGlobal owner (Peer 1) 528384 = Some 281474977234944"
      "66048 = ToLocal owner (TOBLOCK (wr_addr writing))" "outbox owner = []" "mem owner = (\<lambda>_. 5)"
    using accessed_addresses f by (simp_all add: owner_def idle_worker_def dir_ok_def cli_ToGlobal_def ToLocal_def)
  have fs: "wr_addr writing = 562949953421824" "wr_size writing = 100" "wr_ptr writing = 1024" "wr_notify_buf writing = 2048" using f by simp_all
  show ?thesis using remote_write_end_to_end [OF wr accessing_fields(3) p hm(1) accessed_addresses(6) hm(2-4) A(2,6,7), of 0 0 0]
    unfolding A(3,4) hm(5,6) fs accessed_addresses
    by (elim exE conjE, intro exI conjI; (assumption | simp)?) (drule spec [of _ 3], simp, drule spec [of _ 203], simp)+
qed

end
