(* ===== verification/Gam_Sharer.thy ===== *)
theory Gam_Sharer
  imports Gam_Remote_Access
begin

text \<open>
  A worker that caches a block of another home, when that home or another worker asks for it: reads it
  owns are served from its line, copies are given up on request, and a block with a lock on it stays.
\<close>

section \<open>Serving from a line\<close>

lemma FindClientWid_upd [simp]: "FindClientWid (s\<lparr>reqs := q\<rparr>) k = FindClientWid s k" "FindClientWid (s\<lparr>outbox := b\<rparr>) k = FindClientWid s k"
  by (simp_all add: FindClientWid_def)

lemma reply_both_first:
  assumes "reqs s r = Some x" "FindClientWid s (wr_pwid x) = Some rq"
  shows "\<exists>s' vs. reply_both s c r fwd = Some s' \<and> outbox s' = outbox s @ OSend c (x\<lparr>wr_wid := my_wid s\<rparr>) # vs \<and>
    caches s' = caches s \<and> mem s' = mem s"
  using assms by (simp add: reply_both_def SubmitPlain_eq upd_wr_def)

lemma serve_read_run:
  assumes w: "reqs s r = Some w" "wr_op w = READ_FORWARD" and l: "caches s (TOBLOCK (wr_addr w)) = Some l" "cl_state l = CACHE_DIRTY"
      "\<not> Cache_IsBlockWLocked_l l"
    and c: "FindClientWid s (wr_pwid w) = Some rq" "cli_ToLocal s home (TOBLOCK (wr_addr w)) = Some dest"
  shows "ProcessRemoteReadCache s home r = Some (s\<lparr>
    caches := (caches s)(TOBLOCK (wr_addr w) \<mapsto> l\<lparr>cl_state := CACHE_SHARED\<rparr>), reqs := (reqs s)(r := None),
    outbox := outbox s @ [OWriteImm rq (wr_ptr w) (mem_read (mem s) (cl_line l) (unat (wr_size w))) (wr_pid w) None,
                          OWriteImm home dest (mem_read (mem s) (cl_line l) 512) (wr_id w) None]\<rparr>)"
  using assms
  by (simp add: ProcessRemoteReadCache_def GetCLine_def Cache_InTransition_def cli_WriteWithImm_def emit_def Cache_ToShared_def upd_line_def
      delete_wr_def BLOCK_SIZE_eq)

section \<open>Giving up a copy\<close>

definition revokes :: "Work \<Rightarrow> bool" where
  "revokes op \<longleftrightarrow> op \<in> {INVALIDATE, INVALIDATE_FORWARD, FETCH_AND_INVALIDATE, WRITE_FORWARD, WRITE_PERMISSION_ONLY_FORWARD}"

lemma invalidate_run:
  assumes w: "reqs s r = Some w" "wr_op w \<in> {INVALIDATE, INVALIDATE_FORWARD}" and ok: "cache_ok s L"
    and l: "caches s (TOBLOCK (wr_addr w)) = Some l" "cl_state l \<in> {CACHE_SHARED, CACHE_DIRTY}" "cl_locks l = []"
  shows "\<exists>s'. ProcessRemoteWriteCache s c r = Some s' \<and> cache_ok s' (\<lambda>i. remove1 (TOBLOCK (wr_addr w)) (L i)) \<and>
    cache_view s' = (cache_view s)(TOBLOCK (wr_addr w) := None) \<and> outbox s' = outbox s @ [OWriteImm c 0 [] (wr_id w) None] \<and>
    reqs s' = (reqs s)(r := None)"
proof -
  let ?b = "TOBLOCK (wr_addr w)" and ?s = "s\<lparr>outbox := outbox s @ [OWriteImm c 0 [] (wr_id w) None]\<rparr>"
  have "cache_ok ?s L" using ok cache_ok_fields [of ?s s] by simp
  then obtain s1 where s1: "Cache_ToInvalid ?s ?b = Some s1" "cache_ok s1 (\<lambda>i. remove1 ?b (L i))" "cache_view s1 = (cache_view ?s)(?b := None)"
    "reqs s1 = reqs s" "outbox s1 = outbox ?s" using Cache_ToInvalid_ok [of ?s L ?b l] l(1) by auto
  let ?s' = "delete_wr s1 r"
  have "cache_view ?s = cache_view s" by (simp add: cache_view_def fun_eq_iff)
  have run: "ProcessRemoteWriteCache s c r = Some ?s'"
    using w l s1(1) by (auto simp: ProcessRemoteWriteCache_def GetCLine_def Cache_InTransition_def Cache_IsBlockLocked_l_def write_cache_serve_def
        ack_def cli_WriteWithImm_def emit_def mem_read_def)
  have "cache_ok ?s' (\<lambda>i. remove1 ?b (L i))" using s1(2) cache_ok_fields [of ?s' s1] by (simp add: delete_wr_def)
  moreover have "cache_view ?s' = (cache_view s)(?b := None)" using s1(3) by (simp add: cache_view_def delete_wr_def fun_eq_iff)
  ultimately show ?thesis using run s1(4,5) by (simp add: delete_wr_def)
qed


section \<open>Handing over a dirty block\<close>

lemma live_known: "live a p = Some n \<Longrightarrow> stats_map a p \<noteq> None"
  by (auto simp: live_def use_def split: option.splits)

text \<open>The state after the owner of a block has sent it to a writer.\<close>

definition handed_over :: "Worker \<Rightarrow> nat \<Rightarrow> WorkRequest \<Rightarrow> CacheLine \<Rightarrow> client \<Rightarrow> client \<Rightarrow> Worker" where
  "handed_over s r w l rq home = s\<lparr>wr_psn := next_psn s, reqs := (reqs s)(r \<mapsto> w\<lparr>wr_id := next_psn s, wr_op := PENDING_INVALIDATE\<rparr>),
     pending_works := (pending_works s)(next_psn s \<mapsto> r), caches := (caches s)(TOBLOCK (wr_addr w) \<mapsto> l\<lparr>cl_state := CACHE_TO_INVALID\<rparr>),
     to_evicted := to_evicted s + 1,
     outbox := outbox s @ [OWriteImm rq (wr_ptr w) (mem_read (mem s) (cl_line l) (unat (wr_size w))) (wr_pid w) (Some (next_psn s)),
                           OWriteImm home 0 [] (wr_id w) None]\<rparr>"

lemma hand_over_run:
  assumes w: "reqs s r = Some w" "wr_op w = WRITE_FORWARD" and l: "caches s (TOBLOCK (wr_addr w)) = Some l" "cl_state l = CACHE_DIRTY" "cl_locks l = []"
    and c: "FindClientWid s (wr_pwid w) = Some rq"
  shows "ProcessRemoteWriteCache s home r = Some (handed_over s r w l rq home)"
  using assms
  by (simp add: ProcessRemoteWriteCache_def GetCLine_def Cache_InTransition_def Cache_IsBlockLocked_l_def write_cache_serve_def give_up_line_def
      GetWorkPsn_eq upd_wr_def AddToPending_def Cache_ToToInvalid_def upd_line_def cli_WriteWithImm_def emit_def ack_def handed_over_def mem_read_def)

lemma hand_over_complete:
  assumes w: "reqs s r = Some w" "wr_op w = WRITE_FORWARD" and ok: "cache_ok s L"
    and l: "caches s (TOBLOCK (wr_addr w)) = Some l" "cl_state l = CACHE_DIRTY" "cl_locks l = []"
    and c: "FindClientWid s (wr_pwid w) = Some rq"
    and free: "to_serve_requests s (TOBLOCK (wr_addr w)) = None" "to_serve_local_requests s (TOBLOCK (wr_addr w)) = None"
  shows "\<exists>s1 s2. ProcessRemoteWriteCache s home r = Some s1 \<and> cache_ok s1 L \<and>
    cache_view s1 = (cache_view s)(TOBLOCK (wr_addr w) \<mapsto> (CACHE_TO_INVALID, [], mem_read (mem s) (cl_line l) 512)) \<and>
    outbox s1 = outbox s @ [OWriteImm rq (wr_ptr w) (mem_read (mem s) (cl_line l) (unat (wr_size w))) (wr_pid w) (Some (next_psn s)),
                            OWriteImm home 0 [] (wr_id w) None] \<and>
    Worker_ProcessRdmaRequest n s1 rq (WriteDone (next_psn s)) = Some s2 \<and> cache_ok s2 (\<lambda>i. remove1 (TOBLOCK (wr_addr w)) (L i)) \<and>
    cache_view s2 = (cache_view s)(TOBLOCK (wr_addr w) := None) \<and> to_evicted s2 = to_evicted s + 1"
proof -
  let ?b = "TOBLOCK (wr_addr w)" and ?i = "next_psn s" and ?l = "l\<lparr>cl_state := CACHE_TO_INVALID\<rparr>"
  let ?s1 = "handed_over s r w l rq home"
  let ?t = "?s1\<lparr>pending_works := (pending_works ?s1)(?i := None)\<rparr>"
  have "cache_ok (s\<lparr>caches := (caches s)(?b \<mapsto> ?l)\<rparr>) L" using cache_ok_line [OF ok l(1), of ?l] by (simp add: line_link_def)
  then have ok1: "cache_ok ?s1 L" "cache_ok ?t L"
    using cache_ok_fields [of ?s1 "s\<lparr>caches := (caches s)(?b \<mapsto> ?l)\<rparr>" L] cache_ok_fields [of ?t ?s1 L] by (simp_all add: handed_over_def)
  have v: "cache_view ?s1 = (cache_view s)(?b \<mapsto> (CACHE_TO_INVALID, [], mem_read (mem s) (cl_line l) 512))" "cache_view ?t = cache_view ?s1"
    using l by (auto simp: cache_view_def handed_over_def line_seen_def)
  have lt: "caches ?t ?b = Some ?l" by (simp add: handed_over_def)
  obtain s2 where s2: "Cache_ToInvalid ?t ?b = Some s2" "cache_ok s2 (\<lambda>i. remove1 ?b (L i))" "cache_view s2 = (cache_view ?t)(?b := None)"
    "to_evicted s2 = to_evicted ?t" "to_serve_requests s2 = to_serve_requests ?t" "to_serve_local_requests s2 = to_serve_local_requests ?t"
    using Cache_ToInvalid_ok [OF ok1(2) lt] by auto
  have "stats_map (sb s) (cl_line l) \<noteq> None" using ok lines_block [of s ?b l] l(1) live_known by (fastforce simp: cache_ok_def)
  then have "Cache_ToInvalid_a ?t (wr_addr w) = Some s2" using s2(1) by (auto simp: Cache_ToInvalid_a_def handed_over_def)
  moreover have "to_serve_requests s2 ?b = None" "to_serve_local_requests s2 ?b = None" using s2(5,6) free by (simp_all add: handed_over_def)
  moreover have "pending_works ?s1 ?i = Some r" "reqs ?s1 r = Some (w\<lparr>wr_id := ?i, wr_op := PENDING_INVALIDATE\<rparr>)" "ErasePendingWork ?s1 ?i = ?t"
    by (simp_all add: handed_over_def ErasePendingWork_def)
  ultimately have run: "Worker_ProcessRdmaRequest n ?s1 rq (WriteDone ?i) = Some (delete_wr s2 r)"
    by (simp add: Worker_ProcessRdmaRequest_def CompletionCheck_def ProcessToServeRequest_def)
  have "cache_ok (delete_wr s2 r) (\<lambda>i. remove1 ?b (L i))" using s2(2) cache_ok_fields [of "delete_wr s2 r" s2] by (simp add: delete_wr_def)
  moreover have "cache_view (delete_wr s2 r) = (cache_view s)(?b := None)"
    using s2(3) v by (simp add: cache_view_def delete_wr_def fun_eq_iff)
  moreover have "to_evicted (delete_wr s2 r) = to_evicted s + 1" using s2(4) by (simp add: delete_wr_def handed_over_def)
  moreover have "outbox ?s1 = outbox s @ [OWriteImm rq (wr_ptr w) (mem_read (mem s) (cl_line l) (unat (wr_size w))) (wr_pid w) (Some ?i), OWriteImm home 0 [] (wr_id w) None]"
    by (simp add: handed_over_def)
  ultimately show ?thesis using hand_over_run [OF w l c] ok1(1) v(1) run by blast
qed

text \<open>
  C39. A dirty block changes hands. The owner of an unlocked dirty block that is asked to pass it on sends the bytes
  of its line to the writer, under the identifier the writer waits for, and an acknowledgement to the
  home; the line stays, in transition, until the network reports the write complete, and is then dropped.
  The cache is consistent at both points. The counter of lines under eviction, which the first step
  raises, is not lowered by the second.
\<close>

theorem owner_hands_over:
  assumes w: "reqs s r = Some w" "wr_op w = WRITE_FORWARD" and ok: "cache_ok s L"
    and l: "caches s (TOBLOCK (wr_addr w)) = Some l" "cl_state l = CACHE_DIRTY" "cl_locks l = []"
    and c: "FindClientWid s (wr_pwid w) = Some rq"
    and free: "to_serve_requests s (TOBLOCK (wr_addr w)) = None" "to_serve_local_requests s (TOBLOCK (wr_addr w)) = None"
  shows "\<exists>s1 s2. ProcessRemoteWriteCache s home r = Some s1 \<and> cache_ok s1 L \<and>
    cache_view s1 = (cache_view s)(TOBLOCK (wr_addr w) \<mapsto> (CACHE_TO_INVALID, [], mem_read (mem s) (cl_line l) 512)) \<and>
    outbox s1 = outbox s @ [OWriteImm rq (wr_ptr w) (mem_read (mem s) (cl_line l) (unat (wr_size w))) (wr_pid w) (Some (next_psn s)),
                            OWriteImm home 0 [] (wr_id w) None] \<and>
    Worker_ProcessRdmaRequest n s1 rq (WriteDone (next_psn s)) = Some s2 \<and> cache_ok s2 (\<lambda>i. remove1 (TOBLOCK (wr_addr w)) (L i)) \<and>
    cache_view s2 = (cache_view s)(TOBLOCK (wr_addr w) := None) \<and> to_evicted s2 = to_evicted s + 1"
  by (rule hand_over_complete [OF assms])

section \<open>A worker with one line\<close>

text \<open>Worker 1 holds a block of worker 2; worker 3 is the one that wants it.\<close>

definition wanted :: "Work \<Rightarrow> WorkRequest" where
  "wanted op = new_WorkRequest\<lparr>wr_op := op, wr_addr := 562949953421824, wr_size := 512, wr_ptr := 8192, wr_id := 9, wr_pid := 5, wr_pwid := 3\<rparr>"

definition held_line :: "CacheState \<Rightarrow> locktab \<Rightarrow> CacheLine" where
  "held_line st lk = new_CacheLine\<lparr>cl_line := 528384, cl_addr := 562949953421824, cl_state := st, cl_locks := lk, cl_pos := 0\<rparr>"

definition holder :: "SlabAllocator \<Rightarrow> CacheState \<Rightarrow> locktab \<Rightarrow> Work \<Rightarrow> Worker" where
  "holder a st lk op = (one_line 528384 a)\<lparr>reqs := [7 \<mapsto> wanted op], caches := [562949953421824 \<mapsto> held_line st lk]\<rparr>"

lemma held_block: "TOBLOCK 562949953421824 = 562949953421824"
  by code_simp

lemma wanted_block: "TOBLOCK (wr_addr (wanted op)) = 562949953421824"
  by (simp add: wanted_def held_block)

lemma holder_fields:
  "reqs (holder a st lk op) 7 = Some (wanted op)" "wr_op (wanted op) = op" "wr_pwid (wanted op) = 3"
  "caches (holder a st lk op) (TOBLOCK (wr_addr (wanted op))) = Some (held_line st lk)" "cl_state (held_line st lk) = st" "cl_locks (held_line st lk) = lk"
  "FindClientWid (holder a st lk op) (wr_pwid (wanted op)) = Some (Peer 3)"
  "to_serve_requests (holder a st lk op) b = None" "to_serve_local_requests (holder a st lk op) b = None" "outbox (holder a st lk op) = []"
  "cli_ToLocal (holder a st lk op) (Peer 2) (TOBLOCK (wr_addr (wanted op))) = Some 131584"
proof -
  have "TO_LOCAL 562949953421824 131072 = 131584" by code_simp
  then show "cli_ToLocal (holder a st lk op) (Peer 2) (TOBLOCK (wr_addr (wanted op))) = Some 131584"
    by (simp add: wanted_block cli_ToLocal_def cli_info_def holder_def one_line_def idle_worker_def)
qed (simp_all add: held_block holder_def wanted_def held_line_def one_line_def idle_worker_def FindClientWid_def)

lemma holder_ok:
  assumes "slab_inv a" "live a 528384 = Some n" "512 \<le> n"
  shows "cache_ok (holder a st lk op) ((\<lambda>_. [])(0 := [562949953421824]))"
proof -
  let ?s = "(one_line 528384 a)\<lparr>caches := (caches (one_line 528384 a))(562949953421824 \<mapsto> held_line st lk)\<rparr>"
  have "caches (one_line 528384 a) 562949953421824 = Some (held_line CACHE_SHARED [])" by (simp add: one_line_def held_line_def new_CacheLine_def)
  then have "cache_ok ?s ((\<lambda>_. [])(0 := [562949953421824]))"
    using cache_ok_line [OF one_line_ok(1) [OF assms], of _ "held_line CACHE_SHARED []" "held_line st lk"] by (simp add: held_line_def line_link_def)
  then show ?thesis using cache_ok_fields [of "holder a st lk op" ?s] by (simp add: holder_def one_line_def)
qed


theorem owner_hands_over_witness:
  "\<exists>a s1 s2 i. ProcessRemoteWriteCache (holder a CACHE_DIRTY [] WRITE_FORWARD) (Peer 2) 7 = Some s1 \<and>
     Worker_ProcessRdmaRequest 0 s1 (Peer 3) (WriteDone i) = Some s2 \<and> cache_view s2 562949953421824 = None"
proof -
  obtain a n where n: "slab_inv a" "live a 528384 = Some n" "512 \<le> n" using small_line by blast
  show ?thesis
    using owner_hands_over [OF holder_fields(1,2) holder_ok [OF n] holder_fields(4-9), of "Peer 2" 0] unfolding wanted_block by (metis fun_upd_same)
qed

end
