(* ===== verification/Gam_Invalidate.thy ===== *)
theory Gam_Invalidate
  imports Gam_Sharer "HOL-Library.Multiset"
begin

text \<open>
  The round of a write to a shared block: the home asks the sharers to give up their copies, they
  acknowledge, in whatever order, and with the last acknowledgement the writer gets the block.
\<close>

section \<open>The home collects acknowledgements\<close>

text \<open>The acknowledgements of the workers \<open>vs\<close>, in the order of their arrival.\<close>

fun acknowledge :: "nat \<Rightarrow> u32 \<Rightarrow> i32 list \<Rightarrow> Worker \<Rightarrow> Worker option" where
  "acknowledge n i [] s = Some s"
| "acknowledge n i (v # vs) s = do { s \<leftarrow> Worker_ProcessRdmaRequest n s (Peer v) (ReceivedImm i); acknowledge n i vs s }"

text \<open>
  The home while it waits: request \<open>r\<close> is the write \<open>w\<close>, request \<open>lr\<close> the invalidation \<open>l\<close> that counts the
  answers, and the block is in transition with the copies \<open>sh\<close> left.
\<close>

definition collecting :: "Worker \<Rightarrow> ptr \<Rightarrow> nat \<Rightarrow> WorkRequest \<Rightarrow> nat \<Rightarrow> WorkRequest \<Rightarrow> gaddr list \<Rightarrow> bool" where
  "collecting s b r w lr l sh \<longleftrightarrow> reqs s r = Some w \<and> reqs s lr = Some l \<and> r \<noteq> lr \<and> wr_op l = INVALIDATE_FORWARD \<and> wr_parent l = Some r \<and>
     wr_status l = 0 \<and> wr_addr l = wr_addr w \<and> pending_works s (wr_id l) = Some lr \<and> b = ToLocal s (wr_addr w) \<and> BLOCK_ALIGNED b \<and>
     dir_ok (directory s) \<and> block_state s b = DIR_TO_DIRTY \<and> block_locks s b = [] \<and> sharers s b = sh"

lemma collecting_entry:
  assumes "collecting s b r w lr l sh"
  obtains en where "directory s b = Some en" "dstate en = DIR_TO_DIRTY" "dshared en = sh" "dlocks en = []" "daddr en = b"
    "GetEntry (directory s) b = Some b" "distinct (map WID sh)" "sh \<noteq> []"
proof -
  have "\<exists>en. directory s b = Some en"
    using assms by (auto simp: collecting_def block_state_def GetState_p_def TOBLOCK_id split: option.splits)
  then obtain en where en: "directory s b = Some en" ..
  have "entry_ok b en" using assms en by (auto simp: collecting_def dir_ok_def)
  then show ?thesis using assms en
    by (intro that [of en]) (auto simp: collecting_def block_state_def GetState_p_def TOBLOCK_id block_locks_def sharers_def GetEntry_aligned
        entry_ok_def state_ok_def)
qed

text \<open>An acknowledgement that is not the last one takes its sender off the list and changes nothing else.\<close>

lemma early_ack:
  assumes a: "collecting s b r w lr l sh" and k: "wr_counter l \<noteq> 1" and e: "erase_wid sh v \<noteq> []"
  shows "\<exists>s'. Worker_ProcessRdmaRequest n s (Peer v) (ReceivedImm (wr_id l)) = Some s' \<and>
    collecting s' b r w lr (l\<lparr>wr_counter := wr_counter l - 1\<rparr>) (erase_wid sh v) \<and>
    s' = s\<lparr>reqs := reqs s', directory := directory s'\<rparr> \<and> (\<forall>x. x \<noteq> lr \<longrightarrow> reqs s' x = reqs s x) \<and> (\<forall>x. x \<noteq> b \<longrightarrow> directory s' x = directory s x)"
proof -
  obtain en where en: "directory s b = Some en" "dstate en = DIR_TO_DIRTY" "dshared en = sh" "dlocks en = []" "daddr en = b"
    "GetEntry (directory s) b = Some b" "distinct (map WID sh)" "sh \<noteq> []" using collecting_entry [OF a] .
  let ?en = "en\<lparr>dshared := erase_wid sh v\<rparr>" and ?l = "l\<lparr>wr_counter := wr_counter l - 1\<rparr>"
  have R: "Remove_e (directory s) (Some b) v = ((directory s)(b \<mapsto> ?en), Some b)"
    using en e by (simp add: Remove_e_def deref_def store_def)
  let ?s' = "s\<lparr>reqs := (reqs s)(lr \<mapsto> ?l), directory := (directory s)(b \<mapsto> ?en)\<rparr>"
  have k1: "wr_counter l - 1 \<noteq> 0" using k by simp
  have run: "Worker_ProcessRdmaRequest n s (Peer v) (ReceivedImm (wr_id l)) = Some ?s'"
    using a en(6) R k1
    by (auto simp: collecting_def Worker_ProcessRdmaRequest_def ProcessImm_def GetPendingWork_def ProcessPendingRequest_def
        ProcessPendingInvalidateForward_def upd_wr_def cli_wid_def set_dir_def Let_def)
  have "entry_ok b en" using a en(1) by (auto simp: collecting_def dir_ok_def)
  then have "entry_ok b ?en" using e en(2,4) distinct_erase_wid [OF en(7)] by (auto simp: entry_ok_def state_ok_def)
  then have "dir_ok (directory ?s')" using a by (auto simp: collecting_def dir_ok_upd)
  moreover have "ToLocal ?s' = ToLocal s" by (simp add: ToLocal_def fun_eq_iff)
  ultimately have "collecting ?s' b r w lr ?l (erase_wid sh v)"
    using a en by (auto simp: collecting_def block_state_def GetState_p_def TOBLOCK_id block_locks_def sharers_def)
  then show ?thesis using run by (intro exI [of _ ?s']) simp
qed

text \<open>
  The last acknowledgement: the block belongs to the writer, who gets the bytes if it asked for them or has no
  copy, and the permission.
\<close>

definition grant_data :: "Worker \<Rightarrow> client \<Rightarrow> ptr \<Rightarrow> WorkRequest \<Rightarrow> bool \<Rightarrow> outgoing list" where
  "grant_data s c b w bytes = (if bytes then [OWrite c (wr_ptr w) (mem_read (mem s) b (unat (wr_size w)))] else [])"

lemma FindClientWid_dir [simp]: "FindClientWid (s\<lparr>directory := d\<rparr>) k = FindClientWid s k"
  by (simp add: FindClientWid_def)

lemma last_ack:
  assumes a: "collecting s b r w lr l sh" and k: "wr_counter l = 1"
    and c: "FindClientWid s (wr_pwid l) = Some c" "cli_ToGlobal s c (wr_ptr w) = Some g"
    and q: "to_serve_local_requests s (TOBLOCK (wr_addr w)) = None" "to_serve_requests s (TOBLOCK (wr_addr w)) = None"
  shows "\<exists>s' x. Worker_ProcessRdmaRequest n s (Peer v) (ReceivedImm (wr_id l)) = Some s' \<and>
    outbox s' = outbox s @ grant_data s c b w (wr_op w = WRITE \<or> erase_wid sh v = []) @ [OSend c x] \<and>
    wr_op x = WRITE_REPLY \<and> wr_status x = SUCCESS \<and> wr_id x = wr_id w \<and> wr_counter x = 0 \<and>
    block_state s' b = DIR_DIRTY \<and> sharers s' b = [g] \<and> block_locks s' b = [] \<and> dir_ok (directory s') \<and>
    (\<forall>y. y \<noteq> b \<longrightarrow> directory s' y = directory s y) \<and> mem s' = mem s \<and> reqs s' = (reqs s)(lr := None, r := None) \<and>
    pending_works s' = (pending_works s)(wr_id l := None)"
proof -
  obtain en where en: "directory s b = Some en" "dstate en = DIR_TO_DIRTY" "dshared en = sh" "dlocks en = []" "daddr en = b"
    "GetEntry (directory s) b = Some b" "distinct (map WID sh)" "sh \<noteq> []" using collecting_entry [OF a] .
  have al: "TOBLOCK b = b" using a by (auto simp: collecting_def TOBLOCK_id)
  obtain d e where R: "Remove_e (directory s) (Some b) v = (d, e)" by fastforce
  have "\<exists>en'. (if e \<noteq> None then ToDirty_e d e g else ToDirty_p d b g) = Some ((directory s)(b \<mapsto> en')) \<and>
      dstate en' = DIR_DIRTY \<and> dshared en' = [g] \<and> dlocks en' = [] \<and> daddr en' = b"
    using R en al by (auto simp: Remove_e_def deref_def store_def erase_entry_def IsBlockLocked_en_def ToDirty_e_def ToDirty_p_def GetEntry_def
        new_DirEntry_def Let_def split: if_splits)
  then obtain en' where E: "(if e \<noteq> None then ToDirty_e d e g else ToDirty_p d b g) = Some ((directory s)(b \<mapsto> en'))"
    "dstate en' = DIR_DIRTY" "dshared en' = [g]" "dlocks en' = []" "daddr en' = b" by blast
  have st: "GetState_e d e = DIR_UNSHARED \<longleftrightarrow> erase_wid sh v = []"
    using R en(1-5) by (auto simp: Remove_e_def deref_def store_def erase_entry_def IsBlockLocked_en_def GetState_e_def Let_def split: if_splits)
  let ?x = "w\<lparr>wr_op := WRITE_REPLY, wr_status := SUCCESS, wr_counter := 0, wr_wid := my_wid s\<rparr>"
  let ?s' = "s\<lparr>directory := (directory s)(b \<mapsto> en'), reqs := (reqs s)(lr := None, r := None), pending_works := (pending_works s)(wr_id l := None),
      outbox := outbox s @ grant_data s c b w (wr_op w = WRITE \<or> erase_wid sh v = []) @ [OSend c ?x]\<rparr>"
  have "wr_counter l - 1 = 0" using k by simp
  then have run: "Worker_ProcessRdmaRequest n s (Peer v) (ReceivedImm (wr_id l)) = Some ?s'"
    using a en(6) R E(1) st c q
    by (cases e) (auto simp: collecting_def Worker_ProcessRdmaRequest_def ProcessImm_def GetPendingWork_def ProcessPendingRequest_def
        ProcessPendingInvalidateForward_def upd_wr_def cli_wid_def set_dir_def Let_def grant_data_def cli_Write_def emit_def SubmitPlain_eq
        ErasePendingWork_def ProcessToServeRequest_def delete_wr_def)
  have "entry_ok b en'" using E a by (auto simp: entry_ok_def state_ok_def collecting_def tab_inv_def tab_in_def)
  then have "dir_ok (directory ?s')" using a by (auto simp: collecting_def dir_ok_upd)
  then show ?thesis using run E(2-4) al
    by (intro exI [of _ ?s'] exI [of _ ?x]) (simp add: block_state_def GetState_p_def sharers_def block_locks_def)
qed

lemma wid64_inj: "wid64 v = wid64 v' \<longleftrightarrow> v = v'"
proof
  assume "wid64 v = wid64 v'"
  then have "sint (scast v :: u64) = sint (scast v' :: u64)" by (simp add: wid64_def)
  then have "sint v = sint v'" by (simp add: sint_up_scast is_up)
  then show "v = v'" by (rule signed_word_eqI)
qed simp

text \<open>The state of the home when the writer has been granted the block.\<close>

definition granted :: "Worker \<Rightarrow> Worker \<Rightarrow> ptr \<Rightarrow> nat \<Rightarrow> WorkRequest \<Rightarrow> nat \<Rightarrow> WorkRequest \<Rightarrow> client \<Rightarrow> gaddr \<Rightarrow> bool \<Rightarrow> bool" where
  "granted s s' b r w lr l c g bytes \<longleftrightarrow> (\<exists>x. outbox s' = outbox s @ grant_data s c b w bytes @ [OSend c x] \<and>
      wr_op x = WRITE_REPLY \<and> wr_status x = SUCCESS \<and> wr_id x = wr_id w \<and> wr_counter x = 0) \<and>
    block_state s' b = DIR_DIRTY \<and> sharers s' b = [g] \<and> block_locks s' b = [] \<and> dir_ok (directory s') \<and>
    (\<forall>y. y \<noteq> b \<longrightarrow> directory s' y = directory s y) \<and> mem s' = mem s \<and> reqs s' = (reqs s)(lr := None, r := None) \<and>
    pending_works s' = (pending_works s)(wr_id l := None)"

lemma granted_later:
  assumes "granted s1 s' b r w lr (l\<lparr>wr_counter := k\<rparr>) c g bytes" "s1 = s\<lparr>reqs := reqs s1, directory := directory s1\<rparr>"
    "\<forall>x. x \<noteq> lr \<longrightarrow> reqs s1 x = reqs s x" "\<forall>x. x \<noteq> b \<longrightarrow> directory s1 x = directory s x"
  shows "granted s s' b r w lr l c g bytes"
proof -
  have e: "outbox s1 = outbox s" "mem s1 = mem s" "pending_works s1 = pending_works s" by (subst assms(2), simp)+
  have "(reqs s1)(lr := None, r := None) = (reqs s)(lr := None, r := None)" using assms(3) by (auto simp: fun_eq_iff)
  moreover have "grant_data s1 c b w bytes = grant_data s c b w bytes" by (simp add: grant_data_def e)
  ultimately show ?thesis using assms(1,4) by (simp add: granted_def e)
qed

lemma only_other: "A - {x} = {y} \<Longrightarrow> x \<noteq> y \<Longrightarrow> A - {y} = {} \<longleftrightarrow> x \<notin> A"
  by blast

lemma acks_run:
  assumes "collecting s b r w lr l sh" "vs \<noteq> []" "distinct vs" "wr_counter l = of_nat (length vs)" "length vs < 2 ^ 31"
    and "wid64 ` set vs = WID ` set sh - {wid64 m}" "FindClientWid s (wr_pwid l) = Some c" "cli_ToGlobal s c (wr_ptr w) = Some g"
    and "to_serve_local_requests s (TOBLOCK (wr_addr w)) = None" "to_serve_requests s (TOBLOCK (wr_addr w)) = None"
  shows "\<exists>s'. acknowledge n (wr_id l) vs s = Some s' \<and> granted s s' b r w lr l c g (wr_op w = WRITE \<or> wid64 m \<notin> WID ` set sh) \<and>
    (\<forall>k < length vs. \<exists>t. acknowledge n (wr_id l) (take k vs) s = Some t \<and> block_state t b = DIR_TO_DIRTY \<and> outbox t = outbox s)"
  using assms
proof (induction vs arbitrary: s l sh)
  case (Cons v vs)
  have dis: "distinct (map WID sh)" using collecting_entry [OF Cons.prems(1)] by blast
  have W: "WID ` set (erase_wid sh v) = WID ` set sh - {wid64 v}" by (rule erase_wid_removes [OF dis])
  have mv: "wid64 m \<notin> wid64 ` set (v # vs)" using Cons.prems(6) by simp
  have now: "block_state s b = DIR_TO_DIRTY" using Cons.prems(1) by (auto simp: collecting_def)
  show ?case
  proof (cases vs)
    case Nil
    then have S: "WID ` set sh - {wid64 m} = {wid64 v}" using Cons.prems(6) by simp
    have "erase_wid sh v = [] \<longleftrightarrow> WID ` set (erase_wid sh v) = {}" by simp
    also have "\<dots> \<longleftrightarrow> wid64 m \<notin> WID ` set sh" unfolding W using only_other [OF S] mv by simp
    finally have e: "erase_wid sh v = [] \<longleftrightarrow> wid64 m \<notin> WID ` set sh" .
    have "wr_counter l = 1" using Cons.prems(4) Nil by simp
    from last_ack [OF Cons.prems(1) this Cons.prems(7-10), of n v] obtain s' where
      "Worker_ProcessRdmaRequest n s (Peer v) (ReceivedImm (wr_id l)) = Some s'" "granted s s' b r w lr l c g (wr_op w = WRITE \<or> wid64 m \<notin> WID ` set sh)"
      unfolding e granted_def by blast
    then show ?thesis using Nil now by (intro exI [of _ s']) simp
  next
    case vs: (Cons v' vs')
    have "wid64 v' \<in> WID ` set (erase_wid sh v)" unfolding W using Cons.prems(3,6) vs by (auto simp: wid64_inj)
    then have ne: "erase_wid sh v \<noteq> []" by auto
    have "sint (wr_counter l) = int (length (v # vs))" unfolding Cons.prems(4) using Cons.prems(5) by (rule sint_of_nat_small)
    then have k: "wr_counter l \<noteq> 1" using vs by auto
    obtain s1 where s1: "Worker_ProcessRdmaRequest n s (Peer v) (ReceivedImm (wr_id l)) = Some s1"
      "collecting s1 b r w lr (l\<lparr>wr_counter := wr_counter l - 1\<rparr>) (erase_wid sh v)" "s1 = s\<lparr>reqs := reqs s1, directory := directory s1\<rparr>"
      "\<forall>x. x \<noteq> lr \<longrightarrow> reqs s1 x = reqs s x" "\<forall>x. x \<noteq> b \<longrightarrow> directory s1 x = directory s x"
      using early_ack [OF Cons.prems(1) k ne, of n] by blast
    let ?l = "l\<lparr>wr_counter := wr_counter l - 1\<rparr>"
    have f: "FindClientWid s1 = FindClientWid s" "cli_ToGlobal s1 = cli_ToGlobal s" "to_serve_local_requests s1 = to_serve_local_requests s"
      "to_serve_requests s1 = to_serve_requests s" "outbox s1 = outbox s" by (subst s1(3), simp add: FindClientWid_def fun_eq_iff)+
    have i: "wid64 ` set vs = WID ` set (erase_wid sh v) - {wid64 m}" unfolding W using Cons.prems(3,6) by (auto simp: wid64_inj)
    have b: "wid64 m \<notin> WID ` set (erase_wid sh v) \<longleftrightarrow> wid64 m \<notin> WID ` set sh" unfolding W using mv by auto
    have "vs \<noteq> []" "distinct vs" "wr_counter ?l = of_nat (length vs)" "length vs < 2 ^ 31" using vs Cons.prems(3-5) by simp_all
    from Cons.IH [OF s1(2) this i] Cons.prems(7-10) obtain s' where s': "acknowledge n (wr_id l) vs s1 = Some s'"
      "granted s1 s' b r w lr ?l c g (wr_op w = WRITE \<or> wid64 m \<notin> WID ` set sh)"
      "\<forall>k < length vs. \<exists>t. acknowledge n (wr_id l) (take k vs) s1 = Some t \<and> block_state t b = DIR_TO_DIRTY \<and> outbox t = outbox s1"
      unfolding f b by auto
    have "\<exists>t. acknowledge n (wr_id l) (take k (v # vs)) s = Some t \<and> block_state t b = DIR_TO_DIRTY \<and> outbox t = outbox s" if "k < length (v # vs)" for k
      using that s'(3) s1(1) now f(5) by (cases k) auto
    then show ?thesis using s'(1) s1(1) granted_later [OF s'(2) s1(3-5)] by (intro exI [of _ s']) simp
  qed
qed simp

section \<open>The whole round\<close>

lemma wid64_WID: "wid64 (ucast (WID g)) = WID g"
  by (rule bit_word_eqI) (auto simp: wid64_def WID_def bit_simps min_def dest: bit_imp_le_length split: if_splits)

lemma GetClient_sharer:
  assumes "g \<noteq> 0" "GetClient s g = Some c"
  shows "c = Peer (ucast (WID g))"
  using assms by (auto simp: GetClient_def Let_def split: if_splits)

text \<open>The workers that have to acknowledge, by number.\<close>

lemma other_sharer_wids:
  assumes "\<forall>g \<in> set sh. g \<noteq> 0 \<and> GetClient s g \<noteq> None"
  shows "wid64 ` (\<lambda>g. ucast (WID g)) ` set (other_sharers s (Peer m) sh) = WID ` set sh - {wid64 m}"
proof -
  have "GetClient s g \<noteq> Some (Peer m) \<longleftrightarrow> WID g \<noteq> wid64 m" if g: "g \<in> set sh" for g
  proof -
    obtain c where "GetClient s g = Some c" using bspec [OF assms g] by auto
    moreover have "g \<noteq> 0" using bspec [OF assms g] by blast
    ultimately have "GetClient s g = Some (Peer (ucast (WID g)))" using GetClient_sharer [of g s c] by simp
    then have "GetClient s g = Some (Peer m) \<longleftrightarrow> wid64 (ucast (WID g)) = wid64 m" unfolding wid64_inj by simp
    then show ?thesis unfolding wid64_WID by simp
  qed
  then show ?thesis unfolding image_image wid64_WID by (auto simp: other_sharers_def)
qed

lemma distinct_wids: "distinct (map WID gs) \<Longrightarrow> distinct (map (\<lambda>g. ucast (WID g) :: i32) gs)"
  unfolding distinct_map by (metis (mono_tags, lifting) inj_onI inj_onD wid64_WID)

lemma write_invalidates:
  assumes ok: "dir_ok (directory s)" and w: "reqs s r = Some w" "r \<noteq> next_req s" "wr_status w = 0"
    and b: "b = ToLocal s (wr_addr w)" "BLOCK_ALIGNED b"
    and st: "block_state s b = DIR_SHARED" "block_locks s b = []" and os: "os = other_sharers s c (sharers s b)"
    and cl: "os \<noteq> []" "\<forall>g \<in> set os. GetClient s g \<noteq> None" "length os < 2 ^ 31"
  shows "\<exists>ms l s'. ProcessRemoteWrite s c r = Some s' \<and> outbox s' = outbox s @ ms \<and> sent_to (map (\<lambda>g. the (GetClient s g)) os) l ms \<and>
    collecting s' b r w (next_req s) l (sharers s b) \<and> wr_counter l = of_nat (length os) \<and> wr_pwid l = cli_wid s c \<and> widCliMap s' = widCliMap s \<and>
    to_serve_local_requests s' = to_serve_local_requests s \<and> to_serve_requests s' = to_serve_requests s \<and> mem s' = mem s"
proof -
  obtain en where en: "directory s b = Some en" "dstate en = DIR_SHARED" "sharers s b = dshared en"
    "block_locks s b = dlocks en" "GetEntry (directory s) b = Some b" using shared_entry [OF st(1) b(2)] .
  let ?d = "(directory s)(b \<mapsto> en\<lparr>dstate := DIR_TO_DIRTY\<rparr>)"
  have d: "ToToDirty_p (directory s) b = Some ?d" using en b(2)
    by (simp add: ToToDirty_p_def ToToDirty_e_def GetEntry_aligned TOBLOCK_id deref_def store_def)
  moreover have "dir_pre (directory s) (DToToDirty b)" using b(2) en st(2) by (simp add: with_entry_def TOBLOCK_id)
  ultimately have d_ok: "dir_ok ?d" using dir_exec_ok [OF ok, of "DToToDirty b"] by simp
  have n: "of_nat (length os) \<noteq> (0 :: i32)" using cl(1,3) sint_of_nat_small [of "length os"] by auto
  obtain ms wid where ms: "sent_to (map (\<lambda>g. the (GetClient s g)) os) (invalidation s c r w) ms"
    and pr: "ProcessRemoteWrite s c r = Some (set_dir
        (with_sent (s\<lparr>next_req := next_req s + 1, wr_psn := next_psn s\<rparr>) (next_req s)
          ((invalidation s c r w)\<lparr>wr_wid := wid, wr_counter := of_nat (length os)\<rparr>) ms
          ((pending_works s)(next_psn s \<mapsto> next_req s))) ?d)"
    using invalidation_round [OF w(1,2) b st os cl(2)] cl(1) n d by auto
  let ?l = "(invalidation s c r w)\<lparr>wr_wid := wid, wr_counter := of_nat (length os)\<rparr>"
  let ?s' = "set_dir (with_sent (s\<lparr>next_req := next_req s + 1, wr_psn := next_psn s\<rparr>) (next_req s) ?l ms ((pending_works s)(next_psn s \<mapsto> next_req s))) ?d"
  have "wr_status (invalidation s c r w) = 0" using w(3) by (simp add: invalidation_def copy_WorkRequest_def)
  moreover have "ToLocal ?s' (wr_addr w) = b" using b(1) by (simp add: ToLocal_def set_dir_def with_sent_def)
  ultimately have "collecting ?s' b r w (next_req s) ?l (sharers s b)"
    using d_ok w b(2) en st(2) by (simp add: collecting_def set_dir_def block_state_def GetState_p_def
        sharers_def block_locks_def TOBLOCK_id invalidation_fields)
  then show ?thesis using pr ms
    by (intro exI [of _ ms] exI [of _ ?l] exI [of _ ?s']) (simp add: sent_to_counter set_dir_def invalidation_fields with_sent_def)
qed

text \<open>What a sharer does with the message of the home.\<close>

lemma sharer_answers:
  assumes x: "same_request l x" "wr_op l = INVALIDATE_FORWARD" and ok: "cache_ok t L"
    and h: "caches t (TOBLOCK (wr_addr l)) = Some k" "cl_state k \<in> {CACHE_SHARED, CACHE_DIRTY}" "cl_locks k = []"
  shows "\<exists>t'. worker_process (Suc n) c t (received new_WorkRequest x q) = Some t' \<and>
    cache_view t' = (cache_view t)(TOBLOCK (wr_addr l) := None) \<and> outbox t' = outbox t @ [OWriteImm c 0 [] (wr_id l) None]"
proof -
  let ?v = "received new_WorkRequest x q" and ?t = "t\<lparr>reqs := (reqs t)(next_req t \<mapsto> received new_WorkRequest x q), next_req := next_req t + 1\<rparr>"
  have "x\<lparr>wr_counter := 0, wr_wid := 0\<rparr> = l\<lparr>wr_counter := 0, wr_wid := 0\<rparr>" using x(1) by (simp add: same_request_def)
  note f = arg_cong [OF this, of wr_op] arg_cong [OF this, of wr_addr] arg_cong [OF this, of wr_id]
  then have v: "wr_op ?v = INVALIDATE_FORWARD" "wr_addr ?v = wr_addr l" "wr_id ?v = wr_id l" using x(2) by (simp_all add: received_def Let_def)
  have t: "cache_ok ?t L" "cache_view ?t = cache_view t" using ok cache_ok_fields [of ?t t] by (simp_all add: cache_view_def fun_eq_iff)
  have "reqs ?t (next_req t) = Some ?v" "wr_op ?v \<in> {INVALIDATE, INVALIDATE_FORWARD}" "caches ?t (TOBLOCK (wr_addr ?v)) = Some k"
    using v h(1) by simp_all
  from invalidate_run [OF this(1,2) t(1) this(3) h(2,3), of c] obtain t' where "ProcessRemoteWriteCache ?t c (next_req t) = Some t'"
    "cache_view t' = (cache_view t)(TOBLOCK (wr_addr l) := None)" "outbox t' = outbox t @ [OWriteImm c 0 [] (wr_id l) None]"
    unfolding v t(2) by auto
  then show ?thesis by (simp add: worker_process_def alloc_wr_def ProcessRequest_def ProcessRequest_body_def v)
qed

text \<open>
  C5. A write of a shared block ends with one owner. When the writer's request has arrived, the home asks each
  other sharer for its copy; every sharer that holds the block unlocked drops its line and acknowledges
  under the identifier the home waits for. The acknowledgements may arrive in any order: until the last one the
  block stays in transition and the home sends nothing; with it the writer is recorded as the only holder and
  gets the permission, preceded by the bytes if it asked for them or has no copy of its own.
\<close>

theorem shared_write_one_owner:
  assumes ok: "dir_ok (directory s)" and w: "reqs s r = Some w" "r \<noteq> next_req s" "wr_status w = 0"
    and b: "b = ToLocal s (wr_addr w)" "BLOCK_ALIGNED b" and st: "block_state s b = DIR_SHARED" "block_locks s b = []"
    and sh: "\<forall>g \<in> set (sharers s b). g \<noteq> 0 \<and> GetClient s g \<noteq> None" "length (sharers s b) < 2 ^ 31"
    and vs: "os = other_sharers s (Peer m) (sharers s b)" "os \<noteq> []" "mset vs = mset (map (\<lambda>g. ucast (WID g)) os)"
    and m: "cli_ToGlobal s (Peer m) (wr_ptr w) = Some g"
    and q: "to_serve_local_requests s (TOBLOCK (wr_addr w)) = None" "to_serve_requests s (TOBLOCK (wr_addr w)) = None"
    and T: "\<forall>v \<in> set vs. cache_ok (T v) (L v) \<and> caches (T v) (TOBLOCK (wr_addr w)) = Some (C v) \<and> cl_state (C v) \<in> {CACHE_SHARED, CACHE_DIRTY} \<and> cl_locks (C v) = []"
  shows "\<exists>s1 ms i s2 x. ProcessRemoteWrite s (Peer m) r = Some s1 \<and> outbox s1 = outbox s @ ms \<and> length ms = length vs \<and>
    (\<forall>v \<in> set vs. \<exists>y t. OSend (Peer v) y \<in> set ms \<and> worker_process (Suc n) (Peer h) (T v) (received new_WorkRequest y (p v)) = Some t \<and>
       cache_view t = (cache_view (T v))(TOBLOCK (wr_addr w) := None) \<and> outbox t = outbox (T v) @ [OWriteImm (Peer h) 0 [] i None]) \<and>
    (\<forall>k < length vs. \<exists>t. acknowledge n' i (take k vs) s1 = Some t \<and> block_state t b = DIR_TO_DIRTY \<and> outbox t = outbox s1) \<and>
    acknowledge n' i vs s1 = Some s2 \<and> block_state s2 b = DIR_DIRTY \<and> sharers s2 b = [g] \<and> dir_ok (directory s2) \<and> reqs s2 r = None \<and>
    outbox s2 = outbox s1 @ grant_data s (Peer m) b w (wr_op w = WRITE \<or> wid64 m \<notin> WID ` set (sharers s b)) @ [OSend (Peer m) x] \<and>
    wr_op x = WRITE_REPLY \<and> wr_status x = SUCCESS \<and> wr_id x = wr_id w"
proof -
  have os: "\<forall>g \<in> set os. GetClient s g \<noteq> None" "length os < 2 ^ 31"
    using sh vs(1) by (auto simp: other_sharers_def intro: le_less_trans [OF length_filter_le])
  obtain ms l s1 where H: "ProcessRemoteWrite s (Peer m) r = Some s1" "outbox s1 = outbox s @ ms" "sent_to (map (\<lambda>g. the (GetClient s g)) os) l ms"
    "collecting s1 b r w (next_req s) l (sharers s b)" "wr_counter l = of_nat (length os)" "wr_pwid l = cli_wid s (Peer m)" "widCliMap s1 = widCliMap s"
    "to_serve_local_requests s1 = to_serve_local_requests s" "to_serve_requests s1 = to_serve_requests s" "mem s1 = mem s"
    using write_invalidates [OF ok w b st vs(1,2) os] by blast
  have dis: "distinct (map WID (sharers s b))" using collecting_entry [OF H(4)] by blast
  have len: "length vs = length os" using mset_eq_length [OF vs(3)] by simp
  have set: "set vs = (\<lambda>g. ucast (WID g)) ` set os" using mset_eq_setD [OF vs(3)] by simp
  have "distinct (map (\<lambda>g. ucast (WID g) :: i32) os)" unfolding vs(1) other_sharers_def
    by (rule distinct_wids) (simp add: dis distinct_map_filter)
  then have d: "distinct vs" using vs(3) by (metis mset_eq_imp_distinct_iff)
  have wids: "wid64 ` set vs = WID ` set (sharers s b) - {wid64 m}" unfolding set vs(1) by (rule other_sharer_wids [OF sh(1)])
  have c: "FindClientWid s1 (wr_pwid l) = Some (Peer m)" "cli_ToGlobal s1 (Peer m) (wr_ptr w) = Some g"
    using m by (auto simp: H(6,7) FindClientWid_def cli_wid_def cli_ToGlobal_def)
  have nz: "vs \<noteq> []" using len vs(2) by auto
  obtain s2 where A: "acknowledge n' (wr_id l) vs s1 = Some s2"
    "granted s1 s2 b r w (next_req s) l (Peer m) g (wr_op w = WRITE \<or> wid64 m \<notin> WID ` set (sharers s b))"
    "\<forall>k < length vs. \<exists>t. acknowledge n' (wr_id l) (take k vs) s1 = Some t \<and> block_state t b = DIR_TO_DIRTY \<and> outbox t = outbox s1"
    using acks_run [OF H(4) nz d _ _ wids c] H(5,8,9) len os(2) q by auto
  have l: "wr_op l = INVALIDATE_FORWARD" "wr_addr l = wr_addr w" using H(4) by (auto simp: collecting_def)
  have S: "\<exists>y t. OSend (Peer v) y \<in> set ms \<and> worker_process (Suc n) (Peer h) (T v) (received new_WorkRequest y (p v)) = Some t \<and>
       cache_view t = (cache_view (T v))(TOBLOCK (wr_addr w) := None) \<and> outbox t = outbox (T v) @ [OWriteImm (Peer h) 0 [] (wr_id l) None]"
    if v: "v \<in> set vs" for v
  proof -
    obtain g where g: "g \<in> set os" "v = ucast (WID g)" using v set by blast
    then obtain c where "GetClient s g = Some c" using os(1) by blast
    moreover have "g \<in> set (sharers s b)" using g(1) vs(1) by (simp add: other_sharers_def)
    ultimately have "the (GetClient s g) = Peer v" using GetClient_sharer [of g s c] sh(1) g(2) by simp
    then have "Peer v \<in> set (map (\<lambda>g. the (GetClient s g)) os)" using g(1) by force
    then obtain y where y: "OSend (Peer v) y \<in> set ms" "same_request l y"
      using list_all2_in_set1 [OF H(3) [unfolded sent_to_def]] by blast
    then show ?thesis using sharer_answers [OF y(2) l(1), of "T v" "L v" "C v" n "Peer h" "p v"] bspec [OF T v] unfolding l(2) by blast
  qed
  have n: "length ms = length vs" using H(3) len by (auto simp: sent_to_def dest: list_all2_lengthD)
  have gd: "grant_data s1 c b w y = grant_data s c b w y" for c y by (simp add: grant_data_def H(10))
  obtain x where "outbox s2 = outbox s1 @ grant_data s (Peer m) b w (wr_op w = WRITE \<or> wid64 m \<notin> WID ` set (sharers s b)) @ [OSend (Peer m) x]"
    "wr_op x = WRITE_REPLY" "wr_status x = SUCCESS" "wr_id x = wr_id w" using A(2) unfolding granted_def gd by blast
  moreover have "block_state s2 b = DIR_DIRTY" "sharers s2 b = [g]" "dir_ok (directory s2)" "reqs s2 r = None" using A(2) by (simp_all add: granted_def)
  ultimately show ?thesis using H(1,2) n S A(1,3)
    by (intro exI [of _ s1] exI [of _ ms] exI [of _ "wr_id l"] exI [of _ s2] exI [of _ x] conjI) blast+
qed

text \<open>Worker 2 as the home of a block that the workers 1 and 4 share and worker 3 wants to write.\<close>

definition shared_home :: Worker where
  "shared_home = idle_worker\<lparr>my_wid := 2, next_req := 8,
     widCliMap := map (\<lambda>v. (v, \<lparr>cli_base = 4096, cli_size = 1000000, cli_free = 5000\<rparr>)) [1, 3, 4],
     directory := [66048 \<mapsto> home_entry DIR_SHARED [281474976711168, 1125899906842624]],
     reqs := [7 \<mapsto> wanted WRITE]\<rparr>"

lemma shared_home_addr: "WID 281474976711168 = 1" "WID 1125899906842624 = 4" "TO_LOCAL 562949953421824 65536 = 66048" "BLOCK_ALIGNED 66048"
  "TO_GLOB 8192 4096 3 = 844424930136064"
  by code_simp+

theorem shared_write_one_owner_witness:
  "\<exists>s1 i s2. ProcessRemoteWrite shared_home (Peer 3) 7 = Some s1 \<and> length (outbox s1) = 2 \<and> acknowledge 0 i [4, 1] s1 = Some s2 \<and>
     block_state s2 66048 = DIR_DIRTY \<and> sharers s2 66048 = [844424930136064]"
proof -
  obtain a n where n: "slab_inv a" "live a 528384 = Some n" "512 \<le> n" using small_line by blast
  let ?s = shared_home and ?os = "[281474976711168, 1125899906842624]" and ?T = "\<lambda>v :: i32. one_line 528384 a"
  have dir: "directory ?s = [66048 \<mapsto> home_entry DIR_SHARED ?os]" by (simp add: shared_home_def)
  have ok: "dir_ok (directory ?s)"
    by (simp add: dir dir_ok_def entry_ok_def state_ok_def home_entry_def shared_home_addr new_DirEntry_def tab_inv_def tab_in_def tab_wlocked_def)
  have b: "66048 = ToLocal ?s (wr_addr (wanted WRITE))" by (simp add: shared_home_def idle_worker_def ToLocal_def wanted_def shared_home_addr)
  have st: "block_state ?s 66048 = DIR_SHARED" "block_locks ?s 66048 = []" "sharers ?s 66048 = ?os"
    by (simp_all add: block_state_def GetState_p_def TOBLOCK_id shared_home_addr block_locks_def sharers_def dir home_entry_def new_DirEntry_def)
  have cl: "GetClient ?s 281474976711168 = Some (Peer 1)" "GetClient ?s 1125899906842624 = Some (Peer 4)"
    by (simp_all add: GetClient_def shared_home_def shared_home_addr)
  have os: "?os = other_sharers ?s (Peer 3) (sharers ?s 66048)" unfolding st(3) by (simp add: other_sharers_def cl)
  have vs: "mset [4, 1] = mset (map (\<lambda>g. ucast (WID g) :: i32) ?os)" by (simp add: shared_home_addr)
  have m: "cli_ToGlobal ?s (Peer 3) (wr_ptr (wanted WRITE)) = Some 844424930136064"
    by (simp add: cli_ToGlobal_def shared_home_def wanted_def shared_home_addr)
  have T: "\<forall>v \<in> set [4, 1]. cache_ok (?T v) ((\<lambda>_. [])(0 := [562949953421824])) \<and> caches (?T v) (TOBLOCK (wr_addr (wanted WRITE))) = Some (held_line CACHE_SHARED []) \<and>
      cl_state (held_line CACHE_SHARED []) \<in> {CACHE_SHARED, CACHE_DIRTY} \<and> cl_locks (held_line CACHE_SHARED []) = []"
    using one_line_ok(1) [OF n] by (simp add: wanted_block one_line_def held_line_def new_CacheLine_def)
  have w: "reqs ?s 7 = Some (wanted WRITE)" "7 \<noteq> next_req ?s" "wr_status (wanted WRITE) = 0"
    by (simp_all add: shared_home_def wanted_def new_WorkRequest_def)
  have sh: "\<forall>g \<in> set (sharers ?s 66048). g \<noteq> 0 \<and> GetClient ?s g \<noteq> None" "length (sharers ?s 66048) < 2 ^ 31" unfolding st(3) by (simp_all add: cl)
  have q: "to_serve_local_requests ?s x = None" "to_serve_requests ?s x = None" "outbox ?s = []" for x by (simp_all add: shared_home_def idle_worker_def)
  obtain s1 ms i s2 where "ProcessRemoteWrite ?s (Peer 3) 7 = Some s1" "outbox s1 = outbox ?s @ ms" "length ms = length [4, 1 :: i32]"
    "acknowledge 0 i [4, 1] s1 = Some s2" "block_state s2 66048 = DIR_DIRTY" "sharers s2 66048 = [844424930136064]"
    using shared_write_one_owner [OF ok w b shared_home_addr(4) st(1,2) sh os _ vs m q(1,2) T, of 0 2 "\<lambda>_. 0" 0] by blast
  then show ?thesis using q(3) by (intro exI [of _ s1] exI [of _ i] exI [of _ s2]) simp
qed

end
