(* ===== verification/Gam_Forward.thy ===== *)
theory Gam_Forward
  imports Gam_Invalidate
begin

text \<open>
  Requests for a block that a third worker owns, from end to end: the home forwards the request, the owner
  answers the requester directly and reports to the home.
\<close>

section \<open>The home between forward and report\<close>

text \<open>Request \<open>r\<close> is \<open>w\<close>, request \<open>lr\<close> the forward \<open>y\<close> of it, and the block, owned by \<open>ow\<close>, is in transition.\<close>

definition forwarding :: "Worker \<Rightarrow> ptr \<Rightarrow> nat \<Rightarrow> WorkRequest \<Rightarrow> nat \<Rightarrow> WorkRequest \<Rightarrow> gaddr \<Rightarrow> DirState \<Rightarrow> bool" where
  "forwarding h b r w lr y ow st \<longleftrightarrow> reqs h r = Some w \<and> reqs h lr = Some y \<and> r \<noteq> lr \<and> wr_parent y = Some r \<and> wr_addr y = wr_addr w \<and>
     wr_pid y = wr_id w \<and> pending_works h (wr_id y) = Some lr \<and> b = ToLocal h (wr_addr w) \<and> BLOCK_ALIGNED b \<and> dir_ok (directory h) \<and>
     block_state h b = st \<and> sharers h b = [ow] \<and> to_serve_requests h (TOBLOCK (wr_addr w)) = None \<and> to_serve_local_requests h (TOBLOCK (wr_addr w)) = None"

lemma forwarding_entry:
  assumes "forwarding h b r w lr y ow st" "st \<noteq> DIR_UNSHARED"
  obtains en where "directory h b = Some en" "dstate en = st" "dshared en = [ow]" "daddr en = b" "GetEntry (directory h) b = Some b" "TOBLOCK b = b" "entry_ok b en"
proof -
  have "\<exists>en. directory h b = Some en"
    using assms by (auto simp: forwarding_def block_state_def GetState_p_def TOBLOCK_id split: option.splits)
  then obtain en where en: "directory h b = Some en" ..
  have "entry_ok b en" using assms en by (auto simp: forwarding_def dir_ok_def)
  then show ?thesis using assms en
    by (intro that [of en]) (auto simp: forwarding_def block_state_def GetState_p_def TOBLOCK_id sharers_def GetEntry_aligned entry_ok_def)
qed

text \<open>What the home needs of a request it forwards.\<close>

definition owned_elsewhere :: "Worker \<Rightarrow> ptr \<Rightarrow> gaddr \<Rightarrow> gaddr \<Rightarrow> client \<Rightarrow> bool" where
  "owned_elsewhere h b a ow oc \<longleftrightarrow> dir_ok (directory h) \<and> BLOCK_ALIGNED b \<and> b = ToLocal h a \<and> block_state h b = DIR_DIRTY \<and> sharers h b = [ow] \<and>
     GetClient h ow = Some oc \<and> to_serve_requests h (TOBLOCK a) = None \<and> to_serve_local_requests h (TOBLOCK a) = None"

lemma home_forwards:
  assumes h: "owned_elsewhere h b (wr_addr x) ow oc" and x: "wr_op x \<in> {READ, WRITE}"
  shows "\<exists>h' y. worker_process (Suc n) c h x = Some h' \<and> outbox h' = outbox h @ [OSend oc y] \<and> wr_op y = (if wr_op x = READ then READ_FORWARD else WRITE_FORWARD) \<and>
    wr_size y = wr_size x \<and> wr_ptr y = wr_ptr x \<and> wr_pwid y = cli_wid h c \<and> mem h' = mem h \<and> widCliMap h' = widCliMap h \<and>
    forwarding h' b (next_req h) x (Suc (next_req h)) y ow (if wr_op x = READ then DIR_TO_SHARED else DIR_TO_DIRTY)"
proof -
  let ?h = "h\<lparr>reqs := (reqs h)(next_req h \<mapsto> x), next_req := next_req h + 1\<rparr>"
  have A: "reqs ?h (next_req h) = Some x" "next_req h \<noteq> next_req ?h" "dir_ok (directory ?h)" "b = ToLocal ?h (wr_addr x)" "BLOCK_ALIGNED b"
    "block_state ?h b = DIR_DIRTY" "sharers ?h b = [ow]" "GetClient ?h ow = Some oc"
    using h by (auto simp: owned_elsewhere_def ToLocal_def block_state_def sharers_def)
  let ?rd = "wr_op x = READ"
  have "\<exists>h' y. (if ?rd then ProcessRemoteRead ?h c (next_req h) else ProcessRemoteWrite ?h c (next_req h)) = Some h' \<and> outbox h' = outbox ?h @ [OSend oc y] \<and>
      wr_op y = (if ?rd then READ_FORWARD else WRITE_FORWARD) \<and> wr_addr y = wr_addr x \<and> wr_size y = wr_size x \<and> wr_ptr y = wr_ptr x \<and>
      wr_pid y = wr_id x \<and> wr_pwid y = cli_wid ?h c \<and> wr_parent y = Some (next_req h) \<and>
      pending_works h' (wr_id y) = Some (next_req ?h) \<and> reqs h' (next_req ?h) = Some y \<and> reqs h' (next_req h) = Some x \<and>
      block_state h' b = (if ?rd then DIR_TO_SHARED else DIR_TO_DIRTY) \<and> sharers h' b = [ow] \<and> mem h' = mem ?h \<and> dir_ok (directory h') \<and>
      h' = ?h\<lparr>next_req := next_req h', wr_psn := wr_psn h', reqs := reqs h', pending_works := pending_works h', outbox := outbox h', directory := directory h'\<rparr>"
  proof (cases ?rd)
    case True
    then show ?thesis using read_forward_run [OF A(3,1,2,4-8), of c] by simp
  next
    case False
    then have "wr_op x \<in> {WRITE, WRITE_PERMISSION_ONLY, WLOCK}" using x by auto
    then show ?thesis using False write_forward_run [OF A(3,1,2) _ A(4-8), of c] by simp
  qed
  then obtain h' y where R: "(if ?rd then ProcessRemoteRead ?h c (next_req h) else ProcessRemoteWrite ?h c (next_req h)) = Some h'" "outbox h' = outbox h @ [OSend oc y]"
    "wr_op y = (if ?rd then READ_FORWARD else WRITE_FORWARD)" "wr_addr y = wr_addr x" "wr_size y = wr_size x" "wr_ptr y = wr_ptr x"
    "wr_pid y = wr_id x" "wr_pwid y = cli_wid h c" "wr_parent y = Some (next_req h)" "pending_works h' (wr_id y) = Some (Suc (next_req h))"
    "reqs h' (Suc (next_req h)) = Some y" "reqs h' (next_req h) = Some x" "block_state h' b = (if ?rd then DIR_TO_SHARED else DIR_TO_DIRTY)" "sharers h' b = [ow]"
    "mem h' = mem h" "dir_ok (directory h')"
    "h' = ?h\<lparr>next_req := next_req h', wr_psn := wr_psn h', reqs := reqs h', pending_works := pending_works h', outbox := outbox h', directory := directory h'\<rparr>"
    by (auto simp: cli_wid_def)
  have f: "to_serve_requests h' = to_serve_requests h" "to_serve_local_requests h' = to_serve_local_requests h" "widCliMap h' = widCliMap h" "base h' = base h"
    by (subst R(17), simp)+
  have q: "to_serve_requests h' (TOBLOCK (wr_addr x)) = None" "to_serve_local_requests h' (TOBLOCK (wr_addr x)) = None"
    using h unfolding f by (auto simp: owned_elsewhere_def)
  have "b = ToLocal h' (wr_addr x)" using f(4) h by (simp add: ToLocal_def owned_elsewhere_def)
  then have "forwarding h' b (next_req h) x (Suc (next_req h)) y ow (if ?rd then DIR_TO_SHARED else DIR_TO_DIRTY)"
    using R(4,7,9-14,16) A(5) q unfolding forwarding_def by simp
  moreover have "worker_process (Suc n) c h x = Some h'"
    using R(1) x by (auto simp: worker_process_def alloc_wr_def ProcessRequest_def ProcessRequest_body_def)
  ultimately show ?thesis using R(2,3,5,6,8,15) f(3) by blast
qed

text \<open>The owner has reported: it shares the block with the reader, or the writer owns it.\<close>

lemma read_report:
  assumes f: "forwarding h b r x lr y ow DIR_TO_SHARED" and y: "wr_op y = READ_FORWARD" "FindClientWid h (wr_pwid y) = Some c"
    and g: "cli_ToGlobal h c (wr_ptr x) = Some g" "WID g \<noteq> WID ow"
  shows "\<exists>h'. Worker_ProcessRdmaRequest n (h\<lparr>mem := M\<rparr>) oc (ReceivedImm (wr_id y)) = Some h' \<and> block_state h' b = DIR_SHARED \<and> sharers h' b = [ow, g] \<and>
    dir_ok (directory h') \<and> mem h' = M \<and> outbox h' = outbox h \<and> reqs h' r = None"
proof -
  obtain en where en: "directory h b = Some en" "dstate en = DIR_TO_SHARED" "dshared en = [ow]" "daddr en = b" "GetEntry (directory h) b = Some b" "TOBLOCK b = b" "entry_ok b en"
    using forwarding_entry [OF f] by auto
  let ?en = "en\<lparr>dstate := DIR_SHARED, dshared := [ow, g]\<rparr>"
  let ?h' = "h\<lparr>mem := M, directory := (directory h)(b \<mapsto> ?en), pending_works := (pending_works h)(wr_id y := None), reqs := (reqs h)(lr := None, r := None)\<rparr>"
  have 1: "ToShared_e (directory h) (Some b) Gnullptr = Some ((directory h)(b \<mapsto> en\<lparr>dstate := DIR_SHARED\<rparr>))"
    using en by (simp add: ToShared_e_def deref_def store_def ToShared_en_def)
  have 2: "ToShared_e ((directory h)(b \<mapsto> en\<lparr>dstate := DIR_SHARED\<rparr>)) (Some b) g = Some ((directory h)(b \<mapsto> ?en))"
    using en(3) by (simp add: ToShared_e_def deref_def store_def ToShared_en_def)
  have F: "FindClientWid (h\<lparr>mem := M\<rparr>) k = FindClientWid h k" "ToLocal (h\<lparr>mem := M\<rparr>) a = ToLocal h a" for k a by (simp_all add: FindClientWid_def ToLocal_def)
  have run: "Worker_ProcessRdmaRequest n (h\<lparr>mem := M\<rparr>) oc (ReceivedImm (wr_id y)) = Some ?h'"
    using f y g(1) 1 2 en(5)
    by (auto simp: forwarding_def Worker_ProcessRdmaRequest_def ProcessImm_def GetPendingWork_def ProcessPendingRequest_def ProcessPendingReadForward_def
        ErasePendingWork_def set_dir_def ProcessToServeRequest_def delete_wr_def Let_def F)
  have "entry_ok b ?en" using en(2,7) g(2) by (auto simp: entry_ok_def state_ok_def)
  then have "dir_ok (directory ?h')" using f by (auto simp: forwarding_def dir_ok_upd)
  then show ?thesis using run en(6) by (intro exI [of _ ?h']) (simp add: block_state_def GetState_p_def sharers_def)
qed

lemma write_report:
  assumes f: "forwarding h b r x lr y ow DIR_TO_DIRTY" and y: "wr_op y = WRITE_FORWARD" "FindClientWid h (wr_pwid y) = Some c"
    and g: "cli_ToGlobal h c (wr_ptr x) = Some g"
  shows "\<exists>h'. Worker_ProcessRdmaRequest n h oc (ReceivedImm (wr_id y)) = Some h' \<and> block_state h' b = DIR_DIRTY \<and> sharers h' b = [g] \<and>
    dir_ok (directory h') \<and> mem h' = mem h \<and> outbox h' = outbox h @ [OWriteImm c 0 [] (wr_id x) None] \<and> reqs h' r = None"
proof -
  obtain en where en: "directory h b = Some en" "dstate en = DIR_TO_DIRTY" "dshared en = [ow]" "daddr en = b" "GetEntry (directory h) b = Some b" "TOBLOCK b = b" "entry_ok b en"
    using forwarding_entry [OF f] by auto
  let ?en = "en\<lparr>dstate := DIR_DIRTY, dshared := [g]\<rparr>"
  let ?h' = "h\<lparr>directory := (directory h)(b \<mapsto> ?en), outbox := outbox h @ [OWriteImm c 0 [] (wr_id x) None],
      pending_works := (pending_works h)(wr_id y := None), reqs := (reqs h)(lr := None, r := None)\<rparr>"
  have "ToDirty_p (directory h) b g = Some ((directory h)(b \<mapsto> ?en))"
    using en by (simp add: ToDirty_p_def ToDirty_e_def deref_def store_def)
  then have run: "Worker_ProcessRdmaRequest n h oc (ReceivedImm (wr_id y)) = Some ?h'"
    using f y g en(5)
    by (auto simp: forwarding_def Worker_ProcessRdmaRequest_def ProcessImm_def GetPendingWork_def ProcessPendingRequest_def ProcessPendingWriteForward_def
        ErasePendingWork_def set_dir_def ProcessToServeRequest_def delete_wr_def Let_def cli_WriteWithImm_def emit_def mem_read_def)
  have "entry_ok b ?en" using en(2,7) by (auto simp: entry_ok_def state_ok_def)
  then have "dir_ok (directory ?h')" using f by (auto simp: forwarding_def dir_ok_upd)
  then show ?thesis using run en(6) by (intro exI [of _ ?h']) (simp add: block_state_def GetState_p_def sharers_def)
qed

section \<open>The owner\<close>

lemma owner_answers_read:
  assumes y: "wr_op y = READ_FORWARD" "wr_size y = BLOCK_SIZE" and l: "caches t (TOBLOCK (wr_addr y)) = Some l" "cl_state l = CACHE_DIRTY" "\<not> Cache_IsBlockWLocked_l l"
    and c: "FindClientWid t (wr_pwid y) = Some rq" "cli_ToLocal t hc (TOBLOCK (wr_addr y)) = Some dest"
  shows "\<exists>t'. worker_process (Suc n) hc t (received new_WorkRequest y q) = Some t' \<and> caches t' = (caches t)(TOBLOCK (wr_addr y) \<mapsto> l\<lparr>cl_state := CACHE_SHARED\<rparr>) \<and> mem t' = mem t \<and>
    outbox t' = outbox t @ [OWriteImm rq (wr_ptr y) (mem_read (mem t) (cl_line l) 512) (wr_pid y) None,
                            OWriteImm hc dest (mem_read (mem t) (cl_line l) 512) (wr_id y) None]"
proof -
  let ?v = "received new_WorkRequest y q"
  let ?t = "t\<lparr>reqs := (reqs t)(next_req t \<mapsto> ?v), next_req := next_req t + 1\<rparr>"
  have v: "wr_op ?v = READ_FORWARD" "wr_addr ?v = wr_addr y" "wr_size ?v = BLOCK_SIZE" "wr_ptr ?v = wr_ptr y" "wr_id ?v = wr_id y" "wr_pid ?v = wr_pid y" "wr_pwid ?v = wr_pwid y"
    using y by (simp_all add: received_def Let_def)
  have "reqs ?t (next_req t) = Some ?v" "caches ?t (TOBLOCK (wr_addr ?v)) = Some l" "FindClientWid ?t (wr_pwid ?v) = Some rq" "cli_ToLocal ?t hc (TOBLOCK (wr_addr ?v)) = Some dest"
    using l(1) c by (simp_all add: v FindClientWid_def) (cases hc; simp add: cli_ToLocal_def cli_info_def)
  note R = serve_read_run [OF this(1) v(1) this(2) l(2,3) this(3,4)]
  show ?thesis using R
    by (simp add: worker_process_def alloc_wr_def ProcessRequest_def ProcessRequest_body_def v BLOCK_SIZE_eq)
qed

lemma owner_answers_write:
  assumes y: "wr_op y = WRITE_FORWARD" "wr_size y = BLOCK_SIZE" and ok: "cache_ok t L"
    and l: "caches t (TOBLOCK (wr_addr y)) = Some l" "cl_state l = CACHE_DIRTY" "cl_locks l = []" and c: "FindClientWid t (wr_pwid y) = Some rq"
    and free: "to_serve_requests t (TOBLOCK (wr_addr y)) = None" "to_serve_local_requests t (TOBLOCK (wr_addr y)) = None"
  shows "\<exists>t1 t2. worker_process (Suc n) hc t (received new_WorkRequest y q) = Some t1 \<and>
    outbox t1 = outbox t @ [OWriteImm rq (wr_ptr y) (mem_read (mem t) (cl_line l) 512) (wr_pid y) (Some (next_psn t)), OWriteImm hc 0 [] (wr_id y) None] \<and>
    Worker_ProcessRdmaRequest n t1 rq (WriteDone (next_psn t)) = Some t2 \<and> cache_view t2 = (cache_view t)(TOBLOCK (wr_addr y) := None)"
proof -
  let ?v = "received new_WorkRequest y q"
  let ?t = "t\<lparr>reqs := (reqs t)(next_req t \<mapsto> ?v), next_req := next_req t + 1\<rparr>"
  have v: "wr_op ?v = WRITE_FORWARD" "wr_addr ?v = wr_addr y" "wr_size ?v = BLOCK_SIZE" "wr_ptr ?v = wr_ptr y" "wr_id ?v = wr_id y" "wr_pid ?v = wr_pid y" "wr_pwid ?v = wr_pwid y"
    using y by (simp_all add: received_def Let_def)
  have ok': "cache_ok ?t L" "cache_view ?t = cache_view t" "next_psn ?t = next_psn t"
    using ok cache_ok_fields [of ?t t] by (simp_all add: cache_view_def fun_eq_iff)
  have t: "reqs ?t (next_req t) = Some ?v" "caches ?t (TOBLOCK (wr_addr ?v)) = Some l" "FindClientWid ?t (wr_pwid ?v) = Some rq"
    "to_serve_requests ?t (TOBLOCK (wr_addr ?v)) = None" "to_serve_local_requests ?t (TOBLOCK (wr_addr ?v)) = None"
    using l(1) c free by (simp_all add: v FindClientWid_def)
  from hand_over_complete [OF t(1) v(1) ok'(1) t(2) l(2,3) t(3-5), of hc n] obtain t1 t2 where
    "ProcessRemoteWriteCache ?t hc (next_req t) = Some t1"
    "outbox t1 = outbox t @ [OWriteImm rq (wr_ptr y) (mem_read (mem t) (cl_line l) 512) (wr_pid y) (Some (next_psn t)), OWriteImm hc 0 [] (wr_id y) None]"
    "Worker_ProcessRdmaRequest n t1 rq (WriteDone (next_psn t)) = Some t2" "cache_view t2 = (cache_view t)(TOBLOCK (wr_addr y) := None)"
    unfolding v ok'(2,3) BLOCK_SIZE_eq by auto
  then show ?thesis
    by (intro exI [of _ t1] exI [of _ t2]) (simp add: worker_process_def alloc_wr_def ProcessRequest_def ProcessRequest_body_def v)
qed

section \<open>A read of a block somebody else owns\<close>

text \<open>
  C3. A read of a dirty block returns the bytes of its owner. The reader asks the home; the home forwards the
  request to the owner and puts the block in transition; the owner sends its line to the reader and to the
  home and keeps a shared copy. When the report has arrived, the home's memory holds the owner's bytes and
  the home records both as sharers; when the answer has arrived, the buffer of the thread holds the bytes of
  the owner's line at the address it read, the reader's line is shared, and the thread is woken. The two
  arrivals are independent of each other.
\<close>

theorem dirty_read_end_to_end:
  assumes rd: "miss_ready s r w c p m a" "wr_op w = READ" "lru_ok s L" "apart (wr_notify_buf w) 4 (wr_ptr w) (unat (wr_size w))"
    and hm: "owned_elsewhere h b (TOBLOCK (wr_addr w)) ow oc" "cli_ToGlobal h (Peer k) p = Some g" "WID g \<noteq> WID ow"
    and ln: "caches t (TOBLOCK (wr_addr w)) = Some l" "cl_state l = CACHE_DIRTY" "\<not> Cache_IsBlockWLocked_l l"
    and cn: "FindClientWid t k = Some (Peer k)" "cli_ToLocal t hc (TOBLOCK (wr_addr w)) = Some b" and bs: "bs = mem_read (mem t) (cl_line l) 512"
  shows "\<exists>s1 v h1 y t1 h2 s2 l'. ProcessLocalRequest (Suc n) s r = Some (REMOTE_REQUEST, s1) \<and> outbox s1 = outbox s @ [OSend c v] \<and>
    worker_process (Suc n) (Peer k) h (received new_WorkRequest v q) = Some h1 \<and> outbox h1 = outbox h @ [OSend oc y] \<and>
    worker_process (Suc n) hc t (received new_WorkRequest y q') = Some t1 \<and> caches t1 = (caches t)(TOBLOCK (wr_addr w) \<mapsto> l\<lparr>cl_state := CACHE_SHARED\<rparr>) \<and>
    outbox t1 = outbox t @ [OWriteImm (Peer k) p bs (wr_id v) None, OWriteImm hc b bs (wr_id y) None] \<and>
    Worker_ProcessRdmaRequest n (h1\<lparr>mem := mem_write (mem h1) b bs\<rparr>) oc (ReceivedImm (wr_id y)) = Some h2 \<and>
    block_state h2 b = DIR_SHARED \<and> sharers h2 b = [ow, g] \<and> mem_read (mem h2) b 512 = bs \<and> dir_ok (directory h2) \<and> outbox h2 = outbox h1 \<and>
    Worker_ProcessRdmaRequest n (s1\<lparr>mem := mem_write (mem s1) p bs\<rparr>) oc' (ReceivedImm (wr_id v)) = Some s2 \<and>
    mem_read (mem s2) (wr_ptr w) (unat (wr_size w)) = mem_read (mem t) (cl_line l + (wr_addr w - TOBLOCK (wr_addr w))) (unat (wr_size w)) \<and>
    mem_read (mem s2) (wr_notify_buf w) 4 = le_bytes 4 2 \<and> caches s2 (TOBLOCK (wr_addr w)) = Some l' \<and> cl_state l' = CACHE_SHARED \<and> outbox s2 = outbox s1"
proof -
  let ?s1 = "missed s c r w p m a" and ?v = "ask_home s r w p" and ?x = "received new_WorkRequest (ask_home s r w p) q"
  have x: "wr_op ?x = READ" "wr_addr ?x = TOBLOCK (wr_addr w)" "wr_size ?x = BLOCK_SIZE" "wr_ptr ?x = p" "wr_id ?x = next_psn s"
    using rd(2) by (simp_all add: received_def Let_def ask_home_fields)
  have hx: "owned_elsewhere h b (wr_addr ?x) ow oc" "wr_op ?x \<in> {READ, WRITE}" using hm(1) x(1) unfolding x(2) by simp_all
  obtain h1 y where H: "worker_process (Suc n) (Peer k) h ?x = Some h1" "outbox h1 = outbox h @ [OSend oc y]" "wr_op y = READ_FORWARD"
    "wr_size y = BLOCK_SIZE" "wr_ptr y = p" "wr_pwid y = k" "mem h1 = mem h" "widCliMap h1 = widCliMap h"
    "forwarding h1 b (next_req h) ?x (Suc (next_req h)) y ow DIR_TO_SHARED"
    using home_forwards [OF hx, of n "Peer k"] unfolding x by (auto simp: cli_wid_def)
  have y: "wr_addr y = TOBLOCK (wr_addr w)" "wr_pid y = next_psn s" using H(9) x by (simp_all add: forwarding_def)
  obtain t1 where T: "worker_process (Suc n) hc t (received new_WorkRequest y q') = Some t1" "caches t1 = (caches t)(TOBLOCK (wr_addr w) \<mapsto> l\<lparr>cl_state := CACHE_SHARED\<rparr>)"
    "outbox t1 = outbox t @ [OWriteImm (Peer k) p bs (next_psn s) None, OWriteImm hc b bs (wr_id y) None]"
    using owner_answers_read [OF H(3,4), of t l "Peer k" hc b n q'] ln cn unfolding y TOBLOCK_idem H(5,6) bs by auto
  have "FindClientWid h1 (wr_pwid y) = Some (Peer k)" "cli_ToGlobal h1 (Peer k) (wr_ptr ?x) = Some g"
    using hm(2) unfolding H(6) x(4) by (auto simp: FindClientWid_def cli_ToGlobal_def H(8))
  from read_report [OF H(9,3) this hm(3)] obtain h2 where H2: "Worker_ProcessRdmaRequest n (h1\<lparr>mem := mem_write (mem h1) b bs\<rparr>) oc (ReceivedImm (wr_id y)) = Some h2"
    "block_state h2 b = DIR_SHARED" "sharers h2 b = [ow, g]" "dir_ok (directory h2)" "mem h2 = mem_write (mem h1) b bs" "outbox h2 = outbox h1" by blast
  have b: "mem_read (mem h2) b 512 = bs" "length bs = 512" unfolding H2(5) bs using mem_read_write [of "mem_read (mem t) (cl_line l) 512"] by simp_all
  have m: "mem ?s1 = m" "outbox ?s1 = outbox s @ [OSend c ?v]" by (simp_all add: missed_def)
  have ob: "one_block w" using rd(1) by (simp add: miss_ready_def)
  have "take (unat (wr_size w)) (drop (unat (wr_addr w - TOBLOCK (wr_addr w))) bs) = mem_read (mem t) (cl_line l + (wr_addr w - TOBLOCK (wr_addr w))) (unat (wr_size w))"
    unfolding bs take_drop_read [OF one_block_piece [OF ob]] by simp
  then obtain s2 l' where A: "Worker_ProcessRdmaRequest n (?s1\<lparr>mem := mem_write (mem ?s1) p bs\<rparr>) oc' (ReceivedImm (next_psn s)) = Some s2"
    "mem_read (mem s2) (wr_ptr w) (unat (wr_size w)) = mem_read (mem t) (cl_line l + (wr_addr w - TOBLOCK (wr_addr w))) (unat (wr_size w))"
    "mem_read (mem s2) (wr_notify_buf w) 4 = le_bytes 4 2" "caches s2 (TOBLOCK (wr_addr w)) = Some l'" "cl_state l' = CACHE_SHARED" "outbox s2 = outbox ?s1"
    using read_delivered [OF rd b(2) refl, of n oc'] unfolding m(1) by auto
  show ?thesis using miss_run [OF rd(1), of n] H(1,2) T H2(1-4,6) b(1) A m(2) ask_home_fields(5) [of s r w p]
    by (intro exI [of _ ?s1] exI [of _ ?v] exI [of _ h1] exI [of _ y] exI [of _ t1] exI [of _ h2] exI [of _ s2] exI [of _ l']) simp
qed

section \<open>A write of a block somebody else owns\<close>

text \<open>RDMA writes with immediate data, arriving one after the other: the bytes are in memory before the completion is handled.\<close>

fun arrive :: "nat \<Rightarrow> u32 \<Rightarrow> (client \<times> ptr \<times> u8 list) list \<Rightarrow> Worker \<Rightarrow> Worker option" where
  "arrive n i [] s = Some s"
| "arrive n i ((c, p, bs) # ms) s = do { s \<leftarrow> Worker_ProcessRdmaRequest n (s\<lparr>mem := mem_write (mem s) p bs\<rparr>) c (ReceivedImm i); arrive n i ms s }"

text \<open>The first of two replies to a write is counted, and that is all.\<close>

lemma first_reply:
  assumes aw: "awaiting t r k w p i" and w: "wr_op w = WRITE" and v: "reqs t k = Some v" "wr_counter v = 0" "\<not> has v REQUEST_DONE"
  shows "Worker_ProcessRdmaRequest n t c (ReceivedImm i) = Some (t\<lparr>reqs := (reqs t)(k \<mapsto> v\<lparr>wr_counter := settled t c (TOBLOCK (wr_addr w)) 0\<rparr>)\<rparr>)"
proof -
  let ?v = "v\<lparr>wr_counter := settled t c (TOBLOCK (wr_addr w)) 0\<rparr>"
  have A: "wr_op v = WRITE" "wr_status v = SUCCESS" "wr_parent v = Some r" "reqs t r = Some w" "wr_addr v = TOBLOCK (wr_addr w)" "has v CACHED" "\<not> has v REPEATED"
    "pending_works t i = Some k" "r \<noteq> k" using aw w v(1) by (auto simp: awaiting_def)
  have h: "has ?v f = has v f" for f by (simp add: has_def)
  have "settle_counter t c k = Some (t\<lparr>reqs := (reqs t)(k \<mapsto> ?v)\<rparr>)"
    using A v by (simp add: settle_counter_def upd_wr_def settled_def)
  moreover have "wr_counter ?v \<noteq> 0" by (simp add: settled_def)
  ultimately show ?thesis using A v(1,3)
    by (simp add: Worker_ProcessRdmaRequest_def ProcessImm_def GetPendingWork_def ProcessPendingRequest_def ProcessPendingWrite_def SUCCESS_def h Let_def)
qed

lemma awaiting_counter:
  "awaiting t r k w p i \<Longrightarrow> reqs t k = Some v \<Longrightarrow> awaiting (t\<lparr>reqs := (reqs t)(k \<mapsto> v\<lparr>wr_counter := n\<rparr>), mem := x\<rparr>) r k w p i"
proof -
  have "has (v\<lparr>wr_counter := n\<rparr>) f = has v f" for f by (simp add: has_def)
  then show "awaiting t r k w p i \<Longrightarrow> reqs t k = Some v \<Longrightarrow> ?thesis" by (auto simp: awaiting_def)
qed

text \<open>The bytes come with one of the replies; with both in, the write commits, whichever was first.\<close>

lemma both_replies:
  assumes aw: "\<And>x. awaiting (t\<lparr>mem := x\<rparr>) r k w p i" "\<And>x. lru_ok (t\<lparr>mem := x\<rparr>) L" "\<forall>j. TOBLOCK (wr_addr w) \<notin> set (L j)" "wr_op w = WRITE"
    and v: "reqs t k = Some v" "wr_counter v = 0" "\<not> has v REQUEST_DONE"
    and c: "WID (TOBLOCK (wr_addr w)) = wid64 (cli_wid t hc) \<longleftrightarrow> WID (TOBLOCK (wr_addr w)) \<noteq> wid64 (cli_wid t oc)"
    and ms: "ms = [(oc, p, bs), (hc, 0, [])] \<or> ms = [(hc, 0, []), (oc, p, bs)]"
  shows "\<exists>t' l. arrive n i ms t = Some t' \<and>
    mem t' = mem_write (memcpy (mem_write (mem t) p bs) (p + (wr_addr w - TOBLOCK (wr_addr w))) (wr_ptr w) (unat (wr_size w))) (wr_notify_buf w) (le_bytes 4 2) \<and>
    caches t' (TOBLOCK (wr_addr w)) = Some l \<and> cl_state l = CACHE_DIRTY \<and> cl_line l = p \<and> outbox t' = outbox t"
proof -
  obtain c1 p1 b1 c2 p2 b2 where m: "ms = [(c1, p1, b1), (c2, p2, b2)]" "(c1 = oc \<and> c2 = hc) \<or> (c1 = hc \<and> c2 = oc)"
    "mem_write (mem_write (mem t) p1 b1) p2 b2 = mem_write (mem t) p bs" using ms by auto
  let ?b = "TOBLOCK (wr_addr w)" and ?t1 = "t\<lparr>mem := mem_write (mem t) p1 b1\<rparr>"
  let ?v = "v\<lparr>wr_counter := settled ?t1 c1 (TOBLOCK (wr_addr w)) 0\<rparr>"
  let ?t2 = "?t1\<lparr>reqs := (reqs t)(k \<mapsto> ?v), mem := mem_write (mem t) p bs\<rparr>"
  have v1: "reqs ?t1 k = Some v" using v(1) by simp
  have 1: "Worker_ProcessRdmaRequest n ?t1 c1 (ReceivedImm i) = Some (?t1\<lparr>reqs := (reqs t)(k \<mapsto> ?v)\<rparr>)"
    using first_reply [OF aw(1,4) v1 v(2,3)] by simp
  have a2: "awaiting ?t2 r k w p i" using awaiting_counter [OF aw(1) v1] by simp
  have "cli_wid ?t1 x = cli_wid t x" "cli_wid ?t2 x = cli_wid t x" for x by (simp_all add: cli_wid_def split: client.splits)
  then have "settled ?t2 c2 ?b (wr_counter ?v) = 0" using m(2) c by (auto simp: settled_def)
  then have "\<forall>x. reqs ?t2 k = Some x \<longrightarrow> last_reply ?t2 c2 ?b x" by (simp add: last_reply_def)
  moreover have "lru_ok ?t2 L" using aw(2) [of "mem t"] lru_ok_fields [of ?t2 t] by simp
  ultimately obtain t' l where C: "ProcessPendingWrite n (ProcessLocalRequest n) (ProcessRequest n) ?t2 c2 k = Some t'"
    "mem t' = mem_write (memcpy (mem_write (mem t) p bs) (p + (wr_addr w - ?b)) (wr_ptr w) (unat (wr_size w))) (wr_notify_buf w) (le_bytes 4 2)"
    "caches t' ?b = Some l" "cl_state l = CACHE_DIRTY" "cl_line l = p" "outbox t' = outbox t"
    using write_commit_run [OF a2 _ aw(3,4), of c2 n] by fastforce
  have "pending_works t i = Some k" "wr_op v = WRITE" using aw(1) [of "mem t"] aw(4) v(1) by (auto simp: awaiting_def)
  then have "Worker_ProcessRdmaRequest n ?t2 c2 (ReceivedImm i) = Some t'"
    using C(1) by (simp add: Worker_ProcessRdmaRequest_def ProcessImm_def GetPendingWork_def ProcessPendingRequest_def)
  then have "arrive n i ms t = Some t'" unfolding m(1) using 1 m(3) by simp
  then show ?thesis using C(2-6) by blast
qed

lemma ask_home_waits: "\<not> has w REQUEST_DONE \<Longrightarrow> \<not> has (ask_home s r w p) REQUEST_DONE"
proof -
  have "has (ask_home s r w p) f \<longleftrightarrow> has (set_flag (copy_WorkRequest w) CACHED) f" for f by (simp add: has_def ask_home_def set_flag_def)
  moreover have "CACHED AND REQUEST_DONE = 0" by (simp add: CACHED_def REQUEST_DONE_def)
  ultimately show "\<not> has w REQUEST_DONE \<Longrightarrow> ?thesis" by (auto simp: has_set_flag dest: has_copy)
qed

lemma WID_block: "WID (TOBLOCK a) = WID a"
  by (rule bit_word_eqI) (auto simp: WID_def TOBLOCK_def BLOCK_MASK_eq bit_simps dest: bit_imp_le_length)

text \<open>
  C4. A write of a dirty block moves the block to the writer. The writer asks the home; the home forwards the
  request to the owner and puts the block in transition; the owner sends its line to the writer, reports to
  the home, and drops the line when the network has taken the bytes from it. With the report the home
  records the writer as the only holder and sends it the permission. The writer needs both, the bytes and
  the permission, and they come over different connections: in either order, the line ends dirty with the bytes
  of the thread's buffer at the addresses written and the owner's bytes everywhere else in the block, and
  the thread is woken.
\<close>

theorem dirty_write_end_to_end:
  assumes wr: "miss_ready s r w c p m a" "wr_op w = WRITE" "lru_ok s L" "p \<noteq> 0" "wr_addr w \<noteq> 0" "\<not> has w REQUEST_DONE"
    and ap: "apart p 512 (wr_ptr w) (unat (wr_size w))" "apart (wr_notify_buf w) 4 p 512"
    and hm: "owned_elsewhere h b (TOBLOCK (wr_addr w)) ow oc" "cli_ToGlobal h (Peer k) p = Some g"
    and ln: "cache_ok t L'" "caches t (TOBLOCK (wr_addr w)) = Some l" "cl_state l = CACHE_DIRTY" "cl_locks l = []"
      "to_serve_requests t (TOBLOCK (wr_addr w)) = None" "to_serve_local_requests t (TOBLOCK (wr_addr w)) = None"
    and cn: "FindClientWid t k = Some (Peer k)" "wid64 (cli_wid s oc') \<noteq> WID (wr_addr w)" and bs: "bs = mem_read (mem t) (cl_line l) 512"
  shows "\<exists>s1 v h1 y t1 t2 h2. ProcessLocalRequest (Suc n) s r = Some (REMOTE_REQUEST, s1) \<and> outbox s1 = outbox s @ [OSend c v] \<and>
    worker_process (Suc n) (Peer k) h (received new_WorkRequest v q) = Some h1 \<and> outbox h1 = outbox h @ [OSend oc y] \<and>
    worker_process (Suc n) hc t (received new_WorkRequest y q') = Some t1 \<and>
    outbox t1 = outbox t @ [OWriteImm (Peer k) p bs (wr_id v) (Some (next_psn t)), OWriteImm hc 0 [] (wr_id y) None] \<and>
    Worker_ProcessRdmaRequest n t1 (Peer k) (WriteDone (next_psn t)) = Some t2 \<and> cache_view t2 = (cache_view t)(TOBLOCK (wr_addr w) := None) \<and>
    Worker_ProcessRdmaRequest n h1 oc (ReceivedImm (wr_id y)) = Some h2 \<and> block_state h2 b = DIR_DIRTY \<and> sharers h2 b = [g] \<and>
    dir_ok (directory h2) \<and> outbox h2 = outbox h1 @ [OWriteImm (Peer k) 0 [] (wr_id v) None] \<and>
    (\<forall>ms \<in> {[(oc', p, bs), (c, 0, [])], [(c, 0, []), (oc', p, bs)]}.
       \<exists>s2 l'. arrive n (wr_id v) ms s1 = Some s2 \<and> caches s2 (TOBLOCK (wr_addr w)) = Some l' \<and> cl_state l' = CACHE_DIRTY \<and> cl_line l' = p \<and>
         (\<forall>j < 512. mem s2 (p + of_nat j) =
            (let d = unat (wr_addr w - TOBLOCK (wr_addr w))
             in if d \<le> j \<and> j < d + unat (wr_size w) then mem s (wr_ptr w + of_nat (j - d)) else mem t (cl_line l + of_nat j))) \<and>
         mem_read (mem s2) (wr_notify_buf w) 4 = le_bytes 4 2 \<and> outbox s2 = outbox s1)"
proof -
  let ?s1 = "missed s c r w p m a" and ?v = "ask_home s r w p" and ?x = "received new_WorkRequest (ask_home s r w p) q" and ?w = "w\<lparr>wr_hit := False, wr_counter := 1\<rparr>"
  have x: "wr_op ?x = WRITE" "wr_addr ?x = TOBLOCK (wr_addr w)" "wr_size ?x = BLOCK_SIZE" "wr_ptr ?x = p" "wr_id ?x = next_psn s"
    using wr(2) by (simp_all add: received_def Let_def ask_home_fields)
  have hx: "owned_elsewhere h b (wr_addr ?x) ow oc" "wr_op ?x \<in> {READ, WRITE}" using hm(1) x(1) unfolding x(2) by simp_all
  obtain h1 y where H: "worker_process (Suc n) (Peer k) h ?x = Some h1" "outbox h1 = outbox h @ [OSend oc y]" "wr_op y = WRITE_FORWARD"
    "wr_size y = BLOCK_SIZE" "wr_ptr y = p" "wr_pwid y = k" "widCliMap h1 = widCliMap h"
    "forwarding h1 b (next_req h) ?x (Suc (next_req h)) y ow DIR_TO_DIRTY"
    using home_forwards [OF hx, of n "Peer k"] unfolding x by (auto simp: cli_wid_def)
  have y: "wr_addr y = TOBLOCK (wr_addr w)" "wr_pid y = next_psn s" using H(8) x by (simp_all add: forwarding_def)
  obtain t1 t2 where T: "worker_process (Suc n) hc t (received new_WorkRequest y q') = Some t1"
    "outbox t1 = outbox t @ [OWriteImm (Peer k) p bs (next_psn s) (Some (next_psn t)), OWriteImm hc 0 [] (wr_id y) None]"
    "Worker_ProcessRdmaRequest n t1 (Peer k) (WriteDone (next_psn t)) = Some t2" "cache_view t2 = (cache_view t)(TOBLOCK (wr_addr w) := None)"
    using owner_answers_write [OF H(3,4) ln(1), of l "Peer k" n hc q'] ln(2-) cn(1) unfolding y TOBLOCK_idem H(5,6) bs by auto
  have "FindClientWid h1 (wr_pwid y) = Some (Peer k)" "cli_ToGlobal h1 (Peer k) (wr_ptr ?x) = Some g"
    using hm(2) unfolding H(6) x(4) by (auto simp: FindClientWid_def cli_ToGlobal_def H(7))
  from write_report [OF H(8,3) this, of n oc] obtain h2 where H2: "Worker_ProcessRdmaRequest n h1 oc (ReceivedImm (wr_id y)) = Some h2"
    "block_state h2 b = DIR_DIRTY" "sharers h2 b = [g]" "dir_ok (directory h2)" "outbox h2 = outbox h1 @ [OWriteImm (Peer k) 0 [] (next_psn s) None]" unfolding x(5) by blast
  have m: "mem ?s1 = m" "outbox ?s1 = outbox s @ [OSend c ?v]" "reqs ?s1 (next_req s) = Some ?v" using wr(1) by (simp_all add: missed_def miss_ready_def)
  have un: "caches s (TOBLOCK (wr_addr w)) = None" and cl: "GetClient s (wr_addr w) = Some c" using wr(1) by (simp_all add: miss_ready_def)
  have c: "wid64 (cli_wid ?s1 c) = WID (wr_addr w)" "cli_wid ?s1 oc' = cli_wid s oc'"
    using GetClient_sharer [OF wr(5) cl] by (auto simp: cli_wid_def wid64_WID missed_def split: client.splits)
  have D: "\<exists>s2 l'. arrive n (next_psn s) ms ?s1 = Some s2 \<and> caches s2 (TOBLOCK (wr_addr w)) = Some l' \<and> cl_state l' = CACHE_DIRTY \<and> cl_line l' = p \<and>
         (\<forall>j < 512. mem s2 (p + of_nat j) =
            (let d = unat (wr_addr w - TOBLOCK (wr_addr w))
             in if d \<le> j \<and> j < d + unat (wr_size w) then mem s (wr_ptr w + of_nat (j - d)) else mem t (cl_line l + of_nat j))) \<and>
         mem_read (mem s2) (wr_notify_buf w) 4 = le_bytes 4 2 \<and> outbox s2 = outbox ?s1"
    if ms: "ms = [(oc', p, bs), (c, 0, [])] \<or> ms = [(c, 0, []), (oc', p, bs)]" for ms
  proof -
    have "\<exists>s2 l'. arrive n (next_psn s) ms ?s1 = Some s2 \<and>
      mem s2 = mem_write (memcpy (mem_write (mem ?s1) p bs) (p + (wr_addr ?w - TOBLOCK (wr_addr ?w))) (wr_ptr ?w) (unat (wr_size ?w))) (wr_notify_buf ?w) (le_bytes 4 2) \<and>
      caches s2 (TOBLOCK (wr_addr ?w)) = Some l' \<and> cl_state l' = CACHE_DIRTY \<and> cl_line l' = p \<and> outbox s2 = outbox ?s1"
      by (rule both_replies [OF missed_awaits [OF wr(1)] missed_lists [OF wr(1,3)] _ _ m(3) _ _ _ ms])
        (use uncached_unlisted [OF wr(3) un] wr(2) c cn(2) ask_home_waits [OF wr(6)] in \<open>simp_all add: WID_block ask_home_fields\<close>)
    then obtain s2 l' where A: "arrive n (next_psn s) ms ?s1 = Some s2"
      "mem s2 = mem_write (memcpy (mem_write m p bs) (p + (wr_addr w - TOBLOCK (wr_addr w))) (wr_ptr w) (unat (wr_size w))) (wr_notify_buf w) (le_bytes 4 2)"
      "caches s2 (TOBLOCK (wr_addr w)) = Some l'" "cl_state l' = CACHE_DIRTY" "cl_line l' = p" "outbox s2 = outbox ?s1" by (auto simp: m(1))
    have "length bs = 512" by (simp add: bs)
    note W = written_line [OF wr(1,4) this ap A(2)]
    show ?thesis using A(1,3-6) W by (intro exI [of _ s2] exI [of _ l']) (simp add: Let_def bs nth_mem_read cong: if_cong)
  qed
  show ?thesis using miss_run [OF wr(1), of n] H(1,2) T H2 D m(2) ask_home_fields(5) [of s r w p]
    by (intro exI [of _ ?s1] exI [of _ ?v] exI [of _ h1] exI [of _ y] exI [of _ t1] exI [of _ t2] exI [of _ h2]) simp
qed

section \<open>Three workers\<close>

text \<open>Worker 2 is the home of a block that worker 4 owns; worker 1 reads or writes a hundred bytes of it.\<close>

definition dirty_home :: Worker where
  "dirty_home = idle_worker\<lparr>my_wid := 2, widCliMap := map (\<lambda>v. (v, \<lparr>cli_base = 4096, cli_size = 1000000, cli_free = 5000\<rparr>)) [1, 4],
     directory := [66048 \<mapsto> home_entry DIR_DIRTY [1125899906842624]]\<rparr>"

definition dirty_owner :: "SlabAllocator \<Rightarrow> Worker" where
  "dirty_owner a = (one_line 528384 a)\<lparr>my_wid := 4, mem := (\<lambda>_. 5), caches := [562949953421824 \<mapsto> held_line CACHE_DIRTY []],
     widCliMap := map (\<lambda>v. (v, \<lparr>cli_base = 65536, cli_size = 1000000, cli_free = 5000\<rparr>)) [1, 2]\<rparr>"

lemma three_addresses: "WID 562949953421824 = 2" "WID 1125899906842624 = 4" "WID 281474977234944 = 1" "wid64 1 = 1" "wid64 4 = 4" "TO_LOCAL 562949953421824 65536 = 66048"
  "TO_GLOB 528384 4096 1 = 281474977234944" "BLOCK_ALIGNED 66048"
  by code_simp+

lemma dirty_home_ok:
  "owned_elsewhere dirty_home 66048 562949953421824 1125899906842624 (Peer 4)" "cli_ToGlobal dirty_home (Peer 1) 528384 = Some 281474977234944" "outbox dirty_home = []"
proof -
  have d: "directory dirty_home = [66048 \<mapsto> home_entry DIR_DIRTY [1125899906842624]]" by (simp add: dirty_home_def)
  have "dir_ok (directory dirty_home)"
    by (simp add: d dir_ok_def entry_ok_def state_ok_def home_entry_def three_addresses new_DirEntry_def tab_inv_def tab_in_def tab_wlocked_def)
  moreover have "block_state dirty_home 66048 = DIR_DIRTY" "sharers dirty_home 66048 = [1125899906842624]"
    by (simp_all add: block_state_def GetState_p_def TOBLOCK_id three_addresses sharers_def d home_entry_def)
  moreover have "GetClient dirty_home 1125899906842624 = Some (Peer 4)" by (simp add: GetClient_def dirty_home_def three_addresses)
  ultimately show "owned_elsewhere dirty_home 66048 562949953421824 1125899906842624 (Peer 4)"
    by (simp add: owned_elsewhere_def three_addresses ToLocal_def) (simp add: dirty_home_def idle_worker_def three_addresses)
qed (simp_all add: dirty_home_def idle_worker_def cli_ToGlobal_def three_addresses)

lemma dirty_owner_ok:
  "caches (dirty_owner a) 562949953421824 = Some (held_line CACHE_DIRTY [])" "FindClientWid (dirty_owner a) 1 = Some (Peer 1)"
  "cli_ToLocal (dirty_owner a) (Peer 2) 562949953421824 = Some 66048" "outbox (dirty_owner a) = []" "mem (dirty_owner a) = (\<lambda>_. 5)"
  "to_serve_requests (dirty_owner a) b = None" "to_serve_local_requests (dirty_owner a) b = None"
  "slab_inv a \<Longrightarrow> live a 528384 = Some n \<Longrightarrow> 512 \<le> n \<Longrightarrow> cache_ok (dirty_owner a) ((\<lambda>_. [])(0 := [562949953421824]))"
  using holder_ok [of a n CACHE_DIRTY "[]" READ] cache_ok_fields [of "dirty_owner a" "holder a CACHE_DIRTY [] READ"]
  by (simp_all add: dirty_owner_def holder_def one_line_def idle_worker_def FindClientWid_def cli_ToLocal_def cli_info_def three_addresses)

theorem dirty_read_end_to_end_witness:
  "\<exists>s1 v h1 y t1 s2. ProcessLocalRequest 1 reader 7 = Some (REMOTE_REQUEST, s1) \<and> outbox s1 = [OSend (Peer 2) v] \<and>
     worker_process 1 (Peer 1) dirty_home (received new_WorkRequest v 0) = Some h1 \<and> outbox h1 = [OSend (Peer 4) y] \<and>
     worker_process 1 (Peer 2) (dirty_owner small_allocator) (received new_WorkRequest y 0) = Some t1 \<and>
     Worker_ProcessRdmaRequest 0 (s1\<lparr>mem := mem_write (mem s1) 528384 (replicate 512 5)\<rparr>) (Peer 4) (ReceivedImm (wr_id v)) = Some s2 \<and>
     mem_read (mem s2) 1024 100 = replicate 100 5"
proof -
  have s: "reader = reader\<lparr>reqs := [7 \<mapsto> reading]\<rparr>" by (simp add: reader_def)
  note A = accessing_misses [OF _ s, simplified]
  note f = accessing_fields(1) [of reading, simplified]
  obtain m a where rd: "miss_ready reader 7 reading (Peer 2) 528384 m a" using A(1) by blast
  let ?a = small_allocator and ?l = "held_line CACHE_DIRTY []"
  have hm: "owned_elsewhere dirty_home 66048 (TOBLOCK (wr_addr reading)) 1125899906842624 (Peer 4)" "WID 281474977234944 \<noteq> WID 1125899906842624"
    using dirty_home_ok(1) f by (simp_all add: held_block three_addresses)
  have ln: "caches (dirty_owner ?a) (TOBLOCK (wr_addr reading)) = Some ?l" "cl_state ?l = CACHE_DIRTY" "\<not> Cache_IsBlockWLocked_l ?l"
    "cli_ToLocal (dirty_owner ?a) (Peer 2) (TOBLOCK (wr_addr reading)) = Some 66048"
    using dirty_owner_ok f by (simp_all add: held_block held_line_def Cache_IsBlockWLocked_l_def tab_wlocked_def)
  have bs: "mem_read (mem (dirty_owner ?a)) x k = replicate k 5" for x k unfolding dirty_owner_ok(5) by (simp add: mem_read_def map_replicate_const)
  show ?thesis
    using dirty_read_end_to_end [OF rd accessing_fields(2) A(2,5) hm(1) dirty_home_ok(2) hm(2) ln(1-3) dirty_owner_ok(2) ln(4) refl, of 0 0 0 "Peer 4"]
    unfolding bs A(3) dirty_home_ok(3) using f by auto
qed

theorem dirty_write_end_to_end_witness:
  "\<exists>a s1 v h1 y t1 s2. ProcessLocalRequest 1 writer 7 = Some (REMOTE_REQUEST, s1) \<and> outbox s1 = [OSend (Peer 2) v] \<and>
     worker_process 1 (Peer 1) dirty_home (received new_WorkRequest v 0) = Some h1 \<and> outbox h1 = [OSend (Peer 4) y] \<and>
     worker_process 1 (Peer 2) (dirty_owner a) (received new_WorkRequest y 0) = Some t1 \<and>
     arrive 0 (wr_id v) [(Peer 2, 0, []), (Peer 4, 528384, replicate 512 5)] s1 = Some s2 \<and> mem s2 528387 = 0 \<and> mem s2 528587 = 5"
proof -
  have s: "writer = reader\<lparr>reqs := [7 \<mapsto> writing]\<rparr>" by (simp add: writer_def)
  note A = accessing_misses [OF _ s, simplified]
  note f = accessing_fields(1) [of writing, simplified]
  obtain m a where wr: "miss_ready writer 7 writing (Peer 2) 528384 m a" using A(1) by blast
  obtain a' n where n: "slab_inv a'" "live a' 528384 = Some n" "512 \<le> n" using small_line by blast
  let ?l = "held_line CACHE_DIRTY []"
  have w: "(528384 :: ptr) \<noteq> 0" "wr_addr writing \<noteq> 0" "\<not> has writing REQUEST_DONE" "wid64 (cli_wid writer (Peer 4)) \<noteq> WID (wr_addr writing)"
    using f by (simp_all add: has_def cli_wid_def three_addresses)
  have hm: "owned_elsewhere dirty_home 66048 (TOBLOCK (wr_addr writing)) 1125899906842624 (Peer 4)" using dirty_home_ok(1) f by (simp add: held_block)
  have ln: "caches (dirty_owner a') (TOBLOCK (wr_addr writing)) = Some ?l" "cl_state ?l = CACHE_DIRTY" "cl_locks ?l = []"
    using dirty_owner_ok f by (simp_all add: held_block held_line_def)
  have bs: "mem_read (\<lambda>_. 5) x 512 = replicate 512 5" for x by (simp add: mem_read_def map_replicate_const)
  obtain s1 v h1 y t1 where R: "ProcessLocalRequest 1 writer 7 = Some (REMOTE_REQUEST, s1)" "outbox s1 = [OSend (Peer 2) v]"
     "worker_process 1 (Peer 1) dirty_home (received new_WorkRequest v 0) = Some h1" "outbox h1 = [OSend (Peer 4) y]"
     "worker_process 1 (Peer 2) (dirty_owner a') (received new_WorkRequest y 0) = Some t1"
     and D: "\<exists>s2. arrive 0 (wr_id v) [(Peer 2, 0, []), (Peer 4, 528384, replicate 512 5)] s1 = Some s2 \<and> (\<forall>j < 512. mem s2 (528384 + of_nat j) = (if j < 100 then 0 else 5))"
    using dirty_write_end_to_end [OF wr accessing_fields(3) A(2) w(1-3) A(6,7) hm dirty_home_ok(2) dirty_owner_ok(8) [OF n] ln dirty_owner_ok(6,7,2) w(4) refl, of 0 0 "Peer 2" 0]
    unfolding bs A(3,4) dirty_home_ok(3) dirty_owner_ok(5) using f by (auto simp: Let_def held_block simp del: arrive.simps)
  obtain s2 where "arrive 0 (wr_id v) [(Peer 2, 0, []), (Peer 4, 528384, replicate 512 5)] s1 = Some s2" "\<forall>j < 512. mem s2 (528384 + of_nat j) = (if j < 100 then 0 else 5)"
    using D by blast
  moreover from this(2) have "mem s2 528387 = 0" "mem s2 528587 = 5" by (auto dest: spec [of _ 3] spec [of _ 203])
  ultimately show ?thesis using R by blast
qed

end
