(* ===== verification/Gam_Slab_Init.thy ===== *)
theory Gam_Slab_Init
  imports Gam_Allocator
begin

text \<open>
  The initial state of the slab allocator: the table of chunk sizes \<^verbatim>\<open>slabs_init\<close> computes and the slabs it
  allocates in advance give a consistent allocator with no block in use.
\<close>

section \<open>The table of sizes\<close>

definition round8 :: "nat \<Rightarrow> nat" where
  "round8 s = (s + 7) div 8 * 8"

text \<open>How often the loop runs before the sizes outgrow a slab.\<close>

fun size_steps :: "nat \<Rightarrow> nat \<Rightarrow> nat \<Rightarrow> nat \<Rightarrow> nat" where
  "size_steps 0 fnum fden s = 0"
| "size_steps (Suc n) fnum fden s =
     (if s * fnum \<le> SLAB * fden then Suc (size_steps n fnum fden (round8 s * fnum div fden)) else 0)"

lemma round8_cases: "round8 s = (if s mod 8 = 0 then s else s + (8 - s mod 8))"
proof -
  define q r where "q = s div 8" and "r = s mod 8"
  then have s: "s = 8 * q + r" "r < 8" by simp_all
  have "(8 * q + r + 7) div 8 = q + (r + 7) div 8" using div_mult_self1 [of 8 "r + 7" q] by (simp add: algebra_simps)
  moreover have "(r + 7) div 8 = (if r = 0 then 0 else 1)" using s(2) by (auto intro: div_nat_eqI)
  moreover have "(8 * q + r) mod 8 = r" using s(2) by simp
  ultimately show ?thesis unfolding round8_def s(1) using s(2) by auto
qed

lemma round8_bounds: "s \<le> round8 s" "s \<le> SLAB \<Longrightarrow> round8 s \<le> SLAB"
proof -
  show "s \<le> round8 s"
  proof (cases "s mod 8 = 0")
    case False
    then have "round8 s = s + (8 - s mod 8)" by (simp only: round8_cases if_False)
    then show ?thesis by linarith
  qed (simp add: round8_cases)
  have "(s + 7) div 8 \<le> (SLAB + 7) div 8" if "s \<le> SLAB" using that by (intro div_le_mono) simp
  then show "s \<le> SLAB \<Longrightarrow> round8 s \<le> SLAB" by (auto simp: round8_def SLAB_def)
qed

lemma unat_round8:
  assumes "unat (sz :: u32) \<le> SLAB"
  shows "unat (if sz mod 8 \<noteq> 0 then sz + (8 - sz mod 8) else sz) = round8 (unat sz)"
proof -
  have m: "unat (sz mod 8) = unat sz mod 8" by (simp add: unat_mod)
  have z: "sz mod 8 = 0 \<longleftrightarrow> unat sz mod 8 = 0" using m by (metis unat_0 unat_eq_zero)
  have "unat (8 - sz mod 8) = 8 - unat sz mod 8"
    using m unat_sub [of "sz mod 8" 8] by (simp add: word_le_nat_alt less_imp_le)
  then have "unat (sz + (8 - sz mod 8)) = unat sz + (8 - unat sz mod 8)"
    using assms by (subst unat_add_no_wrap) (auto simp: SLAB_def)
  then show ?thesis by (simp add: z round8_cases)
qed

text \<open>The classes written so far, and that the rest of the allocator is empty.\<close>

definition table_ok :: "SlabAllocator \<Rightarrow> nat \<Rightarrow> bool" where
  "table_ok sb i \<longleftrightarrow> length (slabclass sb) = 201 \<and> item_size_max sb = 1048576 \<and> slab_reassign sb \<and>
     (\<forall>k \<in> {1..i}. 48 \<le> csize sb k \<and> csize sb k \<le> SLAB \<and> unat (sc_perslab (slabclass sb ! k)) = SLAB div csize sb k \<and>
        (csize sb k mod 512 = 0 \<or> csize sb k div 512 = prev_size sb k div 512))"

definition fresh_lists :: "SlabAllocator \<Rightarrow> bool" where
  "fresh_lists sb \<longleftrightarrow> stats_map sb = Map.empty \<and>
     (\<forall>k < 201. sc_slots (slabclass sb ! k) = None \<and> sc_curr (slabclass sb ! k) = 0 \<and> sc_slabs (slabclass sb ! k) = 0)"

text \<open>What the loop leaves alone.\<close>

definition region_of :: "SlabAllocator \<Rightarrow> u64 \<times> u64 \<times> ptr \<times> ptr \<times> u64 \<times> u32 \<times> bool" where
  "region_of sb = (mem_limit sb, mem_malloced sb, mem_base sb, mem_current sb, mem_avail sb, item_size_max sb, slab_reassign sb)"

lemma set_size_ok:
  assumes t: "table_ok sb i" "fresh_lists sb" and i: "Suc i < 201"
    and s: "48 \<le> unat s" "unat s \<le> SLAB" "unat s mod 512 = 0 \<or> unat s div 512 = prev_size sb (Suc i) div 512"
  shows "\<exists>sb'. set_size sb (Suc i) s = Some sb' \<and> table_ok sb' (Suc i) \<and> fresh_lists sb' \<and> csize sb' (Suc i) = unat s \<and>
    region_of sb' = region_of sb"
proof -
  let ?c = "(slabclass sb ! Suc i)\<lparr>sc_size := s, sc_perslab := item_size_max sb div s\<rparr>"
  let ?sb = "set_class sb (Suc i) ?c"
  have len: "length (slabclass sb) = 201" "item_size_max sb = 1048576" using t by (simp_all add: table_ok_def)
  have il: "Suc i < length (slabclass sb)" using i len by simp
  note v = set_class_views [OF il, of ?c]
  have pv: "prev_size ?sb k = prev_size sb k" if "k \<in> {1..Suc i}" for k
    using that v(1) by (auto simp: prev_size_def)
  have ps: "unat (item_size_max sb div s) = SLAB div unat s" using len by (simp add: unat_div SLAB_def)
  have "48 \<le> csize ?sb k \<and> csize ?sb k \<le> SLAB \<and> unat (sc_perslab (slabclass ?sb ! k)) = SLAB div csize ?sb k \<and>
      (csize ?sb k mod 512 = 0 \<or> csize ?sb k div 512 = prev_size ?sb k div 512)" if k: "k \<in> {1..Suc i}" for k
  proof (cases "k = Suc i")
    case True
    then show ?thesis using s ps pv [OF k] v(1) len i by (simp add: set_class_def)
  next
    case False
    then have k': "k \<in> {1..i}" using k by auto
    then have "48 \<le> csize sb k \<and> csize sb k \<le> SLAB \<and> unat (sc_perslab (slabclass sb ! k)) = SLAB div csize sb k \<and>
        (csize sb k mod 512 = 0 \<or> csize sb k div 512 = prev_size sb k div 512)" using t(1) unfolding table_ok_def by metis
    then show ?thesis using False pv [OF k] v(1) [of k] by (simp add: set_class_def)
  qed
  then have "table_ok ?sb (Suc i)" using t(1) unfolding table_ok_def by (auto simp: set_class_def)
  moreover have "sc_slots (slabclass ?sb ! k) = None \<and> sc_curr (slabclass ?sb ! k) = 0 \<and> sc_slabs (slabclass ?sb ! k) = 0"
    if "k < 201" for k
    using that t(2) len i by (cases "k = Suc i") (simp_all add: fresh_lists_def set_class_def)
  then have "fresh_lists ?sb" using t(2) by (simp add: fresh_lists_def set_class_def)
  ultimately show ?thesis
    using il v(1) [of "Suc i"] by (auto simp: set_size_def class_of_def region_of_def set_class_def)
qed


text \<open>One round of the loop.\<close>

definition init_step :: "SlabAllocator \<Rightarrow> nat \<Rightarrow> u32 \<Rightarrow> u32 \<Rightarrow> (SlabAllocator \<times> nat) option" where
  "init_step sb i sz pre = do {
     (sb, i) \<leftarrow> (if pre div 512 < sz div 512 \<and> sz mod 512 \<noteq> 0
                 then map_option (\<lambda>sb. (sb, i + 1 + 1)) (set_size sb (i + 1) (sz div 512 * 512)) else Some (sb, i + 1));
     sb \<leftarrow> set_size sb i sz;
     Some (sb, i) }"

lemma init_loop_step:
  "init_loop (Suc n) fnum fden sb i sz pre =
     (if \<not> (i + 1 < POWER_LARGEST \<and> unat sz * fnum \<le> unat (item_size_max sb) * fden) then Some (sb, i + 1)
      else let sz = (if sz mod 8 \<noteq> 0 then sz + (8 - sz mod 8) else sz)
           in do { (sb, i) \<leftarrow> init_step sb i sz pre; init_loop n fnum fden sb i (of_nat (unat sz * fnum div fden)) sz })"
  by (simp add: init_step_def Let_def split_def split del: if_split cong: if_cong)

lemma init_step_ok:
  assumes t: "table_ok sb i" "fresh_lists sb" and i: "i + 1 < POWER_LARGEST" and s: "48 \<le> s" "s \<le> SLAB" "unat sz = s"
    and pre: "unat pre \<le> s" "unat pre div 512 = prev_size sb (Suc i) div 512"
  shows "\<exists>sb' i'. init_step sb i sz pre = Some (sb', i') \<and> i < i' \<and> i' \<le> i + 2 \<and>
    table_ok sb' i' \<and> fresh_lists sb' \<and> csize sb' i' = s \<and> region_of sb' = region_of sb"
proof -
  have d: "pre div 512 < sz div 512 \<longleftrightarrow> unat pre div 512 < s div 512" "sz mod 512 = 0 \<longleftrightarrow> s mod 512 = 0"
    using s(3) unat_eq_zero [of "sz mod 512"] by (simp_all add: word_less_nat_alt unat_div unat_mod)
  show ?thesis
  proof (cases "pre div 512 < sz div 512 \<and> sz mod 512 \<noteq> 0")
    case True
    have fl: "unat (sz div 512 * 512) = s div 512 * 512"
      using s by (subst unat_mult_lem [THEN iffD1]) (auto simp: unat_div SLAB_def)
    have big: "48 \<le> s div 512 * 512" "s div 512 * 512 \<le> SLAB" using True d s(2) by (auto simp: SLAB_def)
    obtain sb1 where sb1: "set_size sb (Suc i) (sz div 512 * 512) = Some sb1" "table_ok sb1 (Suc i)" "fresh_lists sb1"
      "csize sb1 (Suc i) = s div 512 * 512" "region_of sb1 = region_of sb"
      using set_size_ok [OF t, of "sz div 512 * 512"] i big fl by (auto simp: POWER_LARGEST_def)
    have "s div 512 = prev_size sb1 (Suc (Suc i)) div 512" using sb1(4) by (simp add: prev_size_def)
    then obtain sb2 where "set_size sb1 (Suc (Suc i)) sz = Some sb2" "table_ok sb2 (Suc (Suc i))" "fresh_lists sb2"
      "csize sb2 (Suc (Suc i)) = s" "region_of sb2 = region_of sb1"
      using set_size_ok [OF sb1(2,3), of sz] i s by (auto simp: POWER_LARGEST_def)
    then show ?thesis using True sb1 by (simp add: init_step_def)
  next
    case False
    have "s mod 512 = 0 \<or> s div 512 = prev_size sb (Suc i) div 512"
      using False d pre div_le_mono [OF pre(1), of 512] by auto
    then obtain sb1 where "set_size sb (Suc i) sz = Some sb1" "table_ok sb1 (Suc i)" "fresh_lists sb1"
      "csize sb1 (Suc i) = s" "region_of sb1 = region_of sb"
      using set_size_ok [OF t, of sz] i s by (auto simp: POWER_LARGEST_def)
    then show ?thesis using False by (auto simp: init_step_def split: if_splits)
  qed
qed

lemma init_loop_ok:
  assumes f: "0 < fden" "fden \<le> fnum" "fnum < 4096 * fden"
    and t: "table_ok sb i" "fresh_lists sb" and sz: "48 \<le> unat sz"
    and pre: "unat pre \<le> unat sz" "unat pre div 512 = prev_size sb (Suc i) div 512"
    and k: "size_steps n fnum fden (unat sz) < n" "i + 2 * size_steps n fnum fden (unat sz) < 199"
  shows "\<exists>sb' i'. init_loop n fnum fden sb i sz pre = Some (sb', Suc i') \<and> i' \<le> i + 2 * size_steps n fnum fden (unat sz) \<and>
    table_ok sb' i' \<and> fresh_lists sb' \<and> region_of sb' = region_of sb"
  using t sz pre k
proof (induction n arbitrary: sb i sz pre)
  case (Suc n)
  have max: "item_size_max sb = 1048576" using Suc.prems(1) by (simp add: table_ok_def)
  have i: "i + 1 < POWER_LARGEST" using Suc.prems(7) by (simp add: POWER_LARGEST_def)
  show ?case
  proof (cases "unat sz * fnum \<le> SLAB * fden")
    case False
    then show ?thesis using Suc.prems(1,2) max by (auto simp: SLAB_def)
  next
    case True
    let ?sz = "if sz mod 8 \<noteq> 0 then sz + (8 - sz mod 8) else sz" and ?s = "round8 (unat sz)"
    let ?z = "of_nat (unat ?sz * fnum div fden) :: u32"
    have "unat sz * fnum \<le> SLAB * fnum" using True f(2) by (meson le_trans mult_le_mono2)
    then have le: "unat sz \<le> SLAB" using f by simp
    note s = unat_round8 [OF le] and r = round8_bounds [of "unat sz"]
    have rs: "48 \<le> ?s" "?s \<le> SLAB" "unat pre \<le> ?s" using r le Suc.prems(3,4) by auto
    obtain sb1 i1 where st: "init_step sb i ?sz pre = Some (sb1, i1)"
      and i1: "i < i1" "i1 \<le> i + 2" and t1: "table_ok sb1 i1" "fresh_lists sb1" "csize sb1 i1 = ?s" "region_of sb1 = region_of sb"
      using init_step_ok [OF Suc.prems(1,2) i rs(1,2) s rs(3) Suc.prems(5)] by blast
    have "?s * fnum \<le> SLAB * fnum" "SLAB * fnum < SLAB * (4096 * fden)" using rs(2) f(3) by (simp_all add: SLAB_def)
    then have "?s * fnum < SLAB * (4096 * fden)" by (rule le_less_trans)
    then have "?s * fnum div fden < SLAB * 4096" using f(1) by (simp add: div_less_iff_less_mult mult.assoc)
    then have z: "unat ?z = ?s * fnum div fden" unfolding s by (simp add: unat_of_nat SLAB_def)
    have "?s * fden div fden \<le> ?s * fnum div fden" using f(2) by (intro div_le_mono mult_le_mono2)
    then have ge: "?s \<le> unat ?z" using z f(1) by simp
    have k: "size_steps (Suc n) fnum fden (unat sz) = Suc (size_steps n fnum fden (unat ?z))" using True unfolding z by simp
    obtain sb2 i2 where "init_loop n fnum fden sb1 i1 ?z ?sz = Some (sb2, Suc i2)" "i2 \<le> i1 + 2 * size_steps n fnum fden (unat ?z)"
      "table_ok sb2 i2" "fresh_lists sb2" "region_of sb2 = region_of sb1"
      using Suc.IH [OF t1(1,2), of ?z ?sz] rs ge i1 Suc.prems(6,7) t1(3) unfolding k s by (auto simp: prev_size_def)
    moreover have "init_loop (Suc n) fnum fden sb i sz pre = init_loop n fnum fden sb1 i1 ?z ?sz"
      using i True max st unfolding init_loop_step Let_def by (simp add: SLAB_def del: init_loop.simps split del: if_split)
    ultimately show ?thesis using i1 t1(4) k by auto
  qed
qed simp

section \<open>Slabs in advance\<close>

lemma class_upd_slabs: "sc_slabs c = sc_slabs (slabclass sb ! i) \<Longrightarrow> sc_slabs (slabclass (set_class sb i c) ! k) = sc_slabs (slabclass sb ! k)"
  by (cases "i < length (slabclass sb)"; cases "k = i") (auto simp: set_class_def list_update_beyond not_less)

lemma do_slabs_free_slabs:
  assumes "do_slabs_free sb p sz i = Some sb'"
  shows "sc_slabs (slabclass sb' ! k) = sc_slabs (slabclass sb ! k)"
  using assms class_upd_slabs [of _ "sb\<lparr>stats_map := st\<rparr>" i k for st]
  by (auto simp: do_slabs_free_def class_of_def Let_def split: if_splits bind_splits)

lemma split_loop_slabs: "split_loop n sb p sz i = Some sb' \<Longrightarrow> sc_slabs (slabclass sb' ! k) = sc_slabs (slabclass sb ! k)"
  by (induction n arbitrary: sb p) (auto split: bind_splits dest!: do_slabs_free_slabs)

lemma do_slabs_newslab_slabs:
  assumes "do_slabs_newslab sb i = Some (ok, sb')" "k \<noteq> i"
  shows "sc_slabs (slabclass sb' ! k) = sc_slabs (slabclass sb ! k)"
proof -
  have g: "sc_slabs (slabclass sb1 ! k) = sc_slabs (slabclass sb ! k)" if "grow_slab_list sb i = Some sb1" for sb1
    using that assms(2) by (auto simp: grow_slab_list_def class_of_def set_class_def split: if_splits bind_splits)
  have m: "slabclass sb2 = slabclass sb1" if "memory_allocate sb1 len = (p, sb2)" for sb1 len p sb2
    using that by (auto simp: memory_allocate_def Let_def split: if_splits)
  have s: "sc_slabs (slabclass sb3 ! k) = sc_slabs (slabclass sb2 ! k)" if "split_slab_page_into_freelist sb2 p i = Some sb3" for sb2 p sb3
    using that by (auto simp: split_slab_page_into_freelist_def split: bind_splits dest!: split_loop_slabs)
  show ?thesis
    using assms
    by (auto simp: do_slabs_newslab_def Let_def set_class_def split: if_splits bind_splits prod.splits dest!: g m s)
qed

lemma newslab_succeeds:
  assumes R: "slab_rep sb pages fl" and i: "i \<in> {1..power_largest sb}" and av: "SLAB \<le> unat (mem_avail sb)"
    and new: "sc_slabs (slabclass sb ! i) = 0"
  shows "\<exists>sb' fl'. do_slabs_newslab sb i = Some (True, sb') \<and> geometry sb' = geometry sb \<and> live sb' = live sb \<and>
    slab_rep sb' (pages @ [i]) fl'"
proof -
  note D = slab_repD [OF R] and c = classD [OF slab_repD(1) [OF R] i]
  have len: "(ucast (if slab_reassign sb then item_size_max sb else z) :: u64) = 1048576" for z
    using D(1) by (simp add: classes_ok_def)
  obtain ok sb' where r: "do_slabs_newslab sb i = Some (ok, sb')" "geometry sb' = geometry sb" "live sb' = live sb"
    "if ok then \<exists>ps. ps \<noteq> [] \<and> slab_rep sb' (pages @ [i]) (fl(i := ps @ fl i)) else slab_rep sb' pages fl"
    using do_slabs_newslab_ok [OF R i] by blast
  have ok
  proof (rule ccontr)
    assume nok: "\<not> ok"
    obtain sb1 where sb1: "grow_slab_list sb i = Some sb1" "same_lists sb sb1" "mem_current sb1 = mem_current sb" "mem_avail sb1 = mem_avail sb"
      using grow_same [OF c(6)] by blast
    have "slab_rep sb1 pages fl" using slab_rep_same [OF R sb1(2-4)] .
    then obtain sb2 where "memory_allocate sb1 1048576 = (mem_current sb1, sb2)" "mem_current sb1 \<noteq> 0"
      using memory_allocate_page [OF slab_repD(2), of sb1 pages fl i] i geometry_largest [of sb1 sb] sb1 av
      by (auto simp: same_lists_def)
    then show False
      using r(1) nok c(6) sb1(1) new unfolding do_slabs_newslab_def class_of_def Let_def len by (auto split: bind_splits)
  qed
  then show ?thesis using r by auto
qed

lemma prealloc_loop_ok:
  assumes "slab_rep sb pages fl" "1 \<le> i" "i + n \<le> Suc (power_largest sb)" "n * SLAB \<le> unat (mem_avail sb)"
    and "\<forall>k \<in> {i..<i + n}. sc_slabs (slabclass sb ! k) = 0"
  shows "\<exists>sb' pages' fl'. prealloc_loop n sb i = Some sb' \<and> geometry sb' = geometry sb \<and> live sb' = live sb \<and> slab_rep sb' pages' fl'"
  using assms
proof (induction n arbitrary: sb pages fl i)
  case (Suc n)
  have i: "i \<in> {1..power_largest sb}" using Suc.prems(2,3) by simp
  obtain sb1 fl1 where s: "do_slabs_newslab sb i = Some (True, sb1)" "geometry sb1 = geometry sb" "live sb1 = live sb"
    "slab_rep sb1 (pages @ [i]) fl1"
    using newslab_succeeds [OF Suc.prems(1) i] Suc.prems(4,5) by auto
  have "length pages * SLAB + unat (mem_avail sb) = unat (mem_limit sb)" "Suc (length pages) * SLAB + unat (mem_avail sb1) = unat (mem_limit sb1)"
    using slab_repD(2) [OF Suc.prems(1)] slab_repD(2) [OF s(4)] by (simp_all add: region_ok_def)
  then have av: "n * SLAB \<le> unat (mem_avail sb1)" using Suc.prems(4) s(2) by (simp add: geometry_def)
  have "\<forall>k \<in> {Suc i..<Suc i + n}. sc_slabs (slabclass sb1 ! k) = 0"
    using do_slabs_newslab_slabs [OF s(1)] Suc.prems(5) by simp
  then obtain sb' pages' fl' where "prealloc_loop n sb1 (Suc i) = Some sb'" "geometry sb' = geometry sb1" "live sb' = live sb1" "slab_rep sb' pages' fl'"
    using Suc.IH [OF s(4), of "Suc i"] av Suc.prems(3) geometry_largest [OF s(2)] by auto
  then show ?case using s(1-3) by auto
qed auto

section \<open>Initialisation\<close>

text \<open>What \<^verbatim>\<open>mmap\<close> promises: a failure, or pages of fresh memory inside the address space.\<close>

definition mmap_ok :: "(u64 \<Rightarrow> ptr) \<Rightarrow> bool" where
  "mmap_ok mm \<longleftrightarrow> (\<forall>sz. mm sz = 0 \<or> unat (mm sz) mod 4096 = 0 \<and> unat (mm sz) + unat sz \<le> 2 ^ 64)"

lemma mmap_malloc_ok:
  assumes "mmap_ok mm" "mm limit \<noteq> 0" "unat limit mod 512 = 0"
  shows "mmap_malloc mm limit = mm limit" "BLOCK_ALIGNED (mm limit)" "unat (mm limit) + unat limit \<le> 2 ^ 64"
proof -
  have m: "unat (mm limit) mod 4096 = 0" "unat (mm limit) + unat limit \<le> 2 ^ 64" using assms(1,2) by (auto simp: mmap_ok_def)
  have "4096 dvd unat (mm limit)" using m(1) by presburger
  then have m': "unat (mm limit) mod 512 = 0" using dvd_trans [of 512 "4096 :: nat"] by (simp add: mod_eq_0_iff_dvd)
  have "x mod 512 = 0 \<longleftrightarrow> unat x mod 512 = 0" for x :: u64 using unat_eq_zero [of "x mod 512"] by (simp add: unat_mod)
  then show "mmap_malloc mm limit = mm limit" using assms(2,3) m' by (simp add: mmap_malloc_def Let_def BLOCK_SIZE_eq)
  show "BLOCK_ALIGNED (mm limit)" "unat (mm limit) + unat limit \<le> 2 ^ 64" using m m' by (simp_all add: BLOCK_ALIGNED_iff)
qed

lemma empty_allocator:
  assumes t: "table_ok sb i" "fresh_lists sb" "Suc i \<le> 200" and c: "c = slabclass sb ! Suc i"
    and sb': "sb' = (set_class sb (Suc i) (c\<lparr>sc_size := 1048576, sc_perslab := 1\<rparr>))\<lparr>power_largest := Suc i\<rparr>"
    and r: "mem_base sb \<noteq> 0" "BLOCK_ALIGNED (mem_base sb)" "mem_limit sb \<noteq> 0" "unat (mem_base sb) + unat (mem_limit sb) \<le> 2 ^ 64"
      "unat (mem_limit sb) \<le> 2 ^ 37" "mem_avail sb = mem_limit sb" "mem_current sb = mem_base sb"
  shows "slab_rep sb' [] (\<lambda>_. [])" "aligned_table sb'" "live sb' = Map.empty" "\<forall>k \<in> {1..Suc i}. sc_slabs (slabclass sb' ! k) = 0"
proof -
  have il: "Suc i < length (slabclass sb)" "length (slabclass sb) = 201" using t by (simp_all add: table_ok_def)
  note v = set_class_views [OF il(1), of "c\<lparr>sc_size := 1048576, sc_perslab := 1\<rparr>"]
  have cs: "csize sb' k = (if k = Suc i then SLAB else csize sb k)" for k
    using v(1) [of k] by (simp add: sb' csize_def SLAB_def)
  have pv: "prev_size sb' k = prev_size sb k" if "k \<in> {1..Suc i}" for k
    using that cs by (auto simp: prev_size_def)
  have tb: "48 \<le> csize sb' k \<and> csize sb' k \<le> SLAB \<and> unat (sc_perslab (slabclass sb' ! k)) = SLAB div csize sb' k \<and>
      (csize sb' k mod 512 = 0 \<or> csize sb' k div 512 = prev_size sb' k div 512)" if k: "k \<in> {1..Suc i}" for k
  proof (cases "k = Suc i")
    case True
    then show ?thesis using cs il by (simp add: SLAB_def sb' set_class_def)
  next
    case False
    then have "k \<in> {1..i}" using k by auto
    then have "48 \<le> csize sb k \<and> csize sb k \<le> SLAB \<and> unat (sc_perslab (slabclass sb ! k)) = SLAB div csize sb k \<and>
      (csize sb k mod 512 = 0 \<or> csize sb k div 512 = prev_size sb k div 512)" using t(1) unfolding table_ok_def by metis
    then show ?thesis using False cs [of k] pv [OF k] by (simp add: sb' set_class_def)
  qed
  have pl: "power_largest sb' = Suc i" by (simp add: sb')
  have cl: "classes_ok sb'" using t tb pl by (simp add: classes_ok_def table_ok_def sb' set_class_def)
  show al: "aligned_table sb'" using tb unfolding aligned_table_def pl by blast
  have lists: "slots sb' k = None" "curr sb' k = 0" "sc_slabs (slabclass sb' ! k) = 0" if "k < 201" for k
    using that t(2) il c unfolding fresh_lists_def
    by (cases "k = Suc i"; simp add: sb' slots_def curr_def set_class_def)+
  have use: "use sb' = Map.empty" using t(2) by (auto simp: use_def fresh_lists_def sb' set_class_def)
  have "chunks sb' [] = {}" by (simp add: chunks_def)
  then have ls: "lists_ok sb' (chunks sb' []) (cls_of sb' []) (\<lambda>_. [])"
    using lists t(3) use pl by (simp add: lists_ok_def)
  have "region_ok sb' []" using r by (simp add: region_ok_def sb' set_class_def)
  then show "slab_rep sb' [] (\<lambda>_. [])" using cl ls by (simp add: slab_rep_def)
  show "live sb' = Map.empty" using use by (simp add: live_def fun_eq_iff)
  show "\<forall>k \<in> {1..Suc i}. sc_slabs (slabclass sb' ! k) = 0" using lists(3) t(3) by simp
qed


text \<open>The configuration of the repository: growth factor 1.25, here with 256 MB at address 4096.\<close>

lemma size_steps_numeral:
  "size_steps (numeral k) fnum fden s =
     (if s * fnum \<le> SLAB * fden then Suc (size_steps (pred_numeral k) fnum fden (round8 s * fnum div fden)) else 0)"
  by (simp add: numeral_eq_Suc)

lemma default_steps: "size_steps 201 5 4 48 < 99"
  by (simp add: size_steps_numeral SLAB_def round8_def)


end
