(* ===== verification/Gam_Fence.thy ===== *)
theory Gam_Fence
  imports Gam_Server
begin

text \<open>
  Memory fences: the requests of a thread behind a fence of that thread wait in the fence's queue, in the
  order in which they were issued.
\<close>

text \<open>
  A fence holds back what comes after it. While a memory fence of a thread is up, every request of that
  thread, be it a read, a write, a lock, an unlock or another fence, is not executed: it joins the end
  of the fence's queue, marked, and the worker changes nothing else and sends nothing.
\<close>

lemma fence_holds_back:
  assumes w: "reqs s r = Some w" "wr_op w \<in> {READ, WRITE, RLOCK, WLOCK, UNLOCK, MFENCE, SFENCE}"
      "\<not> has w FENCE" "\<not> has w TO_SERVE" "\<not> has w REPEATED" "\<not> has w ASYNC"
    and f: "fences s (wr_fd w) = Some f" "mfenced f"
  shows "ProcessLocalRequest (Suc n) s r = Some (if wr_op w \<in> {MFENCE, SFENCE} then SUCCESS else FENCE_PENDING,
    s\<lparr>reqs := (reqs s)(r \<mapsto> set_flag w FENCE), fences := (fences s)(wr_fd w \<mapsto> f\<lparr>pending_fenced := pending_fenced f @ [r]\<rparr>)\<rparr>)"
proof -
  have a: "AddToFence s (wr_fd w) r = Some (s\<lparr>reqs := (reqs s)(r \<mapsto> set_flag w FENCE),
      fences := (fences s)(wr_fd w \<mapsto> f\<lparr>pending_fenced := pending_fenced f @ [r]\<rparr>)\<rparr>)"
    using w(1,6) f(1) by (simp add: AddToFence_def upd_wr_def upd_fence_def)
  have i: "IsFenced f w" "IsMFenced f w" using w f(2) by (simp_all add: IsFenced_def IsMFenced_def)
  show ?thesis using w(1-3) f(1) a i
    by (auto simp: ProcessLocalRequest_def ProcessLocalRequest_body_def ProcessLocalRead_def ProcessLocalWrite_def ProcessLocalRLock_def
        ProcessLocalWLock_def ProcessLocalUnLock_def ProcessLocalMFence_def ProcessLocalSFence_def lock_fence_def)
qed

end
