(* ===== verification/Gam_Rdma.thy ===== *)
theory Gam_Rdma
  imports Gam_Request
begin

text \<open>
  The connection of two nodes: \<^verbatim>\<open>RdmaContext\<close> of \<^verbatim>\<open>gam/include/rdma.h\<close> and \<^verbatim>\<open>gam/src/rdma.cc\<close>. Messages are
  sent from a ring of slots of 1024 bytes; the device may hold a bounded number of requests, further ones
  wait in a queue and are merged, several messages to a slot, when completions make room. Only some
  requests are signalled; the identifier of a signalled one carries how many requests it stands for.

  The device of the verbs library is not part of the sources: \<^verbatim>\<open>ibv_post_send\<close> appends to the list
  \<open>posted\<close>, with the bytes at the address given as they are then, or reports an error after a number of
  requests (\<open>post_limit\<close>). The keys of registered memory are left out. The mutex of the context is held
  from \<^verbatim>\<open>GetFreeSlot\<close> to the end of \<^verbatim>\<open>Send\<close>, so that the two are one step.
\<close>

section \<open>Requests and state\<close>

datatype ibv_wr_opcode = IBV_WR_SEND | IBV_WR_RDMA_WRITE | IBV_WR_RDMA_WRITE_WITH_IMM | IBV_WR_RDMA_READ | IBV_WR_ATOMIC_CMP_AND_SWP

record RdmaRequest =
  rq_op :: ibv_wr_opcode
  rq_src :: ptr
  rq_len :: nat
  rq_id :: u32
  rq_signaled :: bool
  rq_dest :: ptr
  rq_imm :: u32
  rq_oldval :: u64
  rq_newval :: u64

text \<open>
  A request as the device gets it: the fields the code sets of \<^verbatim>\<open>ibv_send_wr\<close> and its one \<^verbatim>\<open>ibv_sge\<close>, and
  in \<open>sw_data\<close> the bytes found at \<open>sw_addr\<close> when it was posted.
\<close>

record send_wr =
  sw_op :: ibv_wr_opcode
  sw_id :: u64
  sw_addr :: ptr
  sw_length :: nat
  sw_num_sge :: nat
  sw_remote :: ptr
  sw_imm :: u32
  sw_signaled :: bool
  sw_inline :: bool
  sw_data :: "u8 list"

record RdmaContext =
  send_buf :: ptr
  send_size :: nat
  slot_head :: int
  slot_tail :: int
  full :: bool
  max_pending_msg :: int
  max_unsignaled_msg :: int
  pending_msg :: int
  pending_send_msg :: int
  to_signaled_send_msg :: int
  to_signaled_w_r_msg :: int
  pending_requests :: "RdmaRequest list"
  ctx_mem :: memory
  zfreed :: "ptr list"
  posted :: "send_wr list"
  post_limit :: "nat \<Rightarrow> nat option"
  posts :: nat
  MAX_RDMA_INLINE_SIZE :: nat

definition MAX_REQUEST_SIZE :: nat where "MAX_REQUEST_SIZE = 1024"
definition MAX_UNSIGNALED_MSG :: int where "MAX_UNSIGNALED_MSG = 512"
definition MAX_PENDING_MSG :: int where "MAX_PENDING_MSG = 1024"
definition HW_MAX_PENDING :: int where "HW_MAX_PENDING = 16351"
definition HALF_BITS :: u64 where "HALF_BITS = 0xffffffff"
definition QUARTER_BITS :: u64 where "QUARTER_BITS = 0xffff"

definition RMINUS :: "int \<Rightarrow> int \<Rightarrow> int \<Rightarrow> int" where
  "RMINUS a b rz = (if a \<ge> b then a - b else a + rz - b)"

text \<open>
  The counters of a new context; \<^verbatim>\<open>MAX_MASTER_PENDING_MSG\<close> and \<^verbatim>\<open>MAX_WORKER_PENDING_MSG\<close> are equal. The
  buffer, the memory and the answers of the device are given.
\<close>

definition new_RdmaContext :: "ptr \<Rightarrow> memory \<Rightarrow> (nat \<Rightarrow> nat option) \<Rightarrow> nat \<Rightarrow> RdmaContext" where
  "new_RdmaContext buf m lim inl = (let mx = min MAX_PENDING_MSG HW_MAX_PENDING in
     \<lparr>send_buf = buf, send_size = nat MAX_PENDING_MSG * MAX_REQUEST_SIZE, slot_head = 0, slot_tail = 0, full = False,
      max_pending_msg = mx, max_unsignaled_msg = min MAX_UNSIGNALED_MSG mx,
      pending_msg = 0, pending_send_msg = 0, to_signaled_send_msg = 0, to_signaled_w_r_msg = 0, pending_requests = [],
      ctx_mem = m, zfreed = [], posted = [], post_limit = lim, posts = 0, MAX_RDMA_INLINE_SIZE = inl\<rparr>)"

section \<open>Slots\<close>

definition GetFreeSlot :: "RdmaContext \<Rightarrow> ptr option \<times> RdmaContext" where
  "GetFreeSlot c =
     (let avail = RMINUS (slot_tail c) (slot_head c) (max_pending_msg c);
          avail = (if avail = 0 \<and> \<not> full c then max_pending_msg c else avail)
      in if avail \<le> 0 \<or> pending_msg c \<ge> max_pending_msg c then (None, c)
         else let s = send_buf c + of_int (slot_head c) * of_nat MAX_REQUEST_SIZE;
                  h = (if slot_head c + 1 = max_pending_msg c then 0 else slot_head c + 1)
              in (Some s, c\<lparr>slot_head := h, full := (if h = slot_tail c then True else full c)\<rparr>))"

definition IsRegistered :: "RdmaContext \<Rightarrow> ptr \<Rightarrow> bool" where
  "IsRegistered c a \<longleftrightarrow> send_buf c \<le> a \<and> a < send_buf c + of_nat (send_size c)"

section \<open>Posting\<close>

definition ibv_post_send :: "RdmaContext \<Rightarrow> send_wr list \<Rightarrow> bool \<times> RdmaContext" where
  "ibv_post_send c ws =
     (let acc = (case post_limit c (posts c) of None \<Rightarrow> ws | Some k \<Rightarrow> take k ws);
          acc = map (\<lambda>w. w\<lparr>sw_data := if sw_num_sge w = 0 then [] else mem_read (ctx_mem c) (sw_addr w) (sw_length w)\<rparr>) acc
      in (post_limit c (posts c) = None, c\<lparr>posted := posted c @ acc, posts := Suc (posts c)\<rparr>))"

text \<open>On the little-endian machine, \<^verbatim>\<open>htonl\<close> reverses the bytes.\<close>

definition htonl :: "u32 \<Rightarrow> u32" where
  "htonl x = of_nat (le_nat (rev (le_bytes 4 (unat x))))"

text \<open>
  How many requests the next signalled one stands for, as the code counts them in \<^verbatim>\<open>uint16_t\<close>, and the
  identifier it gets.
\<close>

definition curr_to_signaled_send :: "RdmaContext \<Rightarrow> 16 word" where
  "curr_to_signaled_send c = of_int (pending_send_msg c - to_signaled_send_msg c)"

definition curr_to_signaled_w_r :: "RdmaContext \<Rightarrow> 16 word" where
  "curr_to_signaled_w_r c = of_int (pending_msg c - pending_send_msg c - to_signaled_w_r_msg c)"

definition signal_id :: "u32 \<Rightarrow> 16 word \<Rightarrow> 16 word \<Rightarrow> u64" where
  "signal_id i s w = (ucast i AND HALF_BITS) + push_bit 48 (ucast s AND QUARTER_BITS) + push_bit 32 (ucast w AND QUARTER_BITS)"

definition signal_now :: "RdmaContext \<Rightarrow> bool \<Rightarrow> bool" where
  "signal_now c signaled \<longleftrightarrow>
     uint (curr_to_signaled_send c) + uint (curr_to_signaled_w_r c) = max_unsignaled_msg c \<or> signaled"

definition count_signaled :: "RdmaContext \<Rightarrow> RdmaContext" where
  "count_signaled c = c\<lparr>to_signaled_send_msg := to_signaled_send_msg c + uint (curr_to_signaled_send c),
     to_signaled_w_r_msg := to_signaled_w_r_msg c + uint (curr_to_signaled_w_r c)\<rparr>"

definition signal_wr :: "RdmaContext \<Rightarrow> u32 \<Rightarrow> send_wr \<Rightarrow> send_wr" where
  "signal_wr c i w = w\<lparr>sw_signaled := True, sw_id := signal_id i (curr_to_signaled_send c) (curr_to_signaled_w_r c)\<rparr>"

definition zfree :: "RdmaContext \<Rightarrow> ptr \<Rightarrow> RdmaContext" where
  "zfree c p = c\<lparr>zfreed := zfreed c @ [p]\<rparr>"

text \<open>
  The buffer and the remote address of a request; a message outside of the send buffer that is too long
  to be sent inline is copied to a slot.
\<close>

definition rdma_buffer :: "RdmaContext \<Rightarrow> RdmaRequest \<Rightarrow> (ptr \<times> ptr \<times> RdmaContext) option" where
  "rdma_buffer c r = (case rq_op r of
     IBV_WR_SEND \<Rightarrow>
       (if \<not> IsRegistered c (rq_src r) \<and> rq_len r > MAX_RDMA_INLINE_SIZE c
        then do {
          let (sb, c) = GetFreeSlot c;
          sbuf \<leftarrow> sb;
          let c = zfree (c\<lparr>ctx_mem := memcpy (ctx_mem c) sbuf (rq_src r) (rq_len r)\<rparr>) (rq_src r);
          Some (sbuf, 0, c\<lparr>pending_send_msg := pending_send_msg c + 1\<rparr>) }
        else Some (rq_src r, 0, if IsRegistered c (rq_src r) then c\<lparr>pending_send_msg := pending_send_msg c + 1\<rparr> else c))
   | IBV_WR_RDMA_READ \<Rightarrow> Some (rq_dest r, rq_src r, c)
   | _ \<Rightarrow> Some (rq_src r, rq_dest r, c))"

definition Rdma :: "RdmaContext \<Rightarrow> RdmaRequest \<Rightarrow> (int \<times> RdmaContext) option" where
  "Rdma c r =
     (if pending_msg c \<ge> max_pending_msg c then Some (-1, c\<lparr>pending_requests := pending_requests c @ [r]\<rparr>)
      else if rq_op r = IBV_WR_ATOMIC_CMP_AND_SWP then Some (-1, c)
      else do {
        (addr, remote, c) \<leftarrow> rdma_buffer c r;
        let w = \<lparr>sw_op = rq_op r, sw_id = -1, sw_addr = addr, sw_length = rq_len r, sw_num_sge = (if rq_len r = 0 then 0 else 1), sw_remote = remote,
                  sw_imm = (if rq_op r = IBV_WR_RDMA_WRITE_WITH_IMM then htonl (rq_imm r) else 0),
                  sw_signaled = False, sw_inline = (rq_len r \<le> MAX_RDMA_INLINE_SIZE c), sw_data = []\<rparr>;
        let c = c\<lparr>pending_msg := pending_msg c + 1\<rparr>;
        let (w, c) = (if signal_now c (rq_signaled r) then (signal_wr c (rq_id r) w, count_signaled c) else (w, c));
        let (ok, c) = ibv_post_send c [w];
        if \<not> ok then Some (-2, c)
        else Some (int (rq_len r), if rq_op r = IBV_WR_SEND \<and> \<not> IsRegistered c addr then zfree c addr else c) })"

section \<open>The operations of the client\<close>

definition new_RdmaRequest :: "ibv_wr_opcode \<Rightarrow> ptr \<Rightarrow> nat \<Rightarrow> u32 \<Rightarrow> bool \<Rightarrow> RdmaRequest" where
  "new_RdmaRequest op src len i signaled = \<lparr>rq_op = op, rq_src = src, rq_len = len, rq_id = i, rq_signaled = signaled,
     rq_dest = 0, rq_imm = 0, rq_oldval = 0, rq_newval = 0\<rparr>"

definition rdma_Send :: "RdmaContext \<Rightarrow> ptr \<Rightarrow> nat \<Rightarrow> u32 \<Rightarrow> bool \<Rightarrow> (int \<times> RdmaContext) option" where
  "rdma_Send c p len i signaled = Rdma c (new_RdmaRequest IBV_WR_SEND p len i signaled)"

definition rdma_Write :: "RdmaContext \<Rightarrow> ptr \<Rightarrow> ptr \<Rightarrow> nat \<Rightarrow> u32 \<Rightarrow> bool \<Rightarrow> (int \<times> RdmaContext) option" where
  "rdma_Write c dest src len i signaled = Rdma c ((new_RdmaRequest IBV_WR_RDMA_WRITE src len i signaled)\<lparr>rq_dest := dest\<rparr>)"

definition rdma_WriteWithImm :: "RdmaContext \<Rightarrow> ptr \<Rightarrow> ptr \<Rightarrow> nat \<Rightarrow> u32 \<Rightarrow> u32 \<Rightarrow> bool \<Rightarrow> (int \<times> RdmaContext) option" where
  "rdma_WriteWithImm c dest src len imm i signaled =
     Rdma c ((new_RdmaRequest IBV_WR_RDMA_WRITE_WITH_IMM src len i signaled)\<lparr>rq_dest := dest, rq_imm := imm\<rparr>)"

definition rdma_Read :: "RdmaContext \<Rightarrow> ptr \<Rightarrow> ptr \<Rightarrow> nat \<Rightarrow> u32 \<Rightarrow> bool \<Rightarrow> (int \<times> RdmaContext) option" where
  "rdma_Read c dest src len i signaled = Rdma c ((new_RdmaRequest IBV_WR_RDMA_READ src len i signaled)\<lparr>rq_dest := dest\<rparr>)"

definition rdma_Cas :: "RdmaContext \<Rightarrow> ptr \<Rightarrow> u64 \<Rightarrow> u64 \<Rightarrow> u32 \<Rightarrow> bool \<Rightarrow> (int \<times> RdmaContext) option" where
  "rdma_Cas c src oldval newval i signaled =
     Rdma c ((new_RdmaRequest IBV_WR_ATOMIC_CMP_AND_SWP src 8 i signaled)\<lparr>rq_oldval := oldval, rq_newval := newval\<rparr>)"

text \<open>
  How the workers and the master send a message: in a free slot if there is one, otherwise in a buffer
  from \<^verbatim>\<open>zmalloc\<close>, here \<open>q\<close>. The bytes are those \<^verbatim>\<open>Ser\<close> writes.
\<close>

definition submit_message :: "RdmaContext \<Rightarrow> u8 list \<Rightarrow> ptr \<Rightarrow> (int \<times> RdmaContext) option" where
  "submit_message c bs q =
     (let (sb, c) = GetFreeSlot c;
          sbuf = (case sb of None \<Rightarrow> q | Some s \<Rightarrow> s)
      in rdma_Send (c\<lparr>ctx_mem := mem_write (ctx_mem c) sbuf bs\<rparr>) sbuf (length bs) 0 False)"

section \<open>Completions\<close>

text \<open>
  One request of the queue as a new entry of the batch: a message is copied to a slot (an exhausted ring
  would be a copy to a null pointer).
\<close>

definition batch_entry :: "RdmaContext \<Rightarrow> RdmaRequest \<Rightarrow> (send_wr \<times> RdmaContext) option" where
  "batch_entry c r =
     (let w = \<lparr>sw_op = rq_op r, sw_id = -1, sw_addr = rq_src r, sw_length = rq_len r, sw_num_sge = (if rq_len r = 0 then 0 else 1), sw_remote = rq_dest r, sw_imm = 0,
                sw_signaled = False, sw_inline = False, sw_data = []\<rparr>
      in case rq_op r of
           IBV_WR_SEND \<Rightarrow> do {
             let (sb, c) = GetFreeSlot c;
             sbuf \<leftarrow> sb;
             let c = zfree (c\<lparr>ctx_mem := memcpy (ctx_mem c) sbuf (rq_src r) (rq_len r)\<rparr>) (rq_src r);
             Some (w\<lparr>sw_addr := sbuf, sw_remote := 0\<rparr>,
               c\<lparr>pending_send_msg := pending_send_msg c + 1, pending_msg := pending_msg c + 1\<rparr>) }
         | IBV_WR_RDMA_READ \<Rightarrow> Some (w\<lparr>sw_addr := rq_dest r, sw_remote := rq_src r\<rparr>, c\<lparr>pending_msg := pending_msg c + 1\<rparr>)
         | _ \<Rightarrow> Some (w\<lparr>sw_imm := (if rq_op r = IBV_WR_RDMA_WRITE_WITH_IMM then htonl (rq_imm r) else 0)\<rparr>,
                 c\<lparr>pending_msg := pending_msg c + 1\<rparr>))"

text \<open>The last request of the batch takes one more message, behind a zero byte at \<open>pos\<close>.\<close>

definition merge_message :: "RdmaContext \<Rightarrow> send_wr \<Rightarrow> nat \<Rightarrow> RdmaRequest \<Rightarrow> send_wr \<times> RdmaContext" where
  "merge_message c w pos r =
     (let m = (ctx_mem c)(sw_addr w + of_nat pos := 0);
          c = zfree (c\<lparr>ctx_mem := memcpy m (sw_addr w + of_nat (pos + 1)) (rq_src r) (rq_len r)\<rparr>) (rq_src r)
      in (w\<lparr>sw_length := pos + (1 + rq_len r)\<rparr>, c))"

definition can_merge :: "send_wr list \<Rightarrow> nat \<Rightarrow> RdmaRequest \<Rightarrow> bool" where
  "can_merge ws pos r \<longleftrightarrow> ws \<noteq> [] \<and> sw_op (last ws) = IBV_WR_SEND \<and> rq_op r = IBV_WR_SEND \<and>
     pos + rq_len r + 1 + 1 \<le> MAX_REQUEST_SIZE \<and> \<not> rq_signaled r"

text \<open>
  The loop of \<^verbatim>\<open>ProcessPendingRequests\<close> over the requests waiting, with the batch \<^verbatim>\<open>wrs[0..j]\<close> as a list:
  it stops when a request needs a further entry and the batch has \<open>n\<close>. Signalling with an empty batch would
  be an access before its start.
\<close>

fun batch_loop :: "nat \<Rightarrow> nat \<Rightarrow> RdmaContext \<Rightarrow> send_wr list \<Rightarrow> nat \<Rightarrow> (send_wr list \<times> RdmaContext) option" where
  "batch_loop n 0 c ws pos = Some (ws, c)"
| "batch_loop n (Suc k) c ws pos = (case pending_requests c of
     [] \<Rightarrow> None
   | r # rs \<Rightarrow>
       (if rq_op r \<noteq> IBV_WR_ATOMIC_CMP_AND_SWP \<and> \<not> can_merge ws pos r \<and> length ws = n then Some (ws, c)
        else do {
          (ws, pos, c) \<leftarrow>
            (if rq_op r = IBV_WR_ATOMIC_CMP_AND_SWP then Some (ws, pos, c)
             else if can_merge ws pos r
             then (let (w, c) = merge_message c (last ws) pos r in Some (butlast ws @ [w], pos + (1 + rq_len r), c))
             else do {
               (w, c) \<leftarrow> batch_entry c r;
               Some (ws @ [w], if rq_op r = IBV_WR_SEND then rq_len r else 0, c) });
          (ws, c) \<leftarrow>
            (if signal_now c (rq_signaled r)
             then (if ws = [] then None
                   else Some (butlast ws @ [signal_wr c (rq_id r) (last ws)], count_signaled c))
             else Some (ws, c));
          batch_loop n k (c\<lparr>pending_requests := rs\<rparr>) ws pos }))"

definition mark_inline :: "RdmaContext \<Rightarrow> send_wr \<Rightarrow> send_wr" where
  "mark_inline c w = w\<lparr>sw_inline := (sw_length w \<le> MAX_RDMA_INLINE_SIZE c)\<rparr>"

text \<open>The batch is posted as one list; an error is logged.\<close>

definition ProcessPendingRequests :: "RdmaContext \<Rightarrow> nat \<Rightarrow> RdmaContext option" where
  "ProcessPendingRequests c n =
     (if pending_requests c = [] then Some c
      else do {
        (ws, c) \<leftarrow> batch_loop n (length (pending_requests c)) c [] 0;
        if ws = [] then None else Some (snd (ibv_post_send c (map (mark_inline c) ws))) })"

definition SendComp :: "RdmaContext \<Rightarrow> u64 \<Rightarrow> (u32 \<times> RdmaContext) option" where
  "SendComp c wc_id = do {
     let i = (ucast (wc_id AND HALF_BITS) :: u32);
     let s = (ucast (drop_bit 48 wc_id) :: 16 word);
     let w = (ucast (drop_bit 32 wc_id AND QUARTER_BITS) :: 16 word);
     let t = slot_tail c + uint s;
     let c = c\<lparr>slot_tail := (if t \<ge> max_pending_msg c then t - max_pending_msg c else t),
               to_signaled_send_msg := to_signaled_send_msg c - uint s,
               to_signaled_w_r_msg := to_signaled_w_r_msg c - uint w,
               pending_msg := pending_msg c - (uint s + uint w),
               pending_send_msg := pending_send_msg c - uint s,
               full := (if full c \<and> s \<noteq> 0 then False else full c)\<rparr>;
     c \<leftarrow> ProcessPendingRequests c (unat s + unat w);
     Some (i, c) }"

definition WriteComp :: "RdmaContext \<Rightarrow> u64 \<Rightarrow> (u32 \<times> RdmaContext) option" where
  "WriteComp c wc_id = SendComp c wc_id"

end
