(* ===== verification/Gam_Channel.thy ===== *)
theory Gam_Channel
  imports Gam_Rdma
begin

text \<open>
  What the connection of \<open>Gam_Rdma\<close> guarantees: the ring of slots and the counters stay consistent with the
  requests the device holds, a slot is not reused before its message has been sent, nothing waits
  without a completion to come, and the messages leave in the order in which they were submitted, merged
  but whole.
\<close>

section \<open>The requests the device holds\<close>

definition is_send :: "send_wr \<Rightarrow> bool" where "is_send w \<longleftrightarrow> sw_op w = IBV_WR_SEND"

definition sends :: "send_wr list \<Rightarrow> send_wr list" where "sends ws = filter is_send ws"

abbreviation nsend :: "send_wr list \<Rightarrow> nat" where "nsend ws \<equiv> length (sends ws)"

definition slot :: "RdmaContext \<Rightarrow> int \<Rightarrow> ptr" where
  "slot c i = send_buf c + of_int i * of_nat MAX_REQUEST_SIZE"

definition ring_ok :: "RdmaContext \<Rightarrow> send_wr list \<Rightarrow> bool" where
  "ring_ok c fl \<longleftrightarrow> (let mx = max_pending_msg c in
     0 < max_unsignaled_msg c \<and> max_unsignaled_msg c \<le> mx \<and> mx < 65536 \<and>
     send_size c = nat mx * MAX_REQUEST_SIZE \<and> unat (send_buf c) + send_size c < 2 ^ 64 \<and>
     pending_msg c = int (length fl) \<and> pending_msg c \<le> mx \<and> pending_send_msg c = int (nsend fl) \<and>
     0 \<le> slot_tail c \<and> slot_tail c < mx \<and> slot_head c = (slot_tail c + int (nsend fl)) mod mx \<and>
     (full c \<longleftrightarrow> int (nsend fl) = mx) \<and>
     map sw_addr (sends fl) = map (\<lambda>k. slot c ((slot_tail c + int k) mod mx)) [0..<nsend fl])"

text \<open>
  The requests since the last signalled one, as numbers of messages and of others; a signalled request
  carries these numbers, itself included.
\<close>

definition tally :: "nat \<times> nat \<Rightarrow> send_wr \<Rightarrow> nat \<times> nat" where
  "tally x w = (if is_send w then (Suc (fst x), snd x) else (fst x, Suc (snd x)))"

definition tally_next :: "nat \<times> nat \<Rightarrow> send_wr \<Rightarrow> nat \<times> nat" where
  "tally_next x w = (if sw_signaled w then (0, 0) else tally x w)"

definition rest :: "nat \<times> nat \<Rightarrow> send_wr list \<Rightarrow> nat \<times> nat" where
  "rest x ws = foldl tally_next x ws"

fun marks_ok :: "nat \<times> nat \<Rightarrow> send_wr list \<Rightarrow> bool" where
  "marks_ok x [] = True"
| "marks_ok x (w # ws) \<longleftrightarrow>
     (sw_signaled w \<longrightarrow> (\<exists>i. sw_id w = signal_id i (of_nat (fst (tally x w))) (of_nat (snd (tally x w))))) \<and>
     marks_ok (tally_next x w) ws"

definition sig_ok :: "RdmaContext \<Rightarrow> send_wr list \<Rightarrow> bool" where
  "sig_ok c fl \<longleftrightarrow> marks_ok (0, 0) fl \<and>
     to_signaled_send_msg c = int (nsend fl) - int (fst (rest (0, 0) fl)) \<and>
     to_signaled_w_r_msg c = int (length fl) - int (nsend fl) - int (snd (rest (0, 0) fl))"

definition unsignaled_few :: "RdmaContext \<Rightarrow> send_wr list \<Rightarrow> bool" where
  "unsignaled_few c fl \<longleftrightarrow> int (fst (rest (0, 0) fl) + snd (rest (0, 0) fl)) < max_unsignaled_msg c"

lemma sends_append [simp]: "sends (a @ b) = sends a @ sends b"
  by (simp add: sends_def)

lemma sends_simps [simp]: "sends [] = []" "sends (w # ws) = (if is_send w then w # sends ws else sends ws)"
  by (simp_all add: sends_def)

lemma nsend_le: "nsend ws \<le> length ws"
  by (simp add: sends_def)

lemma rest_append [simp]: "rest x (a @ b) = rest (rest x a) b" and rest_Nil [simp]: "rest x [] = x"
  and rest_Cons [simp]: "rest x (w # ws) = rest (tally_next x w) ws"
  by (simp_all add: rest_def)

lemma marks_append: "marks_ok x (a @ b) \<longleftrightarrow> marks_ok x a \<and> marks_ok (rest x a) b"
  by (induction a arbitrary: x) auto

lemma rest_le: "fst (rest x ws) \<le> fst x + nsend ws" "fst (rest x ws) + snd (rest x ws) \<le> fst x + snd x + length ws"
proof (induction ws arbitrary: x)
  case (Cons w ws)
  case 1 show ?case using Cons(1) [of "tally_next x w"] by (auto simp: tally_next_def tally_def)
  case 2 show ?case using Cons(2) [of "tally_next x w"] by (auto simp: tally_next_def tally_def)
qed simp_all

lemma rest_le_other: "snd (rest x ws) \<le> snd x + (length ws - nsend ws)"
proof (induction ws arbitrary: x)
  case (Cons w ws)
  show ?case using Cons [of "tally_next x w"] nsend_le [of ws] by (auto simp: tally_next_def tally_def)
qed simp

text \<open>The identifier of a completion gives back the number and the counts it was made of.\<close>

lemma signal_id_parts:
  "(ucast (signal_id i s w AND HALF_BITS) :: u32) = i" "(ucast (drop_bit 48 (signal_id i s w)) :: 16 word) = s"
  "(ucast (drop_bit 32 (signal_id i s w) AND QUARTER_BITS) :: 16 word) = w"
proof -
  have b: "bit HALF_BITS n \<longleftrightarrow> n < 32" "bit QUARTER_BITS n \<longleftrightarrow> n < 16" for n
    using bit_mask_iff [of 32 n, where 'a = u64] bit_mask_iff [of 16 n, where 'a = u64] by (auto simp: HALF_BITS_def QUARTER_BITS_def mask_eq_exp_minus_1)
  note bits = bit_or_iff bit_and_iff bit_push_bit_iff bit_ucast_iff bit_drop_bit_eq b
  have "signal_id i s w = ((ucast i AND HALF_BITS) OR push_bit 48 (ucast s AND QUARTER_BITS)) OR push_bit 32 (ucast w AND QUARTER_BITS)"
    unfolding signal_id_def by (subst disjunctive_add_eq_or, rule bit_word_eqI, auto simp: bits)+
  note e = this
  show "(ucast (signal_id i s w AND HALF_BITS) :: u32) = i" "(ucast (drop_bit 48 (signal_id i s w)) :: 16 word) = s"
    "(ucast (drop_bit 32 (signal_id i s w) AND QUARTER_BITS) :: 16 word) = w"
    unfolding e by (rule bit_word_eqI, auto simp: bits dest: bit_imp_le_length)+
qed

section \<open>Slots\<close>

lemma ring_add: "0 \<le> a \<Longrightarrow> a < m \<Longrightarrow> 0 \<le> n \<Longrightarrow> n \<le> m \<Longrightarrow> (a + n) mod m = (if m \<le> a + n then a + n - m else a + (n :: int))"
  using minus_mod_self2 [of "a + n" m] mod_pos_pos_trivial [of "a + n - m" m] mod_pos_pos_trivial [of "a + n" m] by (simp del: minus_mod_self2)

lemma small_counts: "k < 65536 \<Longrightarrow> uint (of_nat k :: 16 word) = int k" "k < 65536 \<Longrightarrow> unat (of_nat k :: 16 word) = k"
  by (simp_all add: uint_nat unat_of_nat)

lemma unat_slot:
  assumes "ring_ok c fl" "0 \<le> i" "i < max_pending_msg c"
  shows "unat (slot c i) = unat (send_buf c) + nat i * 1024" "nat i * 1024 + 1024 \<le> send_size c"
proof -
  have sz: "send_size c = nat (max_pending_msg c) * 1024" "unat (send_buf c) + send_size c < 2 ^ 64" "max_pending_msg c < 65536"
    using assms(1) by (auto simp: ring_ok_def MAX_REQUEST_SIZE_def Let_def)
  show le: "nat i * 1024 + 1024 \<le> send_size c" using assms(2,3) sz(1) by simp
  have e: "of_int i * of_nat MAX_REQUEST_SIZE = (of_nat (nat i * 1024) :: u64)" using assms(2) by (simp add: MAX_REQUEST_SIZE_def)
  have "nat i * 1024 < 2 ^ 64" using le sz(2) by linarith
  then have "unat (of_nat (nat i * 1024) :: u64) = nat i * 1024" by (simp only: unat_of_nat) simp
  then show "unat (slot c i) = unat (send_buf c) + nat i * 1024"
    unfolding slot_def e using unat_add_no_wrap [of "send_buf c" "of_nat (nat i * 1024)"] le sz(2) by simp
qed

lemma slots_apart:
  assumes "ring_ok c fl" "0 \<le> i" "i < max_pending_msg c" "0 \<le> j" "j < max_pending_msg c" "i \<noteq> j" "m \<le> 1024" "n \<le> 1024"
  shows "apart (slot c i) m (slot c j) n"
proof -
  note u = unat_slot [OF assms(1-3)] unat_slot [OF assms(1,4,5)]
  have b: "unat (send_buf c) + send_size c < 2 ^ 64" using assms(1) by (simp add: ring_ok_def Let_def)
  show ?thesis
  proof (cases "i < j")
    case True
    then have "nat i * 1024 + 1024 \<le> nat j * 1024" using assms(2) by simp
    then show ?thesis using apart_below(1) [of "slot c i" m "slot c j" n] u b assms(7,8) by linarith
  next
    case False
    then have "nat j * 1024 + 1024 \<le> nat i * 1024" using assms(4,6) by simp
    then show ?thesis using apart_below(2) [of "slot c j" n "slot c i" m] u b assms(7,8) by linarith
  qed
qed

lemma slot_registered:
  assumes "ring_ok c fl" "0 \<le> i" "i < max_pending_msg c"
  shows "IsRegistered c (slot c i)"
proof -
  have b: "unat (send_buf c) + send_size c < 2 ^ 64" using assms(1) by (simp add: ring_ok_def Let_def)
  then have "unat (send_buf c + of_nat (send_size c)) = unat (send_buf c) + send_size c"
    using unat_add_no_wrap [of "send_buf c" "of_nat (send_size c)"] by (simp add: unat_of_nat)
  then show ?thesis using unat_slot [OF assms] by (simp add: IsRegistered_def word_le_nat_alt word_less_nat_alt)
qed

text \<open>The slot handed out is the one behind those in use.\<close>

lemma GetFreeSlot_run:
  assumes "ring_ok c fl"
  shows "pending_msg c < max_pending_msg c \<Longrightarrow> GetFreeSlot c = (Some (slot c (slot_head c)),
      c\<lparr>slot_head := (slot_head c + 1) mod max_pending_msg c, full := int (nsend fl) + 1 = max_pending_msg c\<rparr>)"
    "max_pending_msg c \<le> pending_msg c \<Longrightarrow> GetFreeSlot c = (None, c)"
proof -
  let ?m = "max_pending_msg c" and ?t = "slot_tail c" and ?n = "int (nsend fl)"
  have c: "0 < ?m" "0 \<le> ?t" "?t < ?m" "slot_head c = (?t + ?n) mod ?m" "full c \<longleftrightarrow> ?n = ?m" "pending_msg c = int (length fl)"
    using assms by (auto simp: ring_ok_def Let_def)
  show "max_pending_msg c \<le> pending_msg c \<Longrightarrow> GetFreeSlot c = (None, c)" by (simp add: GetFreeSlot_def Let_def)
  assume p: "pending_msg c < ?m"
  then have n: "?n < ?m" using nsend_le [of fl] c(6) by linarith
  have h: "slot_head c = (if ?t + ?n < ?m then ?t + ?n else ?t + ?n - ?m)"
    unfolding c(4) using c(1-3) n ring_add [of ?t ?m ?n] by auto
  have h1: "(slot_head c + 1) mod ?m = (if slot_head c + 1 = ?m then 0 else slot_head c + 1)" using h c(1-3) n by (auto simp: mod_pos_pos_trivial)
  have r: "RMINUS ?t (slot_head c) ?m = (if ?n = 0 then 0 else ?m - ?n)" using h c(1-3) n by (auto simp: RMINUS_def)
  have f: "((slot_head c + 1) mod ?m = ?t) = (?n + 1 = ?m)" unfolding h1 using h c(1-3) n by auto
  show "GetFreeSlot c = (Some (slot c (slot_head c)), c\<lparr>slot_head := (slot_head c + 1) mod ?m, full := ?n + 1 = ?m\<rparr>)"
    using p n r f c(1,5) unfolding GetFreeSlot_def Let_def h1 [symmetric] by (simp add: slot_def)
qed

section \<open>One more request\<close>

definition ring_fields :: "RdmaContext \<Rightarrow> _" where
  "ring_fields c = (send_buf c, send_size c, slot_head c, slot_tail c, full c, max_pending_msg c, max_unsignaled_msg c, pending_msg c, pending_send_msg c)"

lemma ring_ok_cong: "ring_fields c' = ring_fields c \<Longrightarrow> ring_ok c fl \<Longrightarrow> ring_ok c' fl"
  by (simp add: ring_ok_def ring_fields_def slot_def)

lemma ring_push_other:
  assumes "ring_ok c fl" "pending_msg c < max_pending_msg c" "\<not> is_send w"
    and "ring_fields c' = ring_fields (c\<lparr>pending_msg := pending_msg c + 1\<rparr>)"
  shows "ring_ok c' (fl @ [w])"
  using assms by (intro ring_ok_cong [OF assms(4)]) (simp add: ring_ok_def slot_def Let_def)

lemma ring_push_send:
  assumes "ring_ok c fl" "pending_msg c < max_pending_msg c" "is_send w" "sw_addr w = slot c (slot_head c)"
    and "ring_fields c' = ring_fields (c\<lparr>slot_head := (slot_head c + 1) mod max_pending_msg c, full := int (nsend fl) + 1 = max_pending_msg c,
      pending_msg := pending_msg c + 1, pending_send_msg := pending_send_msg c + 1\<rparr>)"
  shows "ring_ok c' (fl @ [w])"
proof (rule ring_ok_cong [OF assms(5)])
  let ?m = "max_pending_msg c" and ?t = "slot_tail c" and ?n = "int (nsend fl)"
  have c: "slot_head c = (?t + ?n) mod ?m" "pending_msg c = int (length fl)" using assms(1) by (auto simp: ring_ok_def Let_def)
  have h: "((?t + ?n) mod ?m + 1) mod ?m = (?t + (1 + ?n)) mod ?m" by (simp add: mod_simps algebra_simps)
  have n: "(?n + 1 = ?m) = (1 + ?n = ?m)" by auto
  show "ring_ok (c\<lparr>slot_head := (slot_head c + 1) mod ?m, full := ?n + 1 = ?m, pending_msg := pending_msg c + 1, pending_send_msg := pending_send_msg c + 1\<rparr>) (fl @ [w])"
    using assms(1-4) c h n by (simp add: ring_ok_def slot_def Let_def)
qed

lemma sig_push: "sig_ok c fl \<Longrightarrow> \<not> sw_signaled w \<Longrightarrow> sig_ok c (fl @ [w])"
  by (simp add: sig_ok_def marks_append tally_next_def tally_def)

lemma few_push: "unsignaled_few c fl \<Longrightarrow> \<not> sw_signaled w \<Longrightarrow>
    int (fst (rest (0, 0) (fl @ [w])) + snd (rest (0, 0) (fl @ [w]))) \<le> max_unsignaled_msg c"
  by (simp add: unsignaled_few_def tally_next_def tally_def)

lemma curr_counts:
  assumes "ring_ok c fl" "sig_ok c fl"
  shows "curr_to_signaled_send c = of_nat (fst (rest (0, 0) fl))" "curr_to_signaled_w_r c = of_nat (snd (rest (0, 0) fl))"
    "uint (curr_to_signaled_send c) = int (fst (rest (0, 0) fl))" "uint (curr_to_signaled_w_r c) = int (snd (rest (0, 0) fl))"
proof -
  have l: "int (length fl) < 65536" using assms(1) by (auto simp: ring_ok_def Let_def)
  show a: "curr_to_signaled_send c = of_nat (fst (rest (0, 0) fl))" "curr_to_signaled_w_r c = of_nat (snd (rest (0, 0) fl))"
    using assms by (simp_all add: ring_ok_def sig_ok_def Let_def curr_to_signaled_send_def curr_to_signaled_w_r_def)
  have "fst (rest (0, 0) fl) < 65536" "snd (rest (0, 0) fl) < 65536" using rest_le(2) [of "(0, 0)" fl] l by auto
  then show "uint (curr_to_signaled_send c) = int (fst (rest (0, 0) fl))" "uint (curr_to_signaled_w_r c) = int (snd (rest (0, 0) fl))"
    unfolding a by (simp_all add: uint_nat unat_of_nat)
qed

lemma no_signal: "ring_ok c fl \<Longrightarrow> sig_ok c fl \<Longrightarrow> unsignaled_few c fl \<Longrightarrow> \<not> signal_now c False"
  using curr_counts(3,4) [of c fl] by (auto simp: signal_now_def unsignaled_few_def)

text \<open>The signalled request stands for all since the last one.\<close>

lemma signal_step:
  assumes "ring_ok c (fl @ [w])" "sig_ok c (fl @ [w])" "\<not> sw_signaled w"
    and "int (fst (rest (0, 0) (fl @ [w])) + snd (rest (0, 0) (fl @ [w]))) \<le> max_unsignaled_msg c"
  shows "signal_now c b \<Longrightarrow> ring_ok (count_signaled c) (fl @ [signal_wr c i w]) \<and> sig_ok (count_signaled c) (fl @ [signal_wr c i w]) \<and>
      unsignaled_few (count_signaled c) (fl @ [signal_wr c i w])"
    and "\<not> signal_now c b \<Longrightarrow> unsignaled_few c (fl @ [w])"
proof -
  note k = curr_counts [OF assms(1,2)]
  have s: "is_send (signal_wr c i w) = is_send w" "sw_addr (signal_wr c i w) = sw_addr w" "sw_signaled (signal_wr c i w)"
    by (simp_all add: signal_wr_def is_send_def)
  have "ring_ok (count_signaled c) (fl @ [signal_wr c i w])"
    using assms(1) s by (simp add: ring_ok_def Let_def slot_def count_signaled_def split: if_splits)
  moreover have "tally (rest (0, 0) fl) (signal_wr c i w) = rest (0, 0) (fl @ [w])" using assms(3) s by (simp add: tally_def tally_next_def)
  then have "sig_ok (count_signaled c) (fl @ [signal_wr c i w])"
    using assms(2,3) s k by (auto simp: sig_ok_def marks_append tally_next_def count_signaled_def signal_wr_def split: if_splits)
  moreover have "unsignaled_few (count_signaled c) (fl @ [signal_wr c i w])"
    using assms(1) s by (simp add: unsignaled_few_def tally_next_def ring_ok_def Let_def count_signaled_def)
  ultimately show "ring_ok (count_signaled c) (fl @ [signal_wr c i w]) \<and> sig_ok (count_signaled c) (fl @ [signal_wr c i w]) \<and>
      unsignaled_few (count_signaled c) (fl @ [signal_wr c i w])" by blast
  show "\<not> signal_now c b \<Longrightarrow> unsignaled_few c (fl @ [w])" using assms(4) k(3,4) by (auto simp: signal_now_def unsignaled_few_def)
qed

section \<open>Slots in use are left alone\<close>

lemma send_addr:
  assumes "ring_ok c fl" "k < nsend fl"
  shows "sw_addr (sends fl ! k) = slot c ((slot_tail c + int k) mod max_pending_msg c)"
proof -
  have "map sw_addr (sends fl) ! k = map (\<lambda>k. slot c ((slot_tail c + int k) mod max_pending_msg c)) [0..<nsend fl] ! k"
    using assms(1) by (simp only: ring_ok_def Let_def)
  then show ?thesis using assms(2) by simp
qed

lemma ring_distinct:
  assumes "(t + int i) mod m = (t + int j) mod m" "int i < m" "int j < m"
  shows "i = j"
proof -
  have "int i mod m = int j mod m" using assms(1) by (metis add_diff_cancel_left' mod_diff_cong)
  then show ?thesis using assms(2,3) by (simp add: mod_pos_pos_trivial)
qed

lemma head_apart:
  assumes r: "ring_ok c fl" and p: "pending_msg c < max_pending_msg c" and w: "w \<in> set (sends fl)"
  shows "apart (slot c (slot_head c)) 1024 (sw_addr w) 1024"
proof -
  let ?m = "max_pending_msg c"
  have c: "0 < ?m" "slot_head c = (slot_tail c + int (nsend fl)) mod ?m" "pending_msg c = int (length fl)" using r by (auto simp: ring_ok_def Let_def)
  obtain k where k: "k < nsend fl" "w = sends fl ! k" using w by (metis in_set_conv_nth)
  have "int (nsend fl) < ?m" using nsend_le [of fl] c(3) p by linarith
  then have "(slot_tail c + int (nsend fl)) mod ?m \<noteq> (slot_tail c + int k) mod ?m" using ring_distinct [of "slot_tail c" "nsend fl" ?m k] k(1) by auto
  then show ?thesis using slots_apart [OF r] send_addr [OF r k(1)] c k(2) by (simp add: pos_mod_bound)
qed

lemma last_apart:
  assumes r: "ring_ok c (fl @ [w])" "is_send w" and v: "v \<in> set (sends fl)"
  shows "apart (sw_addr w) 1024 (sw_addr v) 1024"
proof -
  let ?m = "max_pending_msg c"
  have c: "0 < ?m" "int (length (fl @ [w])) \<le> ?m" using r by (auto simp: ring_ok_def Let_def)
  obtain k where k: "k < nsend fl" "v = sends fl ! k" using v by (metis in_set_conv_nth)
  have n: "int (nsend fl) < ?m" using nsend_le [of fl] c(2) by simp
  then have d: "(slot_tail c + int (nsend fl)) mod ?m \<noteq> (slot_tail c + int k) mod ?m" using ring_distinct [of "slot_tail c" "nsend fl" ?m k] k(1) by auto
  have "sends (fl @ [w]) ! nsend fl = w" "sends (fl @ [w]) ! k = v" using r(2) k by (simp_all add: nth_append)
  then have "sw_addr w = slot c ((slot_tail c + int (nsend fl)) mod ?m)" "sw_addr v = slot c ((slot_tail c + int k) mod ?m)"
    using send_addr [OF r(1), of "nsend fl"] send_addr [OF r(1), of k] r(2) k(1) by simp_all
  then show ?thesis using slots_apart [OF r(1)] d c(1) by (simp add: pos_mod_bound)
qed

text \<open>Buffers outside of the ring.\<close>

lemma slot_in_buffer:
  assumes "ring_ok c fl" "0 \<le> i" "i < max_pending_msg c" "apart q n (send_buf c) (send_size c)" "k + z \<le> 1024"
  shows "apart q n (slot c i + of_nat k) z"
proof -
  have "slot c i = send_buf c + of_nat (nat i * 1024)" using assms(2) by (simp add: slot_def MAX_REQUEST_SIZE_def)
  then show ?thesis using apart_within [OF assms(4), of "nat i * 1024 + k" z] unat_slot(2) [OF assms(1-3)] assms(5) by (simp add: add.assoc)
qed

section \<open>What is sent\<close>

text \<open>A message with its bytes, or a transfer between addresses.\<close>

datatype parcel = Message "u8 list" | Transfer ibv_wr_opcode ptr ptr nat u32

fun join0 :: "u8 list list \<Rightarrow> u8 list" where
  "join0 [] = []"
| "join0 [m] = m"
| "join0 (m # ms) = m @ 0 # join0 ms"

definition parcel_of :: "memory \<Rightarrow> RdmaRequest \<Rightarrow> parcel" where
  "parcel_of m r = (case rq_op r of
     IBV_WR_SEND \<Rightarrow> Message (mem_read m (rq_src r) (rq_len r))
   | IBV_WR_RDMA_READ \<Rightarrow> Transfer IBV_WR_RDMA_READ (rq_dest r) (rq_src r) (rq_len r) 0
   | op \<Rightarrow> Transfer op (rq_src r) (rq_dest r) (rq_len r) (if op = IBV_WR_RDMA_WRITE_WITH_IMM then htonl (rq_imm r) else 0))"

definition carries :: "send_wr \<Rightarrow> u8 list \<Rightarrow> parcel list \<Rightarrow> bool" where
  "carries w bs g \<longleftrightarrow>
     (if is_send w then (\<exists>ms. ms \<noteq> [] \<and> g = map Message ms \<and> bs = join0 ms \<and> length bs = sw_length w \<and> 0 < length bs \<and> length bs \<le> MAX_REQUEST_SIZE)
      else g = [Transfer (sw_op w) (sw_addr w) (sw_remote w) (sw_length w) (sw_imm w)])"

definition queue_ok :: "RdmaContext \<Rightarrow> bool" where
  "queue_ok c \<longleftrightarrow> (\<forall>r \<in> set (pending_requests c). rq_op r \<noteq> IBV_WR_ATOMIC_CMP_AND_SWP \<and>
     (rq_op r = IBV_WR_SEND \<longrightarrow> 0 < rq_len r \<and> rq_len r \<le> MAX_REQUEST_SIZE \<and> apart (rq_src r) (rq_len r) (send_buf c) (send_size c)))"

definition held :: "RdmaContext \<Rightarrow> send_wr list \<Rightarrow> bool" where
  "held c fl \<longleftrightarrow> (\<forall>w \<in> set (sends fl). sw_length w \<le> MAX_REQUEST_SIZE \<and> mem_read (ctx_mem c) (sw_addr w) (sw_length w) = sw_data w)"

definition data_of :: "RdmaContext \<Rightarrow> send_wr \<Rightarrow> u8 list" where
  "data_of c w = mem_read (ctx_mem c) (sw_addr w) (sw_length w)"

lemma join0_snoc: "ms \<noteq> [] \<Longrightarrow> join0 (ms @ [m]) = join0 ms @ 0 # m"
  by (induction ms rule: join0.induct) auto

section \<open>The batch\<close>

definition entry_ok :: "RdmaContext \<Rightarrow> send_wr \<Rightarrow> parcel list \<Rightarrow> bool" where
  "entry_ok c w g \<longleftrightarrow> carries w (data_of c w) g \<and> (is_send w \<longrightarrow> sw_num_sge w \<noteq> 0)"

definition batch_inv :: "RdmaContext \<Rightarrow> send_wr list \<Rightarrow> send_wr list \<Rightarrow> parcel list list \<Rightarrow> bool" where
  "batch_inv c fl ws gs \<longleftrightarrow> ring_ok c (fl @ ws) \<and> sig_ok c (fl @ ws) \<and> queue_ok c \<and> held c fl \<and> list_all2 (entry_ok c) ws gs"

text \<open>What a batch does not change.\<close>

definition static :: "RdmaContext \<Rightarrow> _" where
  "static c = (send_buf c, send_size c, max_pending_msg c, max_unsignaled_msg c, slot_tail c, posted c, post_limit c, posts c)"

definition items_waiting :: "RdmaContext \<Rightarrow> parcel list" where
  "items_waiting c = map (parcel_of (ctx_mem c)) (pending_requests c)"

lemma parcel_of_slot_write:
  assumes "ring_ok c fl" "queue_ok c" "0 \<le> i" "i < max_pending_msg c" "k + length bs \<le> 1024" "r \<in> set (pending_requests c)"
  shows "parcel_of (mem_write m (slot c i + of_nat k) bs) r = parcel_of m r"
proof (cases "rq_op r = IBV_WR_SEND")
  case True
  then have "apart (rq_src r) (rq_len r) (send_buf c) (send_size c)" using assms(2,6) by (simp add: queue_ok_def)
  then have "apart (slot c i + of_nat k) (length bs) (rq_src r) (rq_len r)" using slot_in_buffer [OF assms(1,3,4)] assms(5) apart_sym by blast
  then show ?thesis using True by (simp add: parcel_of_def mem_read_write_apart)
qed (auto simp: parcel_of_def split: ibv_wr_opcode.splits)

lemma read_slot_apart: "apart p (length bs) q 1024 \<Longrightarrow> n \<le> 1024 \<Longrightarrow> mem_read (mem_write m p bs) q n = mem_read m q n"
  by (rule mem_read_write_apart) (rule apart_mono, assumption, simp_all)

lemma held_write: "held c fl \<Longrightarrow> \<forall>w \<in> set (sends fl). apart p (length bs) (sw_addr w) 1024 \<Longrightarrow> ctx_mem c' = mem_write (ctx_mem c) p bs \<Longrightarrow> held c' fl"
  by (simp add: held_def MAX_REQUEST_SIZE_def read_slot_apart)

lemma entry_write:
  assumes "entry_ok c w g" "is_send w \<longrightarrow> apart p (length bs) (sw_addr w) 1024" "ctx_mem c' = mem_write (ctx_mem c) p bs"
  shows "entry_ok c' w g"
proof (cases "is_send w")
  case True
  then have "sw_length w \<le> 1024" using assms(1) by (auto simp: entry_ok_def carries_def MAX_REQUEST_SIZE_def)
  then have "data_of c' w = data_of c w"
    using True assms(2,3) by (simp add: data_of_def read_slot_apart)
  then show ?thesis using assms(1) by (simp add: entry_ok_def)
next
  case False
  then show ?thesis using assms(1) by (simp add: entry_ok_def carries_def)
qed

lemma entries_write:
  assumes "list_all2 (entry_ok c) ws gs" "\<forall>w \<in> set (sends ws). apart p (length bs) (sw_addr w) 1024" "ctx_mem c' = mem_write (ctx_mem c) p bs"
  shows "list_all2 (entry_ok c') ws gs"
  using assms(1) by (rule list.rel_mono_strong) (use assms(2,3) in \<open>auto simp: sends_def intro: entry_write\<close>)

lemma queue_ok_cong: "queue_ok c \<Longrightarrow> send_buf c' = send_buf c \<Longrightarrow> send_size c' = send_size c \<Longrightarrow>
    set (pending_requests c') \<subseteq> set (pending_requests c) \<Longrightarrow> queue_ok c'"
  by (auto simp: queue_ok_def)

lemma sig_ok_cong: "sig_ok c fl \<Longrightarrow> to_signaled_send_msg c' = to_signaled_send_msg c \<Longrightarrow> to_signaled_w_r_msg c' = to_signaled_w_r_msg c \<Longrightarrow> sig_ok c' fl"
  by (simp add: sig_ok_def)

lemma entry_step:
  assumes J: "batch_inv c fl ws gs" and p: "pending_msg c < max_pending_msg c" and q: "pending_requests c = r # rs"
  shows "\<exists>w c'. batch_entry c r = Some (w, c') \<and> \<not> sw_signaled w \<and> batch_inv c' fl (ws @ [w]) (gs @ [[parcel_of (ctx_mem c) r]]) \<and>
    items_waiting c' = items_waiting c \<and> static c' = static c \<and> pending_requests c' = r # rs \<and>
    (is_send w \<longleftrightarrow> rq_op r = IBV_WR_SEND) \<and> (is_send w \<longrightarrow> sw_length w = rq_len r)"
proof (cases "rq_op r = IBV_WR_SEND")
  case False
  let ?c = "c\<lparr>pending_msg := pending_msg c + 1\<rparr>"
  have op: "rq_op r \<noteq> IBV_WR_ATOMIC_CMP_AND_SWP" using J q by (simp add: batch_inv_def queue_ok_def)
  then have "\<exists>w. batch_entry c r = Some (w, ?c) \<and> \<not> sw_signaled w \<and> \<not> is_send w \<and> carries w (data_of ?c w) [parcel_of (ctx_mem c) r]"
    using False by (cases "rq_op r") (auto simp: batch_entry_def Let_def is_send_def carries_def parcel_of_def)
  then obtain w where w: "batch_entry c r = Some (w, ?c)" "\<not> sw_signaled w" "\<not> is_send w" "carries w (data_of ?c w) [parcel_of (ctx_mem c) r]" by blast
  have "ring_ok ?c ((fl @ ws) @ [w])" using J p w(3) by (intro ring_push_other) (auto simp: batch_inv_def ring_fields_def)
  moreover have "sig_ok ?c ((fl @ ws) @ [w])" using J w(2) by (intro sig_push) (auto simp: batch_inv_def intro: sig_ok_cong)
  moreover have "list_all2 (entry_ok ?c) (ws @ [w]) (gs @ [[parcel_of (ctx_mem c) r]])"
    using J w(3,4) by (auto simp: batch_inv_def entry_ok_def [abs_def] data_of_def intro!: list_all2_appendI)
  ultimately have "batch_inv ?c fl (ws @ [w]) (gs @ [[parcel_of (ctx_mem c) r]])" using J by (simp add: batch_inv_def held_def queue_ok_def)
  then show ?thesis using w False q by (auto simp: items_waiting_def static_def)
next
  case True
  let ?h = "slot_head c" and ?m = "max_pending_msg c"
  let ?bs = "mem_read (ctx_mem c) (rq_src r) (rq_len r)"
  have R: "ring_ok c (fl @ ws)" "queue_ok c" "held c fl" "list_all2 (entry_ok c) ws gs" "sig_ok c (fl @ ws)" using J by (simp_all add: batch_inv_def)
  have h: "0 \<le> ?h" "?h < ?m" using R(1) by (auto simp: ring_ok_def Let_def pos_mod_bound)
  have l: "0 < rq_len r" "rq_len r \<le> 1024" using R(2) q True by (auto simp: queue_ok_def MAX_REQUEST_SIZE_def)
  define c1 where "c1 = c\<lparr>slot_head := (?h + 1) mod ?m, full := int (nsend (fl @ ws)) + 1 = ?m,
    ctx_mem := mem_write (ctx_mem c) (slot c ?h) ?bs, zfreed := zfreed c @ [rq_src r],
    pending_send_msg := pending_send_msg c + 1, pending_msg := pending_msg c + 1\<rparr>"
  define w where "w = \<lparr>sw_op = IBV_WR_SEND, sw_id = -1, sw_addr = slot c ?h, sw_length = rq_len r, sw_num_sge = 1, sw_remote = 0, sw_imm = 0,
                sw_signaled = False, sw_inline = False, sw_data = []\<rparr>"
  have e: "batch_entry c r = Some (w, c1)"
    using True l(1) GetFreeSlot_run(1) [OF R(1) p] by (simp add: batch_entry_def zfree_def memcpy_def w_def c1_def)
  have w: "is_send w" "sw_addr w = slot c ?h" "\<not> sw_signaled w" "sw_length w = rq_len r" "sw_num_sge w = 1" by (simp_all add: w_def is_send_def)
  have m: "ctx_mem c1 = mem_write (ctx_mem c) (slot c ?h) ?bs" by (simp add: c1_def)
  have ap: "\<forall>v \<in> set (sends (fl @ ws)). apart (slot c ?h) (length ?bs) (sw_addr v) 1024"
    using head_apart [OF R(1) p] l(2) by (auto intro: apart_mono [of _ 1024 _ 1024])
  have "data_of c1 w = ?bs" using l mem_read_write [of ?bs "ctx_mem c" "slot c ?h"] by (simp add: data_of_def m w)
  then have "entry_ok c1 w [parcel_of (ctx_mem c) r]"
    using True w l by (auto simp: entry_ok_def carries_def parcel_of_def MAX_REQUEST_SIZE_def intro!: exI [of _ "[?bs]"])
  moreover have "list_all2 (entry_ok c1) ws gs" by (rule entries_write [OF R(4) _ m]) (use ap in auto)
  moreover have "held c1 fl" by (rule held_write [OF R(3) _ m]) (use ap in auto)
  moreover have "ring_ok c1 ((fl @ ws) @ [w])" by (rule ring_push_send [OF R(1) p w(1,2)]) (simp add: ring_fields_def c1_def)
  moreover have "sig_ok c1 ((fl @ ws) @ [w])" using R(5) w(3) by (intro sig_push) (auto simp: c1_def intro: sig_ok_cong)
  moreover have "queue_ok c1" using R(2) by (rule queue_ok_cong) (simp_all add: c1_def)
  ultimately have "batch_inv c1 fl (ws @ [w]) (gs @ [[parcel_of (ctx_mem c) r]])" by (simp add: batch_inv_def list_all2_appendI)
  moreover have "items_waiting c1 = items_waiting c"
    using parcel_of_slot_write [OF R(1,2) h, of 0 ?bs] l(2) m by (simp add: items_waiting_def c1_def)
  ultimately show ?thesis using e w q True by (auto simp: static_def c1_def)
qed

lemma ring_replace: "ring_ok c (fl @ us @ [w]) \<Longrightarrow> is_send w' = is_send w \<Longrightarrow> sw_addr w' = sw_addr w \<Longrightarrow> ring_ok c (fl @ us @ [w'])"
  by (simp add: ring_ok_def Let_def split: if_splits)

lemma sig_replace: "sig_ok c (fl @ us @ [w]) \<Longrightarrow> is_send w' = is_send w \<Longrightarrow> sw_signaled w' = sw_signaled w \<Longrightarrow> sw_id w' = sw_id w \<Longrightarrow>
    sig_ok c (fl @ us @ [w'])"
  by (simp add: sig_ok_def marks_append tally_next_def tally_def split: if_splits)

lemma last_send_slot:
  assumes "ring_ok c (fl @ [w])" "is_send w"
  shows "\<exists>i. 0 \<le> i \<and> i < max_pending_msg c \<and> sw_addr w = slot c i"
proof -
  have "0 < max_pending_msg c" using assms(1) by (auto simp: ring_ok_def Let_def)
  moreover have "sw_addr w = slot c ((slot_tail c + int (nsend fl)) mod max_pending_msg c)"
    using send_addr [OF assms(1), of "nsend fl"] assms(2) by (simp add: nth_append)
  ultimately show ?thesis by (intro exI [of _ "(slot_tail c + int (nsend fl)) mod max_pending_msg c"]) (simp add: pos_mod_bound)
qed

lemma merge_step:
  assumes J: "batch_inv c fl (us @ [w]) (hs @ [g])" and m: "can_merge (us @ [w]) (sw_length w) r" and q: "pending_requests c = r # rs"
  shows "\<exists>w' c'. merge_message c w (sw_length w) r = (w', c') \<and> batch_inv c' fl (us @ [w']) (hs @ [g @ [parcel_of (ctx_mem c) r]]) \<and>
    items_waiting c' = items_waiting c \<and> static c' = static c \<and> pending_requests c' = r # rs \<and> is_send w' \<and>
    sw_length w' = sw_length w + (1 + rq_len r) \<and> rest (0, 0) (fl @ us @ [w']) = rest (0, 0) (fl @ us @ [w])"
proof -
  let ?bs = "mem_read (ctx_mem c) (rq_src r) (rq_len r)" and ?k = "sw_length w" and ?a = "sw_addr w"
  have R: "ring_ok c ((fl @ us) @ [w])" "queue_ok c" "held c fl" "list_all2 (entry_ok c) us hs" "entry_ok c w g" "sig_ok c (fl @ us @ [w])"
    using J list_all2_lengthD [of "entry_ok c" "us @ [w]" "hs @ [g]"] by (auto simp: batch_inv_def list_all2_append)
  have C: "is_send w" "rq_op r = IBV_WR_SEND" "?k + (1 + rq_len r) < 1024"
    using m by (auto simp: can_merge_def is_send_def MAX_REQUEST_SIZE_def)
  obtain i where i: "0 \<le> i" "i < max_pending_msg c" "?a = slot c i" using last_send_slot [OF R(1) C(1)] by blast
  have q1: "apart (rq_src r) (rq_len r) (send_buf c) (send_size c)" using R(2) q C(2) by (simp add: queue_ok_def)
  have "apart (?a + of_nat ?k) (length [0 :: u8]) (rq_src r) (rq_len r)"
    using slot_in_buffer [OF R(1) i(1,2) q1, of ?k 1] C(3) apart_sym i(3) by simp
  then have src: "mem_read (mem_write (ctx_mem c) (?a + of_nat ?k) [0]) (rq_src r) (rq_len r) = ?bs" by (rule mem_read_write_apart)
  have m': "memcpy ((ctx_mem c)(?a + of_nat ?k := 0)) (?a + of_nat (?k + 1)) (rq_src r) (rq_len r) = mem_write (ctx_mem c) (?a + of_nat ?k) (0 # ?bs)"
  proof -
    have a: "?a + of_nat (?k + 1) = ?a + of_nat ?k + of_nat (length [0 :: u8])" by simp
    show ?thesis unfolding memcpy_def upd_mem_write src a using mem_write_append [of "[0]" ?bs "ctx_mem c" "?a + of_nat ?k"] C(3) by simp
  qed
  let ?w = "w\<lparr>sw_length := ?k + (1 + rq_len r)\<rparr>"
  let ?c = "zfree (c\<lparr>ctx_mem := mem_write (ctx_mem c) (?a + of_nat ?k) (0 # ?bs)\<rparr>) (rq_src r)"
  have e: "merge_message c w ?k r = (?w, ?c)" using m' by (simp add: merge_message_def)
  have mem: "ctx_mem ?c = mem_write (ctx_mem c) (?a + of_nat ?k) (0 # ?bs)" by (simp add: zfree_def)
  have same: "is_send ?w = is_send w" "sw_addr ?w = ?a" "sw_signaled ?w = sw_signaled w" "sw_id ?w = sw_id w" "sw_num_sge ?w = sw_num_sge w" by (simp_all add: is_send_def)
  have ap: "\<forall>v \<in> set (sends (fl @ us)). apart (?a + of_nat ?k) (length (0 # ?bs)) (sw_addr v) 1024"
  proof
    fix v assume "v \<in> set (sends (fl @ us))"
    then have "apart (sw_addr v) 1024 ?a 1024" using last_apart [OF R(1) C(1)] apart_sym by blast
    then show "apart (?a + of_nat ?k) (length (0 # ?bs)) (sw_addr v) 1024" using apart_within [of _ _ ?a 1024 ?k "length (0 # ?bs)"] C(3) apart_sym by simp
  qed
  obtain ms where ms: "ms \<noteq> []" "g = map Message ms" "data_of c w = join0 ms" "sw_num_sge w \<noteq> 0" using R(5) C(1) by (auto simp: entry_ok_def carries_def)
  have "data_of ?c ?w = data_of c w @ 0 # ?bs"
    using mem_read_write_behind [of ?k "0 # ?bs" "ctx_mem c" ?a] C(3) by (simp add: data_of_def mem)
  then have "data_of ?c ?w = join0 (ms @ [?bs])" using ms(1,3) by (simp add: join0_snoc)
  moreover have "length (data_of ?c ?w) = ?k + (1 + rq_len r)" by (simp add: data_of_def)
  ultimately have "entry_ok ?c ?w (g @ [parcel_of (ctx_mem c) r])"
    using ms C same by (auto simp: entry_ok_def carries_def parcel_of_def MAX_REQUEST_SIZE_def intro!: exI [of _ "ms @ [?bs]"])
  moreover have "list_all2 (entry_ok ?c) us hs" by (rule entries_write [OF R(4) _ mem]) (use ap in auto)
  moreover have "held ?c fl" by (rule held_write [OF R(3) _ mem]) (use ap in auto)
  moreover have "ring_ok ?c (fl @ us @ [?w])"
    by (rule ring_replace [OF _ same(1,2)], rule ring_ok_cong [of _ c]) (use R(1) in \<open>simp_all add: ring_fields_def zfree_def\<close>)
  moreover have "sig_ok ?c (fl @ us @ [?w])"
    by (rule sig_replace [OF _ same(1,3,4)], rule sig_ok_cong [OF R(6)]) (simp_all add: zfree_def)
  moreover have "queue_ok ?c" using R(2) by (rule queue_ok_cong) (simp_all add: zfree_def)
  ultimately have "batch_inv ?c fl (us @ [?w]) (hs @ [g @ [parcel_of (ctx_mem c) r]])" by (simp add: batch_inv_def list_all2_appendI)
  moreover have "items_waiting ?c = items_waiting c"
    using parcel_of_slot_write [OF R(1,2) i(1,2), of ?k "0 # ?bs"] C(3) i(3) by (simp add: items_waiting_def zfree_def)
  moreover have "rest (0, 0) (fl @ us @ [?w]) = rest (0, 0) (fl @ us @ [w])" using same by (simp add: tally_next_def tally_def)
  ultimately show ?thesis using e q C(1) same(1) by (auto simp: static_def zfree_def)
qed

lemma batch_signal:
  assumes J: "batch_inv c fl (us @ [w]) gs" and w: "\<not> sw_signaled w"
    and "int (fst (rest (0, 0) (fl @ us @ [w])) + snd (rest (0, 0) (fl @ us @ [w]))) \<le> max_unsignaled_msg c"
  shows "signal_now c b \<Longrightarrow> batch_inv (count_signaled c) fl (us @ [signal_wr c i w]) gs \<and> unsignaled_few (count_signaled c) (fl @ us @ [signal_wr c i w])"
    and "\<not> signal_now c b \<Longrightarrow> unsignaled_few c (fl @ us @ [w])"
proof -
  have e: "entry_ok (count_signaled c) = entry_ok c" "entry_ok c (signal_wr c i w) = entry_ok c w"
    by (auto simp: fun_eq_iff entry_ok_def carries_def data_of_def count_signaled_def signal_wr_def is_send_def)
  have "batch_inv (count_signaled c) fl (us @ [signal_wr c i w]) gs" if "ring_ok (count_signaled c) ((fl @ us) @ [signal_wr c i w])" "sig_ok (count_signaled c) ((fl @ us) @ [signal_wr c i w])"
    using that J e by (auto simp: batch_inv_def queue_ok_def held_def count_signaled_def list_all2_append1 list_all2_Cons1)
  then show "signal_now c b \<Longrightarrow> batch_inv (count_signaled c) fl (us @ [signal_wr c i w]) gs \<and> unsignaled_few (count_signaled c) (fl @ us @ [signal_wr c i w])"
    using signal_step(1) [of c "fl @ us" w b i] assms by (simp add: batch_inv_def)
  show "\<not> signal_now c b \<Longrightarrow> unsignaled_few c (fl @ us @ [w])"
    using signal_step(2) [of c "fl @ us" w b] assms by (simp add: batch_inv_def)
qed

lemma batch_pop:
  assumes "batch_inv c fl ws gs" "pending_requests c = r # rs"
  shows "batch_inv (c\<lparr>pending_requests := rs\<rparr>) fl ws gs" "items_waiting c = parcel_of (ctx_mem c) r # items_waiting (c\<lparr>pending_requests := rs\<rparr>)"
proof -
  have "entry_ok (c\<lparr>pending_requests := rs\<rparr>) = entry_ok c" by (auto simp: fun_eq_iff entry_ok_def data_of_def)
  then show "batch_inv (c\<lparr>pending_requests := rs\<rparr>) fl ws gs"
    using assms by (auto simp: batch_inv_def queue_ok_def held_def sig_ok_def intro: ring_ok_cong [of _ c] simp: ring_fields_def)
  show "items_waiting c = parcel_of (ctx_mem c) r # items_waiting (c\<lparr>pending_requests := rs\<rparr>)" using assms(2) by (simp add: items_waiting_def)
qed

definition batch_pos :: "send_wr list \<Rightarrow> nat \<Rightarrow> bool" where
  "batch_pos ws pos \<longleftrightarrow> (ws \<noteq> [] \<and> is_send (last ws) \<longrightarrow> pos = sw_length (last ws))"

text \<open>One turn of the loop: the first request waiting joins the batch.\<close>

lemma batch_turn:
  assumes J: "batch_inv c fl ws gs" "unsignaled_few c (fl @ ws)" and q: "pending_requests c = r # rs" and n: "length ws \<le> n" "int (length fl + n) \<le> max_pending_msg c"
    and p: "batch_pos ws pos" and go: "can_merge ws pos r \<or> length ws \<noteq> n"
  shows "\<exists>ws' gs' pos' c'. batch_loop n (Suc k) c ws pos = batch_loop n k c' ws' pos' \<and> batch_inv c' fl ws' gs' \<and> unsignaled_few c' (fl @ ws') \<and>
    pending_requests c' = rs \<and> static c' = static c \<and> concat gs' @ items_waiting c' = concat gs @ items_waiting c \<and>
    length ws' \<le> n \<and> ws' \<noteq> [] \<and> batch_pos ws' pos'"
proof -
  have op: "rq_op r \<noteq> IBV_WR_ATOMIC_CMP_AND_SWP" using J(1) q by (simp add: batch_inv_def queue_ok_def)
  show ?thesis
  proof (cases "can_merge ws pos r")
    case True
    then obtain us w where u: "ws = us @ [w]" by (cases ws rule: rev_cases) (auto simp: can_merge_def)
    obtain hs g where g: "gs = hs @ [g]" using J(1) u by (cases gs rule: rev_cases) (auto simp: batch_inv_def)
    have pos: "pos = sw_length w" "\<not> rq_signaled r" using True p u by (auto simp: can_merge_def batch_pos_def is_send_def)
    obtain w' c' where c': "merge_message c w pos r = (w', c')" "batch_inv c' fl (us @ [w']) (hs @ [g @ [parcel_of (ctx_mem c) r]])"
      "items_waiting c' = items_waiting c" "static c' = static c" "pending_requests c' = r # rs" "is_send w'" "sw_length w' = pos + (1 + rq_len r)"
      "rest (0, 0) (fl @ us @ [w']) = rest (0, 0) (fl @ us @ [w])"
      using merge_step [of c fl us w hs g r rs] J(1) True q u g pos(1) by auto
    have few: "unsignaled_few c' (fl @ us @ [w'])" using J(2) c'(4,8) u by (simp add: unsignaled_few_def static_def)
    then have "\<not> signal_now c' (rq_signaled r)" using no_signal [of c' "fl @ us @ [w']"] c'(2) pos(2) by (simp add: batch_inv_def)
    then have "batch_loop n (Suc k) c ws pos = batch_loop n k (c'\<lparr>pending_requests := rs\<rparr>) (us @ [w']) (pos + (1 + rq_len r))"
      using True q u c'(1) op by simp
    moreover have "concat (hs @ [g @ [parcel_of (ctx_mem c) r]]) @ items_waiting (c'\<lparr>pending_requests := rs\<rparr>) = concat gs @ items_waiting c"
      using batch_pop(2) [OF c'(2,5)] batch_pop(2) [OF J(1) q] c'(3) g by simp
    ultimately show ?thesis using batch_pop(1) [OF c'(2,5)] few c'(4,6,7) n u
      by (intro exI [of _ "us @ [w']"] exI [of _ "hs @ [g @ [parcel_of (ctx_mem c) r]]"] exI [of _ "pos + (1 + rq_len r)"] exI [of _ "c'\<lparr>pending_requests := rs\<rparr>"])
        (simp add: static_def unsignaled_few_def batch_pos_def)
  next
    case False
    have l: "length ws < n" using go n(1) False by simp
    then have "pending_msg c < max_pending_msg c" using J(1) n(2) by (auto simp: batch_inv_def ring_ok_def Let_def)
    then obtain w c' where c': "batch_entry c r = Some (w, c')" "\<not> sw_signaled w" "batch_inv c' fl (ws @ [w]) (gs @ [[parcel_of (ctx_mem c) r]])"
      "items_waiting c' = items_waiting c" "static c' = static c" "pending_requests c' = r # rs" "is_send w \<longleftrightarrow> rq_op r = IBV_WR_SEND" "is_send w \<longrightarrow> sw_length w = rq_len r"
      using entry_step [OF J(1) _ q] by blast
    have sum: "int (fst (rest (0, 0) (fl @ ws @ [w])) + snd (rest (0, 0) (fl @ ws @ [w]))) \<le> max_unsignaled_msg c'"
      using few_push [OF J(2) c'(2)] c'(5) by (simp add: static_def)
    define w' where "w' = (if signal_now c' (rq_signaled r) then signal_wr c' (rq_id r) w else w)"
    define c'' where "c'' = (if signal_now c' (rq_signaled r) then count_signaled c' else c')"
    have S: "batch_inv c'' fl (ws @ [w']) (gs @ [[parcel_of (ctx_mem c) r]])" "unsignaled_few c'' (fl @ ws @ [w'])"
      using batch_signal(1) [OF c'(3,2) sum, of "rq_signaled r" "rq_id r"] batch_signal(2) [OF c'(3,2) sum, of "rq_signaled r"] c'(3) by (auto simp: w'_def c''_def)
    have s: "static c'' = static c'" "pending_requests c'' = pending_requests c'" "items_waiting c'' = items_waiting c'" "is_send w' = is_send w" "sw_length w' = sw_length w"
      by (simp_all add: c''_def w'_def static_def count_signaled_def items_waiting_def signal_wr_def is_send_def)
    have q': "pending_requests c'' = r # rs" using s c'(6) by simp
    have "batch_loop n (Suc k) c ws pos = batch_loop n k (c''\<lparr>pending_requests := rs\<rparr>) (ws @ [w']) (if rq_op r = IBV_WR_SEND then rq_len r else 0)"
      using False q l c'(1) op by (simp add: w'_def c''_def)
    moreover have "concat (gs @ [[parcel_of (ctx_mem c) r]]) @ items_waiting (c''\<lparr>pending_requests := rs\<rparr>) = concat gs @ items_waiting c"
      using batch_pop(2) [OF S(1) q'] batch_pop(2) [OF J(1) q] c'(4) s(3) by simp
    ultimately show ?thesis using batch_pop(1) [OF S(1) q'] S(2) c'(5,7,8) s l
      by (intro exI [of _ "ws @ [w']"] exI [of _ "gs @ [[parcel_of (ctx_mem c) r]]"] exI [of _ "if rq_op r = IBV_WR_SEND then rq_len r else 0"] exI [of _ "c''\<lparr>pending_requests := rs\<rparr>"])
        (auto simp: static_def unsignaled_few_def batch_pos_def)
  qed
qed

lemma batch_loop_ok:
  assumes "batch_inv c fl ws gs" "unsignaled_few c (fl @ ws)" "length (pending_requests c) = k" "length ws \<le> n" "int (length fl + n) \<le> max_pending_msg c" "batch_pos ws pos"
  shows "\<exists>ws' gs' c'. batch_loop n k c ws pos = Some (ws', c') \<and> batch_inv c' fl ws' gs' \<and> unsignaled_few c' (fl @ ws') \<and> static c' = static c \<and>
    concat gs' @ items_waiting c' = concat gs @ items_waiting c \<and> (pending_requests c' = [] \<or> length ws' = n) \<and> (ws \<noteq> [] \<or> 0 < k \<and> 0 < n \<longrightarrow> ws' \<noteq> [])"
  using assms
proof (induction k arbitrary: c ws gs pos)
  case 0
  then show ?case by (intro exI [of _ ws] exI [of _ gs] exI [of _ c]) simp
next
  case (Suc k)
  obtain r rs where q: "pending_requests c = r # rs" using Suc.prems(3) by (cases "pending_requests c") auto
  show ?case
  proof (cases "can_merge ws pos r \<or> length ws \<noteq> n")
    case True
    obtain ws1 gs1 pos1 c1 where t: "batch_loop n (Suc k) c ws pos = batch_loop n k c1 ws1 pos1" "batch_inv c1 fl ws1 gs1" "unsignaled_few c1 (fl @ ws1)"
      "pending_requests c1 = rs" "static c1 = static c" "concat gs1 @ items_waiting c1 = concat gs @ items_waiting c" "length ws1 \<le> n" "ws1 \<noteq> []" "batch_pos ws1 pos1"
      using batch_turn [OF Suc.prems(1,2) q Suc.prems(4-6) True, of k] by blast
    have "length (pending_requests c1) = k" "max_pending_msg c1 = max_pending_msg c" using t(4,5) Suc.prems(3) q by (simp_all add: static_def)
    then show ?thesis using Suc.IH [OF t(2,3) _ t(7) _ t(9)] Suc.prems(5) t(1,5,6,8) by auto
  next
    case False
    have "rq_op r \<noteq> IBV_WR_ATOMIC_CMP_AND_SWP" using Suc.prems(1) q by (simp add: batch_inv_def queue_ok_def)
    then have "batch_loop n (Suc k) c ws pos = Some (ws, c)" using False q by simp
    then show ?thesis using Suc.prems False by (intro exI [of _ ws] exI [of _ gs] exI [of _ c]) auto
  qed
qed

section \<open>Posted requests\<close>

definition chan_ok :: "RdmaContext \<Rightarrow> send_wr list \<Rightarrow> bool" where
  "chan_ok c fl \<longleftrightarrow> ring_ok c fl \<and> sig_ok c fl \<and> unsignaled_few c fl \<and> queue_ok c \<and> held c fl \<and>
     (pending_requests c \<noteq> [] \<longrightarrow> pending_msg c = max_pending_msg c) \<and> (\<forall>t. post_limit c t = None)"

definition same_marks :: "(send_wr \<Rightarrow> send_wr) \<Rightarrow> bool" where
  "same_marks f \<longleftrightarrow> (\<forall>w. is_send (f w) = is_send w \<and> sw_addr (f w) = sw_addr w \<and> sw_signaled (f w) = sw_signaled w \<and> sw_id (f w) = sw_id w)"

lemma sends_map: "same_marks f \<Longrightarrow> sends (map f ws) = map f (sends ws)"
  by (induction ws) (auto simp: same_marks_def)

lemma rest_map: "same_marks f \<Longrightarrow> rest x (map f ws) = rest x ws"
  by (induction ws arbitrary: x) (auto simp: same_marks_def tally_next_def tally_def)

lemma marks_map: "same_marks f \<Longrightarrow> marks_ok x (map f ws) = marks_ok x ws"
  by (induction ws arbitrary: x) (auto simp: same_marks_def tally_next_def tally_def)

lemma ok_map:
  assumes "same_marks f"
  shows "ring_ok c (fl @ map f ws) = ring_ok c (fl @ ws)" "sig_ok c (fl @ map f ws) = sig_ok c (fl @ ws)" "unsignaled_few c (fl @ map f ws) = unsignaled_few c (fl @ ws)"
  using assms sends_map [OF assms, of ws] rest_map [OF assms] marks_map [OF assms]
  by (simp_all add: ring_ok_def sig_ok_def unsignaled_few_def Let_def marks_append same_marks_def o_def)

text \<open>Posting a batch: the device has its bytes, and they stay in the slots.\<close>

lemma post_ok:
  assumes J: "batch_inv c fl ws gs" "unsignaled_few c (fl @ ws)" and l: "\<forall>t. post_limit c t = None"
    and p: "pending_requests c \<noteq> [] \<longrightarrow> pending_msg c = max_pending_msg c" and f: "same_marks f" "\<And>w. sw_length (f w) = sw_length w \<and> sw_num_sge (f w) = sw_num_sge w"
      "\<And>w. sw_op (f w) = sw_op w \<and> sw_remote (f w) = sw_remote w \<and> sw_imm (f w) = sw_imm w"
  shows "\<exists>vs c'. ibv_post_send c (map f ws) = (True, c') \<and> posted c' = posted c @ vs \<and> chan_ok c' (fl @ vs) \<and>
    list_all2 (\<lambda>w g. carries w (sw_data w) g) vs gs \<and> items_waiting c' = items_waiting c \<and> pending_requests c' = pending_requests c \<and>
    pending_msg c' = pending_msg c \<and> send_buf c' = send_buf c \<and> send_size c' = send_size c"
proof -
  let ?h = "\<lambda>w. (f w)\<lparr>sw_data := if sw_num_sge (f w) = 0 then [] else data_of c (f w)\<rparr>"
  let ?c = "c\<lparr>posted := posted c @ map ?h ws, posts := Suc (posts c)\<rparr>"
  have e: "ibv_post_send c (map f ws) = (True, ?c)" using l by (simp add: ibv_post_send_def data_of_def Let_def o_def)
  have h: "same_marks ?h" using f(1) by (auto simp: same_marks_def is_send_def)
  have a: "sw_addr (f w) = sw_addr w" "is_send (f w) = is_send w" for w using f(1) by (auto simp: same_marks_def)
  have E: "list_all2 (entry_ok c) ws gs" using J(1) by (simp add: batch_inv_def)
  have d: "sw_data (?h w) = data_of c w" "is_send (?h w)" if "entry_ok c w g" "is_send w" for w g
    using that f(2) a by (simp_all add: entry_ok_def data_of_def is_send_def)
  have "carries (?h w) (sw_data (?h w)) g" if "entry_ok c w g" for w g
    using that d [OF that] a f(2,3) by (auto simp: entry_ok_def carries_def is_send_def split: if_splits)
  then have "list_all2 (\<lambda>w g. carries w (sw_data w) g) (map ?h ws) gs" using E by (auto simp: list_all2_conv_all_nth)
  moreover have "held ?c (fl @ map ?h ws)"
  proof -
    have "sw_length (?h w) \<le> MAX_REQUEST_SIZE \<and> mem_read (ctx_mem c) (sw_addr (?h w)) (sw_length (?h w)) = sw_data (?h w)" if ws: "w \<in> set ws" "is_send w" for w
    proof -
      obtain g where g: "entry_ok c w g" using list_all2_in_set1 [OF E ws(1)] by blast
      then show ?thesis using d(1) [OF g ws(2)] ws(2) a f(2) by (auto simp: entry_ok_def carries_def data_of_def)
    qed
    then show ?thesis using J(1) sends_map [OF h, of ws] by (auto simp: held_def batch_inv_def sends_def)
  qed
  moreover have "ring_ok ?c (fl @ map ?h ws)" unfolding ok_map(1) [OF h] using J(1) by (auto simp: batch_inv_def ring_fields_def intro: ring_ok_cong [of ?c c])
  moreover have "sig_ok ?c (fl @ map ?h ws)" "unsignaled_few ?c (fl @ map ?h ws)"
    unfolding ok_map(2,3) [OF h] using J by (auto simp: batch_inv_def unsignaled_few_def intro: sig_ok_cong)
  ultimately show ?thesis using e J(1) l p by (auto simp: chan_ok_def batch_inv_def queue_ok_def items_waiting_def)
qed

lemma ProcessPendingRequests_ok:
  assumes c: "ring_ok c fl" "sig_ok c fl" "unsignaled_few c fl" "queue_ok c" "held c fl" "\<forall>t. post_limit c t = None"
    and n: "0 < n" "int (length fl + n) \<le> max_pending_msg c" and full: "pending_requests c \<noteq> [] \<longrightarrow> int (length fl + n) = max_pending_msg c"
  shows "\<exists>c' vs gs. ProcessPendingRequests c n = Some c' \<and> posted c' = posted c @ vs \<and> chan_ok c' (fl @ vs) \<and>
    list_all2 (\<lambda>w g. carries w (sw_data w) g) vs gs \<and> concat gs @ items_waiting c' = items_waiting c \<and> send_buf c' = send_buf c \<and> send_size c' = send_size c"
proof (cases "pending_requests c = []")
  case True
  then show ?thesis using c by (intro exI [of _ c] exI [of _ "[]"]) (simp add: ProcessPendingRequests_def chan_ok_def)
next
  case False
  let ?k = "length (pending_requests c)"
  have J: "batch_inv c fl [] []" using c by (simp add: batch_inv_def)
  obtain ws gs c1 where B: "batch_loop n ?k c [] 0 = Some (ws, c1)" "batch_inv c1 fl ws gs" "unsignaled_few c1 (fl @ ws)" "static c1 = static c"
    "concat gs @ items_waiting c1 = items_waiting c" "pending_requests c1 = [] \<or> length ws = n" "ws \<noteq> []"
    using batch_loop_ok [OF J, of ?k n 0] c(3) n False by (auto simp: batch_pos_def)
  have s: "max_pending_msg c1 = max_pending_msg c" "posted c1 = posted c" "post_limit c1 = post_limit c" "send_buf c1 = send_buf c" "send_size c1 = send_size c"
    using B(4) by (simp_all add: static_def)
  have p: "pending_requests c1 \<noteq> [] \<longrightarrow> pending_msg c1 = max_pending_msg c1"
    using B(2,6) full False s(1) by (auto simp: batch_inv_def ring_ok_def Let_def)
  have f: "same_marks (mark_inline c1)" "sw_length (mark_inline c1 w) = sw_length w \<and> sw_num_sge (mark_inline c1 w) = sw_num_sge w"
    "sw_op (mark_inline c1 w) = sw_op w \<and> sw_remote (mark_inline c1 w) = sw_remote w \<and> sw_imm (mark_inline c1 w) = sw_imm w" for w
    by (simp_all add: same_marks_def mark_inline_def is_send_def)
  obtain vs c' where P: "ibv_post_send c1 (map (mark_inline c1) ws) = (True, c')" "posted c' = posted c1 @ vs" "chan_ok c' (fl @ vs)"
    "list_all2 (\<lambda>w g. carries w (sw_data w) g) vs gs" "items_waiting c' = items_waiting c1" "send_buf c' = send_buf c1" "send_size c' = send_size c1"
    using post_ok [OF B(2,3) _ p f] c(6) s(3) by auto
  have "ProcessPendingRequests c n = Some c'" using False B(1,7) P(1) by (simp add: ProcessPendingRequests_def)
  then show ?thesis using P B(5) s by (intro exI [of _ c'] exI [of _ vs] exI [of _ gs]) simp
qed

section \<open>The operations\<close>

text \<open>The part of \<^verbatim>\<open>Rdma\<close> behind the choice of the buffer.\<close>

lemma Rdma_posts:
  assumes p: "pending_msg c < max_pending_msg c" "rq_op r \<noteq> IBV_WR_ATOMIC_CMP_AND_SWP" and b: "rdma_buffer c r = Some (addr, remote, c1)"
    and w: "w = \<lparr>sw_op = rq_op r, sw_id = -1, sw_addr = addr, sw_length = rq_len r, sw_num_sge = (if rq_len r = 0 then 0 else 1), sw_remote = remote,
        sw_imm = (if rq_op r = IBV_WR_RDMA_WRITE_WITH_IMM then htonl (rq_imm r) else 0),
        sw_signaled = False, sw_inline = (rq_len r \<le> MAX_RDMA_INLINE_SIZE c1), sw_data = []\<rparr>"
    and c2: "c2 = c1\<lparr>pending_msg := pending_msg c1 + 1\<rparr>" and J: "batch_inv c2 fl [w] [[x]]" and f: "unsignaled_few c2 fl"
    and l: "\<forall>t. post_limit c2 t = None" and q: "pending_requests c2 = []"
  shows "\<exists>ret c' vs. Rdma c r = Some (ret, c') \<and> posted c' = posted c2 @ vs \<and> chan_ok c' (fl @ vs) \<and>
    list_all2 (\<lambda>w g. carries w (sw_data w) g) vs [[x]] \<and> pending_requests c' = [] \<and> send_buf c' = send_buf c2 \<and> send_size c' = send_size c2"
proof -
  have ns: "\<not> sw_signaled w" by (simp add: w)
  define w' where "w' = (if signal_now c2 (rq_signaled r) then signal_wr c2 (rq_id r) w else w)"
  define c3 where "c3 = (if signal_now c2 (rq_signaled r) then count_signaled c2 else c2)"
  have J': "batch_inv c2 fl ([] @ [w]) [[x]]" using J by simp
  have sum: "int (fst (rest (0, 0) (fl @ [] @ [w])) + snd (rest (0, 0) (fl @ [] @ [w]))) \<le> max_unsignaled_msg c2" using few_push [OF f ns] by simp
  have S: "batch_inv c3 fl [w'] [[x]]" "unsignaled_few c3 (fl @ [w'])"
    using batch_signal(1) [OF J' ns sum, of "rq_signaled r" "rq_id r"] batch_signal(2) [OF J' ns sum, of "rq_signaled r"] J by (auto simp: w'_def c3_def)
  have s: "pending_requests c3 = []" "post_limit c3 = post_limit c2" "posted c3 = posted c2" "send_buf c3 = send_buf c2" "send_size c3 = send_size c2"
    using q by (simp_all add: c3_def count_signaled_def)
  obtain vs c' where P: "ibv_post_send c3 (map id [w']) = (True, c')" "posted c' = posted c3 @ vs" "chan_ok c' (fl @ vs)"
    "list_all2 (\<lambda>w g. carries w (sw_data w) g) vs [[x]]" "pending_requests c' = pending_requests c3" "send_buf c' = send_buf c3" "send_size c' = send_size c3"
    using post_ok [OF S, of id] l s(1,2) by (auto simp: same_marks_def)
  define c'' where "c'' = (if rq_op r = IBV_WR_SEND \<and> \<not> IsRegistered c' addr then zfree c' addr else c')"
  have "Rdma c r = Some (int (rq_len r), c'')" using p b P(1)
    by (cases "signal_now c2 (rq_signaled r)") (simp_all add: Rdma_def w [symmetric] c2 [symmetric] w'_def c3_def c''_def)
  moreover have "chan_ok c'' (fl @ vs)"
  proof -
    have "ring_fields c'' = ring_fields c'" by (simp add: c''_def zfree_def ring_fields_def)
    then show ?thesis using P(3) ring_ok_cong [of c'' c'] by (auto simp: chan_ok_def c''_def zfree_def sig_ok_def unsignaled_few_def queue_ok_def held_def)
  qed
  ultimately show ?thesis using P s by (intro exI [of _ "int (rq_len r)"] exI [of _ c''] exI [of _ vs]) (simp add: c''_def zfree_def)
qed

text \<open>A buffer for a message that has to wait: outside of the ring and of the buffers in use.\<close>

definition fresh_buffer :: "RdmaContext \<Rightarrow> ptr \<Rightarrow> nat \<Rightarrow> bool" where
  "fresh_buffer c q n \<longleftrightarrow> apart q n (send_buf c) (send_size c) \<and>
     (\<forall>r \<in> set (pending_requests c). rq_op r = IBV_WR_SEND \<longrightarrow> apart q n (rq_src r) (rq_len r))"

lemma submit_ok:
  assumes c: "chan_ok c fl" and bs: "bs \<noteq> []" "length bs \<le> MAX_REQUEST_SIZE" and fr: "fresh_buffer c q (length bs)"
  shows "\<exists>ret c' vs gs. submit_message c bs q = Some (ret, c') \<and> posted c' = posted c @ vs \<and> chan_ok c' (fl @ vs) \<and>
    list_all2 (\<lambda>w g. carries w (sw_data w) g) vs gs \<and> concat gs @ items_waiting c' = items_waiting c @ [Message bs] \<and>
    send_buf c' = send_buf c \<and> send_size c' = send_size c"
proof -
  let ?m = "max_pending_msg c" and ?h = "slot_head c"
  have R: "ring_ok c fl" "sig_ok c fl" "unsignaled_few c fl" "queue_ok c" "held c fl" "\<forall>t. post_limit c t = None"
    "pending_requests c \<noteq> [] \<longrightarrow> pending_msg c = ?m" using c by (simp_all add: chan_ok_def)
  have len: "length bs \<le> 1024" using bs(2) by (simp add: MAX_REQUEST_SIZE_def)
  show ?thesis
  proof (cases "pending_msg c < ?m")
    case True
    have q: "pending_requests c = []" using R(7) True by auto
    have h: "0 \<le> ?h" "?h < ?m" using R(1) by (auto simp: ring_ok_def Let_def pos_mod_bound)
    let ?M = "mem_write (ctx_mem c) (slot c ?h) bs"
    define c0 where "c0 = c\<lparr>slot_head := (?h + 1) mod ?m, full := int (nsend fl) + 1 = ?m, ctx_mem := ?M\<rparr>"
    define c1 where "c1 = c0\<lparr>pending_send_msg := pending_send_msg c + 1\<rparr>"
    define c2 where "c2 = c1\<lparr>pending_msg := pending_msg c1 + 1\<rparr>"
    let ?r = "new_RdmaRequest IBV_WR_SEND (slot c ?h) (length bs) 0 False"
    define w where "w = \<lparr>sw_op = rq_op ?r, sw_id = -1, sw_addr = slot c ?h, sw_length = rq_len ?r, sw_num_sge = (if rq_len ?r = 0 then 0 else 1), sw_remote = 0,
        sw_imm = (if rq_op ?r = IBV_WR_RDMA_WRITE_WITH_IMM then htonl (rq_imm ?r) else 0),
        sw_signaled = False, sw_inline = (rq_len ?r \<le> MAX_RDMA_INLINE_SIZE c1), sw_data = []\<rparr>"
    have e: "submit_message c bs q = Rdma c0 ?r" using GetFreeSlot_run(1) [OF R(1) True] by (simp add: submit_message_def rdma_Send_def c0_def Let_def)
    have "IsRegistered c0 (slot c ?h)" using slot_registered [OF R(1) h] by (simp add: IsRegistered_def c0_def)
    then have b: "rdma_buffer c0 ?r = Some (slot c ?h, 0, c1)" by (simp add: rdma_buffer_def new_RdmaRequest_def c1_def c0_def)
    have ww: "is_send w" "sw_addr w = slot c ?h" "\<not> sw_signaled w" "sw_length w = length bs" "sw_num_sge w \<noteq> 0"
      using bs(1) by (simp_all add: w_def is_send_def new_RdmaRequest_def)
    have m: "ctx_mem c2 = ?M" by (simp add: c2_def c1_def c0_def)
    have ap: "\<forall>v \<in> set (sends fl). apart (slot c ?h) (length bs) (sw_addr v) 1024"
      using head_apart [OF R(1) True] len by (auto intro: apart_mono [of _ 1024 _ 1024])
    have "data_of c2 w = bs" using len mem_read_write [of bs "ctx_mem c" "slot c ?h"] by (simp add: data_of_def m ww)
    then have "entry_ok c2 w [Message bs]" using ww bs by (auto simp: entry_ok_def carries_def intro!: exI [of _ "[bs]"])
    moreover have "held c2 fl" by (rule held_write [OF R(5) ap m])
    moreover have "ring_ok c2 (fl @ [w])" by (rule ring_push_send [OF R(1) True ww(1,2)]) (simp add: ring_fields_def c2_def c1_def c0_def)
    moreover have "sig_ok c2 (fl @ [w])" using R(2) ww(3) by (intro sig_push) (auto simp: c2_def c1_def c0_def intro: sig_ok_cong)
    moreover have "queue_ok c2" using q by (simp add: queue_ok_def c2_def c1_def c0_def)
    ultimately have J: "batch_inv c2 fl [w] [[Message bs]]" by (simp add: batch_inv_def)
    have s: "pending_msg c0 < max_pending_msg c0" "rq_op ?r \<noteq> IBV_WR_ATOMIC_CMP_AND_SWP" "unsignaled_few c2 fl" "\<forall>t. post_limit c2 t = None" "pending_requests c2 = []"
      "posted c2 = posted c" "send_buf c2 = send_buf c" "send_size c2 = send_size c"
      using True R(3,6) q by (simp_all add: c2_def c1_def c0_def unsignaled_few_def new_RdmaRequest_def)
    obtain ret c' vs where "Rdma c0 ?r = Some (ret, c')" "posted c' = posted c2 @ vs" "chan_ok c' (fl @ vs)"
      "list_all2 (\<lambda>w g. carries w (sw_data w) g) vs [[Message bs]]" "pending_requests c' = []" "send_buf c' = send_buf c2" "send_size c' = send_size c2"
      using Rdma_posts [OF s(1,2) b w_def c2_def J s(3-5)] by blast
    then show ?thesis using e q s(6-8) by (intro exI [of _ ret] exI [of _ c'] exI [of _ vs] exI [of _ "[[Message bs]]"]) (simp add: items_waiting_def)
  next
    case False
    let ?r = "new_RdmaRequest IBV_WR_SEND q (length bs) 0 False" and ?M = "mem_write (ctx_mem c) q bs"
    let ?c = "c\<lparr>ctx_mem := ?M, pending_requests := pending_requests c @ [?r]\<rparr>"
    have e: "submit_message c bs q = Some (-1, ?c)"
      using False GetFreeSlot_run(2) [OF R(1)] by (simp add: submit_message_def rdma_Send_def Rdma_def Let_def)
    have it: "parcel_of ?M r = parcel_of (ctx_mem c) r" if "r \<in> set (pending_requests c)" for r
      using that fr by (auto simp: parcel_of_def fresh_buffer_def mem_read_write_apart split: ibv_wr_opcode.splits)
    have "mem_read ?M q (length bs) = bs" using len by (simp add: mem_read_write)
    then have "items_waiting ?c = items_waiting c @ [Message bs]" using it by (simp add: items_waiting_def) (simp add: parcel_of_def new_RdmaRequest_def)
    moreover have "queue_ok ?c" using R(4) bs fr by (auto simp: queue_ok_def new_RdmaRequest_def fresh_buffer_def)
    moreover have "held ?c fl"
    proof -
      have "apart q (length bs) (sw_addr w) 1024" if w: "w \<in> set (sends fl)" for w
      proof -
        obtain k where k: "k < nsend fl" "w = sends fl ! k" using w by (metis in_set_conv_nth)
        have "0 < ?m" using R(1) by (auto simp: ring_ok_def Let_def)
        then show ?thesis using slot_in_buffer [OF R(1) _ _ _, of "(slot_tail c + int k) mod ?m" q "length bs" 0 1024] send_addr [OF R(1) k(1)] k(2) fr
          by (simp add: fresh_buffer_def pos_mod_bound)
      qed
      then show ?thesis using held_write [OF R(5), of q bs ?c] by simp
    qed
    moreover have "ring_ok ?c fl" using R(1) by (rule ring_ok_cong [rotated]) (simp add: ring_fields_def)
    moreover have "pending_msg c = ?m" using False R(1) by (simp add: ring_ok_def Let_def)
    ultimately have "chan_ok ?c fl" using R(2,3,6) by (simp add: chan_ok_def sig_ok_def unsignaled_few_def)
    then show ?thesis using e \<open>items_waiting ?c = items_waiting c @ [Message bs]\<close>
      by (intro exI [of _ "-1"] exI [of _ ?c] exI [of _ "[]"]) simp
  qed
qed

lemma transfer_ok:
  assumes c: "chan_ok c fl" and op: "rq_op r \<in> {IBV_WR_RDMA_WRITE, IBV_WR_RDMA_WRITE_WITH_IMM, IBV_WR_RDMA_READ}"
  shows "\<exists>ret c' vs gs. Rdma c r = Some (ret, c') \<and> posted c' = posted c @ vs \<and> chan_ok c' (fl @ vs) \<and>
    list_all2 (\<lambda>w g. carries w (sw_data w) g) vs gs \<and> concat gs @ items_waiting c' = items_waiting c @ [parcel_of (ctx_mem c) r] \<and>
    send_buf c' = send_buf c \<and> send_size c' = send_size c"
proof -
  have R: "ring_ok c fl" "sig_ok c fl" "unsignaled_few c fl" "queue_ok c" "held c fl" "\<forall>t. post_limit c t = None"
    "pending_requests c \<noteq> [] \<longrightarrow> pending_msg c = max_pending_msg c" using c by (simp_all add: chan_ok_def)
  show ?thesis
  proof (cases "pending_msg c < max_pending_msg c")
    case True
    have q: "pending_requests c = []" using R(7) True by auto
    obtain addr remote where b: "rdma_buffer c r = Some (addr, remote, c)" "(addr, remote) = (if rq_op r = IBV_WR_RDMA_READ then (rq_dest r, rq_src r) else (rq_src r, rq_dest r))"
      using op by (auto simp: rdma_buffer_def)
    define c2 where "c2 = c\<lparr>pending_msg := pending_msg c + 1\<rparr>"
    define w where "w = \<lparr>sw_op = rq_op r, sw_id = -1, sw_addr = addr, sw_length = rq_len r, sw_num_sge = (if rq_len r = 0 then 0 else 1), sw_remote = remote,
        sw_imm = (if rq_op r = IBV_WR_RDMA_WRITE_WITH_IMM then htonl (rq_imm r) else 0),
        sw_signaled = False, sw_inline = (rq_len r \<le> MAX_RDMA_INLINE_SIZE c), sw_data = []\<rparr>"
    have w: "\<not> is_send w" "\<not> sw_signaled w" using op by (auto simp: w_def is_send_def)
    have "entry_ok c2 w [parcel_of (ctx_mem c) r]" using op b(2) by (auto simp: entry_ok_def carries_def w_def is_send_def parcel_of_def)
    moreover have "ring_ok c2 (fl @ [w])" by (rule ring_push_other [OF R(1) True w(1)]) (simp add: c2_def)
    moreover have "sig_ok c2 (fl @ [w])" using R(2) w(2) by (intro sig_push) (auto simp: c2_def intro: sig_ok_cong)
    ultimately have J: "batch_inv c2 fl [w] [[parcel_of (ctx_mem c) r]]" using R(5) q by (simp add: batch_inv_def held_def queue_ok_def c2_def)
    have s: "rq_op r \<noteq> IBV_WR_ATOMIC_CMP_AND_SWP" "unsignaled_few c2 fl" "\<forall>t. post_limit c2 t = None" "pending_requests c2 = []"
      "posted c2 = posted c" "send_buf c2 = send_buf c" "send_size c2 = send_size c"
      using op R(3,6) q by (auto simp: c2_def unsignaled_few_def)
    obtain ret c' vs where "Rdma c r = Some (ret, c')" "posted c' = posted c2 @ vs" "chan_ok c' (fl @ vs)"
      "list_all2 (\<lambda>w g. carries w (sw_data w) g) vs [[parcel_of (ctx_mem c) r]]" "pending_requests c' = []" "send_buf c' = send_buf c2" "send_size c' = send_size c2"
      using Rdma_posts [OF True s(1) b(1) w_def c2_def J s(2-4)] by blast
    then show ?thesis using q s(5-7) by (intro exI [of _ ret] exI [of _ c'] exI [of _ vs] exI [of _ "[[parcel_of (ctx_mem c) r]]"]) (simp add: items_waiting_def)
  next
    case False
    let ?c = "c\<lparr>pending_requests := pending_requests c @ [r]\<rparr>"
    have "ring_ok ?c fl" using R(1) by (rule ring_ok_cong [rotated]) (simp add: ring_fields_def)
    moreover have "queue_ok ?c" using R(4) op by (auto simp: queue_ok_def)
    moreover have "pending_msg c = max_pending_msg c" using False R(1) by (simp add: ring_ok_def Let_def)
    ultimately have "chan_ok ?c fl" using R(2,3,5,6) by (simp add: chan_ok_def sig_ok_def unsignaled_few_def held_def)
    moreover have "Rdma c r = Some (-1, ?c)" using False by (simp add: Rdma_def)
    ultimately show ?thesis by (intro exI [of _ "-1"] exI [of _ ?c] exI [of _ "[]"]) (simp add: items_waiting_def)
  qed
qed

text \<open>The requests up to the next signalled one, which its completion stands for.\<close>

lemma rest_unsignaled: "\<forall>w \<in> set us. \<not> sw_signaled w \<Longrightarrow> rest x us = (fst x + nsend us, snd x + (length us - nsend us))"
proof (induction us arbitrary: x)
  case (Cons w us)
  then show ?case using nsend_le [of us] by (auto simp: tally_next_def tally_def)
qed simp

lemma completed_id:
  assumes "marks_ok (0, 0) (us @ [w])" "\<forall>v \<in> set us. \<not> sw_signaled v" "sw_signaled w"
  shows "\<exists>i. sw_id w = signal_id i (of_nat (nsend (us @ [w]))) (of_nat (length (us @ [w]) - nsend (us @ [w])))"
proof -
  have "tally (rest (0, 0) us) w = (nsend (us @ [w]), length (us @ [w]) - nsend (us @ [w]))"
    using rest_unsignaled [OF assms(2), of "(0, 0)"] nsend_le [of us] by (simp add: tally_def Suc_diff_le)
  then show ?thesis using assms(1,3) unfolding marks_append by simp
qed

text \<open>The ring after the first requests, the list \<open>g\<close>, have gone.\<close>

lemma ring_drop:
  assumes r: "ring_ok c (g @ fl)" and c1: "slot_tail c1 = (slot_tail c + int (nsend g)) mod max_pending_msg c" "pending_msg c1 = int (length fl)" "pending_send_msg c1 = int (nsend fl)"
    "full c1 \<longleftrightarrow> int (nsend fl) = max_pending_msg c" "slot_head c1 = slot_head c" "max_pending_msg c1 = max_pending_msg c" "max_unsignaled_msg c1 = max_unsignaled_msg c"
    "send_buf c1 = send_buf c" "send_size c1 = send_size c"
  shows "ring_ok c1 fl"
proof -
  let ?m = "max_pending_msg c" and ?t = "slot_tail c"
  have F: "0 < ?m" "int (length (g @ fl)) \<le> ?m" "slot_head c = (?t + int (nsend (g @ fl))) mod ?m" using r by (auto simp: ring_ok_def Let_def)
  have "sw_addr (sends fl ! k) = slot c (((?t + int (nsend g)) mod ?m + int k) mod ?m)" if "k < nsend fl" for k
  proof -
    have "sends fl ! k = sends (g @ fl) ! (nsend g + k)" by (simp add: nth_append)
    then have "sw_addr (sends fl ! k) = slot c ((?t + int (nsend g + k)) mod ?m)" using send_addr [OF r, of "nsend g + k"] that by simp
    then show ?thesis by (simp add: mod_simps add.assoc)
  qed
  then have "map sw_addr (sends fl) = map (\<lambda>k. slot c (((?t + int (nsend g)) mod ?m + int k) mod ?m)) [0..<nsend fl]" by (intro nth_equalityI) simp_all
  moreover have "slot_head c = ((?t + int (nsend g)) mod ?m + int (nsend fl)) mod ?m" using F(3) by (simp add: mod_simps add.assoc)
  ultimately show ?thesis using r F c1 by (simp add: ring_ok_def Let_def slot_def pos_mod_bound)
qed

lemma SendComp_ok:
  assumes c: "chan_ok c (us @ w # fl)" and u: "\<forall>v \<in> set us. \<not> sw_signaled v" "sw_signaled w"
  shows "\<exists>i c' vs gs. SendComp c (sw_id w) = Some (i, c') \<and> posted c' = posted c @ vs \<and> chan_ok c' (fl @ vs) \<and>
    list_all2 (\<lambda>w g. carries w (sw_data w) g) vs gs \<and> concat gs @ items_waiting c' = items_waiting c \<and> send_buf c' = send_buf c \<and> send_size c' = send_size c"
proof -
  define g where "g = us @ [w]"
  define k where "k = nsend g"
  define j where "j = length g - nsend g"
  let ?m = "max_pending_msg c"
  have R: "ring_ok c (g @ fl)" "sig_ok c (g @ fl)" "unsignaled_few c (g @ fl)" "queue_ok c" "held c (g @ fl)" "\<forall>t. post_limit c t = None"
    "pending_requests c \<noteq> [] \<longrightarrow> pending_msg c = ?m" using c by (simp_all add: chan_ok_def g_def)
  have r0: "rest (0, 0) g = (0, 0)" "g \<noteq> []" using u(2) by (simp_all add: tally_next_def g_def)
  have M: "marks_ok (0, 0) g" "marks_ok (0, 0) fl" using R(2) r0 marks_append [of "(0, 0)" g fl] by (auto simp: sig_ok_def)
  obtain i where i: "sw_id w = signal_id i (of_nat k) (of_nat j)" using completed_id [of us w] M(1) u unfolding g_def k_def j_def by blast
  have F: "?m < 65536" "int (length g + length fl) \<le> ?m" "0 \<le> slot_tail c" "slot_tail c < ?m" "full c \<longleftrightarrow> int (k + nsend fl) = ?m"
    "pending_msg c = int (length g + length fl)" "pending_send_msg c = int (k + nsend fl)"
    using R(1) unfolding ring_ok_def Let_def by (auto simp: k_def)
  have kj: "k + j = length g" "k \<le> length g" "nsend fl \<le> length fl" using nsend_le by (auto simp: k_def j_def)
  then have "k < 65536" "j < 65536" using F(1,2) by linarith+
  note d = small_counts [OF this(1)] small_counts [OF this(2)]
  have z: "(of_nat k :: 16 word) = 0 \<longleftrightarrow> k = 0" using d(2) unsigned_eq_0_iff [of "of_nat k :: 16 word"] by metis
  define c1 where "c1 = c\<lparr>slot_tail := (slot_tail c + int k) mod ?m, to_signaled_send_msg := to_signaled_send_msg c - int k,
     to_signaled_w_r_msg := to_signaled_w_r_msg c - int j, pending_msg := int (length fl), pending_send_msg := int (nsend fl), full := int (nsend fl) = ?m\<rparr>"
  have fl: "(if full c \<and> k \<noteq> 0 then False else full c) = (int (nsend fl) = ?m)" using F(2,5) kj by auto
  have e: "SendComp c (sw_id w) = map_option (\<lambda>c. (i, c)) (ProcessPendingRequests c1 (length g))"
  proof -
    have "pending_msg c - (int k + int j) = int (length fl)" "pending_send_msg c - int k = int (nsend fl)" "int k \<le> ?m" using F kj by auto
    moreover note ring_add [OF F(3,4), of "int k"]
    ultimately show ?thesis using fl z kj(1) unfolding SendComp_def i signal_id_parts c1_def Let_def d
      by (cases "ProcessPendingRequests c1 (length g)") (simp_all add: c1_def)
  qed
  have "ring_ok c1 fl" by (rule ring_drop [OF R(1)]) (simp_all add: c1_def k_def)
  moreover have "sig_ok c1 fl" "unsignaled_few c1 fl" using R(2,3) r0 M(2) kj by (auto simp: sig_ok_def unsignaled_few_def c1_def k_def)
  moreover have "queue_ok c1" "held c1 fl" "\<forall>t. post_limit c1 t = None" using R(4-6) by (auto simp: queue_ok_def held_def c1_def)
  moreover have "int (length fl + length g) \<le> max_pending_msg c1" "pending_requests c1 \<noteq> [] \<longrightarrow> int (length fl + length g) = max_pending_msg c1"
    using F(2,6) R(7) by (auto simp: c1_def)
  ultimately obtain c' vs gs where "ProcessPendingRequests c1 (length g) = Some c'" "posted c' = posted c1 @ vs" "chan_ok c' (fl @ vs)"
    "list_all2 (\<lambda>w g. carries w (sw_data w) g) vs gs" "concat gs @ items_waiting c' = items_waiting c1" "send_buf c' = send_buf c1" "send_size c' = send_size c1"
    using ProcessPendingRequests_ok [of c1 fl "length g"] r0(2) by auto
  then show ?thesis using e by (intro exI [of _ i] exI [of _ c'] exI [of _ vs] exI [of _ gs]) (simp add: c1_def items_waiting_def)
qed

end
