(* ===== verification/Gam_Stream.thy ===== *)
theory Gam_Stream
  imports Gam_Channel Gam_Server
begin

text \<open>
  A connection in use: the states a context reaches from its creation by sending messages, posting
  transfers and handling completions in the order in which the device signals them. In every one of
  them the guarantees of \<open>Gam_Channel\<close> hold, and the receivers of \<open>Gam_Server\<close> get what was submitted.
\<close>

section \<open>Reachable states\<close>

text \<open>
  \<open>channel c d xs\<close>: the context \<open>c\<close>, of whose posted requests the first \<open>d\<close> have completed, after the items
  \<open>xs\<close> were submitted. Memory outside of the slots and of the waiting messages may change at any time.
\<close>

definition buffers_kept :: "RdmaContext \<Rightarrow> memory \<Rightarrow> bool" where
  "buffers_kept c m \<longleftrightarrow> mem_read m (send_buf c) (send_size c) = mem_read (ctx_mem c) (send_buf c) (send_size c) \<and>
     (\<forall>r \<in> set (pending_requests c). rq_op r = IBV_WR_SEND \<longrightarrow> mem_read m (rq_src r) (rq_len r) = mem_read (ctx_mem c) (rq_src r) (rq_len r))"

inductive channel :: "RdmaContext \<Rightarrow> nat \<Rightarrow> parcel list \<Rightarrow> bool" where
  opened: "unat buf + 1048576 < 2 ^ 64 \<Longrightarrow> channel (new_RdmaContext buf m (\<lambda>_. None) inl) 0 []"
| sent: "channel c d xs \<Longrightarrow> bs \<noteq> [] \<Longrightarrow> length bs \<le> MAX_REQUEST_SIZE \<Longrightarrow> fresh_buffer c q (length bs) \<Longrightarrow>
    submit_message c bs q = Some (ret, c') \<Longrightarrow> channel c' d (xs @ [Message bs])"
| transferred: "channel c d xs \<Longrightarrow> rq_op r \<in> {IBV_WR_RDMA_WRITE, IBV_WR_RDMA_WRITE_WITH_IMM, IBV_WR_RDMA_READ} \<Longrightarrow>
    Rdma c r = Some (ret, c') \<Longrightarrow> channel c' d (xs @ [parcel_of (ctx_mem c) r])"
| completed: "channel c d xs \<Longrightarrow> drop d (posted c) = us @ w # fl \<Longrightarrow> \<forall>v \<in> set us. \<not> sw_signaled v \<Longrightarrow> sw_signaled w \<Longrightarrow>
    SendComp c (sw_id w) = Some (i, c') \<Longrightarrow> channel c' (d + length us + 1) xs"
| elsewhere: "channel c d xs \<Longrightarrow> buffers_kept c m \<Longrightarrow> channel (c\<lparr>ctx_mem := m\<rparr>) d xs"

definition channel_inv :: "RdmaContext \<Rightarrow> nat \<Rightarrow> parcel list \<Rightarrow> bool" where
  "channel_inv c d xs \<longleftrightarrow> d \<le> length (posted c) \<and> chan_ok c (drop d (posted c)) \<and>
     (\<exists>gs. list_all2 (\<lambda>w g. carries w (sw_data w) g) (posted c) gs \<and> xs = concat gs @ items_waiting c)"

lemma new_context_ok: "unat buf + 1048576 < 2 ^ 64 \<Longrightarrow> chan_ok (new_RdmaContext buf m (\<lambda>_. None) inl) []"
  by (simp add: chan_ok_def ring_ok_def sig_ok_def unsignaled_few_def queue_ok_def held_def new_RdmaContext_def Let_def
      MAX_PENDING_MSG_def MAX_REQUEST_SIZE_def MAX_UNSIGNALED_MSG_def HW_MAX_PENDING_def)

lemma channel_grow:
  assumes "channel_inv c d xs" "posted c' = posted c @ vs" "chan_ok c' (drop (d + e) (posted c) @ vs)" "d + e \<le> length (posted c)"
    "list_all2 (\<lambda>w g. carries w (sw_data w) g) vs gs" "concat gs @ items_waiting c' = items_waiting c @ ys"
  shows "channel_inv c' (d + e) (xs @ ys)"
proof -
  obtain hs where h: "list_all2 (\<lambda>w g. carries w (sw_data w) g) (posted c) hs" "xs = concat hs @ items_waiting c"
    using assms(1) by (auto simp: channel_inv_def)
  then show ?thesis using assms(2-6) unfolding channel_inv_def by (intro conjI exI [of _ "hs @ gs"]) (auto intro: list_all2_appendI)
qed

lemma read_sub: "mem_read m p n = mem_read m' p n \<Longrightarrow> k + z \<le> n \<Longrightarrow> mem_read m (p + of_nat k) z = mem_read m' (p + of_nat k) z"
proof (rule mem_read_cong)
  fix j assume a: "mem_read m p n = mem_read m' p n" "k + z \<le> n" "j < z"
  then have "k + j < n" by linarith
  then have "m (p + of_nat (k + j)) = m' (p + of_nat (k + j))" using arg_cong [OF a(1), of "\<lambda>xs. xs ! (k + j)"] by (simp del: of_nat_add)
  then show "m (p + of_nat k + of_nat j) = m' (p + of_nat k + of_nat j)" by (simp add: add.assoc)
qed

lemma elsewhere_ok:
  assumes c: "chan_ok c fl" and b: "buffers_kept c m"
  shows "chan_ok (c\<lparr>ctx_mem := m\<rparr>) fl" "items_waiting (c\<lparr>ctx_mem := m\<rparr>) = items_waiting c"
proof -
  have R: "ring_ok c fl" "held c fl" using c by (simp_all add: chan_ok_def)
  have M: "0 < max_pending_msg c" using R(1) by (auto simp: ring_ok_def Let_def)
  have "mem_read m (sw_addr w) (sw_length w) = mem_read (ctx_mem c) (sw_addr w) (sw_length w)" if w: "w \<in> set (sends fl)" for w
  proof -
    obtain k where k: "k < nsend fl" "w = sends fl ! k" using w by (metis in_set_conv_nth)
    let ?i = "(slot_tail c + int k) mod max_pending_msg c"
    have i: "0 \<le> ?i" "?i < max_pending_msg c" using M by (simp_all add: pos_mod_bound)
    have "sw_addr w = send_buf c + of_nat (nat ?i * 1024)" using send_addr [OF R(1) k(1)] k(2) i(1) by (simp add: slot_def MAX_REQUEST_SIZE_def)
    moreover have "sw_length w \<le> 1024" using R(2) w by (simp add: held_def MAX_REQUEST_SIZE_def)
    ultimately show ?thesis using read_sub [of m "send_buf c" "send_size c" "ctx_mem c" "nat ?i * 1024" "sw_length w"] b unat_slot(2) [OF R(1) i]
      by (simp add: buffers_kept_def)
  qed
  then have "held (c\<lparr>ctx_mem := m\<rparr>) fl" using R(2) by (simp add: held_def)
  moreover have "ring_ok (c\<lparr>ctx_mem := m\<rparr>) fl" using R(1) by (rule ring_ok_cong [rotated]) (simp add: ring_fields_def)
  ultimately show "chan_ok (c\<lparr>ctx_mem := m\<rparr>) fl" using c by (simp add: chan_ok_def sig_ok_def unsignaled_few_def queue_ok_def)
  show "items_waiting (c\<lparr>ctx_mem := m\<rparr>) = items_waiting c"
    using b by (auto simp: items_waiting_def buffers_kept_def parcel_of_def split: ibv_wr_opcode.splits)
qed

lemma channel_inv: "channel c d xs \<Longrightarrow> channel_inv c d xs"
proof (induction rule: channel.induct)
  case (opened buf m inl)
  then show ?case using new_context_ok [OF opened, of m inl] by (simp add: channel_inv_def items_waiting_def new_RdmaContext_def Let_def)
next
  case (sent c d xs bs q ret c')
  then have "chan_ok c (drop d (posted c))" "d \<le> length (posted c)" by (simp_all add: channel_inv_def)
  then show ?case using submit_ok [OF _ sent.hyps(2-4), where fl = "drop d (posted c)"] channel_grow [OF sent.IH, of c' _ 0] sent.hyps(5) by fastforce
next
  case (transferred c d xs r ret c')
  then have "chan_ok c (drop d (posted c))" "d \<le> length (posted c)" by (simp_all add: channel_inv_def)
  then show ?case using transfer_ok [OF _ transferred.hyps(2), where fl = "drop d (posted c)"] channel_grow [OF transferred.IH, of c' _ 0] transferred.hyps(3) by fastforce
next
  case (completed c d xs us w fl i c')
  have d: "d + (length us + 1) \<le> length (posted c)" "drop (d + (length us + 1)) (posted c) = fl"
  proof -
    have "length (drop d (posted c)) = length us + 1 + length fl" unfolding completed.hyps(2) by simp
    then show "d + (length us + 1) \<le> length (posted c)" by simp
    have "drop (length us + 1) (drop d (posted c)) = fl" unfolding completed.hyps(2) by simp
    then show "drop (d + (length us + 1)) (posted c) = fl" by (simp add: add.commute)
  qed
  have "chan_ok c (us @ w # fl)" using completed by (simp add: channel_inv_def)
  then obtain vs gs where "posted c' = posted c @ vs" "chan_ok c' (fl @ vs)"
    "list_all2 (\<lambda>w g. carries w (sw_data w) g) vs gs" "concat gs @ items_waiting c' = items_waiting c"
    using SendComp_ok [OF _ completed.hyps(3,4)] completed.hyps(5) by fastforce
  then show ?case using channel_grow [OF completed.IH, of c' vs "length us + 1" gs "[]"] d by (simp add: add.assoc)
next
  case (elsewhere c d xs m)
  then show ?case using elsewhere_ok [OF _ elsewhere.hyps(2), of "drop d (posted c)"] by (simp add: channel_inv_def)
qed

section \<open>Guarantees\<close>

text \<open>
  C15. A connection keeps the order and loses nothing. In every reachable state the parcels submitted are,
  in order, those carried by the requests given to the device and then those waiting: a message request
  carries one or more of the messages, whole and separated by a zero byte, in at most one slot, and every
  other request carries its own transfer.
\<close>

theorem channel_in_order:
  assumes "channel c d xs"
  shows "\<exists>gs. list_all2 (\<lambda>w g. carries w (sw_data w) g) (posted c) gs \<and> xs = concat gs @ items_waiting c"
  using channel_inv [OF assms] by (simp add: channel_inv_def)


lemma signaled_in_flight:
  assumes c: "chan_ok c fl" and q: "pending_requests c \<noteq> []"
  shows "\<exists>w \<in> set fl. sw_signaled w"
proof (rule ccontr)
  assume "\<not> ?thesis"
  then have "rest (0, 0) fl = (nsend fl, length fl - nsend fl)" using rest_unsignaled [of fl "(0, 0)"] by simp
  then have "int (length fl) < max_unsignaled_msg c" using c nsend_le [of fl] by (auto simp: chan_ok_def unsignaled_few_def)
  moreover have "max_unsignaled_msg c \<le> int (length fl)" using c q by (auto simp: chan_ok_def ring_ok_def Let_def)
  ultimately show False by simp
qed

text \<open>
  C16. Nothing waits forever. In every reachable state the operations return; and when requests wait for
  room, the device holds a signalled request, whose completion, handled by \<^verbatim>\<open>SendComp\<close>, returns and posts
  waiting requests until the device is full again or none waits.
\<close>

theorem channel_never_stalls:
  assumes "channel c d xs"
  shows "(pending_requests c \<noteq> [] \<longrightarrow> (\<exists>us w fl. drop d (posted c) = us @ w # fl \<and> (\<forall>v \<in> set us. \<not> sw_signaled v) \<and> sw_signaled w)) \<and>
    (\<forall>us w fl. drop d (posted c) = us @ w # fl \<and> (\<forall>v \<in> set us. \<not> sw_signaled v) \<and> sw_signaled w \<longrightarrow>
      (\<exists>i c'. SendComp c (sw_id w) = Some (i, c') \<and> (pending_requests c' = [] \<or> pending_msg c' = max_pending_msg c'))) \<and>
    (\<forall>bs q. bs \<noteq> [] \<and> length bs \<le> MAX_REQUEST_SIZE \<and> fresh_buffer c q (length bs) \<longrightarrow> (\<exists>ret c'. submit_message c bs q = Some (ret, c')))"
proof -
  have c: "chan_ok c (drop d (posted c))" using channel_inv [OF assms] by (simp add: channel_inv_def)
  have "pending_requests c \<noteq> [] \<longrightarrow> (\<exists>us w fl. drop d (posted c) = us @ w # fl \<and> (\<forall>v \<in> set us. \<not> sw_signaled v) \<and> sw_signaled w)"
    using signaled_in_flight [OF c] split_list_first_prop [of "drop d (posted c)" sw_signaled] by blast
  moreover have "\<exists>i c'. SendComp c (sw_id w) = Some (i, c') \<and> (pending_requests c' = [] \<or> pending_msg c' = max_pending_msg c')"
    if "drop d (posted c) = us @ w # fl" "\<forall>v \<in> set us. \<not> sw_signaled v" "sw_signaled w" for us w fl
    using SendComp_ok [of c us w fl] c that unfolding chan_ok_def by metis
  moreover have "\<exists>ret c'. submit_message c bs q = Some (ret, c')" if "bs \<noteq> []" "length bs \<le> MAX_REQUEST_SIZE" "fresh_buffer c q (length bs)" for bs q
    using submit_ok [OF c that] by blast
  ultimately show ?thesis by blast
qed

section \<open>Serialised requests\<close>

lemma concat_map_split: "concat gs = map f ws \<Longrightarrow> \<exists>hs. concat hs = ws \<and> gs = map (map f) hs"
proof (induction gs arbitrary: ws)
  case (Cons g gs)
  then obtain h ws' where h: "ws = h @ ws'" "g = map f h" "concat gs = map f ws'" by (auto simp: append_eq_map_conv)
  then obtain hs where "concat hs = ws'" "gs = map (map f) hs" using Cons.IH by blast
  then show ?case using h by (intro exI [of _ "h # hs"]) simp
qed simp

lemma join0_messages: "xs \<noteq> [] \<Longrightarrow> join0 (map (\<lambda>x. butlast (message x)) xs) = butlast (messages xs)"
proof (induction xs)
  case (Cons x xs)
  have x: "message x = butlast (message x) @ [0]" by (simp add: message_def butlast_append)
  show ?case
  proof (cases xs)
    case (Cons y ys)
    then have "messages xs \<noteq> []" by (simp add: messages_def message_def)
    then have "butlast (messages (x # xs)) = butlast (message x) @ 0 # butlast (messages xs)" using x by (simp add: messages_Cons butlast_append)
    then show ?thesis using Cons.IH Cons by simp
  qed (simp add: messages_def)
qed simp

text \<open>
  C18. Requests arrive as they were sent. When serialised requests are submitted to a connection and none
  waits, the buffers given to the device are the requests, in groups, each group a buffer that a receiver
  handles as its requests in order.
\<close>

theorem merged_requests_arrive:
  assumes "channel c d (map (\<lambda>x. Message (butlast (message x))) ws)" "items_waiting c = []"
  shows "\<exists>gs. concat gs = ws \<and> list_all2 (\<lambda>w g. g \<noteq> [] \<and> sw_op w = IBV_WR_SEND \<and> sw_data w = butlast (messages g)) (posted c) gs"
proof -
  let ?f = "\<lambda>x. butlast (message x)"
  obtain gs where g: "list_all2 (\<lambda>w g. carries w (sw_data w) g) (posted c) gs" "map (\<lambda>x. Message (?f x)) ws = concat gs"
    using channel_inv [OF assms(1)] assms(2) by (auto simp: channel_inv_def)
  obtain hs where h: "concat hs = ws" "gs = map (map (\<lambda>x. Message (?f x))) hs" using concat_map_split [OF g(2) [symmetric]] by blast
  have L: "list_all2 (\<lambda>w h. carries w (sw_data w) (map (\<lambda>x. Message (?f x)) h)) (posted c) hs" using g(1) unfolding h(2) list_all2_map2 .
  have D: "h \<noteq> [] \<and> sw_op w = IBV_WR_SEND \<and> sw_data w = butlast (messages h)" if cr: "carries w (sw_data w) (map (\<lambda>x. Message (?f x)) h)" for w h
  proof -
    have "is_send w" using cr by (auto simp: carries_def split: if_splits)
    then obtain ms where ms: "ms \<noteq> []" "map (\<lambda>x. Message (?f x)) h = map Message ms" "sw_data w = join0 ms" "sw_op w = IBV_WR_SEND"
      using cr by (auto simp: carries_def is_send_def)
    have "map Message (map ?f h) = map Message ms" using ms(2) by (simp add: comp_def)
    then have "map ?f h = ms" by (rule map_injective) (simp add: inj_def)
    then show ?thesis using ms join0_messages [of h] by auto
  qed
  have "list_all2 (\<lambda>w h. h \<noteq> [] \<and> sw_op w = IBV_WR_SEND \<and> sw_data w = butlast (messages h)) (posted c) hs" by (rule list_all2_mono [OF L]) (rule D)
  then show ?thesis using h(1) by blast
qed

section \<open>A connection at work\<close>

definition idle_context :: RdmaContext where
  "idle_context = new_RdmaContext 65536 (\<lambda>_. 0) (\<lambda>_. None) 256"

lemma idle_channel: "channel idle_context 0 []"
  unfolding idle_context_def by (rule channel.opened) simp

lemma idle_fresh: "n \<le> 1024 \<Longrightarrow> fresh_buffer idle_context 4096 n"
  using apart_below(1) [of 4096 n 65536 1048576]
  by (simp add: fresh_buffer_def idle_context_def new_RdmaContext_def Let_def MAX_PENDING_MSG_def MAX_REQUEST_SIZE_def)

lemma idle_submit:
  "\<exists>c. submit_message idle_context bs 4096 = Some (int (length bs), c) \<and> pending_requests c = [] \<and> fst (GetFreeSlot c) \<noteq> None"
  by (simp add: submit_message_def GetFreeSlot_def rdma_Send_def Rdma_def rdma_buffer_def new_RdmaRequest_def idle_context_def new_RdmaContext_def
      IsRegistered_def ibv_post_send_def signal_now_def curr_to_signaled_send_def curr_to_signaled_w_r_def RMINUS_def
      MAX_PENDING_MSG_def MAX_REQUEST_SIZE_def MAX_UNSIGNALED_MSG_def HW_MAX_PENDING_def Let_def)

lemma one_sent:
  assumes "bs \<noteq> []" "length bs \<le> 1024"
  shows "\<exists>c. submit_message idle_context bs 4096 = Some (int (length bs), c) \<and> channel c 0 [Message bs] \<and> items_waiting c = [] \<and> fst (GetFreeSlot c) \<noteq> None"
proof -
  obtain c where c: "submit_message idle_context bs 4096 = Some (int (length bs), c)" "pending_requests c = []" "fst (GetFreeSlot c) \<noteq> None" using idle_submit by blast
  have "channel c 0 ([] @ [Message bs])"
    by (rule channel.sent [OF idle_channel assms(1) _ idle_fresh [OF assms(2)] c(1)]) (use assms(2) in \<open>simp add: MAX_REQUEST_SIZE_def\<close>)
  then show ?thesis using c by (auto simp: items_waiting_def)
qed

theorem channel_in_order_witness:
  "\<exists>c gs. submit_message idle_context [1, 2, 3] 4096 = Some (3, c) \<and>
     list_all2 (\<lambda>w g. carries w (sw_data w) g) (posted c) gs \<and> [Message [1, 2, 3]] = concat gs @ items_waiting c"
proof -
  obtain c where "submit_message idle_context [1, 2, 3] 4096 = Some (3, c)" "channel c 0 [Message [1, 2, 3]]"
    using one_sent [of "[1, 2, 3]"] by auto
  then show ?thesis using channel_in_order [of c 0 "[Message [1, 2, 3]]"] by blast
qed

theorem merged_requests_arrive_witness:
  "\<exists>ret c gs. submit_message idle_context (butlast (message (get_3, []))) 4096 = Some (ret, c) \<and> concat gs = [(get_3, [])] \<and>
     list_all2 (\<lambda>w g. g \<noteq> [] \<and> sw_op w = IBV_WR_SEND \<and> sw_data w = butlast (messages g)) (posted c) gs"
proof -
  let ?bs = "butlast (message (get_3, []))"
  have "length ?bs = 20" by (simp add: message_def) code_simp
  then have "?bs \<noteq> []" "length ?bs \<le> 1024" by (metis list.size(3) zero_neq_numeral, simp)
  then obtain c where c: "submit_message idle_context ?bs 4096 = Some (int (length ?bs), c)" "channel c 0 [Message ?bs]" "items_waiting c = []"
    using one_sent [of ?bs] by blast
  then show ?thesis using merged_requests_arrive [of c 0 "[(get_3, [])]"] by auto
qed


text \<open>Transfers without a completion: from some point on they wait.\<close>

definition transfer :: RdmaRequest where
  "transfer = (new_RdmaRequest IBV_WR_RDMA_WRITE 8192 512 0 False)\<lparr>rq_dest := 4096\<rparr>"

abbreviation transferred_block :: parcel where
  "transferred_block \<equiv> Transfer IBV_WR_RDMA_WRITE 8192 4096 512 0"

lemma transfers_channel: "\<exists>c. channel c 0 (replicate n transferred_block)"
proof (induction n)
  case 0
  then show ?case using idle_channel by auto
next
  case (Suc n)
  then obtain c where c: "channel c 0 (replicate n transferred_block)" by blast
  have op: "rq_op transfer \<in> {IBV_WR_RDMA_WRITE, IBV_WR_RDMA_WRITE_WITH_IMM, IBV_WR_RDMA_READ}" by (simp add: transfer_def new_RdmaRequest_def)
  obtain ret c' where c': "Rdma c transfer = Some (ret, c')" using transfer_ok [OF _ op, of c "posted c"] channel_inv [OF c] by (auto simp: channel_inv_def)
  have "parcel_of (ctx_mem c) transfer = transferred_block" by (simp add: parcel_of_def transfer_def new_RdmaRequest_def)
  then show ?case using channel.transferred [OF c op c'] by (auto simp: replicate_append_same)
qed

lemma transfers_posted:
  assumes "list_all2 (\<lambda>w g. carries w (sw_data w) g) ws gs" "set (concat gs) \<subseteq> {transferred_block}"
  shows "length (concat gs) = length ws"
  using assms
proof (induction rule: list_all2_induct)
  case (Cons w ws g gs)
  have "set g \<subseteq> {transferred_block}" using Cons.prems by simp
  then have "length g = 1" using Cons.hyps(1) by (cases g) (auto simp: carries_def split: if_splits)
  then show ?case using Cons by simp
qed simp

lemma waiting_channel: "\<exists>c xs. channel c 0 xs \<and> pending_requests c \<noteq> []"
proof -
  obtain c where c: "channel c 0 (replicate 65536 transferred_block)" using transfers_channel by blast
  obtain gs where g: "list_all2 (\<lambda>w g. carries w (sw_data w) g) (posted c) gs" "replicate 65536 transferred_block = concat gs @ items_waiting c" "chan_ok c (posted c)"
    using channel_inv [OF c] by (auto simp: channel_inv_def)
  have "set (concat gs) \<subseteq> set (replicate 65536 transferred_block)" unfolding g(2) by simp
  then have "length (concat gs) = length (posted c)" using transfers_posted [OF g(1)] by auto
  moreover have "length (posted c) < 65536" using g(3) by (auto simp: chan_ok_def ring_ok_def Let_def)
  moreover have "length (concat gs @ items_waiting c) = 65536" unfolding g(2) [symmetric] by simp
  ultimately have "items_waiting c \<noteq> []" by auto
  then show ?thesis using c by (auto simp: items_waiting_def)
qed

theorem channel_never_stalls_witness:
  "\<exists>c xs us w fl i c'. channel c 0 xs \<and> pending_requests c \<noteq> [] \<and> posted c = us @ w # fl \<and> sw_signaled w \<and> SendComp c (sw_id w) = Some (i, c')"
proof -
  obtain c xs where c: "channel c 0 xs" "pending_requests c \<noteq> []" using waiting_channel by blast
  show ?thesis using channel_never_stalls [OF c(1)] c by (metis drop_0)
qed

end
