(* ===== verification/Gam_Galloc.thy ===== *)
theory Gam_Galloc
  imports Gam_Server
begin

text \<open>
  The library application threads use: \<^verbatim>\<open>gam/src/worker_handle.cc\<close> and \<^verbatim>\<open>gam/src/gallocator.cc\<close>, in the
  build with \<^verbatim>\<open>MULTITHREAD\<close>, where a thread runs the worker's handler itself and spins on its buffer when
  the request does not complete at once. \<^verbatim>\<open>GAlloc\<close> is written over the function that sends a request, an
  argument here as \<^verbatim>\<open>wh\<close> is a member there, so that its laws can be proved for any handle that keeps the
  contract of the locale \<open>lock_service\<close> and then used for the worker.
\<close>

section \<open>The handle of a thread\<close>

text \<open>The buffer a thread is woken through, and the descriptor its fence is registered under.\<close>

record WorkerHandle =
  notify_buf :: ptr
  recv_fd :: i32

definition new_WorkerHandle :: "ptr \<Rightarrow> i32 \<Rightarrow> Worker \<Rightarrow> WorkerHandle \<times> Worker" where
  "new_WorkerHandle p fd s = (\<lparr>notify_buf = p, recv_fd = fd\<rparr>, RegisterFence (s\<lparr>mem := mem_write (mem s) p (le_bytes 4 2)\<rparr>) fd)"

text \<open>
  While a thread spins, other nodes write to the memory of its worker and the worker handles completions.
\<close>

datatype event = PeerWrites ptr "u8 list" | Completes client completion

fun apply_event :: "nat \<Rightarrow> Worker \<Rightarrow> event \<Rightarrow> Worker option" where
  "apply_event n s (PeerWrites p bs) = Some (s\<lparr>mem := mem_write (mem s) p bs\<rparr>)"
| "apply_event n s (Completes c e) = Worker_ProcessRdmaRequest n s c e"

text \<open>\<^verbatim>\<open>while (*notify_buf != 2);\<close>: a thread nobody wakes spins forever, \<open>None\<close>.\<close>

fun await :: "nat \<Rightarrow> Worker \<Rightarrow> ptr \<Rightarrow> event list \<Rightarrow> (Worker \<times> event list) option" where
  "await n s p evs =
     (if mem_read (mem s) p 4 = le_bytes 4 2 then Some (s, evs)
      else case evs of
             [] \<Rightarrow> None
           | e # es \<Rightarrow> do { s \<leftarrow> apply_event n s e; await n s p es })"

declare await.simps [simp del]

definition SendRequest :: "nat \<Rightarrow> WorkerHandle \<Rightarrow> Worker \<Rightarrow> event list \<Rightarrow> nat \<Rightarrow> (i32 \<times> Worker \<times> event list) option" where
  "SendRequest n h s evs r = do {
     s \<leftarrow> upd_wr s r (\<lambda>w. set_flag w LOCAL_REQUEST);
     let s = s\<lparr>mem := mem_write (mem s) (notify_buf h) (le_bytes 4 1)\<rparr>;
     s \<leftarrow> upd_wr s r (\<lambda>w. w\<lparr>wr_fd := recv_fd h, wr_notify_buf := notify_buf h\<rparr>);
     (ret, s) \<leftarrow> ProcessLocalRequest n s r;
     w \<leftarrow> reqs s r;
     if ret \<noteq> SUCCESS
     then (if has w ASYNC then Some (SUCCESS, s, evs)
           else do {
             (s, evs) \<leftarrow> await n s (notify_buf h) evs;
             w \<leftarrow> reqs s r;
             Some (wr_status w, s, evs) })
     else Some (wr_status w, s, evs) }"

text \<open>
  The requests of \<^verbatim>\<open>GAlloc\<close> are objects on the stack of the calling function: a cell for the time of the
  call. The result has the fields of the request after the call.
\<close>

type_synonym world = "Worker \<times> event list"

definition wh_send :: "nat \<Rightarrow> WorkerHandle \<Rightarrow> world \<Rightarrow> WorkRequest \<Rightarrow> (i32 \<times> WorkRequest \<times> world) option" where
  "wh_send n h x w = do {
     let (r, s) = alloc_wr (fst x) w;
     (st, s, evs) \<leftarrow> SendRequest n h s (snd x) r;
     w \<leftarrow> reqs s r;
     Some (st, w, delete_wr s r, evs) }"

section \<open>Memory\<close>

type_synonym 's sender = "'s \<Rightarrow> WorkRequest \<Rightarrow> (i32 \<times> WorkRequest \<times> 's) option"

definition Galloc_Malloc :: "'s sender \<Rightarrow> 's \<Rightarrow> u64 \<Rightarrow> gaddr \<Rightarrow> i32 \<Rightarrow> (gaddr \<times> 's) option" where
  "Galloc_Malloc send s sz near flag = do {
     (st, w, s) \<leftarrow> send s (new_WorkRequest\<lparr>wr_op := MALLOC, wr_flag := flag, wr_size := sz, wr_addr := near\<rparr>);
     Some (if st \<noteq> 0 then Gnullptr else wr_addr w, s) }"

definition Galloc_AlignedMalloc :: "'s sender \<Rightarrow> 's \<Rightarrow> u64 \<Rightarrow> gaddr \<Rightarrow> i32 \<Rightarrow> (gaddr \<times> 's) option" where
  "Galloc_AlignedMalloc send s sz near flag = do {
     (st, w, s) \<leftarrow> send s (new_WorkRequest\<lparr>wr_op := MALLOC, wr_flag := flag OR ALIGNED, wr_size := sz, wr_addr := near\<rparr>);
     Some (if st \<noteq> 0 then Gnullptr else wr_addr w, s) }"

definition Galloc_Free :: "'s sender \<Rightarrow> 's \<Rightarrow> gaddr \<Rightarrow> 's option" where
  "Galloc_Free send s addr = do {
     (_, _, s) \<leftarrow> send s (new_WorkRequest\<lparr>wr_op := FREE, wr_addr := addr\<rparr>);
     Some s }"

text \<open>The results of \<^verbatim>\<open>Read\<close> and \<^verbatim>\<open>Write\<close> are the size of the request, narrowed to \<^verbatim>\<open>int\<close>.\<close>

definition Galloc_Read :: "'s sender \<Rightarrow> 's \<Rightarrow> gaddr \<Rightarrow> u64 \<Rightarrow> ptr \<Rightarrow> u64 \<Rightarrow> i32 \<Rightarrow> (i32 \<times> 's) option" where
  "Galloc_Read send s addr offset buf count flag = do {
     (st, w, s) \<leftarrow> send s (new_WorkRequest\<lparr>wr_op := READ, wr_flag := flag, wr_size := count, wr_addr := GADD addr offset, wr_ptr := buf\<rparr>);
     Some (if st \<noteq> 0 then 0 else ucast (wr_size w), s) }"

definition Galloc_Write :: "'s sender \<Rightarrow> 's \<Rightarrow> gaddr \<Rightarrow> u64 \<Rightarrow> ptr \<Rightarrow> u64 \<Rightarrow> i32 \<Rightarrow> GFunc option \<Rightarrow> u64 \<Rightarrow> (i32 \<times> 's) option" where
  "Galloc_Write send s addr offset buf count flag func arg = do {
     let w = new_WorkRequest\<lparr>wr_op := WRITE, wr_flag := flag OR ASYNC, wr_size := count, wr_addr := GADD addr offset, wr_ptr := buf\<rparr>;
     let w = (if func \<noteq> None then set_flag (w\<lparr>wr_gfunc := func, wr_arg := arg\<rparr>) GFUNC else w);
     (st, w, s) \<leftarrow> send s w;
     Some (if st \<noteq> 0 then 0 else ucast (wr_size w), s) }"

definition Galloc_MFence :: "'s sender \<Rightarrow> 's \<Rightarrow> 's option" where
  "Galloc_MFence send s = do {
     (_, _, s) \<leftarrow> send s (new_WorkRequest\<lparr>wr_op := MFENCE, wr_flag := ASYNC\<rparr>);
     Some s }"

definition Galloc_SFence :: "'s sender \<Rightarrow> 's \<Rightarrow> 's option" where
  "Galloc_SFence send s = do {
     (_, _, s) \<leftarrow> send s (new_WorkRequest\<lparr>wr_op := SFENCE, wr_flag := ASYNC\<rparr>);
     Some s }"

definition Galloc_Put :: "'s sender \<Rightarrow> 's \<Rightarrow> u64 \<Rightarrow> ptr \<Rightarrow> u64 \<Rightarrow> (u64 \<times> 's) option" where
  "Galloc_Put send s key value count = do {
     (st, w, s) \<leftarrow> send s (new_WorkRequest\<lparr>wr_op := PUT, wr_size := count, wr_addr := key, wr_ptr := value\<rparr>);
     Some (if st \<noteq> 0 then 0 else wr_size w, s) }"

definition Galloc_Get :: "'s sender \<Rightarrow> 's \<Rightarrow> u64 \<Rightarrow> ptr \<Rightarrow> (u64 \<times> 's) option" where
  "Galloc_Get send s key value = do {
     (st, w, s) \<leftarrow> send s (new_WorkRequest\<lparr>wr_op := GET, wr_addr := key, wr_ptr := value\<rparr>);
     Some (if st \<noteq> 0 then 0 else wr_size w, s) }"

section \<open>Locks\<close>

text \<open>
  \<^verbatim>\<open>GAlloc::Lock\<close> locks the address and the start of every further block up to the last byte, one request
  each, and gives back what it has when one fails. The loop ends when the next block is past the last one.
\<close>

definition lock_request :: "Work \<Rightarrow> gaddr \<Rightarrow> i32 \<Rightarrow> WorkRequest" where
  "lock_request op a flag = new_WorkRequest\<lparr>wr_op := op, wr_addr := a, wr_flag := flag\<rparr>"

text \<open>\<^verbatim>\<open>GADD(start_blk, i*BLOCK_SIZE)\<close>: the product is one of \<^verbatim>\<open>int\<close>.\<close>

definition block_at :: "gaddr \<Rightarrow> nat \<Rightarrow> gaddr" where
  "block_at start_blk i = GADD start_blk (scast ((of_nat i :: i32) * 512))"

partial_function (option) lock_loop :: "'s sender \<Rightarrow> Work \<Rightarrow> i32 \<Rightarrow> gaddr \<Rightarrow> gaddr \<Rightarrow> nat \<Rightarrow> gaddr \<Rightarrow> 's \<Rightarrow> (i32 \<times> nat \<times> 's) option" where
  "lock_loop send op flag start_blk end_blk i a s =
     Option.bind (send s (lock_request op a flag)) (\<lambda>(st, w, s).
       if st \<noteq> 0 then Some (wr_status w, i, s)
       else let nxt = block_at start_blk (i + 1)
            in if nxt > end_blk then Some (wr_status w, i + 1, s)
               else lock_loop send op flag start_blk end_blk (i + 1) nxt s)"

fun unlock_loop :: "'s sender \<Rightarrow> i32 \<Rightarrow> gaddr \<Rightarrow> nat list \<Rightarrow> 's \<Rightarrow> 's option" where
  "unlock_loop send flag start_blk [] s = Some s"
| "unlock_loop send flag start_blk (j # js) s = do {
     (_, _, s) \<leftarrow> send s (lock_request UNLOCK (block_at start_blk j) (flag OR ASYNC));
     unlock_loop send flag start_blk js s }"

definition Galloc_Lock :: "'s sender \<Rightarrow> 's \<Rightarrow> Work \<Rightarrow> gaddr \<Rightarrow> u64 \<Rightarrow> i32 \<Rightarrow> (i32 \<times> 's) option" where
  "Galloc_Lock send s op addr count flag = do {
     let flag = (if op = UNLOCK then flag OR ASYNC else flag);
     let start_blk = TOBLOCK addr;
     let end_blk = TOBLOCK (GADD addr (count - 1));
     (st, i, s) \<leftarrow> lock_loop send op flag start_blk end_blk 0 addr s;
     if op \<noteq> UNLOCK \<and> st \<noteq> 0
     then do {
       s \<leftarrow> (if i \<ge> 1 then do { (_, _, s) \<leftarrow> send s (lock_request UNLOCK addr (flag OR ASYNC)); Some s } else Some s);
       s \<leftarrow> unlock_loop send flag start_blk [1..<i] s;
       Some (-1, s) }
     else Some (0, s) }"

definition Galloc_RLock :: "'s sender \<Rightarrow> 's \<Rightarrow> gaddr \<Rightarrow> u64 \<Rightarrow> 's option" where
  "Galloc_RLock send s addr count = map_option snd (Galloc_Lock send s RLOCK addr count 0)"

definition Galloc_WLock :: "'s sender \<Rightarrow> 's \<Rightarrow> gaddr \<Rightarrow> u64 \<Rightarrow> 's option" where
  "Galloc_WLock send s addr count = map_option snd (Galloc_Lock send s WLOCK addr count 0)"

definition Try_RLock :: "'s sender \<Rightarrow> 's \<Rightarrow> gaddr \<Rightarrow> u64 \<Rightarrow> (i32 \<times> 's) option" where
  "Try_RLock send s addr count = Galloc_Lock send s RLOCK addr count TRY_LOCK"

definition Try_WLock :: "'s sender \<Rightarrow> 's \<Rightarrow> gaddr \<Rightarrow> u64 \<Rightarrow> (i32 \<times> 's) option" where
  "Try_WLock send s addr count = Galloc_Lock send s WLOCK addr count TRY_LOCK"

definition Galloc_UnLock :: "'s sender \<Rightarrow> 's \<Rightarrow> gaddr \<Rightarrow> u64 \<Rightarrow> 's option" where
  "Galloc_UnLock send s addr count = map_option snd (Galloc_Lock send s UNLOCK addr count 0)"

end
