(* ===== verification/Gam_Array.thy ===== *)
theory Gam_Array
  imports Gam_Galloc
begin

text \<open>
  The array of \<^verbatim>\<open>gam/include/garray.h\<close> in global memory: elements in buckets, found through layers of buckets
  of global addresses, and a header in global memory through which the nodes share size, root and depth.
  The code is written over \<^verbatim>\<open>GAlloc\<close>, here over the sender of \<open>Gam_Galloc\<close> and access to the memory of the
  calling thread, where \<^verbatim>\<open>Read\<close> and \<^verbatim>\<open>Write\<close> have their buffers.
\<close>

section \<open>The object\<close>

text \<open>
  What the class is compiled and called with: the template's element and bucket size, the sender, the memory of
  the thread with the places of the local variables \<^verbatim>\<open>curr_addr\<close>, \<^verbatim>\<open>newbk\<close> (or \<^verbatim>\<open>blk\<close>), \<^verbatim>\<open>val1\<close> and \<^verbatim>\<open>val2\<close>,
  and the floating-point expression \<^verbatim>\<open>ceil(log((double) size / items_per_bucket) / log((double) gaddrs_per_bucket)) + 1\<close>,
  converted to \<^verbatim>\<open>int\<close>, as a function of the size.
\<close>

record 's array_env =
  e_send :: "'s sender"
  e_peek :: "'s \<Rightarrow> ptr \<Rightarrow> nat \<Rightarrow> u8 list"
  e_poke :: "'s \<Rightarrow> ptr \<Rightarrow> u8 list \<Rightarrow> 's"
  e_layers :: "u64 \<Rightarrow> i32"
  e_T :: u64
  e_BUCKET :: u64
  e_curr :: ptr
  e_newbk :: ptr
  e_val1 :: ptr
  e_val2 :: ptr

text \<open>The two members are \<^verbatim>\<open>int\<close>s, as are the places \<^verbatim>\<open>offs\<close> below them: the same numbers for buckets below 2 GB.\<close>

definition items_per_bucket :: "'s array_env \<Rightarrow> u64" where
  "items_per_bucket G = e_BUCKET G div e_T G"

definition gaddrs_per_bucket :: "'s array_env \<Rightarrow> u64" where
  "gaddrs_per_bucket G = e_BUCKET G div 8"

text \<open>The first five members are the 32 bytes of the header; \<open>ga_this\<close> is where the object is.\<close>

record GArray =
  root_addr :: gaddr
  ga_size :: u64
  ga_capacity :: u64
  ga_layer :: i32
  ga_flag :: i32
  ga_header :: gaddr
  ga_this :: ptr

definition header_size :: nat where "header_size = 32"

definition header_bytes :: "GArray \<Rightarrow> u8 list" where
  "header_bytes ga = le_bytes 8 (unat (root_addr ga)) @ le_bytes 8 (unat (ga_size ga)) @ le_bytes 8 (unat (ga_capacity ga)) @
     le_bytes 4 (unat (ga_layer ga)) @ le_bytes 4 (unat (ga_flag ga))"

definition from_header :: "GArray \<Rightarrow> u8 list \<Rightarrow> GArray" where
  "from_header ga bs = ga\<lparr>root_addr := of_nat (le_nat (take 8 bs)), ga_size := of_nat (le_nat (take 8 (drop 8 bs))),
     ga_capacity := of_nat (le_nat (take 8 (drop 16 bs))), ga_layer := of_nat (le_nat (take 4 (drop 24 bs))),
     ga_flag := of_nat (le_nat (take 4 (drop 28 bs)))\<rparr>"

section \<open>Addresses\<close>

text \<open>
  \<^verbatim>\<open>offs\<close>: the places to look at in one bucket per layer. The loop fills the array from its end.
\<close>

fun layer_offs :: "u64 \<Rightarrow> nat \<Rightarrow> u64 \<Rightarrow> u64 list \<Rightarrow> u64 list" where
  "layer_offs g 0 tmp offs = offs"
| "layer_offs g (Suc i) tmp offs = layer_offs g i (tmp div g) (tmp mod g # offs)"

text \<open>\<^verbatim>\<open>curr_addr\<close> is read and overwritten in place; the result of \<^verbatim>\<open>Read\<close> is not looked at.\<close>

fun follow :: "'s array_env \<Rightarrow> u64 list \<Rightarrow> 's \<Rightarrow> 's option" where
  "follow G [] s = Some s"
| "follow G (off # offs) s = do {
     (_, s) \<leftarrow> Galloc_Read (e_send G) s (of_nat (le_nat (e_peek G s (e_curr G) 8))) (8 * off) (e_curr G) 8 0;
     follow G offs s }"

text \<open>A depth below one puts \<^verbatim>\<open>offs[layer - 1]\<close> in front of the array.\<close>

definition locate :: "'s array_env \<Rightarrow> gaddr \<Rightarrow> i32 \<Rightarrow> u64 \<Rightarrow> u64 \<Rightarrow> u64 \<Rightarrow> 's \<Rightarrow> (gaddr \<times> 's) option" where
  "locate G root layer num item_size idx s =
     (if layer <s 1 \<or> num = 0 \<or> gaddrs_per_bucket G = 0 then None
      else let offs = layer_offs (gaddrs_per_bucket G) (unat layer - 1) (idx div num) [idx mod num]
           in do {
             s \<leftarrow> follow G (butlast offs) (e_poke G s (e_curr G) (le_bytes 8 (unat root)));
             Some (GADD (of_nat (le_nat (e_peek G s (e_curr G) 8))) (last offs * item_size), s) })"

definition Locate :: "'s array_env \<Rightarrow> GArray \<Rightarrow> u64 \<Rightarrow> 's \<Rightarrow> (gaddr \<times> 's) option" where
  "Locate G ga off s = locate G (root_addr ga) (ga_layer ga) (items_per_bucket G) (e_T G) off s"

definition LocateInternal :: "'s array_env \<Rightarrow> gaddr \<Rightarrow> i32 \<Rightarrow> i32 \<Rightarrow> u64 \<Rightarrow> 's \<Rightarrow> (gaddr \<times> 's) option" where
  "LocateInternal G root total_layer layer idx s =
     (if layer = total_layer then locate G root layer (items_per_bucket G) (e_T G) idx s
      else locate G root layer (gaddrs_per_bucket G) 8 idx s)"

section \<open>The header\<close>

definition SyncFrom :: "'s array_env \<Rightarrow> GArray \<Rightarrow> 's \<Rightarrow> (GArray \<times> 's) option" where
  "SyncFrom G ga s =
     (if ga_header ga \<noteq> 0
      then do {
        (_, s) \<leftarrow> Galloc_Read (e_send G) (e_poke G s (ga_this ga) (header_bytes ga)) (ga_header ga) 0 (ga_this ga) (of_nat header_size) 0;
        Some (from_header ga (e_peek G s (ga_this ga) header_size), s) }
      else Some (ga, s))"

definition SyncTo :: "'s array_env \<Rightarrow> GArray \<Rightarrow> 's \<Rightarrow> 's option" where
  "SyncTo G ga s =
     (if ga_header ga \<noteq> 0
      then map_option snd (Galloc_Write (e_send G) (e_poke G s (ga_this ga) (header_bytes ga)) (ga_header ga) 0 (ga_this ga) (of_nat header_size) 0 None 0)
      else Some s)"

definition Globalize :: "'s array_env \<Rightarrow> GArray \<Rightarrow> 's \<Rightarrow> (GArray \<times> 's) option" where
  "Globalize G ga s = do {
     (h, s) \<leftarrow> Galloc_AlignedMalloc (e_send G) s (of_nat header_size) 0 (ga_flag ga);
     let ga = ga\<lparr>ga_header := h\<rparr>;
     (_, s) \<leftarrow> Galloc_Write (e_send G) (e_poke G s (ga_this ga) (header_bytes ga)) h 0 (ga_this ga) (of_nat header_size) 0 None 0;
     Some (ga, s) }"

section \<open>Layers\<close>

definition Capacity :: "'s array_env \<Rightarrow> u64 \<Rightarrow> u64" where
  "Capacity G sz = ceil_divide sz (items_per_bucket G) * items_per_bucket G"

text \<open>
  \<^verbatim>\<open>CalLayers(size, &layers[at], layer)\<close>: the number of buckets per layer, from the last one up. The array is
  written at \<open>at + layer - 1\<close> also when \<open>layer\<close> is 0.
\<close>

fun layers_up :: "u64 \<Rightarrow> nat \<Rightarrow> nat \<Rightarrow> u64 list \<Rightarrow> u64 list" where
  "layers_up g at 0 ls = ls"
| "layers_up g at (Suc i) ls = layers_up g at i (ls[at + i := ceil_divide (ls ! (at + i + 1)) g])"

definition CalLayers :: "'s array_env \<Rightarrow> u64 \<Rightarrow> u64 list \<Rightarrow> nat \<Rightarrow> i32 \<Rightarrow> (u64 \<times> u64 list) option" where
  "CalLayers G sz ls at layer =
     (let k = int at + sint layer - 1; n = ceil_divide sz (items_per_bucket G)
      in if k < 0 \<or> int (length ls) \<le> k \<or> items_per_bucket G = 0 \<or> gaddrs_per_bucket G = 0 then None
         else Some (n * items_per_bucket G, layers_up (gaddrs_per_bucket G) at (nat (sint layer - 1)) (ls[nat k := n])))"

definition InsertBlock :: "'s array_env \<Rightarrow> gaddr \<Rightarrow> i32 \<Rightarrow> i32 \<Rightarrow> u64 \<Rightarrow> gaddr \<Rightarrow> 's \<Rightarrow> 's option" where
  "InsertBlock G root total_layer l idx newbk s = do {
     (addr, s) \<leftarrow> LocateInternal G root total_layer l idx s;
     (_, s) \<leftarrow> Galloc_Write (e_send G) (e_poke G s (e_newbk G) (le_bytes 8 (unat newbk))) addr 0 (e_newbk G) 8 0 None 0;
     Some s }"

text \<open>The loops over layers \<^verbatim>\<open>i\<close> and buckets \<^verbatim>\<open>j\<close> that allocate a bucket and insert it in the layer above.\<close>

fun new_blocks :: "'s array_env \<Rightarrow> gaddr \<Rightarrow> i32 \<Rightarrow> i32 \<Rightarrow> (nat \<times> nat) list \<Rightarrow> 's \<Rightarrow> 's option" where
  "new_blocks G root layer flag [] s = Some s"
| "new_blocks G root layer flag ((i, j) # ijs) s = do {
     (newbk, s) \<leftarrow> Galloc_AlignedMalloc (e_send G) s (e_BUCKET G) 0 flag;
     s \<leftarrow> InsertBlock G root layer (of_nat i) (of_nat j) newbk s;
     new_blocks G root layer flag ijs s }"

section \<open>Construction\<close>

definition new_GArray :: "ptr \<Rightarrow> i32 \<Rightarrow> GArray" where
  "new_GArray p flag = \<lparr>root_addr = 0, ga_size = 0, ga_capacity = 0, ga_layer = 0, ga_flag = flag, ga_header = 0, ga_this = p\<rparr>"

definition GArray_construct :: "'s array_env \<Rightarrow> ptr \<Rightarrow> u64 \<Rightarrow> i32 \<Rightarrow> 's \<Rightarrow> (GArray \<times> 's) option" where
  "GArray_construct G p sz flag s = do {
     let ga = (new_GArray p flag)\<lparr>ga_size := sz\<rparr>;
     (ga, s) \<leftarrow> (if sz \<le> items_per_bucket G
        then do {
          (root, s) \<leftarrow> Galloc_AlignedMalloc (e_send G) s (e_BUCKET G) 0 flag;
          Some (ga\<lparr>root_addr := root, ga_layer := 1, ga_capacity := items_per_bucket G\<rparr>, s) }
        else do {
          let layer = e_layers G sz;
          (capacity, layers_no) \<leftarrow> CalLayers G sz (replicate (unat layer) 0) 0 layer;
          (root, s) \<leftarrow> Galloc_AlignedMalloc (e_send G) s (e_BUCKET G) 0 flag;
          s \<leftarrow> new_blocks G root layer flag [(i, j). i \<leftarrow> [1..<unat layer], j \<leftarrow> [0..<unat (layers_no ! i)]] s;
          Some (ga\<lparr>root_addr := root, ga_layer := layer, ga_capacity := capacity\<rparr>, s) });
     Globalize G ga s }"

definition GArray_Clone :: "'s array_env \<Rightarrow> GArray \<Rightarrow> gaddr \<Rightarrow> 's \<Rightarrow> (GArray \<times> 's) option" where
  "GArray_Clone G ga header s = SyncFrom G (ga\<lparr>ga_header := header\<rparr>) s"

section \<open>Elements\<close>

definition GArray_Read :: "'s array_env \<Rightarrow> GArray \<Rightarrow> u64 \<Rightarrow> ptr \<Rightarrow> 's \<Rightarrow> (i32 \<times> GArray \<times> 's) option" where
  "GArray_Read G ga idx val s = do {
     (ga, s) \<leftarrow> SyncFrom G ga s;
     (addr, s) \<leftarrow> Locate G ga idx s;
     (ret, s) \<leftarrow> Galloc_Read (e_send G) s addr 0 val (e_T G) 0;
     Some (ret, ga, s) }"

definition GArray_Write :: "'s array_env \<Rightarrow> GArray \<Rightarrow> u64 \<Rightarrow> ptr \<Rightarrow> 's \<Rightarrow> (i32 \<times> GArray \<times> 's) option" where
  "GArray_Write G ga idx val s = do {
     (ga, s) \<leftarrow> SyncFrom G ga s;
     (addr, s) \<leftarrow> Locate G ga idx s;
     (ret, s) \<leftarrow> Galloc_Write (e_send G) s addr 0 val (e_T G) 0 None 0;
     Some (ret, ga, s) }"

text \<open>The comparison of elements is that of the element type, \<open>neq\<close>.\<close>

partial_function (option) equal_from ::
    "'s array_env \<Rightarrow> (u8 list \<Rightarrow> u8 list \<Rightarrow> bool) \<Rightarrow> u64 \<Rightarrow> GArray \<Rightarrow> GArray \<Rightarrow> 's \<Rightarrow> (bool \<times> GArray \<times> GArray \<times> 's) option" where
  "equal_from G neq i ga gb s =
     (if ga_size ga \<le> i then Some (True, ga, gb, s)
      else Option.bind (GArray_Read G ga i (e_val1 G) s) (\<lambda>(_, ga, s).
           Option.bind (GArray_Read G gb i (e_val2 G) s) (\<lambda>(_, gb, s).
             if neq (e_peek G s (e_val1 G) (unat (e_T G))) (e_peek G s (e_val2 G) (unat (e_T G))) then Some (False, ga, gb, s)
             else equal_from G neq (i + 1) ga gb s)))"

definition GArray_Equal :: "'s array_env \<Rightarrow> (u8 list \<Rightarrow> u8 list \<Rightarrow> bool) \<Rightarrow> GArray \<Rightarrow> GArray \<Rightarrow> 's \<Rightarrow> (bool \<times> GArray \<times> GArray \<times> 's) option" where
  "GArray_Equal G neq ga gb s =
     (if ga_size ga \<noteq> ga_size gb then Some (False, ga, gb, s) else equal_from G neq 0 ga gb s)"

section \<open>Resizing\<close>

definition LockHeader :: "'s array_env \<Rightarrow> GArray \<Rightarrow> 's \<Rightarrow> 's option" where
  "LockHeader G ga s = Galloc_WLock (e_send G) s (ga_header ga) (of_nat header_size)"

definition UnLockHeader :: "'s array_env \<Rightarrow> GArray \<Rightarrow> 's \<Rightarrow> 's option" where
  "UnLockHeader G ga s = Galloc_UnLock (e_send G) s (ga_header ga) (of_nat header_size)"

text \<open>
  The bucket allocations of an enlargement, when the depth stays: every layer is filled up. When it grows: the
  new upper layers, then the old root as the first bucket of its layer with new ones behind it, then the layers below
  it are filled up.
\<close>

definition fill_up :: "nat \<Rightarrow> nat \<Rightarrow> nat \<Rightarrow> u64 list \<Rightarrow> u64 list \<Rightarrow> (nat \<times> nat) list" where
  "fill_up i layer shift olds news = [(i, j). i \<leftarrow> [i..<layer], j \<leftarrow> [unat (olds ! (i - shift))..<unat (news ! i)]]"

definition Enlarge :: "'s array_env \<Rightarrow> GArray \<Rightarrow> u64 \<Rightarrow> 's \<Rightarrow> (GArray \<times> 's) option" where
  "Enlarge G ga n s = do {
     let layer = e_layers G n;
     let old_layer = ga_layer ga;
     (_, olds) \<leftarrow> CalLayers G (ga_size ga) (replicate (unat old_layer) 0) 0 old_layer;
     (capacity, news) \<leftarrow> CalLayers G n (replicate (unat layer) 0) 0 layer;
     let ga = ga\<lparr>ga_capacity := capacity\<rparr>;
     let fl = ga_flag ga;
     if old_layer <s layer
     then do {
       let old_root = root_addr ga;
       (root, s) \<leftarrow> Galloc_AlignedMalloc (e_send G) s (e_BUCKET G) 0 fl;
       let ga = ga\<lparr>ga_layer := layer, root_addr := root\<rparr>;
       let d = unat (layer - old_layer);
       s \<leftarrow> new_blocks G root layer fl [(i, j). i \<leftarrow> [1..<d], j \<leftarrow> [0..<unat (news ! i)]] s;
       s \<leftarrow> InsertBlock G root layer (of_nat d) 0 old_root s;
       s \<leftarrow> new_blocks G root layer fl (map (Pair d) [1..<unat (news ! d)]) s;
       s \<leftarrow> new_blocks G root layer fl (fill_up (d + 1) (unat layer) d olds news) s;
       Some (ga, s) }
     else do {
       s \<leftarrow> new_blocks G (root_addr ga) (ga_layer ga) fl (fill_up 1 (unat layer) 0 olds news) s;
       Some (ga, s) } }"

fun leftmost :: "'s array_env \<Rightarrow> nat \<Rightarrow> 's \<Rightarrow> 's option" where
  "leftmost G 0 s = Some s"
| "leftmost G (Suc i) s = do {
     (_, s) \<leftarrow> Galloc_Read (e_send G) s (of_nat (le_nat (e_peek G s (e_curr G) 8))) 0 (e_curr G) 8 0;
     leftmost G i s }"

fun free_blocks :: "'s array_env \<Rightarrow> gaddr \<Rightarrow> i32 \<Rightarrow> (nat \<times> nat) list \<Rightarrow> 's \<Rightarrow> 's option" where
  "free_blocks G root layer [] s = Some s"
| "free_blocks G root layer ((i, j) # ijs) s = do {
     (parent, s) \<leftarrow> LocateInternal G root layer (of_nat i) (of_nat j) s;
     (_, s) \<leftarrow> Galloc_Read (e_send G) s parent 0 (e_newbk G) 8 0;
     s \<leftarrow> Galloc_Free (e_send G) s (of_nat (le_nat (e_peek G s (e_newbk G) 8)));
     free_blocks G root layer ijs s }"

definition Shrink :: "'s array_env \<Rightarrow> GArray \<Rightarrow> u64 \<Rightarrow> 's \<Rightarrow> (GArray \<times> 's) option" where
  "Shrink G ga n s = do {
     let old_size = ga_size ga;
     let old_layer = ga_layer ga;
     let old_root = root_addr ga;
     let layer = e_layers G n;
     let reduced = nat (sint old_layer - sint layer);
     s \<leftarrow> leftmost G reduced (e_poke G s (e_curr G) (le_bytes 8 (unat old_root)));
     let ga = ga\<lparr>ga_size := n, ga_layer := layer, ga_capacity := Capacity G n, root_addr := of_nat (le_nat (e_peek G s (e_curr G) 8))\<rparr>;
     s \<leftarrow> SyncTo G ga s;
     (_, olds) \<leftarrow> CalLayers G old_size (replicate (unat old_layer) 0) 0 old_layer;
     (_, news) \<leftarrow> CalLayers G n (replicate (unat old_layer) 0) reduced layer;
     s \<leftarrow> free_blocks G old_root old_layer [(i, j). i \<leftarrow> rev [1..<unat old_layer], j \<leftarrow> rev [unat (news ! i)..<unat (olds ! i)]] s;
     s \<leftarrow> (if reduced \<noteq> 0 then Galloc_Free (e_send G) s old_root else Some s);
     Some (ga, s) }"

definition GArray_Resize :: "'s array_env \<Rightarrow> GArray \<Rightarrow> u64 \<Rightarrow> 's \<Rightarrow> (GArray \<times> 's) option" where
  "GArray_Resize G ga n s = do {
     s \<leftarrow> LockHeader G ga s;
     (ga, s) \<leftarrow> SyncFrom G ga s;
     (ga, s) \<leftarrow> (if ga_size ga < n
        then do {
          (ga, s) \<leftarrow> (if ga_capacity ga < n then Enlarge G ga n s else Some (ga, s));
          let ga = ga\<lparr>ga_size := n\<rparr>;
          s \<leftarrow> SyncTo G ga s;
          Some (ga, s) }
        else if n < ga_size ga then Shrink G ga n s else Some (ga, s));
     s \<leftarrow> UnLockHeader G ga s;
     Some (ga, s) }"

end
