(* ===== verification/Gam_Array_Tree.thy ===== *)
theory Gam_Array_Tree
  imports Gam_Array
begin

text \<open>
  The buckets of an array as a tree in memory: where a bucket is, what keeps the tree intact, and how it
  grows. Statements on memory alone; \<open>Gam_Array_Ok\<close> relates them to the code.
\<close>

section \<open>Numbers in memory\<close>

definition word_at :: "memory \<Rightarrow> ptr \<Rightarrow> u64" where
  "word_at M p = of_nat (le_nat (mem_read M p 8))"

lemma word_at_write: "word_at (mem_write M p (le_bytes 8 (unat v))) p = v"
  using mem_read_write [of "le_bytes 8 (unat v)" M p] by (simp add: word_at_def le_nat_word64 del: le_bytes.simps)

lemma word_at_apart: "apart q (length bs) p 8 \<Longrightarrow> word_at (mem_write M q bs) p = word_at M p"
  by (simp add: word_at_def mem_read_write_apart)

section \<open>The tree\<close>

text \<open>Bucket \<open>j\<close> at depth \<open>d\<close>, where a bucket has room for \<open>g\<close> addresses, and the place of the pointer to bucket \<open>j\<close> below depth \<open>d\<close>.\<close>

fun node :: "memory \<Rightarrow> nat \<Rightarrow> gaddr \<Rightarrow> nat \<Rightarrow> nat \<Rightarrow> gaddr" where
  "node M g root 0 j = root"
| "node M g root (Suc d) j = word_at M (node M g root d (j div g) + of_nat (8 * (j mod g)))"

abbreviation slot :: "memory \<Rightarrow> nat \<Rightarrow> gaddr \<Rightarrow> nat \<Rightarrow> nat \<Rightarrow> gaddr" where
  "slot M g root d j \<equiv> node M g root d (j div g) + of_nat (8 * (j mod g))"

text \<open>The first \<open>cnt d\<close> buckets of every depth are allocated, with at least \<open>B\<close> bytes each, and no bucket is in two places.\<close>

definition tree :: "memory \<Rightarrow> (gaddr \<rightharpoonup> nat) \<Rightarrow> nat \<Rightarrow> nat \<Rightarrow> gaddr \<Rightarrow> (nat \<Rightarrow> nat) \<Rightarrow> bool" where
  "tree M U g B root cnt \<longleftrightarrow> 0 < g \<and> 8 * g \<le> B \<and> (\<forall>d. cnt (Suc d) \<le> g * cnt d) \<and>
     (\<forall>d j. j < cnt d \<longrightarrow> (\<exists>n. U (node M g root d j) = Some n \<and> B \<le> n)) \<and>
     (\<forall>d j d' j'. j < cnt d \<longrightarrow> j' < cnt d' \<longrightarrow> node M g root d j = node M g root d' j' \<longrightarrow> d = d' \<and> j = j')"

definition blocks_apart :: "(gaddr \<rightharpoonup> nat) \<Rightarrow> bool" where
  "blocks_apart U \<longleftrightarrow> (\<forall>p m. U p = Some m \<longrightarrow> m \<le> 2 ^ 64 \<and> (\<forall>q n. U q = Some n \<longrightarrow> p \<noteq> q \<longrightarrow> apart p m q n))"

lemma tree_parent: "tree M U g B root cnt \<Longrightarrow> j < cnt (Suc d) \<Longrightarrow> j div g < cnt d"
  by (auto simp: tree_def less_mult_imp_div_less mult.commute dest: order_less_le_trans)

lemma tree_block:
  assumes "tree M U g B root cnt" "j < cnt d"
  obtains n where "U (node M g root d j) = Some n" "B \<le> n"
  using assms unfolding tree_def by blast

lemma slot_in_block: "tree M U g B root cnt \<Longrightarrow> 8 * (j mod g) + 8 \<le> B"
proof -
  assume "tree M U g B root cnt"
  then have "j mod g < g" "8 * g \<le> B" by (simp_all add: tree_def)
  then show ?thesis by linarith
qed

text \<open>Ranges inside different buckets share no byte.\<close>

lemma node_ranges_apart:
  assumes t: "tree M U g B root cnt" and U: "blocks_apart U" and j: "j < cnt d" "j' < cnt d'" and ne: "(d, j) \<noteq> (d', j')"
    and r: "x + k \<le> B" "y + l \<le> B"
  shows "apart (node M g root d j + of_nat x) k (node M g root d' j' + of_nat y) l"
proof -
  obtain n n' where n: "U (node M g root d j) = Some n" "B \<le> n" "U (node M g root d' j') = Some n'" "B \<le> n'"
    using tree_block [OF t j(1)] tree_block [OF t j(2)] by metis
  have "node M g root d j \<noteq> node M g root d' j'" using t j ne unfolding tree_def by blast
  then show ?thesis using n r U by (intro apart_parts [of _ n _ n']) (auto simp: blocks_apart_def)
qed

lemma pointers_apart:
  assumes t: "tree M U g B root cnt" and U: "blocks_apart U" and j: "j div g < cnt d" "j' div g < cnt d'" and ne: "(d, j) \<noteq> (d', j')"
  shows "apart (slot M g root d j) 8 (slot M g root d' j') 8"
proof (cases "(d, j div g) = (d', j' div g)")
  case True
  then have "j mod g \<noteq> j' mod g" using ne by (metis div_mult_mod_eq prod.inject)
  moreover obtain n where "U (node M g root d (j div g)) = Some n" "B \<le> n" using tree_block [OF t j(1)] .
  then have "B \<le> 2 ^ 64" using U by (auto simp: blocks_apart_def intro: order_trans)
  ultimately have "apart (node M g root d (j div g) + of_nat (8 * (j mod g))) 8 (node M g root d (j div g) + of_nat (8 * (j' mod g))) 8"
    using slot_in_block [OF t, of j] slot_in_block [OF t, of j'] by (intro apart_inside) linarith+
  then show ?thesis using True by simp
next
  case False
  then show ?thesis using node_ranges_apart [OF t U j] slot_in_block [OF t] by blast
qed

text \<open>The tree is the pointers of its buckets: a memory that has the same pointers has the same tree.\<close>

lemma node_cong:
  assumes "\<forall>d. cnt (Suc d) \<le> g * cnt d" "0 < g"
    and "\<And>e i. i < cnt (Suc e) \<Longrightarrow> word_at M' (slot M g root e i) = word_at M (slot M g root e i)"
  shows "j < cnt d \<Longrightarrow> node M' g root d j = node M g root d j"
proof (induction d arbitrary: j)
  case (Suc d)
  have "j < g * cnt d" using Suc.prems assms(1) order_less_le_trans by blast
  then have "j div g < cnt d" by (simp add: less_mult_imp_div_less mult.commute)
  then show ?case using Suc.IH assms(3) [OF Suc.prems] by simp
qed simp

lemma tree_cong:
  assumes t: "tree M U g B root cnt" and M: "\<And>d j. j < cnt d \<Longrightarrow> node M' g root d j = node M g root d j"
    and U: "\<And>d j n. j < cnt d \<Longrightarrow> U (node M g root d j) = Some n \<Longrightarrow> U' (node M g root d j) = Some n"
  shows "tree M' U' g B root cnt"
  using t M U unfolding tree_def by (metis (no_types, lifting))

text \<open>A memory with the same bytes in every block.\<close>

definition agree :: "(gaddr \<rightharpoonup> nat) \<Rightarrow> memory \<Rightarrow> memory \<Rightarrow> bool" where
  "agree U M M' \<longleftrightarrow> (\<forall>q k. U q = Some k \<longrightarrow> mem_read M' q k = mem_read M q k)"

lemma agree_part:
  assumes "agree U M M'" "U q = Some k" "x + l \<le> k"
  shows "mem_read M' (q + of_nat x) l = mem_read M (q + of_nat x) l"
proof (rule mem_read_cong)
  fix i assume "i < l"
  then have "x + i < k" using assms(3) by simp
  moreover have "mem_read M' q k ! (x + i) = mem_read M q k ! (x + i)" using assms(1,2) by (simp add: agree_def)
  ultimately show "M' (q + of_nat x + of_nat i) = M (q + of_nat x + of_nat i)" by (simp add: add.assoc)
qed

lemma tree_agree:
  assumes t: "tree M U g B root cnt" and a: "agree U M M'"
  shows "i < cnt e \<Longrightarrow> node M' g root e i = node M g root e i"
proof (rule node_cong [of cnt])
  fix e i assume "i < cnt (Suc e)"
  then obtain k where k: "U (node M g root e (i div g)) = Some k" "B \<le> k" using tree_block [OF t tree_parent [OF t]] by blast
  then show "word_at M' (slot M g root e i) = word_at M (slot M g root e i)"
    using agree_part [OF a k(1), of "8 * (i mod g)" 8] slot_in_block [OF t, of i] by (simp add: word_at_def)
qed (use t in \<open>auto simp: tree_def\<close>)

text \<open>One more bucket: the block \<open>a\<close>, not in the tree yet, becomes bucket \<open>cnt (Suc d)\<close> at depth \<open>Suc d\<close>.\<close>

lemma tree_grow:
  assumes t: "tree M U g B root cnt" and U: "blocks_apart U" and j: "j = cnt (Suc d)" "j div g < cnt d"
    and a: "U a = Some n" "B \<le> n" "\<And>e i. i < cnt e \<Longrightarrow> node M g root e i \<noteq> a"
    and M': "M' = mem_write M (slot M g root d j) (le_bytes 8 (unat a))"
  shows "tree M' U g B root (cnt(Suc d := Suc j))" "\<And>e i. i < cnt e \<Longrightarrow> node M' g root e i = node M g root e i" "node M' g root (Suc d) j = a"
proof -
  have w: "word_at M' (slot M g root e i) = word_at M (slot M g root e i)" if i: "i < cnt (Suc e)" for e i
  proof -
    have "(d, j) \<noteq> (e, i)" using i j(1) by auto
    then have "apart (slot M g root d j) 8 (slot M g root e i) 8" using pointers_apart [OF t U j(2) tree_parent [OF t i]] by blast
    then show ?thesis unfolding M' by (simp add: word_at_apart del: le_bytes.simps)
  qed
  have old: "node M' g root e i = node M g root e i" if "i < cnt e" for e i
    using node_cong [of cnt g M' M root i e] t w that by (auto simp: tree_def)
  have new: "node M' g root (Suc d) j = a" using old [OF j(2)] by (simp add: M' word_at_write del: le_bytes.simps)
  show "\<And>e i. i < cnt e \<Longrightarrow> node M' g root e i = node M g root e i" "node M' g root (Suc d) j = a" by (rule old, assumption) (rule new)
  let ?c = "cnt(Suc d := Suc j)"
  have cases: "i < ?c e \<longleftrightarrow> i < cnt e \<or> (e = Suc d \<and> i = j)" for e i using j(1) by auto
  have "?c (Suc e) \<le> g * ?c e" for e
  proof (cases "e = d")
    case True
    have "j < g * cnt d" using j(2) t by (metis tree_def div_less_iff_less_mult mult.commute)
    then show ?thesis using True by simp
  next
    case False
    have "cnt (Suc e) \<le> g * cnt e" using t by (simp add: tree_def)
    then show ?thesis using False j(1) by (auto intro: order_trans)
  qed
  moreover have "\<exists>k. U (node M' g root e i) = Some k \<and> B \<le> k" if "i < ?c e" for e i
    using that cases [of i e] old new a tree_block [OF t] by metis
  moreover have "e = e' \<and> i = i'" if "i < ?c e" "i' < ?c e'" "node M' g root e i = node M' g root e' i'" for e i e' i'
    using that cases [of i e] cases [of i' e'] old new a(3) t unfolding tree_def by (metis (no_types, lifting))
  ultimately show "tree M' U g B root ?c" using t unfolding tree_def by blast
qed

text \<open>A write inside a bucket that has no buckets below it changes no pointer.\<close>

lemma tree_leaf_write:
  assumes t: "tree M U g B root cnt" and U: "blocks_apart U" and j: "j < cnt d" "cnt (Suc d) = 0" and x: "x + length bs \<le> B"
  shows "i < cnt e \<Longrightarrow> node (mem_write M (node M g root d j + of_nat x) bs) g root e i = node M g root e i"
proof (rule node_cong [of cnt])
  fix e i assume i: "i < cnt (Suc e)"
  then have "(d, j) \<noteq> (e, i div g)" using j(2) by auto
  then show "word_at (mem_write M (node M g root d j + of_nat x) bs) (slot M g root e i) = word_at M (slot M g root e i)"
    using node_ranges_apart [OF t U j(1) tree_parent [OF t i] _ x slot_in_block [OF t]] by (simp add: word_at_apart)
qed (use t in \<open>auto simp: tree_def\<close>)

section \<open>Paths\<close>

text \<open>The places to look at on the way to bucket \<open>j\<close> at depth \<open>d\<close>.\<close>

fun path :: "nat \<Rightarrow> nat \<Rightarrow> nat \<Rightarrow> nat list" where
  "path g 0 j = []"
| "path g (Suc d) j = path g d (j div g) @ [j mod g]"

lemma length_path [simp]: "length (path g d j) = d"
  by (induction d arbitrary: j) simp_all

lemma layer_offs_path: "layer_offs g d tmp offs = map of_nat (path (unat g) d (unat tmp)) @ offs"
  by (induction d arbitrary: tmp offs) (simp_all add: unat_div unat_mod flip: unat_div unat_mod)

section \<open>Layers\<close>

lemma unat_ceil_divide:
  assumes "b \<noteq> 0" "unat a + unat b \<le> 2 ^ 64"
  shows "unat (ceil_divide a b) = (unat a + unat b - 1) div unat b"
proof -
  have b: "0 < unat b" using assms(1) by (simp add: unat_gt_0)
  have e: "a + b - 1 = of_nat (unat a + unat b - 1)" using b by (simp add: of_nat_diff)
  have "unat (a + b - 1) = unat a + unat b - 1" unfolding e using assms(2) b by (simp only: unat_of_nat) (rule mod_less, simp)
  then show ?thesis by (simp add: ceil_divide_def unat_div)
qed

lemma ceil_le_mult: "0 < b \<Longrightarrow> (a :: nat) \<le> (a + b - 1) div b * b"
proof -
  assume "0 < b"
  then have "(a + b - 1) mod b < b" by simp
  then show ?thesis using div_mult_mod_eq [of "a + b - 1" b] \<open>0 < b\<close> by linarith
qed

lemma length_layers_up [simp]: "length (layers_up g at k ls) = length ls"
  by (induction k arbitrary: ls) simp_all

text \<open>The layers above the last are as many buckets as the pointers to the layer below need.\<close>

lemma layers_up_nth:
  "k < length ls \<Longrightarrow> (\<forall>d \<ge> k. d < length ls \<longrightarrow> layers_up g 0 k ls ! d = ls ! d) \<and>
     (\<forall>d < k. layers_up g 0 k ls ! d = ceil_divide (layers_up g 0 k ls ! Suc d) g)"
proof (induction k arbitrary: ls)
  case (Suc k)
  let ?ls = "ls[k := ceil_divide (ls ! Suc k) g]"
  have I: "layers_up g 0 k ?ls ! d = ?ls ! d" if "k \<le> d" "d < length ls" for d using Suc.IH [of ?ls] Suc.prems that by simp
  have J: "layers_up g 0 k ?ls ! d = ceil_divide (layers_up g 0 k ?ls ! Suc d) g" if "d < k" for d using Suc.IH [of ?ls] Suc.prems that by simp
  have "layers_up g 0 k ?ls ! d = ceil_divide (layers_up g 0 k ?ls ! Suc d) g" if "d < Suc k" for d
    using that J [of d] I [of k] I [of "Suc k"] Suc.prems by (cases "d = k") auto
  moreover have "layers_up g 0 k ?ls ! d = ls ! d" if "Suc k \<le> d" "d < length ls" for d using I [of d] that by simp
  ultimately show ?case by simp
qed simp

lemma ceil_le_pow: "0 < b \<Longrightarrow> (a :: nat) \<le> b * c \<Longrightarrow> (a + b - 1) div b \<le> c"
proof -
  assume b: "0 < b" "a \<le> b * c"
  then have "(a + b - 1) div b \<le> (b - 1 + b * c) div b" by (intro div_le_mono) simp
  also have "\<dots> = c" using b(1) div_mult_self2 [of b "b - 1" c] by (simp only: div_less)
  finally show ?thesis .
qed

text \<open>
  The sizes of the layers of an array with \<open>L\<close> layers that is large enough for \<open>sz\<close> elements: one bucket on top, below
  each bucket no more than it has room for, and enough of them at the end.
\<close>

lemma CalLayers_ok:
  assumes L: "1 \<le> L" "L < 2 ^ 31" and ip: "items_per_bucket G \<noteq> 0" and gp: "gaddrs_per_bucket G \<noteq> 0"
    and sz: "0 < unat sz" "unat sz \<le> unat (items_per_bucket G) * unat (gaddrs_per_bucket G) ^ (L - 1)" "unat sz < 2 ^ 62"
    and w: "unat (items_per_bucket G) < 2 ^ 31" "unat (gaddrs_per_bucket G) < 2 ^ 31"
  shows "\<exists>ls. CalLayers G sz (replicate L 0) 0 (of_nat L) = Some (Capacity G sz, ls) \<and> length ls = L \<and> unat (ls ! 0) = 1 \<and>
    (\<forall>d. Suc d < L \<longrightarrow> unat (ls ! Suc d) \<le> unat (gaddrs_per_bucket G) * unat (ls ! d)) \<and> unat sz \<le> unat (ls ! (L - 1)) * unat (items_per_bucket G) \<and> (\<forall>d < L. unat (ls ! d) < 2 ^ 63)"
proof -
  let ?n = "ceil_divide sz (items_per_bucket G)" and ?I = "unat (items_per_bucket G)" and ?g = "unat (gaddrs_per_bucket G)"
  let ?init = "(replicate L 0)[L - 1 := ?n]" and ?ls = "layers_up (gaddrs_per_bucket G) 0 (L - 1) ((replicate L 0)[L - 1 := ?n])"
  have l: "sint (of_nat L :: i32) = int L" "unat (of_nat L :: i32) = L" using L by (simp_all add: sint_of_nat_small unat_of_nat)
  have run: "CalLayers G sz (replicate L 0) 0 (of_nat L) = Some (Capacity G sz, ?ls)"
    using L l ip gp by (simp add: CalLayers_def Let_def Capacity_def nat_diff_distrib)
  have I0: "0 < ?I" "0 < ?g" using ip gp by (simp_all add: unat_gt_0)
  note up = layers_up_nth [of "L - 1" ?init "gaddrs_per_bucket G"]
  have last: "?ls ! (L - 1) = ?n" using up L by simp
  have st: "?ls ! d = ceil_divide (?ls ! Suc d) (gaddrs_per_bucket G)" if "Suc d < L" for d using up L that by simp
  have n: "unat ?n = (unat sz + ?I - 1) div ?I" using unat_ceil_divide [OF ip] sz(3) w(1) by simp
  have n1: "0 < unat ?n" "unat ?n \<le> unat sz" "unat ?n \<le> ?g ^ (L - 1)"
  proof -
    show "0 < unat ?n" unfolding n using sz(1) I0 by (simp add: div_greater_zero_iff)
    have "1 * unat sz \<le> ?I * unat sz" using I0 by (intro mult_le_mono1) simp
    then show "unat ?n \<le> unat sz" unfolding n using I0 by (intro ceil_le_pow) simp_all
    show "unat ?n \<le> ?g ^ (L - 1)" unfolding n using I0 sz(2) by (intro ceil_le_pow)
  qed
  have B: "0 < unat (?ls ! d) \<and> unat (?ls ! d) \<le> unat sz \<and> unat (?ls ! d) \<le> ?g ^ d" if d: "d < L" for d
  proof -
    have "d \<le> L - 1" using d by simp
    then show ?thesis
    proof (induction d rule: inc_induct)
      case (step m)
      have m: "Suc m < L" using step.hyps by simp
      have e: "unat (?ls ! m) = (unat (?ls ! Suc m) + ?g - 1) div ?g"
        unfolding st [OF m] using unat_ceil_divide [OF gp] step.IH sz(3) w(2) by simp
      have "1 * unat (?ls ! Suc m) \<le> ?g * unat (?ls ! Suc m)" using I0 by (intro mult_le_mono1) simp
      then have "unat (?ls ! m) \<le> unat (?ls ! Suc m)" unfolding e using I0 by (intro ceil_le_pow) simp_all
      moreover have "unat (?ls ! m) \<le> ?g ^ m" unfolding e using I0 step.IH by (intro ceil_le_pow) simp_all
      moreover have "?g \<le> unat (?ls ! Suc m) + ?g - 1" using step.IH by linarith
      then have "0 < unat (?ls ! m)" unfolding e using I0 by (simp only: div_greater_zero_iff)
      ultimately show ?case using step.IH by simp
    qed (use last n1 in simp)
  qed
  have e: "unat (?ls ! d) = (unat (?ls ! Suc d) + ?g - 1) div ?g" if d: "Suc d < L" for d
    unfolding st [OF d] using unat_ceil_divide [OF gp] B [OF d] sz(3) w(2) by simp
  have "unat (?ls ! Suc d) \<le> ?g * unat (?ls ! d)" if "Suc d < L" for d using e [OF that] ceil_le_mult [OF I0(2)] by (simp add: mult.commute)
  moreover have "unat (?ls ! 0) = 1" using B [of 0] L by simp
  moreover have "unat sz \<le> unat (?ls ! (L - 1)) * ?I" unfolding last n by (rule ceil_le_mult [OF I0(1)])
  moreover have "unat (?ls ! d) < 2 ^ 63" if "d < L" for d using B [OF that] sz(3) by simp
  ultimately show ?thesis using run by (intro exI [of _ ?ls]) simp
qed

text \<open>The number of buckets per layer of a new array.\<close>

definition bucket_list :: "'s array_env \<Rightarrow> u64 \<Rightarrow> u64 list" where
  "bucket_list G sz = (if sz \<le> items_per_bucket G then [1]
     else case CalLayers G sz (replicate (unat (e_layers G sz)) 0) 0 (e_layers G sz) of Some (_, ls) \<Rightarrow> ls | None \<Rightarrow> [])"

section \<open>The order of insertion\<close>

text \<open>Every bucket is inserted behind the ones of its depth, below one that is already there.\<close>

fun fits :: "nat \<Rightarrow> nat \<Rightarrow> (nat \<Rightarrow> nat) \<Rightarrow> (nat \<times> nat) list \<Rightarrow> bool" where
  "fits g L cnt [] \<longleftrightarrow> True"
| "fits g L cnt ((i, j) # ijs) \<longleftrightarrow> 1 \<le> i \<and> i < L \<and> j = cnt i \<and> j div g < cnt (i - 1) \<and> j < 2 ^ 64 \<and> fits g L (cnt(i := Suc j)) ijs"

fun grown :: "(nat \<Rightarrow> nat) \<Rightarrow> (nat \<times> nat) list \<Rightarrow> nat \<Rightarrow> nat" where
  "grown cnt [] = cnt"
| "grown cnt ((i, j) # ijs) = grown (cnt(i := Suc j)) ijs"

lemma fits_layer:
  assumes i: "1 \<le> i" "i < L" and g: "0 < g" and n: "n \<le> g * cnt (i - 1)" "n \<le> 2 ^ 64"
  shows "k \<le> n \<Longrightarrow> cnt i = k \<Longrightarrow> fits g L cnt (map (Pair i) [k..<n] @ ijs) = fits g L (cnt(i := n)) ijs \<and>
    grown cnt (map (Pair i) [k..<n] @ ijs) = grown (cnt(i := n)) ijs"
  using n(1)
proof (induction "n - k" arbitrary: k cnt)
  case 0
  then have "k = n" "cnt(i := n) = cnt" by auto
  then show ?case by simp
next
  case (Suc m)
  have k: "[k..<n] = k # [Suc k..<n]" "k < n" using Suc.hyps(2) by (simp_all add: upt_rec)
  have "k < g * cnt (i - 1)" using k(2) Suc.prems(3) by simp
  then have "k div g < cnt (i - 1)" by (simp add: less_mult_imp_div_less mult.commute)
  moreover have "i - 1 \<noteq> i" using i(1) by simp
  ultimately show ?case using Suc.hyps(1) [of "Suc k" "cnt(i := Suc k)"] Suc.hyps(2) Suc.prems k i n(2) by simp
qed

lemma fits_layers:
  assumes g: "0 < g" and N: "\<And>d. Suc d < L \<Longrightarrow> N (Suc d) \<le> g * N d" "\<And>d. d < L \<Longrightarrow> N d \<le> 2 ^ 64" "\<And>d. d < L \<Longrightarrow> old d \<le> N d"
    and i: "1 \<le> i" "i \<le> L"
  shows "fits g L (\<lambda>d. if d < i then N d else old d) (concat (map (\<lambda>i. map (Pair i) [old i..<N i]) [i..<L])) \<and>
    grown (\<lambda>d. if d < i then N d else old d) (concat (map (\<lambda>i. map (Pair i) [old i..<N i]) [i..<L])) = (\<lambda>d. if d < L then N d else old d)"
  using i(2,1)
proof (induction i rule: inc_induct)
  case (step i)
  let ?c = "\<lambda>d. if d < i then N d else old d"
  have "?c(i := N i) = (\<lambda>d. if d < Suc i then N d else old d)" by (auto simp: less_Suc_eq)
  moreover have "N i \<le> g * ?c (i - 1)" using N(1) [of "i - 1"] step.hyps step.prems by simp
  moreover have "[i..<L] = i # [Suc i..<L]" using step.hyps by (simp add: upt_rec)
  ultimately show ?case using fits_layer [OF step.prems _ g, of L "N i" ?c "old i" "concat (map (\<lambda>i. map (Pair i) [old i..<N i]) [Suc i..<L])"] step N(2,3) [of i] by simp
qed simp

end
