(* ===== verification/Gam_Array_Ok.thy ===== *)
theory Gam_Array_Ok
  imports Gam_Array_Tree
begin

text \<open>
  The array is an array: the locale \<open>global_heap\<close> is what the code of \<open>Gam_Array\<close> needs of global memory, and in it
  construction, reads and writes are those of an array of elements. \<open>Gam_Home_Array\<close> shows that the worker
  keeps the contract.
\<close>

section \<open>Arrays as lists\<close>

text \<open>
  Reads and writes of elements through any object attached to the header of the array, whatever the object remembers of
  root, size and depth, with \<open>val\<close> as the buffer for elements; and the same on a list of elements. Both give what the
  reads return.
\<close>

datatype array_op = AtRead GArray u64 | AtWrite GArray u64 "u8 list"

fun run_ops :: "'s array_env \<Rightarrow> gaddr \<Rightarrow> ptr \<Rightarrow> array_op list \<Rightarrow> 's \<Rightarrow> (u8 list list \<times> 's) option" where
  "run_ops G hdr val [] s = Some ([], s)"
| "run_ops G hdr val (AtRead g i # ops) s = do {
     (_, _, s) \<leftarrow> GArray_Read G (g\<lparr>ga_header := hdr\<rparr>) i val s;
     (outs, s') \<leftarrow> run_ops G hdr val ops s;
     Some (e_peek G s val (unat (e_T G)) # outs, s') }"
| "run_ops G hdr val (AtWrite g i bs # ops) s = do {
     (_, _, s) \<leftarrow> GArray_Write G (g\<lparr>ga_header := hdr\<rparr>) i val (e_poke G s val bs);
     run_ops G hdr val ops s }"

fun list_ops :: "u8 list list \<Rightarrow> array_op list \<Rightarrow> u8 list list" where
  "list_ops xs [] = []"
| "list_ops xs (AtRead g i # ops) = xs ! unat i # list_ops xs ops"
| "list_ops xs (AtWrite g i bs # ops) = list_ops (xs[unat i := bs]) ops"

fun op_ok :: "(ptr \<Rightarrow> nat \<Rightarrow> bool) \<Rightarrow> ptr \<Rightarrow> nat \<Rightarrow> u64 \<Rightarrow> array_op \<Rightarrow> bool" where
  "op_ok buf val t sz (AtRead g i) \<longleftrightarrow> i < sz \<and> buf (ga_this g) 32 \<and> apart (ga_this g) 32 val t"
| "op_ok buf val t sz (AtWrite g i bs) \<longleftrightarrow> i < sz \<and> buf (ga_this g) 32 \<and> apart (ga_this g) 32 val t \<and> length bs = t"

section \<open>The contract of global memory\<close>

definition read_request :: "gaddr \<Rightarrow> ptr \<Rightarrow> u64 \<Rightarrow> WorkRequest" where
  "read_request a p k = new_WorkRequest\<lparr>wr_op := READ, wr_flag := 0, wr_size := k, wr_addr := a, wr_ptr := p\<rparr>"

definition write_request :: "gaddr \<Rightarrow> ptr \<Rightarrow> u64 \<Rightarrow> WorkRequest" where
  "write_request a p k = new_WorkRequest\<lparr>wr_op := WRITE, wr_flag := 0 OR ASYNC, wr_size := k, wr_addr := a, wr_ptr := p\<rparr>"

definition malloc_request :: "u64 \<Rightarrow> WorkRequest" where
  "malloc_request k = new_WorkRequest\<lparr>wr_op := MALLOC, wr_flag := 0 OR ALIGNED, wr_size := k, wr_addr := 0\<rparr>"

lemma Galloc_Read_eq:
  "Galloc_Read send s a off p k 0 = do { (st, w, s) \<leftarrow> send s (read_request (GADD a off) p k); Some (if st \<noteq> 0 then 0 else ucast (wr_size w), s) }"
  by (simp add: Galloc_Read_def read_request_def)

lemma Galloc_Write_eq:
  "Galloc_Write send s a off p k 0 None x = do { (st, w, s) \<leftarrow> send s (write_request (GADD a off) p k); Some (if st \<noteq> 0 then 0 else ucast (wr_size w), s) }"
  by (simp add: Galloc_Write_def write_request_def Let_def)

lemma Galloc_AlignedMalloc_eq:
  "Galloc_AlignedMalloc send s k 0 0 = do { (st, w, s) \<leftarrow> send s (malloc_request k); Some (if st \<noteq> 0 then Gnullptr else wr_addr w, s) }"
  by (simp add: Galloc_AlignedMalloc_def malloc_request_def)

text \<open>
  The blocks \<open>used\<close> in global memory hold \<open>bytes\<close>; \<open>room\<close> is for which sizes, one after the other, allocation
  succeeds; \<open>buf\<close> are the ranges of the thread's own memory that may serve as buffers, read by \<open>peek\<close> and written by \<open>poke\<close>.
\<close>

locale global_heap =
  fixes send :: "'s sender" and peek :: "'s \<Rightarrow> ptr \<Rightarrow> nat \<Rightarrow> u8 list" and poke :: "'s \<Rightarrow> ptr \<Rightarrow> u8 list \<Rightarrow> 's"
    and ready :: "'s \<Rightarrow> bool" and bytes :: "'s \<Rightarrow> memory" and used :: "'s \<Rightarrow> gaddr \<rightharpoonup> nat" and room :: "'s \<Rightarrow> u64 list \<Rightarrow> bool"
    and buf :: "ptr \<Rightarrow> nat \<Rightarrow> bool"
  assumes read_law: "ready s \<Longrightarrow> used s a = Some n \<Longrightarrow> x + k \<le> n \<Longrightarrow> 0 < k \<Longrightarrow> buf p k \<Longrightarrow>
      \<exists>w s'. send s (read_request (a + of_nat x) p (of_nat k)) = Some (0, w, s') \<and> wr_size w = of_nat k \<and> ready s' \<and> bytes s' = bytes s \<and> used s' = used s \<and>
        room s' = room s \<and> peek s' p k = mem_read (bytes s) (a + of_nat x) k \<and> (\<forall>q l. buf q l \<longrightarrow> apart p k q l \<longrightarrow> peek s' q l = peek s q l)"
    and write_law: "ready s \<Longrightarrow> used s a = Some n \<Longrightarrow> x + k \<le> n \<Longrightarrow> 0 < k \<Longrightarrow> buf p k \<Longrightarrow>
      \<exists>w s'. send s (write_request (a + of_nat x) p (of_nat k)) = Some (0, w, s') \<and> wr_size w = of_nat k \<and> ready s' \<and> used s' = used s \<and>
        room s' = room s \<and> bytes s' = mem_write (bytes s) (a + of_nat x) (peek s p k) \<and> (\<forall>q l. buf q l \<longrightarrow> peek s' q l = peek s q l)"
    and malloc_law: "ready s \<Longrightarrow> room s (z # zs) \<Longrightarrow>
      \<exists>w s' n. send s (malloc_request z) = Some (0, w, s') \<and> wr_addr w \<noteq> 0 \<and> used s (wr_addr w) = None \<and> unat z \<le> n \<and> used s' = (used s)(wr_addr w \<mapsto> n) \<and>
        ready s' \<and> room s' zs \<and> mem_read (bytes s') (wr_addr w) (unat z) = replicate (unat z) 0 \<and>
        (\<forall>q l. used s q = Some l \<longrightarrow> mem_read (bytes s') q l = mem_read (bytes s) q l) \<and> (\<forall>q l. buf q l \<longrightarrow> peek s' q l = peek s q l)"
    and poke_law: "ready s \<Longrightarrow> buf p (length bs) \<Longrightarrow> ready (poke s p bs) \<and> bytes (poke s p bs) = bytes s \<and> used (poke s p bs) = used s \<and>
        room (poke s p bs) = room s \<and> peek (poke s p bs) p (length bs) = bs \<and> (\<forall>q l. buf q l \<longrightarrow> apart p (length bs) q l \<longrightarrow> peek (poke s p bs) q l = peek s q l)"
    and apart_law: "ready s \<Longrightarrow> blocks_apart (used s)"
    and buf_law: "buf p k \<Longrightarrow> length (peek s p k) = k"
begin

text \<open>A step that leaves global memory as it is and writes at most the buffer at \<open>p\<close>.\<close>

definition kept :: "ptr \<Rightarrow> nat \<Rightarrow> 's \<Rightarrow> 's \<Rightarrow> bool" where
  "kept p k s s' \<longleftrightarrow> ready s' \<and> bytes s' = bytes s \<and> used s' = used s \<and> room s' = room s \<and> (\<forall>q l. buf q l \<longrightarrow> apart p k q l \<longrightarrow> peek s' q l = peek s q l)"

lemma kept_trans: "kept p k s s' \<Longrightarrow> kept p k s' s'' \<Longrightarrow> kept p k s s''"
  by (simp add: kept_def)

definition env :: "'s array_env \<Rightarrow> bool" where
  "env G \<longleftrightarrow> e_send G = send \<and> e_peek G = peek \<and> e_poke G = poke \<and> buf (e_curr G) 8 \<and> buf (e_newbk G) 8 \<and>
     e_T G \<noteq> 0 \<and> e_T G \<le> e_BUCKET G \<and> 8 \<le> e_BUCKET G \<and> e_BUCKET G < 2 ^ 31"

lemma read_call:
  assumes "env G" "ready s" "used s a = Some n" "x + k \<le> n" "0 < k" "buf p k" "z = a + of_nat x" "u = of_nat k"
  shows "\<exists>s'. Galloc_Read (e_send G) s z 0 p u 0 = Some (ucast u, s') \<and> kept p k s s' \<and> peek s' p k = mem_read (bytes s) z k"
  using read_law [OF assms(2-6)] assms(1,7,8) by (auto simp: Galloc_Read_eq env_def kept_def GADD_def)

lemma write_call:
  assumes "env G" "ready s" "used s a = Some n" "x + k \<le> n" "0 < k" "buf p k" "z = a + of_nat x" "u = of_nat k"
  shows "\<exists>s'. Galloc_Write (e_send G) s z 0 p u 0 None 0 = Some (ucast u, s') \<and> ready s' \<and> used s' = used s \<and> room s' = room s \<and>
    bytes s' = mem_write (bytes s) z (peek s p k) \<and> (\<forall>q l. buf q l \<longrightarrow> peek s' q l = peek s q l)"
  using write_law [OF assms(2-6)] assms(1,7,8) by (auto simp: Galloc_Write_eq env_def GADD_def)

lemma malloc_call:
  assumes "env G" "ready s" "room s (k # ks)"
  shows "\<exists>a s' n. Galloc_AlignedMalloc (e_send G) s k 0 0 = Some (a, s') \<and> a \<noteq> 0 \<and> used s a = None \<and> unat k \<le> n \<and> used s' = (used s)(a \<mapsto> n) \<and>
    ready s' \<and> room s' ks \<and> mem_read (bytes s') a (unat k) = replicate (unat k) 0 \<and>
    (\<forall>q l. used s q = Some l \<longrightarrow> mem_read (bytes s') q l = mem_read (bytes s) q l) \<and> (\<forall>q l. buf q l \<longrightarrow> peek s' q l = peek s q l)"
  using malloc_law [OF assms(2,3)] assms(1) by (fastforce simp: Galloc_AlignedMalloc_eq env_def)

section \<open>Finding a place\<close>

lemma follow_append: "follow G (xs @ ys) s = do { s \<leftarrow> follow G xs s; follow G ys s }"
  by (induction xs arbitrary: s) (auto split: bind_splits)

abbreviation fan :: "'s array_env \<Rightarrow> nat" where
  "fan G \<equiv> unat (gaddrs_per_bucket G)"

abbreviation heap_tree :: "'s array_env \<Rightarrow> 's \<Rightarrow> gaddr \<Rightarrow> (nat \<Rightarrow> nat) \<Rightarrow> bool" where
  "heap_tree G s \<equiv> tree (bytes s) (used s) (fan G) (unat (e_BUCKET G))"

lemma follow_path:
  assumes G: "env G" and s: "ready s" and t: "heap_tree G s root cnt" and r: "of_nat (le_nat (peek s (e_curr G) 8)) = root"
  shows "j < cnt d \<Longrightarrow> \<exists>s'. follow G (map of_nat (path (fan G) d j)) s = Some s' \<and> kept (e_curr G) 8 s s' \<and>
    of_nat (le_nat (peek s' (e_curr G) 8)) = node (bytes s) (fan G) root d j"
proof (induction d arbitrary: j)
  case (Suc d)
  let ?j = "j div fan G" and ?x = "8 * (j mod fan G)" and ?p = "e_curr G"
  have j: "?j < cnt d" using tree_parent [OF t Suc.prems] .
  obtain s1 where s1: "follow G (map of_nat (path (fan G) d ?j)) s = Some s1" "kept ?p 8 s s1" "of_nat (le_nat (peek s1 ?p 8)) = node (bytes s) (fan G) root d ?j"
    using Suc.IH [OF j] by blast
  obtain n where n: "used s (node (bytes s) (fan G) root d ?j) = Some n" "unat (e_BUCKET G) \<le> n" using tree_block [OF t j] .
  have k1: "ready s1" "used s1 = used s" "bytes s1 = bytes s" using s1(2) by (simp_all add: kept_def)
  have b: "buf ?p 8" using G by (simp add: env_def)
  obtain s2 where s2: "Galloc_Read (e_send G) s1 (node (bytes s) (fan G) root d ?j + of_nat ?x) 0 ?p 8 0 = Some (ucast (8 :: u64), s2)" "kept ?p 8 s1 s2"
    "peek s2 ?p 8 = mem_read (bytes s1) (node (bytes s) (fan G) root d ?j + of_nat ?x) 8"
    using read_call [OF G k1(1), of "node (bytes s) (fan G) root d ?j" n ?x 8 ?p] n slot_in_block [OF t, of j] b k1(2) by auto
  have "Galloc_Read (e_send G) s1 (of_nat (le_nat (e_peek G s1 ?p 8))) (8 * of_nat (j mod fan G)) ?p 8 0 = Some (ucast (8 :: u64), s2)"
    using s2(1) s1(3) G by (simp add: Galloc_Read_eq GADD_def env_def)
  then have "follow G (map of_nat (path (fan G) (Suc d) j)) s = Some s2" by (simp add: follow_append s1(1))
  moreover have "of_nat (le_nat (peek s2 ?p 8)) = node (bytes s) (fan G) root (Suc d) j" using s2(3) k1(3) by (simp add: word_at_def)
  ultimately show ?case using kept_trans [OF s1(2) s2(2)] by blast
qed (use s r in \<open>simp add: kept_def\<close>)

lemma locate_ok:
  assumes G: "env G" and s: "ready s" and t: "heap_tree G s root cnt" and L: "1 \<le> L" "L < 2 ^ 31" and num: "num \<noteq> 0" and i: "unat idx div unat num < cnt (L - 1)"
  shows "\<exists>s'. locate G root (of_nat L) num item idx s = Some (node (bytes s) (fan G) root (L - 1) (unat idx div unat num) + (idx mod num) * item, s') \<and> kept (e_curr G) 8 s s'"
proof -
  let ?s = "poke s (e_curr G) (le_bytes 8 (unat root))" and ?p = "e_curr G"
  have P: "ready ?s" "bytes ?s = bytes s" "used ?s = used s" "kept ?p 8 s ?s" "peek ?s ?p 8 = le_bytes 8 (unat root)"
    using poke_law [OF s, of ?p "le_bytes 8 (unat root)"] G by (simp_all add: env_def kept_def del: le_bytes.simps)
  obtain s' where F: "follow G (map of_nat (path (fan G) (L - 1) (unat idx div unat num))) ?s = Some s'" "kept ?p 8 ?s s'"
    "of_nat (le_nat (peek s' ?p 8)) = node (bytes s) (fan G) root (L - 1) (unat idx div unat num)"
    using follow_path [OF G P(1), of root cnt] t i P(2,3,5) by (auto simp: le_nat_word64 simp del: le_bytes.simps)
  have l: "\<not> (of_nat L :: i32) <s 1" "unat (of_nat L :: i32) = L" using L by (simp_all add: word_sless_alt sint_of_nat_small unat_of_nat)
  have g: "gaddrs_per_bucket G \<noteq> 0" using t by (auto simp: tree_def)
  have "path (fan G) (L - 1) (unat (idx div num)) = path (fan G) (L - 1) (unat idx div unat num)" by (simp add: unat_div)
  then have "locate G root (of_nat L) num item idx s = Some (node (bytes s) (fan G) root (L - 1) (unat idx div unat num) + (idx mod num) * item, s')"
    using F(1,3) G l num g by (simp add: locate_def layer_offs_path Let_def env_def GADD_def del: le_bytes.simps)
  then show ?thesis using kept_trans [OF P(4) F(2)] by blast
qed

section \<open>Inserting buckets\<close>

lemma locate_slot:
  assumes G: "env G" and s: "ready s" and t: "heap_tree G s root cnt" and i: "1 \<le> i" "i < L" "L < 2 ^ 31" and j: "j div fan G < cnt (i - 1)" "j < 2 ^ 64"
  shows "\<exists>s'. LocateInternal G root (of_nat L) (of_nat i) (of_nat j) s = Some (slot (bytes s) (fan G) root (i - 1) j, s') \<and> kept (e_curr G) 8 s s'"
proof -
  have ne: "(of_nat i :: i32) \<noteq> of_nat L"
  proof
    assume "(of_nat i :: i32) = of_nat L"
    then have "unat (of_nat i :: i32) = unat (of_nat L :: i32)" by simp
    then show False using i by (simp add: unat_of_nat)
  qed
  have u: "unat (of_nat j :: u64) = j" using j(2) by (simp add: unat_of_nat)
  have g: "gaddrs_per_bucket G \<noteq> 0" using t by (auto simp: tree_def)
  have "of_nat j mod gaddrs_per_bucket G = of_nat (unat (of_nat j mod gaddrs_per_bucket G))" by simp
  also have "\<dots> = of_nat (j mod fan G)" by (simp only: unat_mod u)
  finally have "(of_nat j mod gaddrs_per_bucket G) * 8 = (of_nat (8 * (j mod fan G)) :: u64)" by (simp add: mult.commute)
  then show ?thesis using locate_ok [OF G s t, of i "gaddrs_per_bucket G" "of_nat j" 8] i j(1) g u ne by (simp add: LocateInternal_def)
qed

lemma insert_ok:
  assumes G: "env G" and s: "ready s" and t: "heap_tree G s root cnt" and i: "1 \<le> i" "i < L" "L < 2 ^ 31" and j: "j div fan G < cnt (i - 1)" "j < 2 ^ 64"
  shows "\<exists>s'. InsertBlock G root (of_nat L) (of_nat i) (of_nat j) a s = Some s' \<and> ready s' \<and> used s' = used s \<and> room s' = room s \<and>
    bytes s' = mem_write (bytes s) (slot (bytes s) (fan G) root (i - 1) j) (le_bytes 8 (unat a))"
proof -
  let ?q = "e_newbk G" and ?z = "slot (bytes s) (fan G) root (i - 1) j"
  obtain s1 where s1: "LocateInternal G root (of_nat L) (of_nat i) (of_nat j) s = Some (?z, s1)" "kept (e_curr G) 8 s s1"
    using locate_slot [OF assms] by blast
  then have k1: "ready s1" "bytes s1 = bytes s" "used s1 = used s" "room s1 = room s" by (simp_all add: kept_def)
  have b: "buf ?q 8" using G by (simp add: env_def)
  let ?s = "poke s1 ?q (le_bytes 8 (unat a))"
  have P: "ready ?s" "bytes ?s = bytes s" "used ?s = used s" "room ?s = room s" "peek ?s ?q 8 = le_bytes 8 (unat a)"
    using poke_law [OF k1(1), of ?q "le_bytes 8 (unat a)"] b k1 by (simp_all del: le_bytes.simps)
  obtain n where n: "used s (node (bytes s) (fan G) root (i - 1) (j div fan G)) = Some n" "unat (e_BUCKET G) \<le> n" using tree_block [OF t j(1)] .
  have u: "used ?s (node (bytes s) (fan G) root (i - 1) (j div fan G)) = Some n" "8 * (j mod fan G) + 8 \<le> n" "0 < (8 :: nat)" "(8 :: u64) = of_nat 8"
    using n P(3) slot_in_block [OF t, of j] by simp_all
  obtain s2 where "Galloc_Write (e_send G) ?s ?z 0 ?q 8 0 None 0 = Some (ucast (8 :: u64), s2)" "ready s2" "used s2 = used ?s" "room s2 = room ?s"
    "bytes s2 = mem_write (bytes ?s) ?z (peek ?s ?q 8)"
    using write_call [OF G P(1) u(1-3) b refl u(4)] by blast
  then show ?thesis using s1(1) G P by (simp add: InsertBlock_def env_def del: le_bytes.simps)
qed

text \<open>
  What inserting buckets into a tree leaves, where \<open>D\<close> is the depth of the elements: the buckets that were there stay where they are, the ones at
  depth \<open>D\<close> keep their bytes and new ones there are cleared, and so do all blocks outside the tree.
\<close>

definition grows :: "'s array_env \<Rightarrow> gaddr \<Rightarrow> nat \<Rightarrow> 's \<Rightarrow> (nat \<Rightarrow> nat) \<Rightarrow> 's \<Rightarrow> (nat \<Rightarrow> nat) \<Rightarrow> bool" where
  "grows G root D s cnt s' cnt' \<longleftrightarrow> ready s' \<and> heap_tree G s' root cnt' \<and> (\<forall>d. cnt d \<le> cnt' d) \<and>
     (\<forall>d j. j < cnt d \<longrightarrow> node (bytes s') (fan G) root d j = node (bytes s) (fan G) root d j) \<and>
     (\<forall>j < cnt' D. mem_read (bytes s') (node (bytes s') (fan G) root D j) (unat (e_BUCKET G)) =
        (if j < cnt D then mem_read (bytes s) (node (bytes s) (fan G) root D j) (unat (e_BUCKET G)) else replicate (unat (e_BUCKET G)) 0)) \<and>
     (\<forall>q l. used s q = Some l \<longrightarrow> used s' q = Some l \<and> ((\<forall>d j. j < cnt d \<longrightarrow> node (bytes s) (fan G) root d j \<noteq> q) \<longrightarrow>
        mem_read (bytes s') q l = mem_read (bytes s) q l \<and> (\<forall>d j. j < cnt' d \<longrightarrow> node (bytes s') (fan G) root d j \<noteq> q)))"

lemma grows_refl: "ready s \<Longrightarrow> heap_tree G s root cnt \<Longrightarrow> grows G root D s cnt s cnt"
  by (simp add: grows_def)

lemma grows_trans:
  assumes "grows G root D s cnt s' cnt'" "grows G root D s' cnt' s'' cnt''"
  shows "grows G root D s cnt s'' cnt''"
proof -
  note a = assms(1) [unfolded grows_def] and b = assms(2) [unfolded grows_def]
  have le: "cnt d \<le> cnt' d" "cnt' d \<le> cnt'' d" for d using a b by blast+
  have lt: "j < cnt d \<Longrightarrow> j < cnt' d" for j d using le(1) [of d] by simp
  let ?B = "unat (e_BUCKET G)" and ?x = "\<lambda>s. node (bytes s) (fan G) root D"
  have la: "j < cnt' D \<Longrightarrow> mem_read (bytes s') (?x s' j) ?B = (if j < cnt D then mem_read (bytes s) (?x s j) ?B else replicate ?B 0)" for j using a by blast
  have lb: "j < cnt'' D \<Longrightarrow> mem_read (bytes s'') (?x s'' j) ?B = (if j < cnt' D then mem_read (bytes s') (?x s' j) ?B else replicate ?B 0)" for j using b by blast
  let ?other = "\<lambda>s cnt q. \<forall>d j. j < cnt d \<longrightarrow> node (bytes s) (fan G) root d j \<noteq> q"
  have oa: "used s q = Some l \<Longrightarrow> used s' q = Some l \<and> (?other s cnt q \<longrightarrow> mem_read (bytes s') q l = mem_read (bytes s) q l \<and> ?other s' cnt' q)" for q l using a by blast
  have ob: "used s' q = Some l \<Longrightarrow> used s'' q = Some l \<and> (?other s' cnt' q \<longrightarrow> mem_read (bytes s'') q l = mem_read (bytes s') q l \<and> ?other s'' cnt'' q)" for q l using b by blast
  have "mem_read (bytes s'') (?x s'' j) ?B = (if j < cnt D then mem_read (bytes s) (?x s j) ?B else replicate ?B 0)" if "j < cnt'' D" for j
    using la [of j] lb [OF that] lt [of j D] by (cases "j < cnt' D"; cases "j < cnt D") simp_all
  moreover have "used s'' q = Some l \<and> (?other s cnt q \<longrightarrow> mem_read (bytes s'') q l = mem_read (bytes s) q l \<and> ?other s'' cnt'' q)" if "used s q = Some l" for q l
    using oa [OF that] ob [of q l] by simp
  moreover have "\<forall>d j. j < cnt d \<longrightarrow> node (bytes s'') (fan G) root d j = node (bytes s) (fan G) root d j" using a b lt by simp
  moreover have "\<forall>d. cnt d \<le> cnt'' d" using le order_trans by blast
  ultimately show ?thesis using b unfolding grows_def by blast
qed

text \<open>A block of the heap outside the tree becomes a bucket.\<close>

lemma insert_grows:
  assumes G: "env G" and s: "ready s" and t: "heap_tree G s root cnt" and i: "1 \<le> i" "i < L" "L < 2 ^ 31"
    and j: "j = cnt i" "j div fan G < cnt (i - 1)" "j < 2 ^ 64"
    and a: "used s a = Some n" "unat (e_BUCKET G) \<le> n" "\<And>e k. k < cnt e \<Longrightarrow> node (bytes s) (fan G) root e k \<noteq> a"
  shows "\<exists>s'. InsertBlock G root (of_nat L) (of_nat i) (of_nat j) a s = Some s' \<and> ready s' \<and> used s' = used s \<and> room s' = room s \<and>
    heap_tree G s' root (cnt(i := Suc j)) \<and> (\<forall>e k. k < cnt e \<longrightarrow> node (bytes s') (fan G) root e k = node (bytes s) (fan G) root e k) \<and>
    node (bytes s') (fan G) root i j = a \<and>
    (\<forall>q l. used s q = Some l \<longrightarrow> (\<forall>k < cnt (i - 1). node (bytes s) (fan G) root (i - 1) k \<noteq> q) \<longrightarrow> mem_read (bytes s') q l = mem_read (bytes s) q l)"
proof -
  let ?g = "fan G" and ?z = "slot (bytes s) (fan G) root (i - 1) j" and ?y = "node (bytes s) (fan G) root (i - 1) (j div fan G)"
  obtain s' where s': "InsertBlock G root (of_nat L) (of_nat i) (of_nat j) a s = Some s'" "ready s'" "used s' = used s" "room s' = room s"
    "bytes s' = mem_write (bytes s) ?z (le_bytes 8 (unat a))"
    using insert_ok [OF G s t i j(2,3)] by blast
  have S: "Suc (i - 1) = i" using i(1) by simp
  have T: "heap_tree G s' root (cnt(i := Suc j))" "\<And>e k. k < cnt e \<Longrightarrow> node (bytes s') ?g root e k = node (bytes s) ?g root e k" "node (bytes s') ?g root i j = a"
    using tree_grow [OF t apart_law [OF s], of j "i - 1" a n "bytes s'"] j(1,2) a s'(3,5) unfolding S by simp_all
  obtain m where m: "used s ?y = Some m" "unat (e_BUCKET G) \<le> m" using tree_block [OF t j(2)] .
  have "mem_read (bytes s') q l = mem_read (bytes s) q l" if q: "used s q = Some l" "?y \<noteq> q" for q l
  proof -
    have "apart ?y m q l" using apart_law [OF s] m(1) q by (auto simp: blocks_apart_def)
    then have "apart ?z 8 (q + of_nat 0) l" using slot_in_block [OF t, of j] m(2) by (intro apart_parts [of _ m _ l]) linarith+
    then show ?thesis unfolding s'(5) by (intro mem_read_write_apart) (simp del: le_bytes.simps)
  qed
  then show ?thesis using s'(1-4) T j(2) by blast
qed

text \<open>One turn of the loops: a new bucket at depth \<open>i\<close>.\<close>

lemma new_block_grows:
  assumes G: "env G" and s: "ready s" and t: "heap_tree G s root cnt" and i: "1 \<le> i" "i < L" "L < 2 ^ 31"
    and j: "j = cnt i" "j div fan G < cnt (i - 1)" "j < 2 ^ 64" and r: "room s (e_BUCKET G # zs)"
  shows "\<exists>a s1 s2. Galloc_AlignedMalloc (e_send G) s (e_BUCKET G) 0 0 = Some (a, s1) \<and> InsertBlock G root (of_nat L) (of_nat i) (of_nat j) a s1 = Some s2 \<and>
    room s2 zs \<and> grows G root (L - 1) s cnt s2 (cnt(i := Suc j))"
proof -
  let ?g = "fan G" and ?B = "unat (e_BUCKET G)" and ?D = "L - 1" and ?c = "cnt(i := Suc j)"
  obtain a s1 n where m: "Galloc_AlignedMalloc (e_send G) s (e_BUCKET G) 0 0 = Some (a, s1)" "used s a = None" "?B \<le> n" "used s1 = (used s)(a \<mapsto> n)"
    "ready s1" "room s1 zs" "mem_read (bytes s1) a ?B = replicate ?B 0" "agree (used s) (bytes s) (bytes s1)"
    using malloc_call [OF G s r] unfolding agree_def by blast
  have un: "node (bytes s) ?g root e k \<noteq> a" if "k < cnt e" for e k using tree_block [OF t that] m(2) by (metis option.distinct(1))
  have same: "node (bytes s1) ?g root e k = node (bytes s) ?g root e k" if "k < cnt e" for e k using tree_agree [OF t m(8) that] .
  have t1: "heap_tree G s1 root cnt" using tree_cong [OF t same] un m(4) by simp
  have a1: "used s1 a = Some n" using m(4) by simp
  have un1: "node (bytes s1) ?g root e k \<noteq> a" if "k < cnt e" for e k using un [OF that] same [OF that] by simp
  obtain s2 where s2: "InsertBlock G root (of_nat L) (of_nat i) (of_nat j) a s1 = Some s2" "ready s2" "used s2 = used s1" "room s2 = room s1"
    "heap_tree G s2 root ?c" "\<And>e k. k < cnt e \<Longrightarrow> node (bytes s2) ?g root e k = node (bytes s1) ?g root e k" "node (bytes s2) ?g root i j = a"
    "\<And>q l. used s1 q = Some l \<Longrightarrow> (\<forall>k < cnt (i - 1). node (bytes s1) ?g root (i - 1) k \<noteq> q) \<Longrightarrow> mem_read (bytes s2) q l = mem_read (bytes s1) q l"
    using insert_grows [OF G m(5) t1 i j a1 m(3) un1] by blast
  have old: "node (bytes s2) ?g root e k = node (bytes s) ?g root e k" if "k < cnt e" for e k using s2(6) [OF that] same [OF that] by simp
  have up: "node (bytes s1) ?g root (i - 1) k \<noteq> node (bytes s1) ?g root e k'" if "k < cnt (i - 1)" "k' < cnt e" "e \<noteq> i - 1" for k k' e
    using t1 that unfolding tree_def by metis
  have leaf: "mem_read (bytes s2) (node (bytes s2) ?g root ?D k) ?B = (if k < cnt ?D then mem_read (bytes s) (node (bytes s) ?g root ?D k) ?B else replicate ?B 0)"
    if "k < ?c ?D" for k
  proof (cases "k < cnt ?D")
    case True
    obtain l where l: "used s (node (bytes s) ?g root ?D k) = Some l" "?B \<le> l" using tree_block [OF t True] .
    have l1: "used s1 (node (bytes s) ?g root ?D k) = Some l" using l(1) un [OF True] m(4) by simp
    have "mem_read (bytes s2) (node (bytes s) ?g root ?D k) l = mem_read (bytes s1) (node (bytes s) ?g root ?D k) l"
      using s2(8) [OF l1] up [OF _ True] same [OF True] i by auto
    then have "agree [node (bytes s) ?g root ?D k \<mapsto> l] (bytes s1) (bytes s2)" by (simp add: agree_def)
    then have "mem_read (bytes s2) (node (bytes s) ?g root ?D k) ?B = mem_read (bytes s1) (node (bytes s) ?g root ?D k) ?B"
      using agree_part [of _ _ _ "node (bytes s) ?g root ?D k" l 0 ?B] l(2) by fastforce
    also have "\<dots> = mem_read (bytes s) (node (bytes s) ?g root ?D k) ?B" using agree_part [OF m(8) l(1), of 0 ?B] l(2) by simp
    finally show ?thesis using True old [OF True] by simp
  next
    case False
    then have k: "i = ?D" "k = j" using that j(1) by (auto split: if_splits)
    have "mem_read (bytes s2) a n = mem_read (bytes s1) a n" using s2(8) [OF a1] un1 by blast
    then have "agree [a \<mapsto> n] (bytes s1) (bytes s2)" by (simp add: agree_def)
    then have "mem_read (bytes s2) a ?B = replicate ?B 0" using agree_part [of _ _ _ a n 0 ?B] m(3,7) by fastforce
    then show ?thesis using False k s2(7) by simp
  qed
  have other: "used s2 q = Some l \<and> ((\<forall>e k. k < cnt e \<longrightarrow> node (bytes s) ?g root e k \<noteq> q) \<longrightarrow>
      mem_read (bytes s2) q l = mem_read (bytes s) q l \<and> (\<forall>e k. k < ?c e \<longrightarrow> node (bytes s2) ?g root e k \<noteq> q))" if q: "used s q = Some l" for q l
  proof -
    have qa: "q \<noteq> a" using q m(2) by auto
    have u: "used s1 q = Some l" using q qa m(4) by simp
    have "mem_read (bytes s2) q l = mem_read (bytes s) q l" if "\<forall>e k. k < cnt e \<longrightarrow> node (bytes s) ?g root e k \<noteq> q"
      using s2(8) [OF u] that same m(8) q by (simp add: agree_def)
    moreover have "node (bytes s2) ?g root e k \<noteq> q" if "\<forall>e k. k < cnt e \<longrightarrow> node (bytes s) ?g root e k \<noteq> q" "k < ?c e" for e k
      using that qa old s2(7) j(1) by (cases "e = i \<and> k = j") (auto split: if_splits)
    ultimately show ?thesis using u s2(3) by simp
  qed
  have "cnt d \<le> ?c d" for d using j(1) by simp
  then have "grows G root ?D s cnt s2 ?c" using s2(2,5) old leaf other unfolding grows_def by blast
  then show ?thesis using m(1,6) s2(1,4) by auto
qed

lemma new_blocks_ok:
  assumes "env G" "L < 2 ^ 31"
  shows "ready s \<Longrightarrow> heap_tree G s root cnt \<Longrightarrow> fits (fan G) L cnt ijs \<Longrightarrow> room s (replicate (length ijs) (e_BUCKET G) @ zs) \<Longrightarrow>
    \<exists>s'. new_blocks G root (of_nat L) 0 ijs s = Some s' \<and> room s' zs \<and> grows G root (L - 1) s cnt s' (grown cnt ijs)"
proof (induction ijs arbitrary: s cnt)
  case Nil
  then show ?case by (simp add: grows_refl)
next
  case (Cons ij ijs)
  obtain i j where ij: "ij = (i, j)" by fastforce
  have f: "1 \<le> i" "i < L" "j = cnt i" "j div fan G < cnt (i - 1)" "j < 2 ^ 64" "fits (fan G) L (cnt(i := Suc j)) ijs" using Cons.prems(3) unfolding ij by auto
  have "room s (e_BUCKET G # replicate (length ijs) (e_BUCKET G) @ zs)" using Cons.prems(4) by simp
  from new_block_grows [OF assms(1) Cons.prems(1,2) f(1,2) assms(2) f(3-5) this] obtain a s1 s2 where
    n: "Galloc_AlignedMalloc (e_send G) s (e_BUCKET G) 0 0 = Some (a, s1)" "InsertBlock G root (of_nat L) (of_nat i) (of_nat j) a s1 = Some s2"
      "room s2 (replicate (length ijs) (e_BUCKET G) @ zs)" "grows G root (L - 1) s cnt s2 (cnt(i := Suc j))" by blast
  then have g: "ready s2" "heap_tree G s2 root (cnt(i := Suc j))" by (simp_all add: grows_def)
  obtain s' where "new_blocks G root (of_nat L) 0 ijs s2 = Some s'" "room s' zs" "grows G root (L - 1) s2 (cnt(i := Suc j)) s' (grown (cnt(i := Suc j)) ijs)"
    using Cons.IH [OF g f(6) n(3)] by blast
  then show ?case using n(1,2) grows_trans [OF n(4)] by (auto simp: ij)
qed

section \<open>Elements\<close>

abbreviation items :: "'s array_env \<Rightarrow> nat" where
  "items G \<equiv> unat (items_per_bucket G)"

text \<open>An array with \<open>cnt d\<close> buckets at depth \<open>d\<close>, its elements in the last layer and its header in global memory, outside the tree.\<close>

definition array_at :: "'s array_env \<Rightarrow> 's \<Rightarrow> GArray \<Rightarrow> (nat \<Rightarrow> nat) \<Rightarrow> bool" where
  "array_at G s ga cnt \<longleftrightarrow> ready s \<and> heap_tree G s (root_addr ga) cnt \<and> 1 \<le> unat (ga_layer ga) \<and> unat (ga_layer ga) < 2 ^ 31 \<and> cnt (unat (ga_layer ga)) = 0 \<and>
     unat (ga_size ga) \<le> cnt (unat (ga_layer ga) - 1) * items G \<and> ga_header ga \<noteq> 0 \<and> mem_read (bytes s) (ga_header ga) 32 = header_bytes ga \<and>
     (\<exists>n. used s (ga_header ga) = Some n \<and> 32 \<le> n) \<and> (\<forall>d j. j < cnt d \<longrightarrow> node (bytes s) (fan G) (root_addr ga) d j \<noteq> ga_header ga)"

definition element_addr :: "'s array_env \<Rightarrow> 's \<Rightarrow> GArray \<Rightarrow> nat \<Rightarrow> gaddr" where
  "element_addr G s ga i = node (bytes s) (fan G) (root_addr ga) (unat (ga_layer ga) - 1) (i div items G) + of_nat (i mod items G * unat (e_T G))"

definition element :: "'s array_env \<Rightarrow> 's \<Rightarrow> GArray \<Rightarrow> nat \<Rightarrow> u8 list" where
  "element G s ga i = mem_read (bytes s) (element_addr G s ga i) (unat (e_T G))"

lemma items_fit:
  assumes "env G"
  shows "0 < items G" "i mod items G * unat (e_T G) + unat (e_T G) \<le> unat (e_BUCKET G)" "unat (e_BUCKET G) < 2 ^ 31" "0 < unat (e_T G)"
proof -
  have T: "0 < unat (e_T G)" "unat (e_T G) \<le> unat (e_BUCKET G)" using assms by (auto simp: env_def unat_gt_0 word_le_nat_alt)
  have e: "items G = unat (e_BUCKET G) div unat (e_T G)" by (simp add: items_per_bucket_def unat_div)
  then show i0: "0 < items G" using T by (simp add: div_greater_zero_iff)
  have "Suc (i mod items G) \<le> items G" using i0 by (simp add: Suc_le_eq)
  then have "Suc (i mod items G) * unat (e_T G) \<le> items G * unat (e_T G)" by (rule mult_le_mono1)
  also have "\<dots> \<le> unat (e_BUCKET G)" unfolding e by simp
  finally show "i mod items G * unat (e_T G) + unat (e_T G) \<le> unat (e_BUCKET G)" by simp
  show "unat (e_BUCKET G) < 2 ^ 31" using assms by (auto simp: env_def word_less_nat_alt)
  show "0 < unat (e_T G)" by (rule T(1))
qed

lemma array_at_kept: "array_at G s ga cnt \<Longrightarrow> kept p k s s' \<Longrightarrow> array_at G s' ga cnt"
  by (simp add: array_at_def kept_def)

lemma element_kept: "kept p k s s' \<Longrightarrow> element G s' ga i = element G s ga i"
  by (simp add: element_def element_addr_def kept_def)

lemma bucket_of: "env G \<Longrightarrow> array_at G s ga cnt \<Longrightarrow> i < unat (ga_size ga) \<Longrightarrow> i div items G < cnt (unat (ga_layer ga) - 1)"
  using items_fit(1) by (auto simp: array_at_def less_mult_imp_div_less)

lemma length_header_bytes [simp]: "length (header_bytes ga) = 32"
  by (simp add: header_bytes_def del: le_bytes.simps)

lemma from_header_bytes: "ga_header ga0 = ga_header ga \<Longrightarrow> from_header ga0 (header_bytes ga) = ga\<lparr>ga_this := ga_this ga0\<rparr>"
  using le_nat_word64 [of "root_addr ga"] le_nat_word64 [of "ga_size ga"] le_nat_word64 [of "ga_capacity ga"] le_nat_word32 [of "ga_layer ga"] le_nat_word32 [of "ga_flag ga"]
  by (simp add: from_header_def header_bytes_def del: le_bytes.simps)

text \<open>Whatever a handle remembers of the array, the header tells it what the array is now.\<close>

lemma SyncFrom_ok:
  assumes G: "env G" and a: "array_at G s ga cnt" and h: "ga_header ga0 = ga_header ga" "buf (ga_this ga0) 32"
  shows "\<exists>s'. SyncFrom G ga0 s = Some (ga\<lparr>ga_this := ga_this ga0\<rparr>, s') \<and> kept (ga_this ga0) 32 s s'"
proof -
  let ?p = "ga_this ga0" and ?h = "ga_header ga"
  obtain n where n: "used s ?h = Some n" "32 \<le> n" and r: "ready s" and b: "mem_read (bytes s) ?h 32 = header_bytes ga" and h0: "?h \<noteq> 0"
    using a by (auto simp: array_at_def)
  let ?s = "poke s ?p (header_bytes ga0)"
  have P: "ready ?s" "bytes ?s = bytes s" "used ?s = used s" "kept ?p 32 s ?s" using poke_law [OF r, of ?p "header_bytes ga0"] h(2) by (simp_all add: kept_def)
  have u: "used ?s ?h = Some n" "0 + 32 \<le> n" "0 < (32 :: nat)" "?h = ?h + of_nat 0" "of_nat header_size = (of_nat 32 :: u64)" using n P(3) by (simp_all add: header_size_def)
  obtain s' where "Galloc_Read (e_send G) ?s ?h 0 ?p (of_nat header_size) 0 = Some (ucast (of_nat header_size :: u64), s')" "kept ?p 32 ?s s'" "peek s' ?p 32 = mem_read (bytes ?s) ?h 32"
    using read_call [OF G P(1) u(1-3) h(2) u(4,5)] by blast
  then show ?thesis using kept_trans [OF P(4)] h(1) h0 b P(2) G from_header_bytes [OF h(1)] by (auto simp: SyncFrom_def header_size_def env_def)
qed

lemma Locate_ok:
  assumes G: "env G" and a: "array_at G s ga cnt" and i: "idx < ga_size ga"
  shows "\<exists>s'. Locate G (ga\<lparr>ga_this := p\<rparr>) idx s = Some (element_addr G s ga (unat idx), s') \<and> kept (e_curr G) 8 s s'"
proof -
  have L: "1 \<le> unat (ga_layer ga)" "unat (ga_layer ga) < 2 ^ 31" "ready s" "heap_tree G s (root_addr ga) cnt" using a by (simp_all add: array_at_def)
  have n: "items_per_bucket G \<noteq> 0" using items_fit(1) [OF G] by auto
  have b: "unat idx div items G < cnt (unat (ga_layer ga) - 1)" using bucket_of [OF G a] i by (simp add: word_less_nat_alt)
  have "(idx mod items_per_bucket G) * e_T G = of_nat (unat (idx mod items_per_bucket G) * unat (e_T G))" by simp
  then have "(idx mod items_per_bucket G) * e_T G = of_nat (unat idx mod items G * unat (e_T G))" by (simp only: unat_mod)
  then show ?thesis using locate_ok [OF G L(3,4,1,2) n b, of "e_T G"] by (simp add: Locate_def element_addr_def)
qed

lemma element_block:
  assumes G: "env G" and a: "array_at G s ga cnt" and i: "i < unat (ga_size ga)"
  obtains n where "used s (node (bytes s) (fan G) (root_addr ga) (unat (ga_layer ga) - 1) (i div items G)) = Some n" "i mod items G * unat (e_T G) + unat (e_T G) \<le> n"
proof -
  have t: "heap_tree G s (root_addr ga) cnt" using a by (simp add: array_at_def)
  obtain n where "used s (node (bytes s) (fan G) (root_addr ga) (unat (ga_layer ga) - 1) (i div items G)) = Some n" "unat (e_BUCKET G) \<le> n"
    using tree_block [OF t bucket_of [OF G a i]] .
  then show thesis using that items_fit(2) [OF G, of i] by auto
qed

lemma GArray_Read_ok:
  assumes G: "env G" and a: "array_at G s ga cnt" and h: "ga_header ga0 = ga_header ga" "buf (ga_this ga0) 32" and i: "idx < ga_size ga" and v: "buf val (unat (e_T G))"
  shows "\<exists>s'. GArray_Read G ga0 idx val s = Some (ucast (e_T G), ga\<lparr>ga_this := ga_this ga0\<rparr>, s') \<and> peek s' val (unat (e_T G)) = element G s ga (unat idx) \<and>
    array_at G s' ga cnt \<and> (\<forall>i. element G s' ga i = element G s ga i)"
proof -
  obtain s1 where s1: "SyncFrom G ga0 s = Some (ga\<lparr>ga_this := ga_this ga0\<rparr>, s1)" "kept (ga_this ga0) 32 s s1" using SyncFrom_ok [OF G a h] by blast
  note a1 = array_at_kept [OF a s1(2)]
  obtain s2 where s2: "Locate G (ga\<lparr>ga_this := ga_this ga0\<rparr>) idx s1 = Some (element_addr G s1 ga (unat idx), s2)" "kept (e_curr G) 8 s1 s2" using Locate_ok [OF G a1 i] by blast
  note a2 = array_at_kept [OF a1 s2(2)]
  have i': "unat idx < unat (ga_size ga)" using i by (simp add: word_less_nat_alt)
  obtain n where n: "used s2 (node (bytes s2) (fan G) (root_addr ga) (unat (ga_layer ga) - 1) (unat idx div items G)) = Some n"
    "unat idx mod items G * unat (e_T G) + unat (e_T G) \<le> n" using element_block [OF G a2 i'] .
  have e: "element_addr G s1 ga (unat idx) = element_addr G s2 ga (unat idx)" using s2(2) by (simp add: element_addr_def kept_def)
  have r: "ready s2" using a2 by (simp add: array_at_def)
  obtain s3 where s3: "Galloc_Read (e_send G) s2 (element_addr G s2 ga (unat idx)) 0 val (e_T G) 0 = Some (ucast (e_T G), s3)" "kept val (unat (e_T G)) s2 s3"
    "peek s3 val (unat (e_T G)) = mem_read (bytes s2) (element_addr G s2 ga (unat idx)) (unat (e_T G))"
    using read_call [OF G r n items_fit(4) [OF G] v, of "element_addr G s2 ga (unat idx)" "e_T G"] by (auto simp: element_addr_def)
  have "GArray_Read G ga0 idx val s = Some (ucast (e_T G), ga\<lparr>ga_this := ga_this ga0\<rparr>, s3)" using s1(1) s2(1) s3(1) e by (simp add: GArray_Read_def)
  moreover have "element G s3 ga j = element G s ga j" for j using element_kept [OF s1(2)] element_kept [OF s2(2)] element_kept [OF s3(2)] by simp
  moreover have "peek s3 val (unat (e_T G)) = element G s ga (unat idx)"
    using element_kept [OF s1(2)] element_kept [OF s2(2)] by (simp add: s3(3) flip: element_def)
  ultimately show ?thesis using array_at_kept [OF a2 s3(2)] by blast
qed

text \<open>A write of an element: the other elements, the tree and the header are as before.\<close>

lemma element_write:
  assumes G: "env G" and a: "array_at G s ga cnt" and i: "i < unat (ga_size ga)" and bs: "length bs = unat (e_T G)"
    and s': "ready s'" "used s' = used s" "bytes s' = mem_write (bytes s) (element_addr G s ga i) bs"
  shows "array_at G s' ga cnt" "j < unat (ga_size ga) \<Longrightarrow> element G s' ga j = (if j = i then bs else element G s ga j)"
proof -
  let ?g = "fan G" and ?D = "unat (ga_layer ga) - 1" and ?T = "unat (e_T G)" and ?B = "unat (e_BUCKET G)" and ?r = "root_addr ga"
  have t: "heap_tree G s ?r cnt" and L: "1 \<le> unat (ga_layer ga)" "cnt (unat (ga_layer ga)) = 0" and r: "ready s" using a by (simp_all add: array_at_def)
  have D: "cnt (Suc ?D) = 0" using L by simp
  note b = bucket_of [OF G a i] and f = items_fit(2) [OF G] and U = apart_law [OF r]
  have nodes: "k < cnt d \<Longrightarrow> node (bytes s') ?g ?r d k = node (bytes s) ?g ?r d k" for d k
    unfolding s'(3) element_addr_def using tree_leaf_write [OF t U b D, of "i mod items G * ?T" bs k d] f [of i] bs by simp
  then have t': "heap_tree G s' ?r cnt" using tree_cong [OF t] s'(2) by simp
  obtain n where n: "used s (ga_header ga) = Some n" "32 \<le> n" and un: "\<forall>d j. j < cnt d \<longrightarrow> node (bytes s) ?g ?r d j \<noteq> ga_header ga" using a by (auto simp: array_at_def)
  obtain m where m: "used s (node (bytes s) ?g ?r ?D (i div items G)) = Some m" "i mod items G * ?T + ?T \<le> m" using element_block [OF G a i] .
  have "apart (node (bytes s) ?g ?r ?D (i div items G)) m (ga_header ga) n" using U m(1) n(1) un b by (auto simp: blocks_apart_def)
  then have "apart (element_addr G s ga i) ?T (ga_header ga + of_nat 0) 32" unfolding element_addr_def using m(2) n(2) by (intro apart_parts) simp_all
  then have h: "mem_read (bytes s') (ga_header ga) 32 = mem_read (bytes s) (ga_header ga) 32" unfolding s'(3) using bs by (intro mem_read_write_apart) simp
  show "array_at G s' ga cnt" using a t' h nodes s'(1,2) by (simp add: array_at_def)
  assume j: "j < unat (ga_size ga)"
  note bj = bucket_of [OF G a j]
  have e: "element_addr G s' ga j = element_addr G s ga j" using nodes [OF bj] by (simp add: element_addr_def)
  show "element G s' ga j = (if j = i then bs else element G s ga j)"
  proof (cases "j = i")
    case True
    then show ?thesis using mem_read_write [of bs "bytes s" "element_addr G s ga i"] bs e items_fit(3) [OF G] f [of i] by (simp add: element_def s'(3))
  next
    case False
    have "apart (element_addr G s ga i) ?T (element_addr G s ga j) ?T"
    proof (cases "i div items G = j div items G")
      case True
      then have "i mod items G \<noteq> j mod items G" using False by (metis div_mult_mod_eq)
      then have "i mod items G < j mod items G \<or> j mod items G < i mod items G" by linarith
      then have "Suc (i mod items G) * ?T \<le> j mod items G * ?T \<or> Suc (j mod items G) * ?T \<le> i mod items G * ?T" by (meson Suc_leI mult_le_mono1)
      then show ?thesis unfolding element_addr_def True using f [of i] f [of j] items_fit(3) [OF G] by (intro apart_inside) (auto simp: add.commute)
    next
      case False
      then show ?thesis unfolding element_addr_def using node_ranges_apart [OF t U b bj] f [of i] f [of j] by blast
    qed
    then show ?thesis using False e bs by (simp add: element_def s'(3) mem_read_write_apart)
  qed
qed

lemma GArray_Write_ok:
  assumes G: "env G" and a: "array_at G s ga cnt" and h: "ga_header ga0 = ga_header ga" "buf (ga_this ga0) 32" and i: "idx < ga_size ga"
    and v: "buf val (unat (e_T G))" "apart (ga_this ga0) 32 val (unat (e_T G))" "apart (e_curr G) 8 val (unat (e_T G))"
  shows "\<exists>s'. GArray_Write G ga0 idx val s = Some (ucast (e_T G), ga\<lparr>ga_this := ga_this ga0\<rparr>, s') \<and> array_at G s' ga cnt \<and>
    (\<forall>j < unat (ga_size ga). element G s' ga j = (if j = unat idx then peek s val (unat (e_T G)) else element G s ga j))"
proof -
  obtain s1 where s1: "SyncFrom G ga0 s = Some (ga\<lparr>ga_this := ga_this ga0\<rparr>, s1)" "kept (ga_this ga0) 32 s s1" using SyncFrom_ok [OF G a h] by blast
  note a1 = array_at_kept [OF a s1(2)]
  obtain s2 where s2: "Locate G (ga\<lparr>ga_this := ga_this ga0\<rparr>) idx s1 = Some (element_addr G s1 ga (unat idx), s2)" "kept (e_curr G) 8 s1 s2" using Locate_ok [OF G a1 i] by blast
  note a2 = array_at_kept [OF a1 s2(2)]
  have i': "unat idx < unat (ga_size ga)" using i by (simp add: word_less_nat_alt)
  obtain n where n: "used s2 (node (bytes s2) (fan G) (root_addr ga) (unat (ga_layer ga) - 1) (unat idx div items G)) = Some n"
    "unat idx mod items G * unat (e_T G) + unat (e_T G) \<le> n" using element_block [OF G a2 i'] .
  have e: "element_addr G s1 ga (unat idx) = element_addr G s2 ga (unat idx)" using s2(2) by (simp add: element_addr_def kept_def)
  have r: "ready s2" using a2 by (simp add: array_at_def)
  have p: "peek s2 val (unat (e_T G)) = peek s val (unat (e_T G))" using s1(2) s2(2) v by (simp add: kept_def)
  obtain s3 where s3: "Galloc_Write (e_send G) s2 (element_addr G s2 ga (unat idx)) 0 val (e_T G) 0 None 0 = Some (ucast (e_T G), s3)" "ready s3" "used s3 = used s2"
    "bytes s3 = mem_write (bytes s2) (element_addr G s2 ga (unat idx)) (peek s val (unat (e_T G)))"
    using write_call [OF G r n items_fit(4) [OF G] v(1), of "element_addr G s2 ga (unat idx)" "e_T G"] p by (auto simp: element_addr_def)
  have "GArray_Write G ga0 idx val s = Some (ucast (e_T G), ga\<lparr>ga_this := ga_this ga0\<rparr>, s3)" using s1(1) s2(1) s3(1) e by (simp add: GArray_Write_def)
  moreover note W = element_write [OF G a2 i' buf_law [OF v(1)] s3(2-4)]
  ultimately show ?thesis using element_kept [OF s1(2)] element_kept [OF s2(2)] by simp
qed

section \<open>Construction\<close>

lemma fan_fits: "env G \<Longrightarrow> 0 < fan G \<and> 8 * fan G \<le> unat (e_BUCKET G) \<and> fan G < 2 ^ 31 \<and> items G < 2 ^ 31"
proof -
  assume G: "env G"
  have B: "8 \<le> unat (e_BUCKET G)" "unat (e_BUCKET G) < 2 ^ 31" using G by (auto simp: env_def word_le_nat_alt word_less_nat_alt)
  have g: "fan G = unat (e_BUCKET G) div 8" "items G = unat (e_BUCKET G) div unat (e_T G)" by (simp_all add: gaddrs_per_bucket_def items_per_bucket_def unat_div)
  have "items G \<le> unat (e_BUCKET G)" unfolding g by (rule div_le_dividend)
  then show ?thesis using B g(1) by (simp add: div_greater_zero_iff)
qed

text \<open>The first bucket is a tree of its own.\<close>

lemma root_alone:
  assumes G: "env G" and s: "ready s" and r: "room s (e_BUCKET G # zs)"
  shows "\<exists>root s'. Galloc_AlignedMalloc (e_send G) s (e_BUCKET G) 0 0 = Some (root, s') \<and> ready s' \<and> room s' zs \<and>
    heap_tree G s' root (\<lambda>d. if d = 0 then 1 else 0) \<and> mem_read (bytes s') root (unat (e_BUCKET G)) = replicate (unat (e_BUCKET G)) 0"
proof -
  obtain a s' n where m: "Galloc_AlignedMalloc (e_send G) s (e_BUCKET G) 0 0 = Some (a, s')" "unat (e_BUCKET G) \<le> n" "used s' = (used s)(a \<mapsto> n)"
    "ready s'" "room s' zs" "mem_read (bytes s') a (unat (e_BUCKET G)) = replicate (unat (e_BUCKET G)) 0"
    using malloc_call [OF G s r] by blast
  have "heap_tree G s' a (\<lambda>d. if d = 0 then 1 else 0)" using fan_fits [OF G] m(2,3) by (auto simp: tree_def)
  then show ?thesis using m by blast
qed

lemma Globalize_ok:
  assumes G: "env G" and s: "ready s" and t: "heap_tree G s (root_addr ga) cnt" and r: "room s [32]" and p: "buf (ga_this ga) 32" and fl: "ga_flag ga = 0"
    and L: "1 \<le> unat (ga_layer ga)" "unat (ga_layer ga) < 2 ^ 31" "cnt (unat (ga_layer ga)) = 0" "unat (ga_size ga) \<le> cnt (unat (ga_layer ga) - 1) * items G"
  shows "\<exists>h s'. Globalize G ga s = Some (ga\<lparr>ga_header := h\<rparr>, s') \<and> array_at G s' (ga\<lparr>ga_header := h\<rparr>) cnt \<and>
    (\<forall>d j. j < cnt d \<longrightarrow> node (bytes s') (fan G) (root_addr ga) d j = node (bytes s) (fan G) (root_addr ga) d j \<and>
       mem_read (bytes s') (node (bytes s) (fan G) (root_addr ga) d j) (unat (e_BUCKET G)) = mem_read (bytes s) (node (bytes s) (fan G) (root_addr ga) d j) (unat (e_BUCKET G)))"
proof -
  let ?r = "root_addr ga" and ?B = "unat (e_BUCKET G)" and ?g = "fan G"
  obtain h s1 n where m: "Galloc_AlignedMalloc (e_send G) s 32 0 0 = Some (h, s1)" "h \<noteq> 0" "used s h = None" "32 \<le> n" "used s1 = (used s)(h \<mapsto> n)" "ready s1"
    "agree (used s) (bytes s) (bytes s1)" using malloc_call [OF G s r] unfolding agree_def by auto
  let ?ga = "ga\<lparr>ga_header := h\<rparr>"
  let ?s = "poke s1 (ga_this ga) (header_bytes ?ga)"
  have P: "ready ?s" "bytes ?s = bytes s1" "used ?s = used s1" "peek ?s (ga_this ga) 32 = header_bytes ?ga"
    using poke_law [OF m(6), of "ga_this ga" "header_bytes ?ga"] p by simp_all
  have u: "used ?s h = Some n" "0 + 32 \<le> n" "0 < (32 :: nat)" "h = h + of_nat 0" "of_nat header_size = (of_nat 32 :: u64)" using m(4,5) P(3) by (simp_all add: header_size_def)
  obtain s2 where s2: "Galloc_Write (e_send G) ?s h 0 (ga_this ga) (of_nat header_size) 0 None 0 = Some (ucast (of_nat header_size :: u64), s2)" "ready s2" "used s2 = used s1"
    "bytes s2 = mem_write (bytes s1) h (header_bytes ?ga)"
    using write_call [OF G P(1) u(1-3) p u(4,5)] unfolding P by blast
  have un: "node (bytes s) ?g ?r d j \<noteq> h" if "j < cnt d" for d j using tree_block [OF t that] m(3) by (metis option.distinct(1))
  have "mem_read (bytes s2) q k = mem_read (bytes s) q k" if q: "used s q = Some k" for q k
  proof -
    have "q \<noteq> h" using q m(3) by auto
    then have "apart h n q k" using apart_law [OF m(6)] m(5) q by (auto simp: blocks_apart_def)
    then have "mem_read (bytes s2) q k = mem_read (bytes s1) q k" unfolding s2(4) using m(4) by (intro mem_read_write_apart) (auto intro: apart_mono)
    then show ?thesis using m(7) q by (simp add: agree_def)
  qed
  then have A: "agree (used s) (bytes s) (bytes s2)" by (simp add: agree_def)
  note same = tree_agree [OF t A]
  have t2: "heap_tree G s2 ?r cnt" using tree_cong [OF t same] un s2(3) m(5) by simp
  have "mem_read (bytes s2) h 32 = header_bytes ?ga" unfolding s2(4) using mem_read_write [of "header_bytes ?ga" "bytes s1" h] by simp
  then have "array_at G s2 ?ga cnt" using t2 s2(2,3) L m(2,4,5) un same by (auto simp: array_at_def)
  moreover have "mem_read (bytes s2) (node (bytes s) ?g ?r d j) ?B = mem_read (bytes s) (node (bytes s) ?g ?r d j) ?B" if j: "j < cnt d" for d j
  proof -
    obtain k where "used s (node (bytes s) ?g ?r d j) = Some k" "?B \<le> k" using tree_block [OF t j] .
    then show ?thesis using agree_part [OF A, of _ k 0 ?B] by simp
  qed
  moreover have "Globalize G ga s = Some (?ga, s2)" using m(1) s2(1) fl G by (simp add: Globalize_def header_size_def env_def)
  ultimately show ?thesis using same by blast
qed

lemma zero_part:
  assumes "mem_read M q n = replicate n 0" "x + k \<le> n"
  shows "mem_read M (q + of_nat x) k = replicate k 0"
proof (rule nth_equalityI)
  fix i assume "i < length (mem_read M (q + of_nat x) k)"
  then have "x + i < n" "i < k" using assms(2) by simp_all
  then show "mem_read M (q + of_nat x) k ! i = replicate k 0 ! i" using arg_cong [OF assms(1), of "\<lambda>bs. bs ! (x + i)"] by (simp add: add.assoc)
qed simp

text \<open>The buckets of a new array, before it gets its header.\<close>

lemma layers_built:
  assumes G: "env G" and s: "ready s" and L: "1 \<le> L" "L < 2 ^ 31" and sz: "0 < unat sz" "unat sz \<le> items G * fan G ^ (L - 1)" "unat sz < 2 ^ 62"
    and c: "CalLayers G sz (replicate L 0) 0 (of_nat L) = Some (cap, ls)" and r: "room s (replicate (sum_list (map unat ls)) (e_BUCKET G) @ zs)"
  shows "\<exists>root s1 s2 cnt. Galloc_AlignedMalloc (e_send G) s (e_BUCKET G) 0 0 = Some (root, s1) \<and>
    new_blocks G root (of_nat L) 0 [(i, j). i \<leftarrow> [1..<L], j \<leftarrow> [0..<unat (ls ! i)]] s1 = Some s2 \<and> ready s2 \<and> room s2 zs \<and> heap_tree G s2 root cnt \<and>
    cnt L = 0 \<and> unat sz \<le> cnt (L - 1) * items G \<and>
    (\<forall>j < cnt (L - 1). mem_read (bytes s2) (node (bytes s2) (fan G) root (L - 1) j) (unat (e_BUCKET G)) = replicate (unat (e_BUCKET G)) 0)"
proof -
  let ?B = "unat (e_BUCKET G)" and ?old = "\<lambda>d. if d = 0 then 1 else 0 :: nat" and ?N = "\<lambda>d. unat (ls ! d)"
  let ?ijs = "concat (map (\<lambda>i. map (Pair i) [?old i..<?N i]) [1..<L])"
  have f: "0 < fan G" "fan G < 2 ^ 31" "items G < 2 ^ 31" "0 < items G" using fan_fits [OF G] items_fit(1) [OF G] by auto
  then have nz: "items_per_bucket G \<noteq> 0" "gaddrs_per_bucket G \<noteq> 0" by auto
  have C: "length ls = L" "?N 0 = 1" "\<And>d. Suc d < L \<Longrightarrow> ?N (Suc d) \<le> fan G * ?N d" "unat sz \<le> ?N (L - 1) * items G" "\<And>d. d < L \<Longrightarrow> ?N d < 2 ^ 63"
    using CalLayers_ok [OF L nz sz f(3,2)] c by auto
  have e: "[(i, j). i \<leftarrow> [1..<L], j \<leftarrow> [0..<?N i]] = ?ijs" by (intro arg_cong [of _ _ concat] map_cong) auto
  have start: "(\<lambda>d. if d < 1 then ?N d else ?old d) = ?old" using C(2) by auto
  have le: "?N d \<le> 2 ^ 64" "?old d \<le> ?N d" if "d < L" for d using C(2) C(5) [OF that] by auto
  have F: "fits (fan G) L ?old ?ijs" "grown ?old ?ijs = (\<lambda>d. if d < L then ?N d else ?old d)"
    using fits_layers [OF f(1), of L ?N ?old 1] C(3) le L(1) unfolding start by blast+
  have "sum_list (map unat ls) = sum_list (map ?N [0..<L])" using C(1) by (intro arg_cong [of _ _ sum_list] nth_equalityI) simp_all
  also have "[0..<L] = 0 # [1..<L]" using L(1) by (simp add: upt_rec)
  finally have "sum_list (map unat ls) = Suc (sum_list (map ?N [1..<L]))" using C(2) by simp
  moreover have "length ?ijs = sum_list (map ?N [1..<L])" unfolding e [symmetric] by (simp add: length_concat comp_def)
  ultimately have "sum_list (map unat ls) = Suc (length ?ijs)" by simp
  then have "room s (e_BUCKET G # replicate (length ?ijs) (e_BUCKET G) @ zs)" using r by simp
  from root_alone [OF G s this] obtain root s1 where s1: "Galloc_AlignedMalloc (e_send G) s (e_BUCKET G) 0 0 = Some (root, s1)" "ready s1"
    "room s1 (replicate (length ?ijs) (e_BUCKET G) @ zs)" "heap_tree G s1 root ?old" "mem_read (bytes s1) root ?B = replicate ?B 0" by blast
  from new_blocks_ok [OF G L(2) s1(2,4) F(1) s1(3)] obtain s2 where s2: "new_blocks G root (of_nat L) 0 ?ijs s1 = Some s2" "room s2 zs" "grows G root (L - 1) s1 ?old s2 (grown ?old ?ijs)" by blast
  note g = s2(3) [unfolded grows_def]
  have "mem_read (bytes s2) (node (bytes s2) (fan G) root (L - 1) j) ?B = replicate ?B 0" if j: "j < grown ?old ?ijs (L - 1)" for j
  proof -
    have "mem_read (bytes s2) (node (bytes s2) (fan G) root (L - 1) j) ?B = (if j < ?old (L - 1) then mem_read (bytes s1) (node (bytes s1) (fan G) root (L - 1) j) ?B else replicate ?B 0)"
      using g j by blast
    then show ?thesis using s1(5) by (cases "L - 1 = 0") simp_all
  qed
  moreover have "grown ?old ?ijs L = 0" "grown ?old ?ijs (L - 1) = ?N (L - 1)" using F(2) L(1) by simp_all
  moreover have "ready s2" "heap_tree G s2 root (grown ?old ?ijs)" using g by blast+
  ultimately show ?thesis using s1(1) s2(1,2) C(4) unfolding e by (intro exI [of _ root] exI [of _ s1] exI [of _ s2] exI [of _ "grown ?old ?ijs"]) simp
qed

text \<open>A new array has its elements cleared.\<close>

lemma GArray_construct_ok:
  assumes G: "env G" and s: "ready s" and p: "buf p 32" and sz: "unat sz < 2 ^ 62"
    and L: "items_per_bucket G < sz \<Longrightarrow> 1 \<le> unat (e_layers G sz) \<and> unat (e_layers G sz) < 2 ^ 31 \<and> unat sz \<le> items G * fan G ^ (unat (e_layers G sz) - 1)"
    and r: "room s (replicate (sum_list (map unat (bucket_list G sz))) (e_BUCKET G) @ [32])"
  shows "\<exists>ga s' cnt. GArray_construct G p sz 0 s = Some (ga, s') \<and> array_at G s' ga cnt \<and> ga_size ga = sz \<and> ga_this ga = p \<and>
    (\<forall>i < unat sz. element G s' ga i = replicate (unat (e_T G)) 0)"
proof -
  let ?B = "unat (e_BUCKET G)" and ?ga = "(new_GArray p 0)\<lparr>ga_size := sz\<rparr>"
  have "\<exists>root l cap s2 cnt. GArray_construct G p sz 0 s = Globalize G (?ga\<lparr>root_addr := root, ga_layer := l, ga_capacity := cap\<rparr>) s2 \<and> ready s2 \<and> room s2 [32] \<and>
      heap_tree G s2 root cnt \<and> 1 \<le> unat l \<and> unat l < 2 ^ 31 \<and> cnt (unat l) = 0 \<and> unat sz \<le> cnt (unat l - 1) * items G \<and>
      (\<forall>j < cnt (unat l - 1). mem_read (bytes s2) (node (bytes s2) (fan G) root (unat l - 1) j) ?B = replicate ?B 0)"
  proof (cases "sz \<le> items_per_bucket G")
    case True
    then have "room s (e_BUCKET G # [32])" using r by (simp add: bucket_list_def)
    from root_alone [OF G s this] obtain root s1 where s1: "Galloc_AlignedMalloc (e_send G) s (e_BUCKET G) 0 0 = Some (root, s1)" "ready s1" "room s1 [32]"
      "heap_tree G s1 root (\<lambda>d. if d = 0 then 1 else 0)" "mem_read (bytes s1) root ?B = replicate ?B 0" by blast
    have "GArray_construct G p sz 0 s = Globalize G (?ga\<lparr>root_addr := root, ga_layer := 1, ga_capacity := items_per_bucket G\<rparr>) s1"
      using True s1(1) by (simp add: GArray_construct_def)
    then show ?thesis using s1 True by (intro exI [of _ root] exI [of _ 1] exI [of _ "items_per_bucket G"] exI [of _ s1] exI [of _ "\<lambda>d. if d = 0 then 1 else 0"]) (simp add: word_le_nat_alt)
  next
    case False
    let ?l = "e_layers G sz" and ?L = "unat (e_layers G sz)"
    have D: "1 \<le> ?L" "?L < 2 ^ 31" "unat sz \<le> items G * fan G ^ (?L - 1)" using L False by auto
    have z: "0 < unat sz" using False by (auto simp: word_le_nat_alt)
    have l: "of_nat ?L = ?l" by simp
    have nz: "items_per_bucket G \<noteq> 0" "gaddrs_per_bucket G \<noteq> 0" "items G < 2 ^ 31" "fan G < 2 ^ 31" using fan_fits [OF G] items_fit(1) [OF G] by auto
    obtain ls where c: "CalLayers G sz (replicate ?L 0) 0 (of_nat ?L) = Some (Capacity G sz, ls)" using CalLayers_ok [OF D(1,2) nz(1,2) z D(3) sz nz(3,4)] by blast
    have "room s (replicate (sum_list (map unat ls)) (e_BUCKET G) @ [32])" using r False c unfolding l by (simp add: bucket_list_def)
    from layers_built [OF G s D(1,2) z D(3) sz c this] obtain root s1 s2 cnt where B: "Galloc_AlignedMalloc (e_send G) s (e_BUCKET G) 0 0 = Some (root, s1)"
      "new_blocks G root ?l 0 [(i, j). i \<leftarrow> [1..<?L], j \<leftarrow> [0..<unat (ls ! i)]] s1 = Some s2" "ready s2" "room s2 [32]" "heap_tree G s2 root cnt"
      "cnt ?L = 0" "unat sz \<le> cnt (?L - 1) * items G" "\<forall>j < cnt (?L - 1). mem_read (bytes s2) (node (bytes s2) (fan G) root (?L - 1) j) ?B = replicate ?B 0"
      unfolding l by blast
    have "GArray_construct G p sz 0 s = Globalize G (?ga\<lparr>root_addr := root, ga_layer := ?l, ga_capacity := Capacity G sz\<rparr>) s2"
      using False c B(1,2) unfolding l by (simp add: GArray_construct_def Let_def)
    then show ?thesis using B(3-8) D(1,2) by blast
  qed
  then obtain root l cap s2 cnt where S: "GArray_construct G p sz 0 s = Globalize G (?ga\<lparr>root_addr := root, ga_layer := l, ga_capacity := cap\<rparr>) s2" "ready s2" "room s2 [32]"
    "heap_tree G s2 root cnt" "1 \<le> unat l" "unat l < 2 ^ 31" "cnt (unat l) = 0" "unat sz \<le> cnt (unat l - 1) * items G"
    "\<forall>j < cnt (unat l - 1). mem_read (bytes s2) (node (bytes s2) (fan G) root (unat l - 1) j) ?B = replicate ?B 0" by blast
  let ?gb = "?ga\<lparr>root_addr := root, ga_layer := l, ga_capacity := cap\<rparr>"
  have gb: "root_addr ?gb = root" "ga_layer ?gb = l" "ga_size ?gb = sz" "ga_this ?gb = p" "ga_flag ?gb = 0" by (simp_all add: new_GArray_def)
  obtain h s' where H: "Globalize G ?gb s2 = Some (?gb\<lparr>ga_header := h\<rparr>, s')" "array_at G s' (?gb\<lparr>ga_header := h\<rparr>) cnt"
    "\<And>d j. j < cnt d \<Longrightarrow> node (bytes s') (fan G) root d j = node (bytes s2) (fan G) root d j \<and>
       mem_read (bytes s') (node (bytes s2) (fan G) root d j) ?B = mem_read (bytes s2) (node (bytes s2) (fan G) root d j) ?B"
    using Globalize_ok [OF G S(2), of ?gb cnt] S(3-8) p unfolding gb by blast
  have "element G s' (?gb\<lparr>ga_header := h\<rparr>) i = replicate (unat (e_T G)) 0" if i: "i < unat sz" for i
  proof -
    have b: "i div items G < cnt (unat l - 1)" using bucket_of [OF G H(2)] i by simp
    then have "mem_read (bytes s') (node (bytes s') (fan G) root (unat l - 1) (i div items G)) ?B = replicate ?B 0" using H(3) [OF b] S(9) by simp
    from zero_part [OF this items_fit(2) [OF G, of i]] show ?thesis by (simp add: element_def element_addr_def)
  qed
  then show ?thesis using S(1) H(1,2) by (intro exI [of _ "?gb\<lparr>ga_header := h\<rparr>"] exI [of _ s'] exI [of _ cnt]) (simp add: new_GArray_def)
qed

text \<open>Reads and writes of an array are those of the list of its elements.\<close>

lemma run_ops_ok:
  assumes G: "env G" and v: "buf val (unat (e_T G))" "apart (e_curr G) 8 val (unat (e_T G))"
  shows "array_at G s ga cnt \<Longrightarrow> length xs = unat (ga_size ga) \<Longrightarrow> (\<forall>i < unat (ga_size ga). element G s ga i = xs ! i) \<Longrightarrow>
    \<forall>op \<in> set ops. op_ok buf val (unat (e_T G)) (ga_size ga) op \<Longrightarrow> \<exists>s'. run_ops G (ga_header ga) val ops s = Some (list_ops xs ops, s')"
proof (induction ops arbitrary: s xs)
  case (Cons op ops)
  let ?T = "unat (e_T G)" and ?h = "ga_header ga"
  have e: "e_peek G = peek" "e_poke G = poke" using G by (simp_all add: env_def)
  show ?case
  proof (cases op)
    case (AtRead g i)
    then have o: "i < ga_size ga" "buf (ga_this (g\<lparr>ga_header := ?h\<rparr>)) 32" using Cons.prems(4) by simp_all
    from GArray_Read_ok [OF G Cons.prems(1) _ o(2,1) v(1)] obtain s1 where s1: "GArray_Read G (g\<lparr>ga_header := ?h\<rparr>) i val s = Some (ucast (e_T G), ga\<lparr>ga_this := ga_this g\<rparr>, s1)"
      "peek s1 val ?T = element G s ga (unat i)" "array_at G s1 ga cnt" "\<forall>j. element G s1 ga j = element G s ga j" by auto
    then obtain s' where "run_ops G ?h val ops s1 = Some (list_ops xs ops, s')" using Cons.IH [OF s1(3) Cons.prems(2)] Cons.prems(3,4) by auto
    moreover have "element G s ga (unat i) = xs ! unat i" using Cons.prems(3) o(1) by (simp add: word_less_nat_alt)
    ultimately show ?thesis using AtRead s1(1,2) e by simp
  next
    case (AtWrite g i bs)
    then have o: "i < ga_size ga" "buf (ga_this (g\<lparr>ga_header := ?h\<rparr>)) 32" "apart (ga_this (g\<lparr>ga_header := ?h\<rparr>)) 32 val ?T" "length bs = ?T" using Cons.prems(4) by simp_all
    let ?s = "poke s val bs"
    have r: "ready s" using Cons.prems(1) by (simp add: array_at_def)
    have P: "kept val ?T s ?s" "peek ?s val ?T = bs" using poke_law [OF r, of val bs] v(1) o(4) by (simp_all add: kept_def)
    from GArray_Write_ok [OF G array_at_kept [OF Cons.prems(1) P(1)] _ o(2,1) v(1) o(3) v(2)] obtain s1 where
      s1: "GArray_Write G (g\<lparr>ga_header := ?h\<rparr>) i val ?s = Some (ucast (e_T G), ga\<lparr>ga_this := ga_this g\<rparr>, s1)" "array_at G s1 ga cnt"
        "\<forall>j < unat (ga_size ga). element G s1 ga j = (if j = unat i then bs else element G s ga j)"
      using P element_kept [OF P(1)] by auto
    have x: "length (xs[unat i := bs]) = unat (ga_size ga)" "\<forall>j < unat (ga_size ga). element G s1 ga j = xs[unat i := bs] ! j"
      using s1(3) Cons.prems(2,3) by (simp_all add: nth_list_update)
    obtain s' where "run_ops G ?h val ops s1 = Some (list_ops (xs[unat i := bs]) ops, s')" using Cons.IH [OF s1(2) x] Cons.prems(4) by auto
    then show ?thesis using AtWrite s1(1) e by simp
  qed
qed simp

end

end
