(* ===== verification/Gam_Try_Lock.thy ===== *)
theory Gam_Try_Lock
  imports Gam_Galloc
begin

text \<open>
  Locks on ranges: \<^verbatim>\<open>GAlloc::Lock\<close> takes all the locks of a range or none. The locale \<open>lock_service\<close> is what
  it needs of the handle; \<open>Gam_Home_Lock\<close> shows that the worker keeps it.
\<close>

section \<open>The contract of a lock service\<close>

fun spec_lock :: "Work \<Rightarrow> rwstate \<Rightarrow> bool \<times> rwstate" where
  "spec_lock RLOCK v = spec_rlock v"
| "spec_lock _ v = spec_wlock v"

lemma spec_lock_undo: "fst (spec_lock op v) \<Longrightarrow> v \<noteq> Reading 0 \<Longrightarrow> spec_unlock (snd (spec_lock op v)) = v"
proof -
  assume "fst (spec_lock op v)" "v \<noteq> Reading 0"
  moreover have "spec_lock op v = spec_rlock v \<or> spec_lock op v = spec_wlock v" by (cases op) simp_all
  ultimately show ?thesis by (cases v rule: spec_unlock.cases) auto
qed

lemma spec_lock_held: "fst (spec_lock op v) \<Longrightarrow> snd (spec_lock op v) \<noteq> Free"
proof -
  assume "fst (spec_lock op v)"
  moreover have "spec_lock op v = spec_rlock v \<or> spec_lock op v = spec_wlock v" by (cases op) simp_all
  ultimately show ?thesis by (cases v) auto
qed

text \<open>The addresses \<^verbatim>\<open>GAlloc::Lock\<close> locks: the first one and the start of every further block.\<close>

definition targets :: "gaddr \<Rightarrow> nat \<Rightarrow> gaddr list" where
  "targets addr n = addr # map (block_at (TOBLOCK addr)) [1..<n]"

definition lock_range :: "gaddr \<Rightarrow> u64 \<Rightarrow> bool" where
  "lock_range addr count \<longleftrightarrow> count \<noteq> 0 \<and> unat addr + unat count \<le> 2 ^ 64 - 512 \<and> unat count \<le> 2 ^ 30"

definition range_blocks :: "gaddr \<Rightarrow> u64 \<Rightarrow> nat" where
  "range_blocks addr count = (unat addr + unat count - 1) div 512 - unat addr div 512 + 1"

lemma length_targets [simp]: "0 < n \<Longrightarrow> length (targets addr n) = n"
  by (simp add: targets_def)

lemma nth_targets: "k < n \<Longrightarrow> targets addr n ! k = (if k = 0 then addr else block_at (TOBLOCK addr) k)"
  by (cases k) (auto simp: targets_def)

lemma unat_block_at:
  assumes "k < 4194304" "unat b + k * 512 < 2 ^ 64"
  shows "unat (block_at b k) = unat b + k * 512"
proof -
  have "(of_nat k :: i32) * 512 = of_nat (k * 512)" by simp
  moreover have "sint (of_nat (k * 512) :: i32) = int (k * 512)" using assms(1) by (intro sint_of_nat_small) simp
  ultimately have s: "(scast ((of_nat k :: i32) * 512) :: u64) = of_nat (k * 512)" by (metis of_int_of_nat_eq scast_eq of_int_sint)
  have "unat (of_nat (k * 512) :: u64) = k * 512" using assms(2) by (simp only: unat_of_nat) (rule mod_less, simp)
  then show ?thesis unfolding block_at_def GADD_def s using unat_add_no_wrap [of b "of_nat (k * 512)"] assms(2) by simp
qed

lemma range_facts:
  assumes "lock_range addr count"
  defines "n \<equiv> range_blocks addr count" and "b \<equiv> TOBLOCK addr" and "e \<equiv> TOBLOCK (GADD addr (count - 1))"
  shows "0 < n" "k \<le> n \<Longrightarrow> unat (block_at b k) = unat b + k * 512" "k \<le> n \<Longrightarrow> e < block_at b k \<longleftrightarrow> k = n" "distinct (targets addr n)"
proof -
  have c: "0 < unat count" "unat addr + unat count \<le> 2 ^ 64 - 512" "unat count \<le> 2 ^ 30"
    using assms(1) by (auto simp: lock_range_def unat_gt_0)
  have "1 \<le> count" using c(1) by (simp add: word_le_nat_alt)
  then have "unat (count - 1) = unat count - 1" using unat_sub_le [of 1 count] by simp
  then have "unat (GADD addr (count - 1)) = unat addr + (unat count - 1)"
    unfolding GADD_def using unat_add_no_wrap [of addr "count - 1"] c(2) by simp
  then have e: "unat e = (unat addr + unat count - 1) div 512 * 512" using c(1) by (simp add: e_def unat_TOBLOCK)
  have b: "unat b = unat addr div 512 * 512" by (simp add: b_def unat_TOBLOCK)
  have le: "unat addr div 512 \<le> (unat addr + unat count - 1) div 512" using c(1) by (intro div_le_mono) simp
  have n: "unat e = unat b + (n - 1) * 512" "0 < n" unfolding e b n_def range_blocks_def using le by (simp_all add: diff_mult_distrib)
  have e64: "unat e + 512 < 2 ^ 64" using e c(1,2) by simp
  have "n \<le> 2097153" using le c(1,3) unfolding n_def range_blocks_def by simp
  then have K: "unat (block_at b k) = unat b + k * 512" if "k \<le> n" for k
    using unat_block_at [of k b] that n e64 by (cases n) simp_all
  show "0 < n" by (rule n(2))
  show "k \<le> n \<Longrightarrow> unat (block_at b k) = unat b + k * 512" by (rule K)
  show "k \<le> n \<Longrightarrow> e < block_at b k \<longleftrightarrow> k = n" using K [of k] n by (cases n) (auto simp: word_less_nat_alt)
  have "addr \<noteq> block_at b k" if "0 < k" "k < n" for k
  proof -
    have "unat addr < unat b + 512" using b by simp
    then show ?thesis using K [of k] that by auto
  qed
  moreover have "inj_on (block_at b) {1..<n}" using K by (intro inj_onI) (metis add_left_cancel atLeastLessThan_iff less_imp_le mult_cancel2 zero_neq_numeral)
  ultimately show "distinct (targets addr n)" by (auto simp: targets_def distinct_map b_def)
qed

text \<open>The locks after those of \<open>A\<close> have been taken.\<close>

definition locked_to :: "Work \<Rightarrow> gaddr set \<Rightarrow> (gaddr \<Rightarrow> rwstate) \<Rightarrow> gaddr \<Rightarrow> rwstate" where
  "locked_to op A v = (\<lambda>a. if a \<in> A then snd (spec_lock op (v a)) else v a)"

locale lock_service =
  fixes send :: "'s sender" and view :: "'s \<Rightarrow> gaddr \<Rightarrow> rwstate" and inv :: "'s \<Rightarrow> bool" and served :: "gaddr set" and bound :: nat
  assumes try_lock: "inv s \<Longrightarrow> a \<in> served \<Longrightarrow> op \<in> {RLOCK, WLOCK} \<Longrightarrow> (op = RLOCK \<longrightarrow> view s a \<noteq> Reading bound) \<Longrightarrow>
      \<exists>st w s'. send s (lock_request op a TRY_LOCK) = Some (st, w, s') \<and> inv s' \<and> wr_status w = st \<and> (st = 0 \<longleftrightarrow> fst (spec_lock op (view s a))) \<and>
        view s' = (view s)(a := snd (spec_lock op (view s a)))"
    and unlock: "inv s \<Longrightarrow> a \<in> served \<Longrightarrow> view s a \<noteq> Free \<Longrightarrow> flag \<in> {ASYNC, TRY_LOCK OR ASYNC} \<Longrightarrow>
      \<exists>w s'. send s (lock_request UNLOCK a flag) = Some (0, w, s') \<and> inv s' \<and> wr_status w = 0 \<and> view s' = (view s)(a := spec_unlock (view s a))"
    and proper: "inv s \<Longrightarrow> view s a \<noteq> Reading 0"
begin

lemma unlock_locked:
  assumes "inv s" "view s = locked_to op (insert a A) v" "a \<notin> A" "a \<in> served" "fst (spec_lock op (v a))" "v a \<noteq> Reading 0"
  shows "\<exists>st w s'. send s (lock_request UNLOCK a (TRY_LOCK OR ASYNC)) = Some (st, w, s') \<and> inv s' \<and> view s' = locked_to op A v"
proof -
  have va: "view s a = snd (spec_lock op (v a))" using assms(2) by (simp add: locked_to_def)
  then obtain st w s' where s': "send s (lock_request UNLOCK a (TRY_LOCK OR ASYNC)) = Some (st, w, s')" "inv s'" "view s' = (view s)(a := spec_unlock (view s a))"
    using unlock [OF assms(1,4)] spec_lock_held [OF assms(5)] by fastforce
  have "view s' = locked_to op A v"
    using s'(3) va spec_lock_undo [OF assms(5,6)] assms(2,3) by (auto simp: locked_to_def)
  then show ?thesis using s'(1,2) by blast
qed

lemma unlock_loop_undo:
  assumes "inv s" "view s = locked_to op (block_at b ` set js) v" "inj_on (block_at b) (set js)" "distinct js"
    and "\<forall>j \<in> set js. block_at b j \<in> served \<and> fst (spec_lock op (v (block_at b j))) \<and> v (block_at b j) \<noteq> Reading 0"
  shows "\<exists>s'. unlock_loop send TRY_LOCK b js s = Some s' \<and> inv s' \<and> view s' = v"
  using assms
proof (induction js arbitrary: s)
  case Nil
  then show ?case by (auto simp: locked_to_def)
next
  case (Cons j js)
  have "block_at b j \<notin> block_at b ` set js" using Cons.prems(3,4) by auto
  then obtain st w s1 where s1: "send s (lock_request UNLOCK (block_at b j) (TRY_LOCK OR ASYNC)) = Some (st, w, s1)" "inv s1" "view s1 = locked_to op (block_at b ` set js) v"
    using unlock_locked [of s op "block_at b j" "block_at b ` set js" v] Cons.prems by auto
  then show ?case using Cons.IH [of s1] Cons.prems(3-5) by (auto simp: inj_on_insert)
qed

text \<open>The loop stops at the first refusal, \<open>k\<close>, or at the end of the range, with the locks before taken.\<close>

lemma lock_loop_run:
  assumes R: "lock_range addr count" "n = range_blocks addr count" "set (targets addr n) \<subseteq> served"
    and op: "op \<in> {RLOCK, WLOCK}" "op = RLOCK \<longrightarrow> (\<forall>a \<in> set (targets addr n). v a \<noteq> Reading bound)"
    and s: "inv s" "view s = locked_to op ((!) (targets addr n) ` {..<i}) v" "i < n"
  shows "\<exists>st k s'. lock_loop send op TRY_LOCK (TOBLOCK addr) (TOBLOCK (GADD addr (count - 1))) i (targets addr n ! i) s = Some (st, k, s') \<and> inv s' \<and>
    view s' = locked_to op ((!) (targets addr n) ` {..<k}) v \<and> i \<le> k \<and> (\<forall>j \<in> {i..<k}. fst (spec_lock op (v (targets addr n ! j)))) \<and>
    (if st = 0 then k = n else k < n \<and> \<not> fst (spec_lock op (v (targets addr n ! k))))"
  using s
proof (induction "n - i" arbitrary: i s)
  case (Suc d)
  let ?T = "targets addr n" and ?b = "TOBLOCK addr" and ?e = "TOBLOCK (GADD addr (count - 1))"
  note F = range_facts [OF R(1), folded R(2)]
  let ?a = "?T ! i"
  have a: "?a \<in> set ?T" using Suc.prems(3) F(1) by simp
  have fresh: "?a \<notin> (!) ?T ` {..<i}"
  proof
    assume "?a \<in> (!) ?T ` {..<i}"
    then obtain j where "j < i" "?T ! i = ?T ! j" by auto
    then show False using F(1,4) Suc.prems(3) by (simp add: nth_eq_iff_index_eq)
  qed
  then have va: "view s ?a = v ?a" using Suc.prems(2) by (simp add: locked_to_def)
  obtain st w s1 where s1: "send s (lock_request op ?a TRY_LOCK) = Some (st, w, s1)" "inv s1" "st = 0 \<longleftrightarrow> fst (spec_lock op (v ?a))"
    "view s1 = (view s)(?a := snd (spec_lock op (v ?a)))" "wr_status w = st"
    using try_lock [OF Suc.prems(1) _ op(1), of ?a] a R(3) op(2) va by auto
  show ?case
  proof (cases "st = 0")
    case False
    then have "snd (spec_lock op (v ?a)) = v ?a" using s1(3) op(1) by (cases "v ?a") auto
    then have "view s1 = view s" using s1(4) va by auto
    then show ?thesis using False s1(1-3,5) Suc.prems by (subst lock_loop.simps) auto
  next
    case True
    have v1: "view s1 = locked_to op ((!) ?T ` {..<Suc i}) v" using s1(4) Suc.prems(2) by (auto simp: locked_to_def lessThan_Suc)
    show ?thesis
    proof (cases "Suc i = n")
      case True
      then have "?e < block_at ?b (i + 1)" using F(3) [of "i + 1"] by simp
      then show ?thesis using True \<open>st = 0\<close> s1 v1 Suc.prems(3) by (subst lock_loop.simps) (auto simp: less_Suc_eq)
    next
      case False
      then have i: "Suc i < n" using Suc.prems(3) by simp
      then have "\<not> ?e < block_at ?b (i + 1)" "?T ! Suc i = block_at ?b (i + 1)" using F(3) [of "i + 1"] nth_targets [OF i, of addr] by simp_all
      then have e: "lock_loop send op TRY_LOCK ?b ?e i ?a s = lock_loop send op TRY_LOCK ?b ?e (Suc i) (?T ! Suc i) s1"
        using \<open>st = 0\<close> s1(1) by (subst lock_loop.simps) simp
      have "d = n - Suc i" using Suc.hyps(2) by simp
      then obtain st' k s' where L: "lock_loop send op TRY_LOCK ?b ?e (Suc i) (?T ! Suc i) s1 = Some (st', k, s')" "inv s'"
        "view s' = locked_to op ((!) ?T ` {..<k}) v" "Suc i \<le> k" "\<forall>j \<in> {Suc i..<k}. fst (spec_lock op (v (?T ! j)))"
        "if st' = 0 then k = n else k < n \<and> \<not> fst (spec_lock op (v (?T ! k)))"
        using Suc.hyps(1) [OF _ s1(2) v1 i] by blast
      have "\<forall>j \<in> {i..<k}. fst (spec_lock op (v (?T ! j)))" using L(5) s1(3) \<open>st = 0\<close> by (auto simp: Suc_le_eq le_eq_less_or_eq)
      then show ?thesis using e L by (intro exI [of _ st'] exI [of _ k] exI [of _ s']) simp
    qed
  qed
qed simp

lemma Lock_all_or_nothing:
  assumes R: "lock_range addr count" "n = range_blocks addr count" "set (targets addr n) \<subseteq> served" and s: "inv s"
    and op: "op \<in> {RLOCK, WLOCK}" "op = RLOCK \<longrightarrow> (\<forall>a \<in> set (targets addr n). view s a \<noteq> Reading bound)"
  shows "\<exists>r s'. Galloc_Lock send s op addr count TRY_LOCK = Some (r, s') \<and> inv s' \<and>
    (if \<forall>a \<in> set (targets addr n). fst (spec_lock op (view s a)) then r = 0 \<and> view s' = locked_to op (set (targets addr n)) (view s)
     else r = -1 \<and> view s' = view s)"
proof -
  let ?T = "targets addr n" and ?b = "TOBLOCK addr" and ?e = "TOBLOCK (GADD addr (count - 1))"
  note F = range_facts [OF R(1), folded R(2)]
  have T0: "?T ! 0 = addr" by (simp add: targets_def)
  have opn: "op \<noteq> UNLOCK" using op(1) by auto
  have "view s = locked_to op ((!) ?T ` {..<0}) (view s)" by (simp add: locked_to_def)
  then obtain st k s1 where L: "lock_loop send op TRY_LOCK ?b ?e 0 addr s = Some (st, k, s1)" "inv s1"
    "view s1 = locked_to op ((!) ?T ` {..<k}) (view s)" "\<forall>j \<in> {0..<k}. fst (spec_lock op (view s (?T ! j)))"
    "if st = 0 then k = n else k < n \<and> \<not> fst (spec_lock op (view s (?T ! k)))"
    using lock_loop_run [OF R op s _ F(1)] unfolding T0 by blast
  show ?thesis
  proof (cases "st = 0")
    case True
    then have k: "k = n" using L(5) by simp
    then have "set ?T = (!) ?T ` {..<k}" using F(1) by (auto simp: set_conv_nth)
    moreover have "\<forall>a \<in> set ?T. fst (spec_lock op (view s a))" using L(4) k F(1) by (auto simp: set_conv_nth)
    ultimately show ?thesis using True L(1-3) opn by (simp add: Galloc_Lock_def Let_def)
  next
    case False
    then have k: "k < n" "\<not> fst (spec_lock op (view s (?T ! k)))" using L(5) by auto
    then have "?T ! k \<in> set ?T" using F(1) by (simp add: nth_mem)
    then have no: "\<not> (\<forall>a \<in> set ?T. fst (spec_lock op (view s a)))" using k(2) by blast
    let ?B = "block_at ?b ` set [1..<k]"
    have nth: "?T ! j = block_at ?b j" if "0 < j" "j < n" for j using nth_targets [OF that(2), of addr] that(1) by simp
    have J: "\<forall>j \<in> set [1..<k]. block_at ?b j \<in> served \<and> fst (spec_lock op (view s (block_at ?b j))) \<and> view s (block_at ?b j) \<noteq> Reading 0"
    proof
      fix j assume j: "j \<in> set [1..<k]"
      then have "j < length ?T" using k(1) F(1) by simp
      then have "?T ! j = block_at ?b j" "?T ! j \<in> set ?T" using nth [of j] j k(1) by (simp_all only: nth_mem) auto
      then show "block_at ?b j \<in> served \<and> fst (spec_lock op (view s (block_at ?b j))) \<and> view s (block_at ?b j) \<noteq> Reading 0"
        using bspec [OF L(4), of j] R(3) proper [OF s] j by auto
    qed
    have inj: "inj_on (block_at ?b) (set [1..<k])" "addr \<notin> ?B"
      using F(4) k(1) by (auto simp: targets_def distinct_map intro: inj_on_subset)
    have "\<exists>s2. (if k \<ge> 1 then do { (_, _, s) \<leftarrow> send s1 (lock_request UNLOCK addr (TRY_LOCK OR ASYNC)); Some s } else Some s1) = Some s2 \<and>
        inv s2 \<and> view s2 = locked_to op ?B (view s)"
    proof (cases "k = 0")
      case True
      then show ?thesis using L(2,3) by (simp add: locked_to_def)
    next
      case k0: False
      have "(!) ?T ` {..<k} = insert addr ?B"
      proof -
        have "{..<k} = insert 0 (set [1..<k])" using k0 by auto
        then show ?thesis using nth k(1) by (auto simp: T0 image_iff)
      qed
      then have v1: "view s1 = locked_to op (insert addr ?B) (view s)" using L(3) by simp
      have "addr \<in> served" "fst (spec_lock op (view s addr))" using R(3) bspec [OF L(4), of 0] k0 T0 by (auto simp: targets_def)
      then show ?thesis using unlock_locked [OF L(2) v1 inj(2)] proper [OF s] k0 by fastforce
    qed
    then obtain s2 where s2: "(if k \<ge> 1 then do { (_, _, s) \<leftarrow> send s1 (lock_request UNLOCK addr (TRY_LOCK OR ASYNC)); Some s } else Some s1) = Some s2"
      "inv s2" "view s2 = locked_to op ?B (view s)" by blast
    obtain s3 where "unlock_loop send TRY_LOCK ?b [1..<k] s2 = Some s3" "inv s3" "view s3 = view s"
      using unlock_loop_undo [OF s2(2,3) inj(1) _ J] by auto
    then show ?thesis using False L(1) opn no s2(1) by (simp add: Galloc_Lock_def Let_def)
  qed
qed

text \<open>Releasing a range: every block of it is released once.\<close>

lemma release_loop:
  assumes R: "lock_range addr count" "n = range_blocks addr count" "set (targets addr n) \<subseteq> served" and held: "\<forall>a \<in> set (targets addr n). v a \<noteq> Free"
    and s: "inv s" "view s = (\<lambda>a. if a \<in> (!) (targets addr n) ` {..<i} then spec_unlock (v a) else v a)" "i < n"
  shows "\<exists>s'. lock_loop send UNLOCK ASYNC (TOBLOCK addr) (TOBLOCK (GADD addr (count - 1))) i (targets addr n ! i) s = Some (0, n, s') \<and> inv s' \<and>
    view s' = (\<lambda>a. if a \<in> (!) (targets addr n) ` {..<n} then spec_unlock (v a) else v a)"
  using s
proof (induction "n - i" arbitrary: i s)
  case (Suc d)
  let ?T = "targets addr n" and ?b = "TOBLOCK addr" and ?e = "TOBLOCK (GADD addr (count - 1))"
  note F = range_facts [OF R(1), folded R(2)]
  let ?a = "?T ! i"
  have a: "?a \<in> set ?T" using Suc.prems(3) F(1) by simp
  have "?a \<notin> (!) ?T ` {..<i}" using F(1,4) Suc.prems(3) by (auto simp: nth_eq_iff_index_eq)
  then have va: "view s ?a = v ?a" using Suc.prems(2) by simp
  obtain w s1 where s1: "send s (lock_request UNLOCK ?a ASYNC) = Some (0, w, s1)" "inv s1" "wr_status w = 0"
    "view s1 = (view s)(?a := spec_unlock (v ?a))"
    using unlock [OF Suc.prems(1), of ?a ASYNC] a R(3) held va by auto
  have v1: "view s1 = (\<lambda>a. if a \<in> (!) ?T ` {..<Suc i} then spec_unlock (v a) else v a)" using s1(4) Suc.prems(2) by (auto simp: lessThan_Suc)
  show ?case
  proof (cases "Suc i = n")
    case True
    then have "?e < block_at ?b (i + 1)" using F(3) [of "i + 1"] by simp
    then show ?thesis using True s1 v1 by (subst lock_loop.simps) simp
  next
    case False
    then have i: "Suc i < n" using Suc.prems(3) by simp
    then have "\<not> ?e < block_at ?b (i + 1)" "?T ! Suc i = block_at ?b (i + 1)" using F(3) [of "i + 1"] nth_targets [OF i, of addr] by simp_all
    then have "lock_loop send UNLOCK ASYNC ?b ?e i ?a s = lock_loop send UNLOCK ASYNC ?b ?e (Suc i) (?T ! Suc i) s1"
      using s1(1) by (subst lock_loop.simps) simp
    then show ?thesis using Suc.hyps(1) [OF _ s1(2) v1 i] Suc.hyps(2) by simp
  qed
qed simp

lemma UnLock_range:
  assumes R: "lock_range addr count" "n = range_blocks addr count" "set (targets addr n) \<subseteq> served"
    and s: "inv s" "\<forall>a \<in> set (targets addr n). view s a \<noteq> Free"
  shows "\<exists>s'. Galloc_UnLock send s addr count = Some s' \<and> inv s' \<and>
    view s' = (\<lambda>a. if a \<in> set (targets addr n) then spec_unlock (view s a) else view s a)"
proof -
  note F = range_facts [OF R(1), folded R(2)]
  have "(!) (targets addr n) ` {..<n} = set (targets addr n)" using F(1) by (auto simp: set_conv_nth)
  moreover have "targets addr n ! 0 = addr" by (simp add: targets_def)
  ultimately show ?thesis using release_loop [OF R s(2,1) _ F(1)] by (auto simp: Galloc_UnLock_def Galloc_Lock_def Let_def)
qed

lemma Lock_UnLock:
  assumes R: "lock_range addr count" "n = range_blocks addr count" "set (targets addr n) \<subseteq> served" and s: "inv s"
    and op: "op \<in> {RLOCK, WLOCK}" "op = RLOCK \<longrightarrow> (\<forall>a \<in> set (targets addr n). view s a \<noteq> Reading bound)"
    and free: "\<forall>a \<in> set (targets addr n). fst (spec_lock op (view s a))"
  shows "\<exists>s1 s2. Galloc_Lock send s op addr count TRY_LOCK = Some (0, s1) \<and> Galloc_UnLock send s1 addr count = Some s2 \<and> inv s2 \<and> view s2 = view s"
proof -
  let ?A = "set (targets addr n)"
  obtain s1 where s1: "Galloc_Lock send s op addr count TRY_LOCK = Some (0, s1)" "inv s1" "view s1 = locked_to op ?A (view s)"
    using Lock_all_or_nothing [OF R s op] free by auto
  then have "\<forall>a \<in> ?A. view s1 a \<noteq> Free" using free spec_lock_held by (simp add: locked_to_def)
  then obtain s2 where s2: "Galloc_UnLock send s1 addr count = Some s2" "inv s2" "view s2 = (\<lambda>a. if a \<in> ?A then spec_unlock (view s1 a) else view s1 a)"
    using UnLock_range [OF R s1(2)] by blast
  have "view s2 a = view s a" for a using s1(3) s2(3) free spec_lock_undo proper [OF s] by (simp add: locked_to_def)
  then show ?thesis using s1(1) s2(1,2) by auto
qed

end

end
