(* ===== verification/Gam_Home_Lock.thy ===== *)
theory Gam_Home_Lock
  imports Gam_Try_Lock
begin

text \<open>
  The worker keeps the contract \<open>lock_service\<close> for the memory it is home of: the interpretation \<open>home_locks\<close> of the
  locale on the handle of a thread, and what follows for \<^verbatim>\<open>Try_RLock\<close>, \<^verbatim>\<open>Try_WLock\<close> and \<^verbatim>\<open>UnLock\<close>.
\<close>

section \<open>The worker serves the locks of its own memory\<close>

lemma block_mod: "n mod (512 * k) div 512 * 512 = n div 512 * 512 mod (512 * (k :: nat))"
proof -
  have "n mod (512 * k) div 512 = n div 512 mod k" by (simp add: mod_mult2_eq)
  then show ?thesis by (simp only: mult.commute [of _ 512] mult_mod_right)
qed

lemma unat_add64: "unat (x + y) = (unat x + unat y) mod 2 ^ 64" for x y :: u64
  by (simp add: unat_word_ariths(1))

lemma TOBLOCK_local:
  assumes "BLOCK_ALIGNED b"
  shows "TOBLOCK (TO_LOCAL a b) = TO_LOCAL (TOBLOCK a) b"
proof (rule word_eqI_unat)
  have e: "512 * 2 ^ 55 = (2 :: nat) ^ 64" by simp
  obtain k where k: "unat b = 512 * k" using assms by (auto simp: BLOCK_ALIGNED_iff mod_eq_0_iff_dvd elim: dvdE)
  have o: "unat (OFF (TOBLOCK a)) = unat (OFF a) div 512 * 512"
    using block_mod [of "unat a" "2 ^ 39"] by (simp add: unat_OFF unat_TOBLOCK)
  have "unat (TOBLOCK (TO_LOCAL a b)) = (unat (OFF a) + 512 * k) mod (512 * 2 ^ 55) div 512 * 512"
    by (simp add: unat_TOBLOCK TO_LOCAL_def unat_word_ariths k)
  also have "\<dots> = (unat (OFF a) + 512 * k) div 512 * 512 mod (512 * 2 ^ 55)" by (rule block_mod)
  also have "(unat (OFF a) + 512 * k) div 512 * 512 = unat (OFF (TOBLOCK a)) + unat b" unfolding o k
    by (simp add: div_mult_self2 distrib_right)
  also have "(unat (OFF (TOBLOCK a)) + unat b) mod (512 * 2 ^ 55) = unat (TO_LOCAL (TOBLOCK a) b)"
    unfolding TO_LOCAL_def e unat_add64 ..
  finally show "unat (TOBLOCK (TO_LOCAL a b)) = unat (TO_LOCAL (TOBLOCK a) b)" .
qed

lemma TO_LOCAL_inj: "WID a = WID a' \<Longrightarrow> TO_LOCAL a b = TO_LOCAL a' b \<Longrightarrow> a = a'"
  unfolding TO_LOCAL_def add_right_cancel by (metis OFF_WID_ident)

text \<open>
  A worker none of whose blocks is cached elsewhere and that has nothing waiting, seen from a thread
  with no fence up and no write outstanding.
\<close>

definition galloc_ready :: "WorkerHandle \<Rightarrow> i32 \<Rightarrow> ptr \<Rightarrow> world \<Rightarrow> bool" where
  "galloc_ready h m b x \<longleftrightarrow> dir_unshared (directory (fst x)) \<and> my_wid (fst x) = m \<and> base (fst x) = b \<and> BLOCK_ALIGNED b \<and>
     (\<exists>f. fences (fst x) (recv_fd h) = Some f \<and> \<not> mfenced f \<and> \<not> sfenced f \<and> pending_writes f = 0) \<and>
     to_serve_local_requests (fst x) = Map.empty \<and> to_serve_requests (fst x) = Map.empty"

definition galloc_view :: "i32 \<Rightarrow> ptr \<Rightarrow> world \<Rightarrow> gaddr \<Rightarrow> rwstate" where
  "galloc_view m b x a = (if WID a = wid64 m then dir_view (directory (fst x)) (TO_LOCAL a b) else Free)"

lemma galloc_view_upd:
  assumes "WID a = wid64 m" "dir_view (directory (fst y)) = (dir_view (directory (fst x)))(TO_LOCAL a b := v)"
  shows "galloc_view m b y = (galloc_view m b x)(a := v)"
  using assms TO_LOCAL_inj [of _ a b] by (auto simp: galloc_view_def fun_eq_iff)

lemma galloc_ready_upd:
  assumes "galloc_ready h m b x" "dir_unshared (directory s)" "my_wid s = my_wid (fst x)" "base s = base (fst x)" "fences s = fences (fst x)"
    "to_serve_local_requests s = to_serve_local_requests (fst x)" "to_serve_requests s = to_serve_requests (fst x)"
  shows "galloc_ready h m b (s, evs)"
  using assms by (simp add: galloc_ready_def)

text \<open>The directory calls of the handlers, where no block is shared.\<close>

lemma unshared_calls:
  assumes "dir_unshared d" "BLOCK_ALIGNED q" "TOBLOCK p = q"
  shows "GetState_e d (GetEntry d q) = DIR_UNSHARED"
    and "(case GetEntry d q of Some _ \<Rightarrow> RLock_e d (GetEntry d q) p | None \<Rightarrow> RLock_p d p) = Some (dir_rlock d p)"
    and "(case GetEntry d q of Some _ \<Rightarrow> WLock_e d (GetEntry d q) p | None \<Rightarrow> WLock_p d p) = Some (dir_wlock d p)"
    and "dir_view d p \<noteq> Free \<Longrightarrow> UnLock_p d p = Some (dir_unlock d p)"
proof -
  show "GetState_e d (GetEntry d q) = DIR_UNSHARED"
    using dir_unshared_entry [OF assms(1)] by (auto simp: GetState_e_def dir_simps split: option.splits)
  have q: "TOBLOCK q = q" using assms(2) by (rule TOBLOCK_id)
  show "(case GetEntry d q of Some _ \<Rightarrow> RLock_e d (GetEntry d q) p | None \<Rightarrow> RLock_p d p) = Some (dir_rlock d p)"
    using assms(3) q by (auto simp: dir_rlock_def RLock_p_def RLock_e_def dir_simps Let_def split_beta split: option.splits)
  show "(case GetEntry d q of Some _ \<Rightarrow> WLock_e d (GetEntry d q) p | None \<Rightarrow> WLock_p d p) = Some (dir_wlock d p)"
    using assms(3) q by (auto simp: dir_wlock_def WLock_p_def WLock_e_def dir_simps Let_def split_beta split: option.splits)
  show "UnLock_p d p = Some (dir_unlock d p)" if "dir_view d p \<noteq> Free"
    using that by (auto simp: dir_unlock_def UnLock_p_def UnLock_e_def dir_view_def dir_simps Let_def split: option.splits)
qed

text \<open>The request as the handler of the worker gets it.\<close>

definition as_sent :: "WorkerHandle \<Rightarrow> WorkRequest \<Rightarrow> WorkRequest" where
  "as_sent h w = (set_flag w LOCAL_REQUEST)\<lparr>wr_fd := recv_fd h, wr_notify_buf := notify_buf h\<rparr>"

definition sent_request :: "WorkerHandle \<Rightarrow> Work \<Rightarrow> gaddr \<Rightarrow> i32 \<Rightarrow> WorkRequest" where
  "sent_request h op a flag = as_sent h (lock_request op a flag)"

definition sent_state :: "WorkerHandle \<Rightarrow> Worker \<Rightarrow> WorkRequest \<Rightarrow> Worker" where
  "sent_state h s w = s\<lparr>next_req := next_req s + 1, mem := mem_write (mem s) (notify_buf h) (le_bytes 4 1), reqs := (reqs s)(next_req s \<mapsto> w)\<rparr>"

lemma wh_send_done:
  assumes "ProcessLocalRequest n (sent_state h (fst x) (as_sent h v)) (next_req (fst x)) = Some (SUCCESS, s)" "reqs s (next_req (fst x)) = Some w"
  shows "wh_send n h x v = Some (wr_status w, w, delete_wr s (next_req (fst x)), snd x)"
  using assms by (simp add: wh_send_def SendRequest_def alloc_wr_def upd_wr_def sent_state_def as_sent_def SUCCESS_def Let_def)

lemmas wh_send_completed = wh_send_done [of _ _ _ "lock_request op a flag" for op a flag, folded sent_request_def]

lemma sent_request_fields [simp]:
  "wr_op (sent_request h op a flag) = op" "wr_addr (sent_request h op a flag) = a" "wr_counter (sent_request h op a flag) = 0"
  "wr_status (sent_request h op a flag) = 0" "wr_fd (sent_request h op a flag) = recv_fd h"
  by (simp_all add: sent_request_def as_sent_def lock_request_def new_WorkRequest_def set_flag_def)

lemma sent_state_fields [simp]:
  "reqs (sent_state h s w) (next_req s) = Some w" "directory (sent_state h s w) = directory s" "fences (sent_state h s w) = fences s"
  "my_wid (sent_state h s w) = my_wid s" "base (sent_state h s w) = base s" "to_serve_requests (sent_state h s w) = to_serve_requests s"
  "to_serve_local_requests (sent_state h s w) = to_serve_local_requests s"
  by (simp_all add: sent_state_def)

lemma sent_request_flags [simp]:
  "has (sent_request h op a TRY_LOCK) TRY_LOCK" "\<not> has (sent_request h op a TRY_LOCK) FENCE" "\<not> has (sent_request h op a TRY_LOCK) TO_SERVE"
  "\<not> has (sent_request h op a ASYNC) FENCE" "\<not> has (sent_request h op a ASYNC) TO_SERVE"
  "\<not> has (sent_request h op a (TRY_LOCK OR ASYNC)) FENCE" "\<not> has (sent_request h op a (TRY_LOCK OR ASYNC)) TO_SERVE"
  by (simp_all add: sent_request_def as_sent_def lock_request_def new_WorkRequest_def set_flag_def has_def TRY_LOCK_def LOCAL_REQUEST_def FENCE_def TO_SERVE_def ASYNC_def)

lemma has_status: "has (w\<lparr>wr_status := v\<rparr>) f \<longleftrightarrow> has w f"
  by (simp add: has_def)

lemma home_lock_send:
  assumes x: "galloc_ready h m b x" and a: "WID a = wid64 m" and op: "op \<in> {RLOCK, WLOCK}"
    and d: "(ret, d) = (if op = RLOCK then dir_rlock else dir_wlock) (directory (fst x)) (TO_LOCAL a b)"
  shows "\<exists>s w. wh_send (Suc n) h x (lock_request op a TRY_LOCK) = Some (wr_status w, w, s, snd x) \<and> (wr_status w = 0 \<longleftrightarrow> ret = 0) \<and>
    directory s = d \<and> my_wid s = my_wid (fst x) \<and> base s = base (fst x) \<and> fences s = fences (fst x) \<and>
    to_serve_local_requests s = to_serve_local_requests (fst x) \<and> to_serve_requests s = to_serve_requests (fst x)"
proof -
  let ?s = "fst x" and ?r = "next_req (fst x)" and ?w = "sent_request h op a TRY_LOCK"
  let ?t = "sent_state h ?s ?w"
  obtain f where f: "fences ?s (recv_fd h) = Some f" "\<not> mfenced f" "\<not> sfenced f" "pending_writes f = 0"
    and u: "dir_unshared (directory ?s)" and b: "my_wid ?s = m" "base ?s = b" "BLOCK_ALIGNED b"
    using x by (auto simp: galloc_ready_def)
  have tb: "TOBLOCK (TO_LOCAL a b) = TO_LOCAL (TOBLOCK a) b" by (rule TOBLOCK_local [OF b(3)])
  then have al: "BLOCK_ALIGNED (TO_LOCAL (TOBLOCK a) b)" using TOBLOCK_aligned [of "TO_LOCAL a b"] by simp
  note U = unshared_calls [OF u al tb]
  have lf: "lock_fence ?t ?r = Some (False, ?t)"
    using f by (simp add: lock_fence_def IsFenced_def)
  let ?w' = "if ret = 0 then ?w else ?w\<lparr>wr_status := LOCK_FAILED\<rparr>"
  let ?u = "if ret = 0 then set_dir ?t d else set_dir ?t d\<lparr>reqs := (reqs ?t)(?r \<mapsto> ?w')\<rparr>"
  let ?v = "if op = RLOCK then count_read ?u (?w\<lparr>wr_hit := True\<rparr>) else count_write ?u (?w\<lparr>wr_hit := True\<rparr>)"
  have "(if op = RLOCK then local_rlock else local_wlock) ?t ?r = Some (SUCCESS, ?u)"
    using op d [symmetric] b U(1,2,3)
    by (cases "GetEntry (directory ?s) (TO_LOCAL (TOBLOCK a) b)"; cases "ret = 0") (auto simp: local_rlock_def local_wlock_def ToLocal_def InTransitionState_s_def home_busy_def set_dir_def upd_wr_def Let_def split: if_splits)
  moreover have "notify_deferred n plr ?u ?r g = Some (SUCCESS, g ?u)" for plr g
    by (cases "ret = 0") (simp_all add: notify_deferred_def set_dir_def has_status)
  moreover have "IsLocal ?t a" using a b by (simp add: IsLocal_def)
  ultimately have P: "ProcessLocalRequest (Suc n) ?t ?r = Some (SUCCESS, ?v)"
    using op lf by (auto simp: ProcessLocalRequest_def ProcessLocalRequest_body_def ProcessLocalRLock_def ProcessLocalWLock_def)
  have "reqs ?v ?r = Some ?w'" by (auto simp: count_read_def count_write_def bump_def set_dir_def)
  note W = wh_send_completed [OF P this]
  show ?thesis
    by (intro exI [of _ "delete_wr ?v ?r"] exI [of _ ?w'] conjI W)
      (auto simp: delete_wr_def count_read_def count_write_def bump_def set_dir_def LOCK_FAILED_def)
qed

lemma home_unlock_send:
  assumes x: "galloc_ready h m b x" and a: "WID a = wid64 m" and fl: "flag \<in> {ASYNC, TRY_LOCK OR ASYNC}" and v: "dir_view (directory (fst x)) (TO_LOCAL a b) \<noteq> Free"
  shows "\<exists>s w. wh_send (Suc n) h x (lock_request UNLOCK a flag) = Some (0, w, s, snd x) \<and> wr_status w = 0 \<and>
    directory s = dir_unlock (directory (fst x)) (TO_LOCAL a b) \<and> my_wid s = my_wid (fst x) \<and> base s = base (fst x) \<and> fences s = fences (fst x) \<and>
    to_serve_local_requests s = to_serve_local_requests (fst x) \<and> to_serve_requests s = to_serve_requests (fst x)"
proof -
  let ?s = "fst x" and ?r = "next_req (fst x)" and ?w = "sent_request h UNLOCK a flag" and ?d = "dir_unlock (directory (fst x)) (TO_LOCAL a b)"
  let ?t = "sent_state h ?s ?w"
  obtain f where f: "fences ?s (recv_fd h) = Some f" "\<not> mfenced f" "\<not> sfenced f" "pending_writes f = 0"
    and u: "dir_unshared (directory ?s)" and b: "my_wid ?s = m" "base ?s = b" "BLOCK_ALIGNED b"
    and q: "to_serve_local_requests ?s = Map.empty" "to_serve_requests ?s = Map.empty"
    using x by (auto simp: galloc_ready_def)
  have "UnLock_p (directory ?s) (TO_LOCAL a b) = Some ?d" using unshared_calls(4) [OF u _ refl v] by simp
  moreover have "lock_fence ?t ?r = Some (False, ?t)" using f fl by (auto simp: lock_fence_def IsFenced_def)
  moreover have "\<not> has ?w FENCE" "\<not> has ?w TO_SERVE" using fl by auto
  ultimately have "ProcessLocalRequest (Suc n) ?t ?r = Some (SUCCESS, set_dir ?t ?d)"
    using a b q by (simp add: ProcessLocalRequest_def ProcessLocalRequest_body_def ProcessLocalUnLock_def IsLocal_def ToLocal_def
        ProcessToServeRequest_def notify_deferred_def set_dir_def)
  note W = wh_send_completed [OF this, of ?w]
  show ?thesis using W by (intro exI [of _ "delete_wr (set_dir ?t ?d) ?r"] exI [of _ ?w]) (simp add: delete_wr_def set_dir_def)
qed

interpretation home_locks: lock_service "wh_send (Suc n) h" "galloc_view m b" "galloc_ready h m b" "{a. WID a = wid64 m}" 254 for n h m b
proof
  fix x a op
  assume x: "galloc_ready h m b x" and a: "a \<in> {a. WID a = wid64 m}"
  let ?d = "directory (fst x)" and ?p = "TO_LOCAL a b"
  have u: "dir_unshared ?d" and va: "galloc_view m b x a = dir_view ?d ?p" using x a by (simp_all add: galloc_ready_def galloc_view_def)
  show "\<exists>st w x'. wh_send (Suc n) h x (lock_request op a TRY_LOCK) = Some (st, w, x') \<and> galloc_ready h m b x' \<and> wr_status w = st \<and>
      (st = 0 \<longleftrightarrow> fst (spec_lock op (galloc_view m b x a))) \<and> galloc_view m b x' = (galloc_view m b x)(a := snd (spec_lock op (galloc_view m b x a)))"
    if op: "op \<in> {RLOCK, WLOCK}" and bnd: "op = RLOCK \<longrightarrow> galloc_view m b x a \<noteq> Reading 254"
  proof -
    obtain ret d where d: "(ret, d) = (if op = RLOCK then dir_rlock else dir_wlock) ?d ?p" by (metis surj_pair)
    have L: "(ret = 0 \<longleftrightarrow> fst (spec_lock op (dir_view ?d ?p))) \<and> dir_view d = (dir_view ?d)(?p := snd (spec_lock op (dir_view ?d ?p))) \<and> dir_unshared d"
      using home.rlock_view [OF u, of ?p] home.rlock_inv [OF u, of ?p] home.wlock_view [OF u, of ?p] home.wlock_inv [OF u, of ?p] op bnd va d [symmetric]
      by (cases "op = RLOCK") simp_all
    obtain s w where s: "wh_send (Suc n) h x (lock_request op a TRY_LOCK) = Some (wr_status w, w, s, snd x)" "wr_status w = 0 \<longleftrightarrow> ret = 0"
      "directory s = d" "my_wid s = my_wid (fst x)" "base s = base (fst x)" "fences s = fences (fst x)"
      "to_serve_local_requests s = to_serve_local_requests (fst x)" "to_serve_requests s = to_serve_requests (fst x)"
      using home_lock_send [OF x _ op d, of n] a by auto
    have "galloc_ready h m b (s, snd x)" using galloc_ready_upd [OF x _ s(4-8)] L s(3) by simp
    moreover have "galloc_view m b (s, snd x) = (galloc_view m b x)(a := snd (spec_lock op (galloc_view m b x a)))"
      using galloc_view_upd [of a m "(s, snd x)" x b] a L s(3) va by simp
    ultimately show ?thesis using s(1,2) L va by auto
  qed
  show "\<exists>w x'. wh_send (Suc n) h x (lock_request UNLOCK a flag) = Some (0, w, x') \<and> galloc_ready h m b x' \<and> wr_status w = 0 \<and>
      galloc_view m b x' = (galloc_view m b x)(a := spec_unlock (galloc_view m b x a))"
    if nf: "galloc_view m b x a \<noteq> Free" and fl: "flag \<in> {ASYNC, TRY_LOCK OR ASYNC}" for flag
  proof -
    have v: "dir_view ?d ?p \<noteq> Free" using nf va by simp
    obtain s w where s: "wh_send (Suc n) h x (lock_request UNLOCK a flag) = Some (0, w, s, snd x)" "wr_status w = 0"
      "directory s = dir_unlock ?d ?p" "my_wid s = my_wid (fst x)" "base s = base (fst x)" "fences s = fences (fst x)"
      "to_serve_local_requests s = to_serve_local_requests (fst x)" "to_serve_requests s = to_serve_requests (fst x)"
      using home_unlock_send [OF x _ fl v, of n] a by auto
    have "galloc_ready h m b (s, snd x)" using galloc_ready_upd [OF x _ s(4-8)] home.unlock_inv [OF u v] s(3) by simp
    moreover have "galloc_view m b (s, snd x) = (galloc_view m b x)(a := spec_unlock (galloc_view m b x a))"
      using galloc_view_upd [of a m "(s, snd x)" x b] a home.unlock_view [OF u v] s(3) va by simp
    ultimately show ?thesis using s(1,2) by auto
  qed
next
  fix x a assume x: "galloc_ready h m b x"
  show "galloc_view m b x a \<noteq> Reading 0"
    using x dir_unshared_entry [of "directory (fst x)"] tab_inv_map_of
    by (fastforce simp: galloc_view_def galloc_ready_def dir_view_def tab_view_def split: option.splits if_splits)
qed

lemma targets_home:
  assumes "lock_range addr count" "WID addr = wid64 m" "WID (GADD addr (count - 1)) = wid64 m"
  shows "set (targets addr (range_blocks addr count)) \<subseteq> {a. WID a = wid64 m}"
proof
  fix a
  let ?n = "range_blocks addr count" and ?last = "GADD addr (count - 1)"
  note F = range_facts [OF assms(1)]
  assume "a \<in> set (targets addr ?n)"
  then consider "a = addr" | k where "0 < k" "k < ?n" "a = block_at (TOBLOCK addr) k" by (auto simp: targets_def Suc_le_eq)
  then show "a \<in> {a. WID a = wid64 m}"
  proof cases
    case 2
    have "a \<le> TOBLOCK ?last" using F(3) [of k] 2 by (simp add: not_less [symmetric])
    then have "unat a \<le> unat ?last" using TOBLOCK_le [of ?last] by (simp add: word_le_nat_alt)
    moreover have "unat addr < unat (TOBLOCK addr) + 512" by (simp add: unat_TOBLOCK)
    then have "unat addr \<le> unat a" using F(2) [of k] 2 by simp
    ultimately have "unat (WID addr) \<le> unat (WID a)" "unat (WID a) \<le> unat (WID ?last)" unfolding unat_WID by (simp_all add: div_le_mono)
    then show ?thesis using assms(2,3) by (simp add: word_unat_eq_iff)
  qed (use assms(2) in simp)
qed

lemma try_lock_eq:
  "op \<in> {RLOCK, WLOCK} \<Longrightarrow> (if op = RLOCK then Try_RLock else Try_WLock) send y addr count = Galloc_Lock send y op addr count TRY_LOCK"
  by (auto simp: Try_RLock_def Try_WLock_def)

text \<open>
  C10. Locks on a range are taken all or none. A thread that tries to lock a range of its own worker's
  memory, for reading or for writing, gets every lock of the range when all are available (the result is
  0 and exactly the locks of the range have changed) and otherwise none: the result is -1 and every lock
  of the worker is as before, whatever was taken on the way having been given back. The call returns in
  either case.
\<close>

theorem try_lock_all_or_nothing:
  assumes "galloc_ready h m b x" "lock_range addr count" "WID addr = wid64 m" "WID (GADD addr (count - 1)) = wid64 m"
    and "op \<in> {RLOCK, WLOCK}" "A = set (targets addr (range_blocks addr count))" "op = RLOCK \<longrightarrow> (\<forall>a \<in> A. galloc_view m b x a \<noteq> Reading 254)"
  shows "\<exists>r x'. (if op = RLOCK then Try_RLock else Try_WLock) (wh_send (Suc n) h) x addr count = Some (r, x') \<and> galloc_ready h m b x' \<and>
    (if \<forall>a \<in> A. fst (spec_lock op (galloc_view m b x a)) then r = 0 \<and> galloc_view m b x' = locked_to op A (galloc_view m b x)
     else r = -1 \<and> galloc_view m b x' = galloc_view m b x)"
  unfolding try_lock_eq [OF assms(5)] assms(6)
  by (rule home_locks.Lock_all_or_nothing [OF assms(2) refl targets_home [OF assms(2-4)] assms(1,5) assms(7) [unfolded assms(6)]])

text \<open>A thread of an idle worker, the lock of the third block taken by another one.\<close>

definition locking :: world where
  "locking = (idle_worker\<lparr>directory := snd (dir_wlock Map.empty 66560)\<rparr>, [])"

definition thread7 :: WorkerHandle where
  "thread7 = \<lparr>notify_buf = 4096, recv_fd = 7\<rparr>"

lemma locking_ready: "galloc_ready thread7 1 65536 locking"
proof -
  have "dir_unshared Map.empty" by (simp add: dir_unshared_def dir_ok_def)
  then have "dir_unshared (snd (dir_wlock Map.empty 66560))" by (rule home.wlock_inv)
  then show ?thesis by (simp add: galloc_ready_def locking_def thread7_def idle_worker_def new_Fence_def BLOCK_ALIGNED_iff)
qed

lemma locking_targets:
  "lock_range 0x1000000000208 600" "range_blocks 0x1000000000208 600 = 2" "targets 0x1000000000208 2 = [0x1000000000208, 0x1000000000400]"
  "lock_range 0x1000000000008 600" "range_blocks 0x1000000000008 600 = 2" "targets 0x1000000000008 2 = [0x1000000000008, 0x1000000000200]"
  by (simp_all add: lock_range_def range_blocks_def targets_def block_at_def GADD_def TOBLOCK_def BLOCK_MASK_def upt_rec)

lemma locking_home:
  "WID 0x1000000000208 = wid64 1" "WID (GADD 0x1000000000208 (600 - 1)) = wid64 1" "WID 0x1000000000400 = wid64 1"
  "WID 0x1000000000008 = wid64 1" "WID (GADD 0x1000000000008 (600 - 1)) = wid64 1" "TO_LOCAL 0x1000000000400 65536 = 66560"
  by (simp_all add: WID_def GADD_def wid64_def TO_LOCAL_def OFF_def OFF_MASK_def)

lemma locking_view: "galloc_view 1 65536 locking a = (if a = 0x1000000000400 then Writing else Free)"
proof -
  have "dir_view (snd (dir_wlock Map.empty 66560)) = (\<lambda>p. if p = 66560 then Writing else Free)"
    by (simp add: dir_wlock_eq dir_view_new EXCLUSIVE_LOCK_TAG_def) (auto simp: dir_view_def)
  then have v: "galloc_view 1 65536 locking a = (if WID a = wid64 1 \<and> TO_LOCAL a 65536 = 66560 then Writing else Free)"
    by (simp add: galloc_view_def locking_def)
  have "WID a = wid64 1 \<and> TO_LOCAL a 65536 = 66560 \<longleftrightarrow> a = 0x1000000000400" using locking_home(3,6) TO_LOCAL_inj [of a "0x1000000000400" 65536] by metis
  then show ?thesis unfolding v by simp
qed

theorem try_lock_all_or_nothing_witness:
  "\<exists>x'. Try_RLock (wh_send 1 thread7) locking 0x1000000000208 600 = Some (-1, x') \<and> galloc_view 1 65536 x' = galloc_view 1 65536 locking"
proof -
  from try_lock_all_or_nothing [OF locking_ready locking_targets(1) locking_home(1,2), of RLOCK _ 0]
  show ?thesis by (auto simp: locking_targets locking_view)
qed

text \<open>
  C11. Locking a range and releasing it leaves no trace. When every lock of the range is available, trying to lock
  it succeeds and unlocking it then puts every lock of the worker, in the range and outside, back to what it was.
\<close>

theorem lock_unlock_range:
  assumes "galloc_ready h m b x" "lock_range addr count" "WID addr = wid64 m" "WID (GADD addr (count - 1)) = wid64 m"
    and "op \<in> {RLOCK, WLOCK}" "A = set (targets addr (range_blocks addr count))" "op = RLOCK \<longrightarrow> (\<forall>a \<in> A. galloc_view m b x a \<noteq> Reading 254)"
    and "\<forall>a \<in> A. fst (spec_lock op (galloc_view m b x a))"
  shows "\<exists>x1 x2. (if op = RLOCK then Try_RLock else Try_WLock) (wh_send (Suc n) h) x addr count = Some (0, x1) \<and>
    Galloc_UnLock (wh_send (Suc n) h) x1 addr count = Some x2 \<and> galloc_ready h m b x2 \<and> galloc_view m b x2 = galloc_view m b x"
  unfolding try_lock_eq [OF assms(5)]
  by (rule home_locks.Lock_UnLock [OF assms(2) refl targets_home [OF assms(2-4)] assms(1,5) assms(7,8) [unfolded assms(6)]])

theorem lock_unlock_range_witness:
  "\<exists>x1 x2. Try_WLock (wh_send 1 thread7) locking 0x1000000000008 600 = Some (0, x1) \<and> Galloc_UnLock (wh_send 1 thread7) x1 0x1000000000008 600 = Some x2 \<and>
     galloc_view 1 65536 x2 = galloc_view 1 65536 locking"
proof -
  from lock_unlock_range [OF locking_ready locking_targets(4) locking_home(4,5), of WLOCK _ 0]
  show ?thesis by (auto simp: locking_targets locking_view)
qed

text \<open>
  The offset of a block is a product of \<^verbatim>\<open>int\<close>: from the block 2 GB behind the first one on, it is negative
  (where the overflow wraps) and the lock is asked for at another address.
\<close>

lemma block_at_overflow: "block_at 0x1000000000000 4194304 = 0xFFFF80000000"
  by (simp add: block_at_def GADD_def)

end
