(* ===== verification/Gam_Home_Array.thy ===== *)
theory Gam_Home_Array
  imports Gam_Array_Ok Gam_Home_Lock Gam_Access
begin

text \<open>
  The worker keeps the contract \<open>global_heap\<close> for the memory it is home of: the interpretation \<open>home_heap\<close> on the handle of
  a thread, and what follows for arrays.
\<close>

section \<open>Home memory as global memory\<close>

text \<open>The region \<open>[lo, lo + z)\<close> of worker \<open>m\<close>, whose addresses count from \<open>b\<close>, seen under global addresses.\<close>

definition region_view :: "i32 \<Rightarrow> ptr \<Rightarrow> ptr \<Rightarrow> nat \<Rightarrow> memory \<Rightarrow> memory" where
  "region_view m b lo z M = (\<lambda>a. if WID a = wid64 m \<and> unat (TO_LOCAL a b - lo) < z then M (TO_LOCAL a b) else 0)"

definition span :: "i32 \<Rightarrow> ptr \<Rightarrow> ptr \<Rightarrow> nat \<Rightarrow> gaddr \<Rightarrow> nat \<Rightarrow> bool" where
  "span m b lo z a k \<longleftrightarrow> (\<forall>i < k. WID (a + of_nat i) = wid64 m \<and> TO_LOCAL (a + of_nat i) b = TO_LOCAL a b + of_nat i \<and> unat (TO_LOCAL a b + of_nat i - lo) < z)"

lemma view_read: "span m b lo z a k \<Longrightarrow> mem_read (region_view m b lo z M) a k = mem_read M (TO_LOCAL a b) k"
  by (rule mem_read_cong) (simp add: span_def region_view_def)

lemma view_out:
  assumes "apart p (length bs) lo z"
  shows "region_view m b lo z (mem_write M p bs) = region_view m b lo z M"
proof
  fix a
  have "mem_write M p bs (lo + of_nat (unat (TO_LOCAL a b - lo))) = M (lo + of_nat (unat (TO_LOCAL a b - lo)))" if "unat (TO_LOCAL a b - lo) < z"
    using mem_write_apart_at [OF assms that] .
  then show "region_view m b lo z (mem_write M p bs) a = region_view m b lo z M a" by (simp add: region_view_def)
qed

lemma view_in:
  assumes s: "span m b lo z a (length bs)" and l: "length bs < 2 ^ 64"
  shows "region_view m b lo z (mem_write M (TO_LOCAL a b) bs) = mem_write (region_view m b lo z M) a bs"
proof
  fix y
  let ?i = "unat (y - a)" and ?j = "unat (TO_LOCAL y b - TO_LOCAL a b)"
  have y: "y = a + of_nat ?i" by simp
  show "region_view m b lo z (mem_write M (TO_LOCAL a b) bs) y = mem_write (region_view m b lo z M) a bs y"
  proof (cases "?i < length bs")
    case True
    then have "WID (a + of_nat ?i) = wid64 m \<and> TO_LOCAL (a + of_nat ?i) b = TO_LOCAL a b + of_nat ?i \<and> unat (TO_LOCAL a b + of_nat ?i - lo) < z" using s unfolding span_def by blast
    then have "WID y = wid64 m" "TO_LOCAL y b = TO_LOCAL a b + of_nat ?i" "unat (TO_LOCAL y b - lo) < z" unfolding y [symmetric] by simp_all
    then show ?thesis using True mem_write_in [OF True, of M "TO_LOCAL a b"] l by (simp add: region_view_def mem_write_def [of _ a])
  next
    case False
    have "length bs \<le> ?j" if w: "WID y = wid64 m"
    proof (rule ccontr)
      assume "\<not> length bs \<le> ?j"
      then obtain j where j: "j < length bs" "TO_LOCAL y b = TO_LOCAL a b + of_nat j" by (intro that [of ?j]) simp_all
      have "WID (a + of_nat j) = wid64 m \<and> TO_LOCAL (a + of_nat j) b = TO_LOCAL a b + of_nat j" using s j(1) unfolding span_def by blast
      then have "TO_LOCAL y b = TO_LOCAL (a + of_nat j) b" "WID y = WID (a + of_nat j)" using w j(2) by simp_all
      then have "y = a + of_nat j" using TO_LOCAL_inj by blast
      then have "?i = j" using j(1) l by (simp add: unat_of_nat)
      then show False using False j(1) by simp
    qed
    then show ?thesis using False by (cases "WID y = wid64 m") (simp_all add: region_view_def mem_write_def)
  qed
qed

section \<open>The worker and its threads\<close>

definition heap_ready :: "WorkerHandle \<Rightarrow> i32 \<Rightarrow> ptr \<Rightarrow> ptr \<Rightarrow> nat \<Rightarrow> world \<Rightarrow> bool" where
  "heap_ready h m b lo z x \<longleftrightarrow> galloc_ready h m b x \<and> slab_inv (sb (fst x)) \<and> mem_base (sb (fst x)) = lo \<and> unat (mem_limit (sb (fst x))) = z \<and>
     unat b \<le> unat lo \<and> unat lo - unat b + z < 2 ^ 48 \<and> wid64 m \<noteq> 0 \<and> unat (wid64 m) < 65535 \<and> unat m < 2 ^ 16 \<and> apart (notify_buf h) 4 lo z"

definition heap_used :: "i32 \<Rightarrow> ptr \<Rightarrow> world \<Rightarrow> gaddr \<rightharpoonup> nat" where
  "heap_used m b x a = (if WID a = wid64 m then live (sb (fst x)) (TO_LOCAL a b) else None)"

definition heap_bytes :: "i32 \<Rightarrow> ptr \<Rightarrow> ptr \<Rightarrow> nat \<Rightarrow> world \<Rightarrow> memory" where
  "heap_bytes m b lo z x = region_view m b lo z (mem (fst x))"

definition heap_buf :: "WorkerHandle \<Rightarrow> ptr \<Rightarrow> nat \<Rightarrow> ptr \<Rightarrow> nat \<Rightarrow> bool" where
  "heap_buf h lo z p k \<longleftrightarrow> k < 2 ^ 64 \<and> apart p k lo z \<and> apart (notify_buf h) 4 p k"

definition heap_peek :: "world \<Rightarrow> ptr \<Rightarrow> nat \<Rightarrow> u8 list" where
  "heap_peek x p k = mem_read (mem (fst x)) p k"

definition heap_poke :: "world \<Rightarrow> ptr \<Rightarrow> u8 list \<Rightarrow> world" where
  "heap_poke x p bs = ((fst x)\<lparr>mem := mem_write (mem (fst x)) p bs\<rparr>, snd x)"

text \<open>The allocations that succeed here: enough memory is left that none is passed on to another worker, and the allocator has a block.\<close>

fun room_for :: "u64 \<Rightarrow> u64 \<Rightarrow> SlabAllocator \<Rightarrow> u64 list \<Rightarrow> bool" where
  "room_for u c a [] \<longleftrightarrow> True"
| "room_for u c a (k # ks) \<longleftrightarrow> \<not> u + get_avail a < c \<and>
     (case sb_aligned_malloc a k BLOCK_SIZE of Some (p, a') \<Rightarrow> p \<noteq> 0 \<and> room_for u c a' ks | None \<Rightarrow> False)"

definition heap_room :: "world \<Rightarrow> u64 list \<Rightarrow> bool" where
  "heap_room x = room_for (used_bytes (fst x)) (cache_reserve (fst x)) (sb (fst x))"

lemma used_span:
  assumes r: "heap_ready h m b lo z x" and u: "heap_used m b x a = Some n" and k: "q + k \<le> n" "0 < k"
  shows "span m b lo z (a + of_nat q) k" "TO_LOCAL (a + of_nat q) b = TO_LOCAL a b + of_nat q" "unat (OFF (a + of_nat q)) + k < 2 ^ 48"
    "unat (a + of_nat q) + k + 512 \<le> 2 ^ 64" "WID (a + of_nat q) = wid64 m" "apart p j lo z \<Longrightarrow> apart p j (TO_LOCAL (a + of_nat q) b) k"
proof -
  let ?P = "TO_LOCAL a b"
  have w: "WID a = wid64 m" and lv: "live (sb (fst x)) ?P = Some n" using u by (auto simp: heap_used_def split: if_splits)
  have S: "slab_ok (sb (fst x))" "mem_base (sb (fst x)) = lo" "unat (mem_limit (sb (fst x))) = z" and R: "unat b \<le> unat lo" "unat lo - unat b + z < 2 ^ 48" "unat (wid64 m) < 65535"
    using r by (auto simp: heap_ready_def slab_inv_def)
  have P: "unat lo \<le> unat ?P" "unat ?P + n \<le> unat lo + z" using live_region [OF S(1) lv] S by simp_all
  have p: "unat ?P = (unat (OFF a) + unat b) mod 2 ^ 64" by (simp add: TO_LOCAL_def unat_word_ariths)
  have o48: "unat (OFF a) < 2 ^ 48" by (simp add: unat_OFF)
  have "unat (OFF a) + unat b < 2 ^ 64"
  proof (rule ccontr)
    assume n: "\<not> ?thesis"
    have "unat (OFF a) + unat b - 2 ^ 64 < 2 ^ 64" using o48 unat_bound [of b] by simp
    then have "unat ?P + 2 ^ 64 = unat (OFF a) + unat b" unfolding p using n by (simp add: le_mod_geq)
    then show False using P(1) R(1) o48 by simp
  qed
  then have o: "unat (OFF a) + unat b = unat ?P" unfolding p by simp
  then have off: "unat (OFF a) + n < 2 ^ 48" using P(2) R(1,2) P(1) by linarith
  have T: "TO_LOCAL (a + of_nat i) b = ?P + of_nat i" "unat (OFF (a + of_nat i)) = unat (OFF a) + i" if "i \<le> n" for i
  proof -
    have i: "unat (OFF a) + i < 2 ^ 48" using off that by simp
    show "TO_LOCAL (a + of_nat i) b = ?P + of_nat i" using OFF_add [OF i] by (simp add: TO_LOCAL_def)
    have "unat (of_nat i :: u64) = i" using i by (simp add: unat_of_nat)
    then show "unat (OFF (a + of_nat i)) = unat (OFF a) + i" unfolding OFF_add [OF i] using unat_add_no_wrap [of "OFF a" "of_nat i"] i by simp
  qed
  have g: "unat a = unat (WID a) * 2 ^ 48 + unat (OFF a)" unfolding unat_WID unat_OFF by simp
  have wm: "unat (WID a) < 65535" using w R(3) by simp
  then have a64: "unat a + n + 512 \<le> 2 ^ 64" using g off by simp
  have W: "WID (a + of_nat i) = wid64 m" and ua: "unat (a + of_nat i) = unat a + i" if "i \<le> n" for i
  proof -
    have i: "unat (of_nat i :: u64) = i" using a64 that by (simp add: unat_of_nat)
    show ua: "unat (a + of_nat i) = unat a + i" using unat_add_no_wrap [of a "of_nat i"] i a64 that by simp
    have "unat (WID (a + of_nat i)) = (unat (WID a) * 2 ^ 48 + (unat (OFF a) + i)) div 2 ^ 48" unfolding unat_WID [of "a + of_nat i"] ua using g by simp
    also have "\<dots> = unat (WID a)" using off that by simp
    finally show "WID (a + of_nat i) = wid64 m" using w by (simp add: word_unat_eq_iff)
  qed
  have q: "q \<le> n" using k by simp
  show TQ: "TO_LOCAL (a + of_nat q) b = ?P + of_nat q" by (rule T(1) [OF q])
  show "unat (OFF (a + of_nat q)) + k < 2 ^ 48" using T(2) [OF q] off k by simp
  show "unat (a + of_nat q) + k + 512 \<le> 2 ^ 64" using ua [OF q] a64 k by simp
  show "WID (a + of_nat q) = wid64 m" by (rule W [OF q])
  have in_r: "unat (?P + of_nat i - lo) = unat ?P - unat lo + i" if "i \<le> n" for i
  proof -
    have e: "?P + of_nat i - lo = of_nat (unat ?P - unat lo + i)" using P(1) by (simp add: of_nat_diff)
    have "unat ?P - unat lo + i \<le> z" using P that by linarith
    then have "unat ?P - unat lo + i < 2 ^ 64" using R(2) by simp
    then show ?thesis unfolding e by (simp only: unat_of_nat) (rule mod_less, simp)
  qed
  have e: "a + of_nat q + of_nat i = a + of_nat (q + i)" "?P + of_nat q + of_nat i = ?P + of_nat (q + i)" for i by simp_all
  show "span m b lo z (a + of_nat q) k" unfolding span_def TQ e
    using W T(1) in_r k P by (auto simp: simp del: of_nat_add)
  show "apart p j (TO_LOCAL (a + of_nat q) b) k" if "apart p j lo z"
  proof -
    have c: "(unat ?P - unat lo + q) + k \<le> z" using P k by linarith
    have "lo + of_nat (unat ?P - unat lo + q) = ?P + of_nat q" using P(1) by (simp add: of_nat_diff)
    then show ?thesis using apart_within [OF that c] unfolding TQ by (simp only:)
  qed
qed

section \<open>Calls\<close>

text \<open>The parts of the worker that reads and writes leave alone.\<close>

definition steady :: "world \<Rightarrow> world \<Rightarrow> bool" where
  "steady x x' \<longleftrightarrow> directory (fst x') = directory (fst x) \<and> my_wid (fst x') = my_wid (fst x) \<and> base (fst x') = base (fst x) \<and> fences (fst x') = fences (fst x) \<and>
     to_serve_local_requests (fst x') = to_serve_local_requests (fst x) \<and> to_serve_requests (fst x') = to_serve_requests (fst x) \<and>
     used_bytes (fst x') = used_bytes (fst x) \<and> cache_reserve (fst x') = cache_reserve (fst x)"

lemma steady_ready: "steady x x' \<Longrightarrow> sb (fst x') = sb (fst x) \<Longrightarrow> heap_ready h m b lo z x' = heap_ready h m b lo z x"
  by (simp add: heap_ready_def galloc_ready_def steady_def)

lemma steady_views: "steady x x' \<Longrightarrow> sb (fst x') = sb (fst x) \<Longrightarrow> heap_used m b x' = heap_used m b x \<and> heap_room x' = heap_room x"
  by (simp add: heap_used_def heap_room_def steady_def fun_eq_iff)

lemma as_sent_fields [simp]:
  "wr_op (as_sent h w) = wr_op w" "wr_addr (as_sent h w) = wr_addr w" "wr_size (as_sent h w) = wr_size w" "wr_ptr (as_sent h w) = wr_ptr w"
  "wr_counter (as_sent h w) = wr_counter w" "wr_status (as_sent h w) = wr_status w" "wr_fd (as_sent h w) = recv_fd h"
  by (simp_all add: as_sent_def set_flag_def)

lemma unshared_at_rest: "galloc_ready h m b x \<Longrightarrow> at_rest (sent_state h (fst x) w) c {DIR_UNSHARED}"
  using dir_unshared_entry [of "directory (fst x)"] by (auto simp: galloc_ready_def at_rest_def GetState_e_def GetEntry_def deref_def split: option.splits)

lemma read_sent:
  assumes r: "heap_ready h m b lo z x" and u: "heap_used m b x a = Some n" and k: "q + k \<le> n" "0 < k" and p: "heap_buf h lo z p k"
  shows "\<exists>w x'. wh_send (Suc i) h x (read_request (a + of_nat q) p (of_nat k)) = Some (0, w, x') \<and> wr_size w = of_nat k \<and> steady x x' \<and> sb (fst x') = sb (fst x) \<and>
    mem (fst x') = memcpy (mem_write (mem (fst x)) (notify_buf h) (le_bytes 4 1)) p (TO_LOCAL (a + of_nat q) b) k"
proof -
  let ?v = "as_sent h (read_request (a + of_nat q) p (of_nat k))" and ?r = "next_req (fst x)"
  let ?t = "sent_state h (fst x) ?v"
  have R: "galloc_ready h m b x" using r by (simp add: heap_ready_def)
  then obtain f where f: "fences (fst x) (recv_fd h) = Some f" "\<not> mfenced f" "my_wid (fst x) = m" "base (fst x) = b" by (auto simp: galloc_ready_def)
  note S = used_span [OF r u k]
  have k64: "k < 2 ^ 64" "unat (of_nat k :: u64) = k" using p by (simp_all add: heap_buf_def unat_of_nat)
  have v: "wr_op ?v = READ" "wr_addr ?v = a + of_nat q" "wr_size ?v = of_nat k" "wr_ptr ?v = p" "wr_counter ?v = 0" "wr_status ?v = 0" "\<not> has ?v TO_SERVE" "\<not> has ?v FENCE"
    by (simp_all add: read_request_def as_sent_def new_WorkRequest_def set_flag_def has_def LOCAL_REQUEST_def TO_SERVE_def FENCE_def)
  have l: "ToLocal ?t (a + of_nat q) = TO_LOCAL (a + of_nat q) b" "IsLocal ?t (a + of_nat q)" using f(3,4) S(5) by (simp_all add: ToLocal_def IsLocal_def)
  have ok: "range_ok ?v" using S(3,4) k64 v by (simp add: range_ok_def)
  have ap: "apart (wr_ptr ?v) (unat (wr_size ?v)) (ToLocal ?t (wr_addr ?v)) (unat (wr_size ?v))" unfolding v l k64(2) using S(6) p by (simp add: heap_buf_def)
  have rs: "\<forall>c \<in> blocks_in ?v. at_rest ?t c {DIR_UNSHARED, DIR_SHARED}" using unshared_at_rest [OF R] by (auto simp: at_rest_def)
  have q0: "reqs ?t ?r = Some ?v" "IsLocal ?t (wr_addr ?v)" "fences ?t (wr_fd ?v) = Some f" using l(2) v(2) f(1) by simp_all
  let ?s = "count_read (?t\<lparr>mem := memcpy (mem ?t) p (TO_LOCAL (a + of_nat q) b) k\<rparr>) (?v\<lparr>wr_hit := True\<rparr>)"
  have "ProcessLocalRead i plr ?t ?r = Some (SUCCESS, ?s)" for plr
    using local_read_run [OF q0(1,2) v(7,8,5) ok q0(3) f(2) ap rs] unfolding v l k64(2) by simp
  then have P: "ProcessLocalRequest (Suc i) ?t ?r = Some (SUCCESS, ?s)" using v(1) q0(1) by (simp add: ProcessLocalRequest_def ProcessLocalRequest_body_def)
  have c: "reqs ?s ?r = Some ?v" by (simp add: count_read_def bump_def)
  note W = wh_send_done [OF P c]
  show ?thesis using W v
    by (intro exI [of _ ?v] exI [of _ "(delete_wr ?s ?r, snd x)"]) (simp add: steady_def delete_wr_def count_read_def bump_def, simp add: sent_state_def)
qed

lemma write_sent:
  assumes r: "heap_ready h m b lo z x" and u: "heap_used m b x a = Some n" and k: "q + k \<le> n" "0 < k" and p: "heap_buf h lo z p k"
  shows "\<exists>w x'. wh_send (Suc i) h x (write_request (a + of_nat q) p (of_nat k)) = Some (0, w, x') \<and> wr_size w = of_nat k \<and> steady x x' \<and> sb (fst x') = sb (fst x) \<and>
    mem (fst x') = memcpy (mem_write (mem (fst x)) (notify_buf h) (le_bytes 4 1)) (TO_LOCAL (a + of_nat q) b) p k"
proof -
  let ?v = "as_sent h (write_request (a + of_nat q) p (of_nat k))" and ?r = "next_req (fst x)"
  let ?t = "sent_state h (fst x) ?v"
  have R: "galloc_ready h m b x" using r by (simp add: heap_ready_def)
  then obtain f where f: "fences (fst x) (recv_fd h) = Some f" "\<not> mfenced f" "\<not> sfenced f" "my_wid (fst x) = m" "base (fst x) = b" by (auto simp: galloc_ready_def)
  note S = used_span [OF r u k]
  have k64: "k < 2 ^ 64" "unat (of_nat k :: u64) = k" using p by (simp_all add: heap_buf_def unat_of_nat)
  have v: "wr_op ?v = WRITE" "wr_addr ?v = a + of_nat q" "wr_size ?v = of_nat k" "wr_ptr ?v = p" "wr_counter ?v = 0" "wr_status ?v = 0"
    "has ?v ASYNC" "\<not> has ?v TO_SERVE" "\<not> has ?v FENCE" "\<not> has ?v COPY" "\<not> has ?v GFUNC"
    by (simp_all add: write_request_def as_sent_def new_WorkRequest_def set_flag_def has_def LOCAL_REQUEST_def ASYNC_def TO_SERVE_def FENCE_def COPY_def GFUNC_def)
  have l: "ToLocal ?t (a + of_nat q) = TO_LOCAL (a + of_nat q) b" "IsLocal ?t (a + of_nat q)" using f(4,5) S(5) by (simp_all add: ToLocal_def IsLocal_def)
  have ok: "range_ok ?v" using S(3,4) k64 v by (simp add: range_ok_def)
  have ap: "apart (ToLocal ?t (wr_addr ?v)) (unat (wr_size ?v)) (wr_ptr ?v) (unat (wr_size ?v))" unfolding v l k64(2) apart_sym [of "TO_LOCAL (a + of_nat q) b"]
    using S(6) p by (simp add: heap_buf_def)
  have rs: "\<forall>c \<in> blocks_in ?v. at_rest ?t c {DIR_UNSHARED}" using unshared_at_rest [OF R] by blast
  have q0: "reqs ?t ?r = Some ?v" "IsLocal ?t (wr_addr ?v)" "fences ?t (wr_fd ?v) = Some f" using l(2) v(2) f(1) by simp_all
  let ?s = "count_write (?t\<lparr>mem := memcpy (mem ?t) (TO_LOCAL (a + of_nat q) b) p k\<rparr>) ?v"
  have "ProcessLocalWrite i plr ?t ?r = Some (SUCCESS, ?s)" for plr
    using home_write_async [OF q0(1) v(1) q0(2) v(7-11,5) ok q0(3) f(2,3) ap rs] unfolding v l k64(2) by simp
  then have P: "ProcessLocalRequest (Suc i) ?t ?r = Some (SUCCESS, ?s)" using v(1) q0(1) by (simp add: ProcessLocalRequest_def ProcessLocalRequest_body_def)
  have c: "reqs ?s ?r = Some ?v" by (simp add: count_write_def bump_def)
  note W = wh_send_done [OF P c]
  show ?thesis using W v
    by (intro exI [of _ ?v] exI [of _ "(delete_wr ?s ?r, snd x)"]) (simp add: steady_def delete_wr_def count_write_def bump_def, simp add: sent_state_def)
qed

lemma aligned_malloc_ok:
  assumes "slab_inv a" "sb_aligned_malloc a k BLOCK_SIZE = Some (p, a')" "p \<noteq> 0"
  shows "slab_inv a'" "geometry a' = geometry a" "live a p = None" "\<exists>n \<ge> unat k. live a' = (live a)(p \<mapsto> n)"
proof -
  have e: "sb_malloc a (ALIGN k 512) = Some (p, a')" "slab_aligned_alloc (\<lambda>_. 0, a) k = Some (p, \<lambda>_. 0, a')"
    using assms(2) by (simp_all add: BLOCK_SIZE_def BLOCK_POWER_def slab_aligned_alloc_def flip: aligned_as_malloc)
  show "slab_inv a'" "geometry a' = geometry a" using sb_malloc_ok [OF assms(1), of "ALIGN k 512"] e(1) by auto
  show "live a p = None" "\<exists>n \<ge> unat k. live a' = (live a)(p \<mapsto> n)" using aligned.alloc_used [OF _ e(2) assms(3)] assms(1) by auto
qed

lemma SyncMaster_ok:
  assumes "r \<noteq> next_req s"
  shows "\<exists>s'. SyncMaster s UPDATE_MEM_STATS None = Some s' \<and> reqs s' r = reqs s r \<and> mem s' = mem s \<and> sb s' = sb s \<and> steady (s, e) (s', e')"
  using assms by (auto simp: SyncMaster_def alloc_wr_def upd_wr_def SubmitPlain_eq steady_def delete_wr_def Let_def)

lemma malloc_sent:
  assumes r: "heap_ready h m b lo z x" and k: "heap_room x (k # ks)"
  shows "\<exists>w x' p a n. wh_send (Suc i) h x (malloc_request k) = Some (0, w, x') \<and> wr_addr w = TO_GLOB p b m \<and> p \<noteq> 0 \<and> live (sb (fst x)) p = None \<and> unat k \<le> n \<and>
    sb (fst x') = a \<and> live a = (live (sb (fst x)))(p \<mapsto> n) \<and> slab_inv a \<and> geometry a = geometry (sb (fst x)) \<and> steady x x' \<and> heap_room x' ks \<and>
    mem (fst x') = memset (mem_write (mem (fst x)) (notify_buf h) (le_bytes 4 1)) p 0 (unat k)"
proof -
  let ?v = "as_sent h (malloc_request k)" and ?r = "next_req (fst x)"
  let ?t = "sent_state h (fst x) ?v"
  have R: "galloc_ready h m b x" "slab_inv (sb (fst x))" using r by (simp_all add: heap_ready_def)
  then have f: "my_wid (fst x) = m" "base (fst x) = b" by (simp_all add: galloc_ready_def)
  obtain p a where p: "sb_aligned_malloc (sb (fst x)) k BLOCK_SIZE = Some (p, a)" "p \<noteq> 0" "room_for (used_bytes (fst x)) (cache_reserve (fst x)) a ks"
    and av: "\<not> used_bytes (fst x) + get_avail (sb (fst x)) < cache_reserve (fst x)"
    using k by (auto simp: heap_room_def split: option.splits)
  note A = aligned_malloc_ok [OF R(2) p(1,2)]
  have v: "wr_op ?v = MALLOC" "wr_addr ?v = 0" "wr_size ?v = k" "\<not> has ?v TO_SERVE" "\<not> has ?v FENCE" "has ?v ALIGNED" "\<not> has ?v REMOTE" "\<not> has ?v RANDOM"
    by (simp_all add: malloc_request_def as_sent_def new_WorkRequest_def set_flag_def has_def LOCAL_REQUEST_def ALIGNED_def TO_SERVE_def FENCE_def REMOTE_def RANDOM_def)
  let ?w = "?v\<lparr>wr_addr := TO_GLOB p b m, wr_status := SUCCESS\<rparr>"
  let ?u = "?t\<lparr>sb := a, mem := memset (mem ?t) p 0 (unat k), reqs := (reqs ?t)(?r \<mapsto> ?w), ghost_size := ghost_size ?t + k\<rparr>"
  have hw: "has ?w g = has ?v g" for g by (simp add: has_def)
  have "\<exists>s'. (if ghost_size ?u > ghost_th ?u then SyncMaster ?u UPDATE_MEM_STATS None else Some ?u) = Some s' \<and> reqs s' ?r = Some ?w \<and> mem s' = mem ?u \<and> sb s' = a \<and> steady (?u, snd x) (s', snd x)"
    using SyncMaster_ok [of ?r ?u "snd x" "snd x"] by (auto simp: steady_def sent_state_def)
  then obtain s' where s': "(if ghost_size ?u > ghost_th ?u then SyncMaster ?u UPDATE_MEM_STATS None else Some ?u) = Some s'" "reqs s' ?r = Some ?w" "mem s' = mem ?u" "sb s' = a"
    "steady (?u, snd x) (s', snd x)" by blast
  have t: "sb ?t = sb (fst x)" "used_bytes ?t = used_bytes (fst x)" "cache_reserve ?t = cache_reserve (fst x)" "mem ?t = mem_write (mem (fst x)) (notify_buf h) (le_bytes 4 1)"
    by (simp_all add: sent_state_def)
  have "malloc_here i plr ?t ?r = Some (SUCCESS, s')" for plr
    using s'(1,2) v p(1,2) t f by (cases "ghost_th ?t < ghost_size ?t + k") (simp_all add: malloc_here_def upd_wr_def notify_deferred_def hw Let_def)
  then have "ProcessLocalMalloc i plr ?t ?r = Some (SUCCESS, s')" for plr using v av t by (simp add: ProcessLocalMalloc_def malloc_local_def)
  then have P: "ProcessLocalRequest (Suc i) ?t ?r = Some (SUCCESS, s')" using v(1) by (simp add: ProcessLocalRequest_def ProcessLocalRequest_body_def)
  note W = wh_send_done [OF P s'(2)]
  let ?x = "(delete_wr s' ?r, snd x)"
  have st: "steady x ?x" using s'(5) by (simp add: steady_def delete_wr_def sent_state_def)
  then have "heap_room ?x ks" using p(3) s'(4) by (simp add: heap_room_def steady_def delete_wr_def)
  moreover obtain n where "unat k \<le> n" "live a = (live (sb (fst x)))(p \<mapsto> n)" using A(4) by blast
  ultimately show ?thesis using W A(1-3) p(2) s'(3,4) st t(4)
    by (intro exI [of _ ?w] exI [of _ ?x] exI [of _ p] exI [of _ a] exI [of _ n]) (simp add: delete_wr_def SUCCESS_def)
qed

section \<open>The worker keeps the contract\<close>

lemma woken_apart: "apart nb 4 p k \<Longrightarrow> mem_read (mem_write M nb (le_bytes 4 1)) p k = mem_read M p k"
  by (rule mem_read_write_apart) (simp del: le_bytes.simps)

lemma heap_bytes_woken: "apart nb 4 lo z \<Longrightarrow> region_view m b lo z (mem_write M nb (le_bytes 4 1)) = region_view m b lo z M"
  by (rule view_out) (simp del: le_bytes.simps)

lemma heap_blocks_apart:
  assumes r: "heap_ready h m b lo z x"
  shows "blocks_apart (heap_used m b x)"
  unfolding blocks_apart_def
proof (intro allI impI conjI)
  fix p l assume u: "heap_used m b x p = Some l"
  have s: "l = 0 \<or> span m b lo z p l \<and> l < 2 ^ 48" using used_span(1,3) [OF r u, of 0 l] by (cases "l = 0") auto
  then show "l \<le> 2 ^ 64" by auto
  fix q n assume v: "heap_used m b x q = Some n" and ne: "p \<noteq> q"
  have t: "n = 0 \<or> span m b lo z q n" using used_span(1) [OF r v, of 0 n] by (cases "n = 0") auto
  have L: "WID p = WID q" "live (sb (fst x)) (TO_LOCAL p b) = Some l" "live (sb (fst x)) (TO_LOCAL q b) = Some n" using u v by (auto simp: heap_used_def split: if_splits)
  have "TO_LOCAL p b \<noteq> TO_LOCAL q b" using TO_LOCAL_inj [OF L(1)] ne by blast
  then have a: "apart (TO_LOCAL p b) l (TO_LOCAL q b) n" using live_apart [OF _ L(2,3)] r by (simp add: heap_ready_def slab_inv_def)
  show "apart p l q n" unfolding apart_def
  proof (intro allI impI)
    fix i j assume ij: "i < l" "j < n"
    then have "TO_LOCAL (p + of_nat i) b = TO_LOCAL p b + of_nat i" "TO_LOCAL (q + of_nat j) b = TO_LOCAL q b + of_nat j" using s t by (auto simp: span_def)
    then show "p + of_nat i \<noteq> q + of_nat j" using a ij unfolding apart_def by metis
  qed
qed

lemma heap_read_law:
  assumes r: "heap_ready h m b lo z x" and u: "heap_used m b x a = Some n" and k: "q + k \<le> n" "0 < k" and p: "heap_buf h lo z p k"
  shows "\<exists>w x'. wh_send (Suc i) h x (read_request (a + of_nat q) p (of_nat k)) = Some (0, w, x') \<and> wr_size w = of_nat k \<and> heap_ready h m b lo z x' \<and>
    heap_bytes m b lo z x' = heap_bytes m b lo z x \<and> heap_used m b x' = heap_used m b x \<and> heap_room x' = heap_room x \<and>
    heap_peek x' p k = mem_read (heap_bytes m b lo z x) (a + of_nat q) k \<and> (\<forall>y l. heap_buf h lo z y l \<longrightarrow> apart p k y l \<longrightarrow> heap_peek x' y l = heap_peek x y l)"
proof -
  let ?T = "TO_LOCAL (a + of_nat q) b" and ?M = "mem_write (mem (fst x)) (notify_buf h) (le_bytes 4 1)"
  obtain w x' where S: "wh_send (Suc i) h x (read_request (a + of_nat q) p (of_nat k)) = Some (0, w, x')" "wr_size w = of_nat k" "steady x x'" "sb (fst x') = sb (fst x)"
    "mem (fst x') = mem_write ?M p (mem_read ?M ?T k)" using read_sent [OF r u k p] unfolding memcpy_def by blast
  note D = used_span [OF r u k]
  have b: "apart p k lo z" "apart (notify_buf h) 4 lo z" "k < 2 ^ 64" using p r by (simp_all add: heap_buf_def heap_ready_def)
  have "heap_bytes m b lo z x' = heap_bytes m b lo z x"
    unfolding heap_bytes_def S(5) using b(1) view_out [of p "mem_read ?M ?T k" lo z m b ?M] heap_bytes_woken [OF b(2), of m b] by (simp del: le_bytes.simps)
  moreover have "heap_peek x' p k = mem_read ?M ?T k" unfolding heap_peek_def S(5) using mem_read_write [of "mem_read ?M ?T k" ?M p] b(3) by simp
  then have "heap_peek x' p k = mem_read (heap_bytes m b lo z x) (a + of_nat q) k"
    unfolding woken_apart [OF D(6) [OF b(2)]] heap_bytes_def view_read [OF D(1)] .
  moreover have "heap_peek x' y l = heap_peek x y l" if "heap_buf h lo z y l" "apart p k y l" for y l
    unfolding heap_peek_def S(5) using that mem_read_write_apart [of p "mem_read ?M ?T k" y l] woken_apart [of "notify_buf h" y l] by (simp add: heap_buf_def del: le_bytes.simps)
  ultimately show ?thesis using S(1,2) steady_ready [OF S(3,4)] steady_views [OF S(3,4)] r by blast
qed

lemma heap_write_law:
  assumes r: "heap_ready h m b lo z x" and u: "heap_used m b x a = Some n" and k: "q + k \<le> n" "0 < k" and p: "heap_buf h lo z p k"
  shows "\<exists>w x'. wh_send (Suc i) h x (write_request (a + of_nat q) p (of_nat k)) = Some (0, w, x') \<and> wr_size w = of_nat k \<and> heap_ready h m b lo z x' \<and>
    heap_used m b x' = heap_used m b x \<and> heap_room x' = heap_room x \<and>
    heap_bytes m b lo z x' = mem_write (heap_bytes m b lo z x) (a + of_nat q) (heap_peek x p k) \<and> (\<forall>y l. heap_buf h lo z y l \<longrightarrow> heap_peek x' y l = heap_peek x y l)"
proof -
  let ?T = "TO_LOCAL (a + of_nat q) b" and ?M = "mem_write (mem (fst x)) (notify_buf h) (le_bytes 4 1)"
  obtain w x' where S: "wh_send (Suc i) h x (write_request (a + of_nat q) p (of_nat k)) = Some (0, w, x')" "wr_size w = of_nat k" "steady x x'" "sb (fst x') = sb (fst x)"
    "mem (fst x') = mem_write ?M ?T (mem_read ?M p k)" using write_sent [OF r u k p] unfolding memcpy_def by blast
  note D = used_span [OF r u k]
  have b: "apart (notify_buf h) 4 p k" "apart (notify_buf h) 4 lo z" "k < 2 ^ 64" using p r by (simp_all add: heap_buf_def heap_ready_def)
  have e: "mem_read ?M p k = heap_peek x p k" unfolding heap_peek_def by (rule woken_apart [OF b(1)])
  have "heap_bytes m b lo z x' = mem_write (heap_bytes m b lo z x) (a + of_nat q) (heap_peek x p k)"
    unfolding heap_bytes_def S(5) e using view_in [of m b lo z "a + of_nat q" "heap_peek x p k" ?M] D(1) b(3) heap_bytes_woken [OF b(2), of m b] by (simp add: heap_peek_def del: le_bytes.simps)
  moreover have "heap_peek x' y l = heap_peek x y l" if y: "heap_buf h lo z y l" for y l
  proof -
    have "apart ?T k y l" using D(6) [of y l] y by (simp add: heap_buf_def apart_sym)
    then show ?thesis unfolding heap_peek_def S(5) using y mem_read_write_apart [of ?T "mem_read ?M p k" y l] woken_apart [of "notify_buf h" y l] by (simp add: heap_buf_def del: le_bytes.simps)
  qed
  ultimately show ?thesis using S(1,2) steady_ready [OF S(3,4)] steady_views [OF S(3,4)] r by blast
qed

lemma heap_malloc_law:
  assumes r: "heap_ready h m b lo z x" and k: "heap_room x (c # cs)"
  shows "\<exists>w x' n. wh_send (Suc i) h x (malloc_request c) = Some (0, w, x') \<and> wr_addr w \<noteq> 0 \<and> heap_used m b x (wr_addr w) = None \<and> unat c \<le> n \<and>
    heap_used m b x' = (heap_used m b x)(wr_addr w \<mapsto> n) \<and> heap_ready h m b lo z x' \<and> heap_room x' cs \<and>
    mem_read (heap_bytes m b lo z x') (wr_addr w) (unat c) = replicate (unat c) 0 \<and>
    (\<forall>q l. heap_used m b x q = Some l \<longrightarrow> mem_read (heap_bytes m b lo z x') q l = mem_read (heap_bytes m b lo z x) q l) \<and>
    (\<forall>y l. heap_buf h lo z y l \<longrightarrow> heap_peek x' y l = heap_peek x y l)"
proof -
  let ?M = "mem_write (mem (fst x)) (notify_buf h) (le_bytes 4 1)" and ?k = "unat c"
  obtain w x' p a n where S: "wh_send (Suc i) h x (malloc_request c) = Some (0, w, x')" "wr_addr w = TO_GLOB p b m" "live (sb (fst x)) p = None" "?k \<le> n"
    "sb (fst x') = a" "live a = (live (sb (fst x)))(p \<mapsto> n)" "slab_inv a" "geometry a = geometry (sb (fst x))" "steady x x'" "heap_room x' cs"
    "mem (fst x') = mem_write ?M p (replicate ?k 0)" using malloc_sent [OF r k] unfolding memset_def by blast
  let ?A = "TO_GLOB p b m"
  have R: "mem_base (sb (fst x)) = lo" "unat (mem_limit (sb (fst x))) = z" "unat b \<le> unat lo" "unat lo - unat b + z < 2 ^ 48" "wid64 m \<noteq> 0" "unat m < 2 ^ 16" "apart (notify_buf h) 4 lo z"
    using r unfolding heap_ready_def by blast+
  have g: "mem_base a = lo" "unat (mem_limit a) = z" using S(8) R(1,2) by (simp_all add: geometry_def)
  have "unat lo \<le> unat p" "unat p + n \<le> unat lo + z" using live_region [of a p n] S(6,7) g by (simp_all add: slab_inv_def)
  then have "unat (p - b) < 2 ^ 48" using R(3,4) unat_sub_le [of b p] by (simp add: word_le_nat_alt)
  then have A: "TO_LOCAL ?A b = p" "WID ?A = wid64 m" using glob_local_roundtrip [OF _ R(6)] by blast+
  have A0: "?A \<noteq> 0" using A(2) R(5) by (auto simp: WID_def)
  have used': "heap_used m b x' = (heap_used m b x)(?A \<mapsto> n)"
  proof
    fix y
    have "TO_LOCAL y b \<noteq> p" if "WID y = wid64 m" "y \<noteq> ?A" using TO_LOCAL_inj [of y ?A b] A that by metis
    then show "heap_used m b x' y = ((heap_used m b x)(?A \<mapsto> n)) y" using A S(5,6) by (cases "y = ?A") (simp_all add: heap_used_def)
  qed
  have "galloc_ready h m b x" using r unfolding heap_ready_def by blast
  then have "galloc_ready h m b x'" using S(9) by (simp add: galloc_ready_def steady_def)
  then have r': "heap_ready h m b lo z x'" using r S(7) unfolding heap_ready_def S(5) g by blast
  have uA: "heap_used m b x' ?A = Some n" using used' by simp
  have zeros: "mem_read (heap_bytes m b lo z x') ?A ?k = replicate ?k 0"
  proof (cases "?k = 0")
    case False
    then have "span m b lo z ?A ?k" using used_span(1) [OF r' uA, of 0 ?k] S(4) by simp
    then show ?thesis unfolding heap_bytes_def S(11) using view_read [of m b lo z ?A ?k] A(1) mem_read_write [of "replicate ?k 0" ?M p] unat_bound [of c] by (simp del: le_bytes.simps)
  qed (simp add: mem_read_def)
  have keep: "mem_read (mem_write ?M p (replicate ?k 0)) y l = mem_read (mem (fst x)) y l" if "apart p n y l" "apart (notify_buf h) 4 y l" for y l
    using mem_read_write_apart [of p "replicate ?k 0" y l ?M] apart_mono [OF that(1) S(4) order_refl] woken_apart [OF that(2)] by (simp del: le_bytes.simps)
  have old: "mem_read (heap_bytes m b lo z x') q l = mem_read (heap_bytes m b lo z x) q l" if q: "heap_used m b x q = Some l" for q l
  proof (cases "l = 0")
    case False
    note D = used_span [OF r q, of 0 l]
    have sp: "span m b lo z q l" "apart (notify_buf h) 4 (TO_LOCAL q b) l" using D(1,6) R(7) False by auto
    have lv: "live (sb (fst x)) (TO_LOCAL q b) = Some l" using q by (auto simp: heap_used_def split: if_splits)
    then have "live a (TO_LOCAL q b) = Some l" "live a p = Some n" "p \<noteq> TO_LOCAL q b" using S(3,6) by auto
    then have "apart p n (TO_LOCAL q b) l" using live_apart [of a p n] S(7) by (simp add: slab_inv_def)
    then show ?thesis unfolding heap_bytes_def view_read [OF sp(1)] S(11) by (intro keep sp(2))
  qed (simp add: mem_read_def)
  have peeks: "heap_peek x' y l = heap_peek x y l" if y: "heap_buf h lo z y l" for y l
  proof (cases "n = 0")
    case False
    then have "apart y l (TO_LOCAL ?A b) n" using used_span(6) [OF r' uA, of 0 n y l] y by (simp add: heap_buf_def)
    then have "apart p n y l" using A(1) by (simp add: apart_sym)
    then show ?thesis unfolding heap_peek_def S(11) using y by (intro keep) (simp_all add: heap_buf_def)
  next
    case True
    then have "apart p n y l" by (simp add: apart_def)
    then show ?thesis unfolding heap_peek_def S(11) using y by (intro keep) (simp_all add: heap_buf_def)
  qed
  have none: "heap_used m b x ?A = None" using A S(3) by (simp add: heap_used_def)
  show ?thesis using S(1,4,10) A0 none used' r' zeros old peeks by (intro exI [of _ w] exI [of _ x'] exI [of _ n]) (simp add: S(2))
qed

interpretation home_heap: global_heap "wh_send (Suc i) h" heap_peek heap_poke "heap_ready h m b lo z" "heap_bytes m b lo z" "heap_used m b" heap_room "heap_buf h lo z"
  for i h m b lo z
proof
  fix x p and bs :: "u8 list"
  assume r: "heap_ready h m b lo z x" and p: "heap_buf h lo z p (length bs)"
  let ?x = "heap_poke x p bs"
  have st: "steady x ?x" "sb (fst ?x) = sb (fst x)" by (simp_all add: steady_def heap_poke_def)
  have "heap_peek ?x q l = heap_peek x q l" if "apart p (length bs) q l" for q l using mem_read_write_apart [OF that] by (simp add: heap_peek_def heap_poke_def)
  moreover have "heap_peek ?x p (length bs) = bs" using mem_read_write [of bs] p by (simp add: heap_peek_def heap_poke_def heap_buf_def)
  moreover have "heap_bytes m b lo z ?x = heap_bytes m b lo z x" using view_out [of p bs lo z] p by (simp add: heap_bytes_def heap_poke_def heap_buf_def)
  ultimately show "heap_ready h m b lo z ?x \<and> heap_bytes m b lo z ?x = heap_bytes m b lo z x \<and> heap_used m b ?x = heap_used m b x \<and> heap_room ?x = heap_room x \<and>
      heap_peek ?x p (length bs) = bs \<and> (\<forall>q l. heap_buf h lo z q l \<longrightarrow> apart p (length bs) q l \<longrightarrow> heap_peek ?x q l = heap_peek x q l)"
    using steady_ready [OF st] steady_views [OF st] r by blast
qed (rule heap_read_law heap_write_law heap_malloc_law heap_blocks_apart; assumption | simp add: heap_peek_def)+

section \<open>Arrays in home memory\<close>

definition home_env :: "nat \<Rightarrow> WorkerHandle \<Rightarrow> (u64 \<Rightarrow> i32) \<Rightarrow> u64 \<Rightarrow> u64 \<Rightarrow> ptr \<Rightarrow> ptr \<Rightarrow> world array_env" where
  "home_env n h layers T B c nb = \<lparr>e_send = wh_send (Suc n) h, e_peek = heap_peek, e_poke = heap_poke, e_layers = layers, e_T = T, e_BUCKET = B,
     e_curr = c, e_newbk = nb, e_val1 = c, e_val2 = nb\<rparr>"

text \<open>
  C12. An array in global memory is an array. A thread of a worker creates an array in the memory of the worker and then
  reads and writes its elements in any order, through any objects attached to its header. Creation returns, every read and
  write returns, and the reads give what they give on a list of elements that are zero at first: the last bytes
  written at the index, whatever is written at other indices. The depth of the array is whatever the
  floating-point formula gives, provided buckets of that depth hold the elements; the allocator has room for
  the buckets.
\<close>

theorem array_is_list:
  assumes "heap_ready h m b lo z x" "G = home_env n h layers T B c nb"
    and "T \<noteq> 0" "T \<le> B" "8 \<le> B" "B < 2 ^ 31" "unat sz < 2 ^ 62"
    and "items_per_bucket G < sz \<Longrightarrow> 1 \<le> unat (layers sz) \<and> unat (layers sz) < 2 ^ 31 \<and>
      unat sz \<le> unat (items_per_bucket G) * unat (gaddrs_per_bucket G) ^ (unat (layers sz) - 1)"
    and "heap_room x (replicate (sum_list (map unat (bucket_list G sz))) B @ [32])"
    and "heap_buf h lo z c 8" "heap_buf h lo z nb 8" "heap_buf h lo z p 32" "heap_buf h lo z val (unat T)" "apart c 8 val (unat T)"
    and "\<forall>op \<in> set ops. op_ok (heap_buf h lo z) val (unat T) sz op"
  shows "\<exists>ga x1 x2. GArray_construct G p sz 0 x = Some (ga, x1) \<and>
    run_ops G (ga_header ga) val ops x1 = Some (list_ops (replicate (unat sz) (replicate (unat T) 0)) ops, x2)"
proof -
  have g: "e_T G = T" "e_BUCKET G = B" "e_layers G = layers" "e_curr G = c" using assms(2) by (simp_all add: home_env_def)
  have G: "home_heap.env n h lo z G" using assms(2-6,10,11) by (simp add: home_heap.env_def home_env_def)
  obtain ga x1 cnt where C: "GArray_construct G p sz 0 x = Some (ga, x1)" "home_heap.array_at h m b lo z G x1 ga cnt" "ga_size ga = sz"
    "\<forall>i < unat sz. home_heap.element m b lo z G x1 ga i = replicate (unat T) 0"
    using home_heap.GArray_construct_ok [OF G assms(1,12,7)] assms(8,9) unfolding g by blast
  have "\<exists>x2. run_ops G (ga_header ga) val ops x1 = Some (list_ops (replicate (unat sz) (replicate (unat T) 0)) ops, x2)"
    using C(2-4) assms(13-15) by (intro home_heap.run_ops_ok [OF G]) (simp_all add: g)
  then show ?thesis using C(1) by blast
qed

text \<open>A thread of worker 1, whose memory starts at 4096, with an array of three words in buckets of two.\<close>

definition array_thread :: WorkerHandle where
  "array_thread = \<lparr>notify_buf = 64, recv_fd = 7\<rparr>"

definition array_world :: world where
  "array_world = (idle_worker\<lparr>base := 4096, sb := small_allocator\<rparr>, [])"

lemma small_region: "mem_base small_allocator = 4096" "unat (mem_limit small_allocator) < 2 ^ 40"
  by (simp_all add: small_allocator_def)

lemma array_world_ready: "heap_ready array_thread 1 4096 4096 (unat (mem_limit small_allocator)) array_world"
proof -
  have "apart 64 4 4096 (unat (mem_limit small_allocator))" using small_region(2) by (intro apart_below(1)) simp_all
  moreover have "wid64 1 = 1" by code_simp
  moreover have "galloc_ready array_thread 1 4096 array_world"
    by (simp add: galloc_ready_def array_world_def array_thread_def idle_worker_def new_Fence_def dir_unshared_def dir_ok_def BLOCK_ALIGNED_iff)
  ultimately show ?thesis using small_allocator_inv(1) small_region by (simp add: heap_ready_def array_world_def array_thread_def)
qed

lemma array_bufs: "unat p + k \<le> 4096 \<Longrightarrow> 68 \<le> unat p \<Longrightarrow> heap_buf array_thread 4096 (unat (mem_limit small_allocator)) p k"
  using apart_below(1) [of p k 4096 "unat (mem_limit small_allocator)"] apart_below(1) [of 64 4 p k] small_region(2) by (simp add: heap_buf_def array_thread_def)

lemma array_room: "room_for 0 0 small_allocator [16, 16, 16, 32]"
  by code_simp

theorem array_is_list_witness:
  "\<exists>ga x1 x2. GArray_construct (home_env 0 array_thread (\<lambda>_. 2) 8 16 128 160) 192 3 0 array_world = Some (ga, x1) \<and>
     run_ops (home_env 0 array_thread (\<lambda>_. 2) 8 16 128 160) (ga_header ga) 256
       [AtWrite (new_GArray 320 0) 2 [1, 2, 3, 4, 5, 6, 7, 8], AtRead (new_GArray 384 0) 2, AtRead (new_GArray 320 0) 1] x1 =
       Some ([[1, 2, 3, 4, 5, 6, 7, 8], [0, 0, 0, 0, 0, 0, 0, 0]], x2)"
proof -
  let ?G = "home_env 0 array_thread (\<lambda>_. 2) 8 16 128 160" and ?z = "unat (mem_limit small_allocator)"
  let ?ops = "[AtWrite (new_GArray 320 0) 2 [1, 2, 3, 4, 5, 6, 7, 8], AtRead (new_GArray 384 0) 2, AtRead (new_GArray 320 0) 1]"
  have g: "items_per_bucket ?G = 2" "gaddrs_per_bucket ?G = 2" by (simp_all add: items_per_bucket_def gaddrs_per_bucket_def home_env_def)
  have e: "e_layers ?G 3 = 2" by (simp add: home_env_def)
  have n: "unat (2 :: i32) = 2" "sint (2 :: i32) = 2" "ceil_divide 3 2 = 2" "ceil_divide 2 2 = 1" by code_simp+
  have "replicate (unat (2 :: i32)) (0 :: u64) = [0, 0]" unfolding n by (simp add: numeral_2_eq_2)
  then have "CalLayers ?G 3 (replicate (unat (2 :: i32)) 0) 0 2 = Some (4, [1, 2])" unfolding CalLayers_def g by (simp add: n Let_def)
  then have "bucket_list ?G 3 = [1, 2]" unfolding bucket_list_def g e by simp
  then have r: "heap_room array_world (replicate (sum_list (map unat (bucket_list ?G 3))) 16 @ [32])"
    using array_room by (simp add: heap_room_def array_world_def idle_worker_def numeral_3_eq_3)
  have b: "heap_buf array_thread 4096 ?z 128 8" "heap_buf array_thread 4096 ?z 160 8" "heap_buf array_thread 4096 ?z 192 32" "heap_buf array_thread 4096 ?z 256 (unat (8 :: u64))"
    by (rule array_bufs; simp)+
  have a: "apart 128 8 256 (unat (8 :: u64))" by (rule apart_below(1)) simp_all
  have "apart 320 32 256 8" "apart 384 32 256 8" by (rule apart_below(2); simp)+
  then have o: "\<forall>op \<in> set ?ops. op_ok (heap_buf array_thread 4096 ?z) 256 (unat (8 :: u64)) 3 op"
    using array_bufs [of 320 32] array_bufs [of 384 32] by (simp add: new_GArray_def)
  have l: "items_per_bucket ?G < 3 \<Longrightarrow> 1 \<le> unat (2 :: i32) \<and> unat (2 :: i32) < 2 ^ 31 \<and> unat (3 :: u64) \<le> unat (items_per_bucket ?G) * unat (gaddrs_per_bucket ?G) ^ (unat (2 :: i32) - 1)"
    by (simp add: g)
  have t: "(8 :: u64) \<noteq> 0" "(8 :: u64) \<le> 16" "(8 :: u64) \<le> 16" "(16 :: u64) < 2 ^ 31" "unat (3 :: u64) < 2 ^ 62" by simp_all
  have out: "list_ops (replicate (unat (3 :: u64)) (replicate (unat (8 :: u64)) 0)) ?ops = [[1, 2, 3, 4, 5, 6, 7, 8], [0, 0, 0, 0, 0, 0, 0, 0]]" by code_simp
  show ?thesis using array_is_list [OF array_world_ready refl t l r b a o] unfolding out .
qed

end
