(* ===== verification/Gam_Map.thy ===== *)
theory Gam_Map
  imports Gam_Prelude
begin

text \<open>
  The hash map of \<^verbatim>\<open>gam/include/map.h\<close> with the locks of \<^verbatim>\<open>gam/include/lockwrapper.h\<close>, in which a worker keeps
  its directory, its cache and its queues: buckets of key-value pairs, one lock each. The theory shows that threads which lock the key they
  use see one map from keys to values. The other theories model these tables by such maps.
  Steps interleave as under a sequentially consistent memory; the sources ask for \<^verbatim>\<open>__ATOMIC_RELAXED\<close>.
\<close>

section \<open>Buckets\<close>

text \<open>\<^verbatim>\<open>LockWrapper\<close> with \<^verbatim>\<open>USE_ATOMIC\<close>: \<^verbatim>\<open>__atomic_test_and_set\<close> returns the old value.\<close>

definition test_and_set :: "bool \<Rightarrow> bool \<times> bool" where
  "test_and_set b = (b, True)"

record ('k, 'v) Bucket =
  b_lock :: bool
  b_kvs :: "('k \<times> 'v) list"

text \<open>The array of buckets is a partial function: an index outside of it has no bucket.\<close>

record ('k, 'v) Map =
  buckets :: "u64 \<rightharpoonup> ('k, 'v) Bucket"
  hashmask :: u64

definition new_Bucket :: "('k, 'v) Bucket" where
  "new_Bucket = \<lparr>b_lock = False, b_kvs = []\<rparr>"

text \<open>\<^verbatim>\<open>1 << BUCKET_SIZE_POWER\<close> is an \<^verbatim>\<open>int\<close>.\<close>

definition new_Map :: "nat \<Rightarrow> ('k, 'v) Map" where
  "new_Map P = \<lparr>buckets = (\<lambda>i. if i < scast (push_bit P (1 :: i32)) then Some new_Bucket else None), hashmask = scast (push_bit P (1 :: i32) - 1)\<rparr>"

text \<open>The hash function is the one of the vendored hash table, a parameter.\<close>

definition bucket_of :: "('k \<Rightarrow> u64) \<Rightarrow> ('k, 'v) Map \<Rightarrow> 'k \<Rightarrow> u64" where
  "bucket_of h m k = h k AND hashmask m"

definition set_bucket :: "('k, 'v) Map \<Rightarrow> u64 \<Rightarrow> ('k, 'v) Bucket \<Rightarrow> ('k, 'v) Map" where
  "set_bucket m hv b = m\<lparr>buckets := (buckets m)(hv \<mapsto> b)\<rparr>"

section \<open>Locks\<close>

definition Map_try_lock :: "('k \<Rightarrow> u64) \<Rightarrow> ('k, 'v) Map \<Rightarrow> 'k \<Rightarrow> (bool \<times> ('k, 'v) Map) option" where
  "Map_try_lock h m k = do {
     let hv = bucket_of h m k;
     b \<leftarrow> buckets m hv;
     let (old, new) = test_and_set (b_lock b);
     Some (\<not> old, set_bucket m hv (b\<lparr>b_lock := new\<rparr>)) }"

text \<open>\<^verbatim>\<open>lock\<close> repeats the test until it succeeds: \<open>None\<close> while another thread holds the bucket.\<close>

definition Map_lock :: "('k \<Rightarrow> u64) \<Rightarrow> ('k, 'v) Map \<Rightarrow> 'k \<Rightarrow> (u64 \<times> ('k, 'v) Map) option" where
  "Map_lock h m k = do {
     let hv = bucket_of h m k;
     b \<leftarrow> buckets m hv;
     let (old, new) = test_and_set (b_lock b);
     if old then None else Some (hv, set_bucket m hv (b\<lparr>b_lock := new\<rparr>)) }"

definition Map_unlock_hv :: "('k, 'v) Map \<Rightarrow> u64 \<Rightarrow> ('k, 'v) Map option" where
  "Map_unlock_hv m hv = do { b \<leftarrow> buckets m hv; Some (set_bucket m hv (b\<lparr>b_lock := False\<rparr>)) }"

definition Map_unlock :: "('k \<Rightarrow> u64) \<Rightarrow> ('k, 'v) Map \<Rightarrow> 'k \<Rightarrow> ('k, 'v) Map option" where
  "Map_unlock h m k = Map_unlock_hv m (bucket_of h m k)"

section \<open>Entries\<close>

fun find_kv :: "'k \<Rightarrow> ('k \<times> 'v) list \<Rightarrow> nat option" where
  "find_kv k [] = None"
| "find_kv k (kv # xs) = (if fst kv = k then Some 0 else map_option Suc (find_kv k xs))"

text \<open>A \<^verbatim>\<open>mapped_type&\<close> is the bucket and the place in its list.\<close>

type_synonym kv_ref = "u64 \<times> nat"

datatype map_error = out_of_range

definition kv_deref :: "('k, 'v) Map \<Rightarrow> kv_ref \<Rightarrow> 'v option" where
  "kv_deref m r = do { b \<leftarrow> buckets m (fst r); if snd r < length (b_kvs b) then Some (snd (b_kvs b ! snd r)) else None }"

definition kv_assign :: "('k, 'v) Map \<Rightarrow> kv_ref \<Rightarrow> 'v \<Rightarrow> ('k, 'v) Map option" where
  "kv_assign m r v = do {
     b \<leftarrow> buckets m (fst r);
     if snd r < length (b_kvs b) then Some (set_bucket m (fst r) (b\<lparr>b_kvs := (b_kvs b)[snd r := (fst (b_kvs b ! snd r), v)]\<rparr>)) else None }"

text \<open>\<^verbatim>\<open>operator[]\<close>; \<open>d\<close> is \<^verbatim>\<open>mapped_type {}\<close>.\<close>

definition Map_index :: "('k \<Rightarrow> u64) \<Rightarrow> 'v \<Rightarrow> ('k, 'v) Map \<Rightarrow> 'k \<Rightarrow> (kv_ref \<times> ('k, 'v) Map) option" where
  "Map_index h d m k = do {
     let hv = bucket_of h m k;
     b \<leftarrow> buckets m hv;
     case find_kv k (b_kvs b) of
       Some i \<Rightarrow> Some ((hv, i), m)
     | None \<Rightarrow> Some ((hv, length (b_kvs b)), set_bucket m hv (b\<lparr>b_kvs := b_kvs b @ [(k, d)]\<rparr>)) }"

definition Map_at :: "('k \<Rightarrow> u64) \<Rightarrow> ('k, 'v) Map \<Rightarrow> 'k \<Rightarrow> (map_error + kv_ref) option" where
  "Map_at h m k = do {
     let hv = bucket_of h m k;
     b \<leftarrow> buckets m hv;
     case find_kv k (b_kvs b) of Some i \<Rightarrow> Some (Inr (hv, i)) | None \<Rightarrow> Some (Inl out_of_range) }"

definition Map_count :: "('k \<Rightarrow> u64) \<Rightarrow> ('k, 'v) Map \<Rightarrow> 'k \<Rightarrow> u64 option" where
  "Map_count h m k = do {
     b \<leftarrow> buckets m (bucket_of h m k);
     case find_kv k (b_kvs b) of Some i \<Rightarrow> Some 1 | None \<Rightarrow> Some 0 }"

definition Map_erase :: "('k \<Rightarrow> u64) \<Rightarrow> ('k, 'v) Map \<Rightarrow> 'k \<Rightarrow> (u64 \<times> ('k, 'v) Map) option" where
  "Map_erase h m k = do {
     let hv = bucket_of h m k;
     b \<leftarrow> buckets m hv;
     case find_kv k (b_kvs b) of
       Some i \<Rightarrow> Some (1, set_bucket m hv (b\<lparr>b_kvs := take i (b_kvs b) @ drop (Suc i) (b_kvs b)\<rparr>))
     | None \<Rightarrow> Some (0, m) }"

section \<open>A map from keys to values\<close>

text \<open>Every bucket of the array exists; a key is in its own bucket only, and there once.\<close>

definition map_ok :: "('k \<Rightarrow> u64) \<Rightarrow> ('k, 'v) Map \<Rightarrow> bool" where
  "map_ok h m \<longleftrightarrow> (\<forall>k. buckets m (bucket_of h m k) \<noteq> None) \<and>
     (\<forall>hv b. buckets m hv = Some b \<longrightarrow> distinct (map fst (b_kvs b)) \<and> (\<forall>k \<in> fst ` set (b_kvs b). bucket_of h m k = hv))"

definition map_view :: "('k \<Rightarrow> u64) \<Rightarrow> ('k, 'v) Map \<Rightarrow> 'k \<rightharpoonup> 'v" where
  "map_view h m k = Option.bind (buckets m (bucket_of h m k)) (\<lambda>b. map_of (b_kvs b) k)"

definition bucket_locked :: "('k, 'v) Map \<Rightarrow> u64 \<Rightarrow> bool" where
  "bucket_locked m hv \<longleftrightarrow> (\<exists>b. buckets m hv = Some b \<and> b_lock b)"

lemma find_kv_None: "find_kv k xs = None \<longleftrightarrow> k \<notin> fst ` set xs"
  by (induction xs) auto

lemma find_kv_Some: "find_kv k xs = Some i \<Longrightarrow> i < length xs \<and> fst (xs ! i) = k \<and> map_of xs k = Some (snd (xs ! i))"
  by (induction xs arbitrary: i) (auto split: if_splits)

lemma find_kv_map_of: "find_kv k xs = None \<longleftrightarrow> map_of xs k = None"
  by (simp add: find_kv_None map_of_eq_None_iff)

lemma map_of_set_at: "find_kv k xs = Some i \<Longrightarrow> map_of (xs[i := (k, v)]) = (map_of xs)(k \<mapsto> v)"
  by (induction xs arbitrary: i) (auto split: if_splits simp: fun_upd_twist)

lemma map_of_drop_at: "find_kv k xs = Some i \<Longrightarrow> distinct (map fst xs) \<Longrightarrow> map_of (take i xs @ drop (Suc i) xs) = (map_of xs)(k := None)"
proof (induction xs arbitrary: i)
  case (Cons x xs)
  show ?case
  proof (cases "fst x = k")
    case True
    then have "map_of xs k = None" using Cons.prems(2) by (auto simp: map_of_eq_None_iff)
    then show ?thesis using True Cons.prems(1) by (cases x) (auto simp: fun_eq_iff)
  next
    case False
    then obtain j where "find_kv k xs = Some j" "i = Suc j" using Cons.prems(1) by auto
    then show ?thesis using False Cons by (cases x) (auto simp: fun_upd_twist simp del: map_of_append)
  qed
qed simp

lemma snoc_kv: "find_kv k xs = None \<Longrightarrow> map_of (xs @ [(k, d)]) = (map_of xs)(k \<mapsto> d) \<and> find_kv k (xs @ [(k, d)]) = Some (length xs)"
  by (induction xs) (auto split: if_splits simp: fun_upd_twist simp del: map_of_append)

lemma drop_kv: "distinct (map fst xs) \<Longrightarrow> distinct (map fst (take i xs @ drop (Suc i) xs)) \<and> set (take i xs @ drop (Suc i) xs) \<subseteq> set xs"
proof (induction xs arbitrary: i)
  case (Cons x xs)
  show ?case
  proof (cases i)
    case (Suc j)
    have "fst x \<notin> fst ` set (take j xs @ drop (Suc j) xs)" using Cons.prems Cons.IH [of j] by auto
    then show ?thesis using Suc Cons by auto
  qed (use Cons.prems in auto)
qed simp

lemma bucket_of_set [simp]: "bucket_of h (set_bucket m hv b) = bucket_of h m"
  by (simp add: bucket_of_def set_bucket_def fun_eq_iff)

lemma buckets_set_bucket [simp]: "buckets (set_bucket m hv b) = (buckets m)(hv \<mapsto> b)"
  by (simp add: set_bucket_def)

text \<open>What every operation does: the bucket of one key is replaced.\<close>

lemma set_bucket_ok:
  assumes "map_ok h m" "distinct (map fst (b_kvs b'))" "\<forall>l \<in> fst ` set (b_kvs b'). bucket_of h m l = hv"
  shows "map_ok h (set_bucket m hv b')"
  using assms unfolding map_ok_def by auto

lemma set_bucket_view:
  assumes "map_ok h m" "buckets m hv = Some b" "map_of (b_kvs b') = (map_of (b_kvs b))(k := r)" "hv = bucket_of h m k"
  shows "map_view h (set_bucket m hv b') = (map_view h m)(k := r)"
  using assms by (auto simp: map_view_def fun_eq_iff)

lemma set_bucket_locked: "buckets m hv = Some b \<Longrightarrow> bucket_locked (set_bucket m hv b') = (bucket_locked m)(hv := b_lock b')"
  by (auto simp: bucket_locked_def fun_eq_iff)

lemma map_ok_bucket:
  assumes "map_ok h m"
  obtains b where "buckets m (bucket_of h m k) = Some b" "map_of (b_kvs b) k = map_view h m k" "distinct (map fst (b_kvs b))"
    "\<forall>l \<in> fst ` set (b_kvs b). bucket_of h m l = bucket_of h m k" "b_lock b = bucket_locked m (bucket_of h m k)"
proof -
  obtain b where b: "buckets m (bucket_of h m k) = Some b" using assms unfolding map_ok_def by blast
  then show ?thesis using assms by (intro that [OF b]) (auto simp: map_ok_def map_view_def bucket_locked_def)
qed

section \<open>Operations under the contract of a map\<close>

text \<open>
  What the users of a table rely on: each operation is defined, keeps the table well formed, leaves the locks
  alone, and does to the abstract map what its name says. Values are read and written through the references.
\<close>

locale dictionary =
  fixes ok :: "'m \<Rightarrow> bool"
    and view :: "'m \<Rightarrow> 'k \<rightharpoonup> 'v"
    and d :: 'v
    and index :: "'m \<Rightarrow> 'k \<Rightarrow> ('r \<times> 'm) option"
    and at :: "'m \<Rightarrow> 'k \<Rightarrow> (map_error + 'r) option"
    and count :: "'m \<Rightarrow> 'k \<Rightarrow> u64 option"
    and erase :: "'m \<Rightarrow> 'k \<Rightarrow> (u64 \<times> 'm) option"
    and get :: "'m \<Rightarrow> 'r \<Rightarrow> 'v option"
    and put :: "'m \<Rightarrow> 'r \<Rightarrow> 'v \<Rightarrow> 'm option"
  assumes index_law: "ok m \<Longrightarrow> \<exists>r m1. index m k = Some (r, m1) \<and> ok m1 \<and> view m1 = (view m)(k \<mapsto> (case view m k of None \<Rightarrow> d | Some v \<Rightarrow> v)) \<and>
      get m1 r = view m1 k \<and> (\<forall>v. \<exists>m2. put m1 r v = Some m2 \<and> ok m2 \<and> view m2 = (view m)(k \<mapsto> v))"
    and at_law: "ok m \<Longrightarrow> case view m k of None \<Rightarrow> at m k = Some (Inl out_of_range) | Some v \<Rightarrow> \<exists>r. at m k = Some (Inr r) \<and> get m r = Some v"
    and count_law: "ok m \<Longrightarrow> count m k = Some (if view m k = None then 0 else 1)"
    and erase_law: "ok m \<Longrightarrow> \<exists>m1. erase m k = Some (if view m k = None then 0 else 1, m1) \<and> ok m1 \<and> view m1 = (view m)(k := None)"

text \<open>Calls on a table, what they return, and the same on a map.\<close>

datatype ('k, 'v) map_call = Assign 'k 'v | Index 'k | At 'k | Count 'k | Erase 'k

datatype 'v map_result = Done | Value 'v | Throws | Number u64

fun spec_call :: "'v \<Rightarrow> ('k \<rightharpoonup> 'v) \<Rightarrow> ('k, 'v) map_call \<Rightarrow> 'v map_result \<times> ('k \<rightharpoonup> 'v)" where
  "spec_call d M (Assign k v) = (Done, M(k \<mapsto> v))"
| "spec_call d M (Index k) = (case M k of Some v \<Rightarrow> (Value v, M) | None \<Rightarrow> (Value d, M(k \<mapsto> d)))"
| "spec_call d M (At k) = (case M k of Some v \<Rightarrow> (Value v, M) | None \<Rightarrow> (Throws, M))"
| "spec_call d M (Count k) = (Number (if M k = None then 0 else 1), M)"
| "spec_call d M (Erase k) = (Number (if M k = None then 0 else 1), M(k := None))"

text \<open>How a call is made of the operations of the table.\<close>

fun table_call :: "('m \<Rightarrow> 'k \<Rightarrow> ('r \<times> 'm) option) \<Rightarrow> ('m \<Rightarrow> 'k \<Rightarrow> (map_error + 'r) option) \<Rightarrow> ('m \<Rightarrow> 'k \<Rightarrow> u64 option) \<Rightarrow>
    ('m \<Rightarrow> 'k \<Rightarrow> (u64 \<times> 'm) option) \<Rightarrow> ('m \<Rightarrow> 'r \<Rightarrow> 'v option) \<Rightarrow> ('m \<Rightarrow> 'r \<Rightarrow> 'v \<Rightarrow> 'm option) \<Rightarrow>
    'm \<Rightarrow> ('k, 'v) map_call \<Rightarrow> ('v map_result \<times> 'm) option" where
  "table_call index at count erase get put m (Assign k v) = do { (r, m) \<leftarrow> index m k; m \<leftarrow> put m r v; Some (Done, m) }"
| "table_call index at count erase get put m (Index k) = do { (r, m) \<leftarrow> index m k; v \<leftarrow> get m r; Some (Value v, m) }"
| "table_call index at count erase get put m (At k) = do {
     a \<leftarrow> at m k;
     case a of Inl e \<Rightarrow> Some (Throws, m) | Inr r \<Rightarrow> do { v \<leftarrow> get m r; Some (Value v, m) } }"
| "table_call index at count erase get put m (Count k) = do { n \<leftarrow> count m k; Some (Number n, m) }"
| "table_call index at count erase get put m (Erase k) = do { (n, m) \<leftarrow> erase m k; Some (Number n, m) }"

context dictionary
begin

lemma call_spec:
  assumes "ok m"
  shows "\<exists>m'. table_call index at count erase get put m c = Some (fst (spec_call d (view m) c), m') \<and> ok m' \<and> view m' = snd (spec_call d (view m) c)"
proof (cases c)
  case (Assign k v)
  obtain r m1 m2 where "index m k = Some (r, m1)" "put m1 r v = Some m2" "ok m2" "view m2 = (view m)(k \<mapsto> v)" using index_law [OF assms, of k] by blast
  then show ?thesis using Assign by simp
next
  case (Index k)
  then show ?thesis using index_law [OF assms, of k] by (auto split: option.splits simp: fun_upd_idem)
next
  case (At k)
  then show ?thesis using at_law [OF assms, of k] assms by (auto split: option.splits)
next
  case (Count k)
  then show ?thesis using count_law [OF assms, of k] assms by auto
next
  case (Erase k)
  then show ?thesis using erase_law [OF assms, of k] by auto
qed

end

section \<open>The table keeps the contract\<close>

definition Map_call :: "('k \<Rightarrow> u64) \<Rightarrow> 'v \<Rightarrow> ('k, 'v) Map \<Rightarrow> ('k, 'v) map_call \<Rightarrow> ('v map_result \<times> ('k, 'v) Map) option" where
  "Map_call h d = table_call (Map_index h d) (Map_at h) (Map_count h) (Map_erase h) kv_deref kv_assign"

lemma kv_access:
  assumes ok: "map_ok h m" and b: "buckets m (bucket_of h m k) = Some b" "find_kv k (b_kvs b) = Some i"
  shows "kv_deref m (bucket_of h m k, i) = map_view h m k"
    "\<exists>m2. kv_assign m (bucket_of h m k, i) v = Some m2 \<and> map_ok h m2 \<and> map_view h m2 = (map_view h m)(k \<mapsto> v)"
proof -
  note f = find_kv_Some [OF b(2)]
  show "kv_deref m (bucket_of h m k, i) = map_view h m k" using b f by (simp add: kv_deref_def map_view_def)
  let ?b = "b\<lparr>b_kvs := (b_kvs b)[i := (k, v)]\<rparr>"
  have o: "distinct (map fst (b_kvs b))" "\<forall>l \<in> fst ` set (b_kvs b). bucket_of h m l = bucket_of h m k" using ok b(1) by (auto simp: map_ok_def)
  have "map fst ((b_kvs b)[i := (k, v)]) = map fst (b_kvs b)" using f by (simp add: map_update list_update_same_conv)
  then have "distinct (map fst (b_kvs ?b))" "fst ` set (b_kvs ?b) = fst ` set (b_kvs b)" using o(1) by (simp_all flip: set_map)
  then have "map_ok h (set_bucket m (bucket_of h m k) ?b)" using set_bucket_ok [OF ok, of ?b] o(2) by simp
  moreover have "map_view h (set_bucket m (bucket_of h m k) ?b) = (map_view h m)(k \<mapsto> v)" using set_bucket_view [OF ok b(1), of ?b k] map_of_set_at [OF b(2)] by simp
  ultimately show "\<exists>m2. kv_assign m (bucket_of h m k, i) v = Some m2 \<and> map_ok h m2 \<and> map_view h m2 = (map_view h m)(k \<mapsto> v)"
    using b(1) f by (simp add: kv_assign_def)
qed

interpretation hash_map: dictionary "map_ok h" "map_view h" d "Map_index h d" "Map_at h" "Map_count h" "Map_erase h" kv_deref kv_assign
proof
  fix m :: "('a, 'b) Map" and k assume ok: "map_ok h m"
  obtain b where b: "buckets m (bucket_of h m k) = Some b" "map_of (b_kvs b) k = map_view h m k" "distinct (map fst (b_kvs b))"
    "\<forall>l \<in> fst ` set (b_kvs b). bucket_of h m l = bucket_of h m k" using map_ok_bucket [OF ok, of k] by metis
  have find: "find_kv k (b_kvs b) = None \<longleftrightarrow> map_view h m k = None" using find_kv_map_of [of k "b_kvs b"] b(2) by simp
  show "\<exists>r m1. Map_index h d m k = Some (r, m1) \<and> map_ok h m1 \<and> map_view h m1 = (map_view h m)(k \<mapsto> (case map_view h m k of None \<Rightarrow> d | Some v \<Rightarrow> v)) \<and>
      kv_deref m1 r = map_view h m1 k \<and> (\<forall>v. \<exists>m2. kv_assign m1 r v = Some m2 \<and> map_ok h m2 \<and> map_view h m2 = (map_view h m)(k \<mapsto> v))"
  proof (cases "find_kv k (b_kvs b)")
    case (Some i)
    then obtain v where "map_view h m k = Some v" using find by auto
    then show ?thesis using kv_access [OF ok b(1) Some] ok b(1) Some by (simp add: Map_index_def fun_upd_idem Let_def)
  next
    case None
    let ?b = "b\<lparr>b_kvs := b_kvs b @ [(k, d)]\<rparr>" and ?m = "set_bucket m (bucket_of h m k) (b\<lparr>b_kvs := b_kvs b @ [(k, d)]\<rparr>)"
    have n: "k \<notin> fst ` set (b_kvs b)" using None by (simp add: find_kv_None)
    have m: "map_ok h ?m" using set_bucket_ok [OF ok, of ?b] b(3,4) n by auto
    note e = snoc_kv [OF None, of d]
    have v: "map_view h ?m = (map_view h m)(k \<mapsto> d)" using set_bucket_view [OF ok b(1), of ?b k] e by simp
    show ?thesis using e kv_access [of h ?m k ?b "length (b_kvs b)"] m v None find b(1) by (simp add: Map_index_def Let_def)
  qed
  show "case map_view h m k of None \<Rightarrow> Map_at h m k = Some (Inl out_of_range) | Some v \<Rightarrow> \<exists>r. Map_at h m k = Some (Inr r) \<and> kv_deref m r = Some v"
    using kv_access(1) [OF ok b(1)] find b(1) by (auto simp: Map_at_def split: option.splits)
  show "Map_count h m k = Some (if map_view h m k = None then 0 else 1)" using find b(1) by (auto simp: Map_count_def split: option.splits)
  show "\<exists>m1. Map_erase h m k = Some (if map_view h m k = None then 0 else 1, m1) \<and> map_ok h m1 \<and> map_view h m1 = (map_view h m)(k := None)"
  proof (cases "find_kv k (b_kvs b)")
    case None
    then show ?thesis using find ok b(1) by (simp add: Map_erase_def fun_upd_idem)
  next
    case (Some i)
    let ?xs = "take i (b_kvs b) @ drop (Suc i) (b_kvs b)" and ?b = "b\<lparr>b_kvs := take i (b_kvs b) @ drop (Suc i) (b_kvs b)\<rparr>"
    have "distinct (map fst ?xs)" "set ?xs \<subseteq> set (b_kvs b)" using drop_kv [OF b(3)] by blast+
    then have "map_ok h (set_bucket m (bucket_of h m k) ?b)" using set_bucket_ok [OF ok, of ?b] b(4) by fastforce
    moreover have "map_view h (set_bucket m (bucket_of h m k) ?b) = (map_view h m)(k := None)" using set_bucket_view [OF ok b(1), of ?b k] map_of_drop_at [OF Some b(3)] by simp
    ultimately show ?thesis using Some find b(1) by (simp add: Map_erase_def)
  qed
qed

section \<open>Threads\<close>

text \<open>
  Threads that follow the discipline of the sources: a thread locks a key, by waiting or by trying, makes calls for
  keys it has locked, and unlocks them. \<open>H\<close> has the threads with the keys they hold, \<open>cs\<close> the calls in the order
  they were made, with their results.
\<close>

fun call_key :: "('k, 'v) map_call \<Rightarrow> 'k" where
  "call_key (Assign k v) = k"
| "call_key (Index k) = k"
| "call_key (At k) = k"
| "call_key (Count k) = k"
| "call_key (Erase k) = k"

inductive map_run :: "('k \<Rightarrow> u64) \<Rightarrow> 'v \<Rightarrow> nat \<Rightarrow> ('k, 'v) Map \<Rightarrow> (nat \<times> 'k) set \<Rightarrow> (('k, 'v) map_call \<times> 'v map_result) list \<Rightarrow> bool"
  for h d P where
  start: "map_run h d P (new_Map P) {} []"
| lock: "map_run h d P m H cs \<Longrightarrow> Map_lock h m k = Some (hv, m') \<Longrightarrow> map_run h d P m' (insert (t, k) H) cs"
| try_lock: "map_run h d P m H cs \<Longrightarrow> Map_try_lock h m k = Some (got, m') \<Longrightarrow> map_run h d P m' (if got then insert (t, k) H else H) cs"
| call: "map_run h d P m H cs \<Longrightarrow> (t, call_key c) \<in> H \<Longrightarrow> Map_call h d m c = Some (r, m') \<Longrightarrow> map_run h d P m' H (cs @ [(c, r)])"
| unlock: "map_run h d P m H cs \<Longrightarrow> (t, k) \<in> H \<Longrightarrow> Map_unlock h m k = Some m' \<Longrightarrow> map_run h d P m' (H - {(t, k)}) cs"

text \<open>The calls of a run, one after the other, on a map.\<close>

fun replay :: "'v \<Rightarrow> ('k \<rightharpoonup> 'v) \<Rightarrow> (('k, 'v) map_call \<times> 'v map_result) list \<Rightarrow> ('k \<rightharpoonup> 'v) option" where
  "replay d M [] = Some M"
| "replay d M ((c, r) # cs) = (if fst (spec_call d M c) = r then replay d (snd (spec_call d M c)) cs else None)"

lemma replay_snoc: "replay d M cs = Some M' \<Longrightarrow> replay d M (cs @ [(c, fst (spec_call d M' c))]) = Some (snd (spec_call d M' c))"
  by (induction cs arbitrary: M) (auto split: if_splits)

lemma new_Map_bucket: "buckets (new_Map P) hv = Some x \<Longrightarrow> x = new_Bucket"
  by (auto simp: new_Map_def split: if_splits)

lemma new_Map_ok:
  assumes "P < 31"
  shows "map_ok h (new_Map P :: ('k, 'v) Map)" "map_view h (new_Map P :: ('k, 'v) Map) = Map.empty" "\<not> bucket_locked (new_Map P :: ('k, 'v) Map) hv"
proof -
  have "\<forall>P \<in> set [0..<31]. scast (push_bit P (1 :: i32)) = (2 :: u64) ^ P \<and> scast (push_bit P (1 :: i32) - 1) = (mask P :: u64)" by code_simp
  then have p: "scast (push_bit P (1 :: i32)) = (2 :: u64) ^ P" "scast (push_bit P (1 :: i32) - 1) = (mask P :: u64)" using assms by simp_all
  have "(2 :: nat) ^ P < 2 ^ 64" using assms by (intro power_strict_increasing) simp_all
  then have u: "unat ((2 :: u64) ^ P) = 2 ^ P" using unat_of_nat [of "2 ^ P", where 'a = 64] by simp
  have "unat (take_bit P x) < 2 ^ P" for x :: u64 by (simp add: unsigned_take_bit_eq)
  then have "x AND mask P < 2 ^ P" for x :: u64 by (simp add: word_less_nat_alt u flip: take_bit_eq_mask)
  then have b: "buckets (new_Map P :: ('k, 'v) Map) (bucket_of h (new_Map P :: ('k, 'v) Map) k) = Some new_Bucket" for k by (simp add: new_Map_def bucket_of_def p [unfolded push_bit_of_1])
  have "distinct (map fst (b_kvs x)) \<and> (\<forall>k \<in> fst ` set (b_kvs x). bucket_of h (new_Map P :: ('k, 'v) Map) k = hv)" if "buckets (new_Map P) hv = Some x" for x :: "('k, 'v) Bucket" and hv
    using new_Map_bucket [OF that] by (simp add: new_Bucket_def)
  then show "map_ok h (new_Map P :: ('k, 'v) Map)" using b unfolding map_ok_def by simp
  show "map_view h (new_Map P :: ('k, 'v) Map) = Map.empty" using b by (simp add: map_view_def fun_eq_iff new_Bucket_def)
  show "\<not> bucket_locked (new_Map P :: ('k, 'v) Map) hv" by (auto simp: bucket_locked_def new_Bucket_def dest!: new_Map_bucket)
qed

definition exclusive :: "('k \<Rightarrow> u64) \<Rightarrow> ('k, 'v) Map \<Rightarrow> (nat \<times> 'k) set \<Rightarrow> bool" where
  "exclusive h m H \<longleftrightarrow> (\<forall>x \<in> H. \<forall>y \<in> H. bucket_of h m (snd x) = bucket_of h m (snd y) \<longrightarrow> x = y) \<and>
     (\<forall>k. bucket_locked m (bucket_of h m k) \<longleftrightarrow> (\<exists>x \<in> H. bucket_of h m (snd x) = bucket_of h m k))"

text \<open>Calls leave the locks and the hash as they are.\<close>

lemma Map_call_locks:
  "Map_call h d m c = Some (r, m') \<Longrightarrow> bucket_locked m' = bucket_locked m \<and> bucket_of h m' = bucket_of h m"
  by (cases c) (auto simp: Map_call_def Map_index_def Map_at_def Map_count_def Map_erase_def kv_deref_def kv_assign_def Let_def set_bucket_locked bucket_locked_def fun_eq_iff
      split: bind_splits option.splits sum.splits if_splits)

text \<open>Locking and unlocking change one bit.\<close>

lemma lock_bit:
  assumes "map_ok h m" "buckets m hv = Some b"
  shows "map_ok h (set_bucket m hv (b\<lparr>b_lock := x\<rparr>))" "map_view h (set_bucket m hv (b\<lparr>b_lock := x\<rparr>)) = map_view h m"
    "bucket_locked (set_bucket m hv (b\<lparr>b_lock := x\<rparr>)) = (bucket_locked m)(hv := x)"
  using assms set_bucket_ok [of h m "b\<lparr>b_lock := x\<rparr>" hv] set_bucket_locked [of m hv b] by (auto simp: map_ok_def map_view_def fun_eq_iff)

lemma lock_ok:
  assumes ok: "map_ok h m" and e: "exclusive h m H" and l: "Map_lock h m k = Some (hv, m')"
  shows "map_ok h m' \<and> exclusive h m' (insert (t, k) H) \<and> map_view h m' = map_view h m"
proof -
  obtain b where b: "buckets m (bucket_of h m k) = Some b" "b_lock b = bucket_locked m (bucket_of h m k)" using map_ok_bucket [OF ok, of k] by metis
  then have m': "m' = set_bucket m (bucket_of h m k) (b\<lparr>b_lock := True\<rparr>)" "\<not> bucket_locked m (bucket_of h m k)"
    using l by (auto simp: Map_lock_def Let_def test_and_set_def split: if_splits)
  then have "\<forall>x \<in> H. bucket_of h m (snd x) \<noteq> bucket_of h m k" using e unfolding exclusive_def by blast
  then show ?thesis using e lock_bit [OF ok b(1), of True] unfolding m'(1) exclusive_def by (simp add: fun_upd_def) metis
qed

lemma try_lock_lock: "Map_try_lock h m k = Some (True, m') \<longleftrightarrow> Map_lock h m k = Some (bucket_of h m k, m')"
  by (auto simp: Map_try_lock_def Map_lock_def Let_def test_and_set_def split: bind_splits if_splits)

lemma try_lock_fails:
  assumes "map_ok h m" "Map_try_lock h m k = Some (False, m')"
  shows "map_ok h m' \<and> map_view h m' = map_view h m \<and> bucket_locked m' = bucket_locked m \<and> bucket_of h m' = bucket_of h m"
proof -
  obtain b where b: "buckets m (bucket_of h m k) = Some b" "b_lock b = bucket_locked m (bucket_of h m k)" using map_ok_bucket [OF assms(1), of k] by metis
  then have "m' = set_bucket m (bucket_of h m k) (b\<lparr>b_lock := True\<rparr>)" "bucket_locked m (bucket_of h m k)"
    using assms(2) by (auto simp: Map_try_lock_def Let_def test_and_set_def)
  then show ?thesis using lock_bit [OF assms(1) b(1), of True] by (auto simp: fun_eq_iff)
qed

lemma unlock_ok:
  assumes ok: "map_ok h m" and e: "exclusive h m H" and x: "(t, k) \<in> H" and u: "Map_unlock h m k = Some m'"
  shows "map_ok h m' \<and> exclusive h m' (H - {(t, k)}) \<and> map_view h m' = map_view h m"
proof -
  obtain b where b: "buckets m (bucket_of h m k) = Some b" using map_ok_bucket [OF ok, of k] by metis
  then have m': "m' = set_bucket m (bucket_of h m k) (b\<lparr>b_lock := False\<rparr>)" using u by (simp add: Map_unlock_def Map_unlock_hv_def)
  note L = lock_bit [OF ok b, of False, folded m']
  have bk: "bucket_of h m' = bucket_of h m" by (simp add: m')
  have o: "bucket_of h m (snd y) \<noteq> bucket_of h m k" if "y \<in> H - {(t, k)}" for y using e x that unfolding exclusive_def by (metis DiffE insertI1 snd_conv)
  have "bucket_locked m' (bucket_of h m l) \<longleftrightarrow> (\<exists>y \<in> H - {(t, k)}. bucket_of h m (snd y) = bucket_of h m l)" for l
  proof (cases "bucket_of h m l = bucket_of h m k")
    case False
    then have "bucket_locked m' (bucket_of h m l) \<longleftrightarrow> (\<exists>y \<in> H. bucket_of h m (snd y) = bucket_of h m l)" using e by (simp add: L(3) exclusive_def)
    moreover have "y \<noteq> (t, k)" if "bucket_of h m (snd y) = bucket_of h m l" for y using that False by (metis snd_conv)
    ultimately show ?thesis by (metis Diff_iff singletonD)
  next
    case True
    then have "\<not> bucket_locked m' (bucket_of h m l)" by (simp add: L(3))
    then show ?thesis using o True by metis
  qed
  then have "exclusive h m' (H - {(t, k)})" using e unfolding exclusive_def bk by blast
  then show ?thesis using L(1,2) by blast
qed

lemma map_run_ok:
  assumes "map_run h d P m H cs" "P < 31"
  shows "map_ok h m \<and> exclusive h m H \<and> replay d Map.empty cs = Some (map_view h m)"
  using assms(1)
proof induction
  case start
  show ?case by (auto simp: exclusive_def new_Map_ok [OF assms(2)])
next
  case (lock m H cs k hv m' t)
  then show ?case using lock_ok by metis
next
  case (try_lock m H cs k got m' t)
  show ?case
  proof (cases got)
    case True
    then show ?thesis using try_lock lock_ok [of h m H k] by (simp add: try_lock_lock)
  next
    case False
    then show ?thesis using try_lock try_lock_fails [of h m k m'] by (simp add: exclusive_def)
  qed
next
  case (call m H cs t c r m')
  obtain m1 where m1: "Map_call h d m c = Some (fst (spec_call d (map_view h m) c), m1)" "map_ok h m1" "map_view h m1 = snd (spec_call d (map_view h m) c)"
    using hash_map.call_spec [where m = m and c = c and h = h and d = d] call.IH unfolding Map_call_def by blast
  then have r: "r = fst (spec_call d (map_view h m) c)" "m' = m1" using call.hyps(3) by simp_all
  have "exclusive h m' H" using call.IH Map_call_locks [OF call.hyps(3)] by (simp add: exclusive_def)
  moreover have "replay d Map.empty (cs @ [(c, r)]) = Some (map_view h m')" using replay_snoc [of d Map.empty cs "map_view h m" c] call.IH r m1(3) by simp
  ultimately show ?case using m1(2) r by simp
next
  case (unlock m H cs t k m')
  then show ?case using unlock_ok by metis
qed



end
