(* ===== verification/Gam_Log.thy ===== *)
theory Gam_Log
  imports Gam_Request
begin

text \<open>
  The write-ahead log of \<^verbatim>\<open>gam/src/logging.cc\<close> and \<^verbatim>\<open>gam/include/logging.h\<close>: records are copied into a ring of 128 MB,
  and a second thread appends what is new in the ring to a file. Each call that logs is taken to run without the
  second thread in between. \<^verbatim>\<open>uint_fast32_t\<close> has 64 bits on the machine of the sources; the system's \<^verbatim>\<open>write\<close> is taken
  to write everything, as the code does, which does not look at its result.
\<close>

section \<open>The ring\<close>

definition BUF_SIZE :: u64 where "BUF_SIZE = 128 * 1024 * 1024"

definition distance :: "i32 \<Rightarrow> i32 \<Rightarrow> u64" where
  "distance start end = (if start <s end then scast (end - start) else scast end + BUF_SIZE - scast start)"

record Log =
  log_base :: ptr
  spos :: u64
  epos :: u64
  log_running :: bool
  log_buf :: "nat \<Rightarrow> u8"
  log_file :: "u8 list"

text \<open>The ring is not initialised: its bytes are an argument.\<close>

definition new_Log :: "(nat \<Rightarrow> u8) \<Rightarrow> ptr \<Rightarrow> Log" where
  "new_Log bytes base = \<lparr>log_base = base, spos = 0, epos = BUF_SIZE, log_running = False, log_buf = bytes, log_file = []\<rparr>"

definition Log_write :: "Log \<Rightarrow> Log" where
  "Log_write L =
     (let start = ucast (epos L mod BUF_SIZE) :: i32; end = ucast (spos L) :: i32; part = (\<lambda>i j. map (log_buf L) [i..<j])
      in L\<lparr>log_file := log_file L @ (if start <s end then part (unat start) (unat end) else part (unat end) (unat BUF_SIZE) @ part 0 (unat start)),
           epos := scast end, log_running := False\<rparr>)"

text \<open>
  The loop leaves when there is room. Without room it writes itself, or, when the other thread is writing, waits for it:
  in both cases it goes on after a write.
\<close>

partial_function (option) reserve :: "Log \<Rightarrow> u64 \<Rightarrow> (i32 \<times> Log) option" where
  "reserve L sz =
     (if distance (ucast (spos L)) (ucast (epos L)) \<ge> sz
      then (let L' = L\<lparr>spos := (spos L + sz) mod BUF_SIZE\<rparr>
            in Some (ucast (spos L), if distance (ucast (spos L')) (ucast (epos L')) < BUF_SIZE div 2 then L'\<lparr>log_running := True\<rparr> else L'))
      else reserve (Log_write L) sz)"

definition ring_put :: "(nat \<Rightarrow> u8) \<Rightarrow> nat \<Rightarrow> u8 list \<Rightarrow> nat \<Rightarrow> u8" where
  "ring_put b p bs = (\<lambda>i. if p \<le> i \<and> i < p + length bs then bs ! (i - p) else b i)"

definition ring_copy :: "Log \<Rightarrow> nat \<Rightarrow> u8 list \<Rightarrow> Log option" where
  "ring_copy L p bs = (if p + length bs \<le> unat BUF_SIZE
     then Some (L\<lparr>log_buf := ring_put (log_buf L) p bs\<rparr>) else None)"

definition writeToBuf :: "Log \<Rightarrow> u8 list \<Rightarrow> i32 \<Rightarrow> (i32 \<times> Log) option" where
  "writeToBuf L bs pos = (let len = of_nat (length bs) :: u64
     in if scast pos + len < BUF_SIZE then map_option (Pair (ucast (scast pos + len))) (ring_copy L (unat pos) bs)
        else do {
          let bytesToEnd = (ucast (BUF_SIZE - scast pos) :: i32);
          L \<leftarrow> ring_copy L (unat pos) (take (unat bytesToEnd) bs);
          L \<leftarrow> ring_copy L 0 (drop (unat bytesToEnd) bs);
          Some (ucast (len - scast bytesToEnd), L) })"

section \<open>Records\<close>

text \<open>The bytes logged are those at the address in the worker's memory; the argument \<^verbatim>\<open>content\<close> is not used.\<close>

definition logWrite :: "memory \<Rightarrow> Log \<Rightarrow> gaddr \<Rightarrow> u64 \<Rightarrow> Log option" where
  "logWrite M L addr len = do {
     let sz = (ucast (len + 8 + 8) :: i32);
     (pos, L) \<leftarrow> reserve L (scast sz);
     let p = TO_LOCAL addr (log_base L);
     (pos, L) \<leftarrow> writeToBuf L (le_bytes 8 (unat addr)) pos;
     (pos, L) \<leftarrow> writeToBuf L (le_bytes 8 (unat len)) pos;
     (pos, L) \<leftarrow> writeToBuf L (mem_read M p (unat len)) pos;
     Some L }"

definition logOwner :: "Log \<Rightarrow> i32 \<Rightarrow> gaddr \<Rightarrow> Log option" where
  "logOwner L node addr = do {
     let iden = (scast node :: u64);
     (pos, L) \<leftarrow> reserve L 16;
     let iden = iden OR push_bit 63 1;
     (pos, L) \<leftarrow> writeToBuf L (le_bytes 8 (unat addr)) pos;
     (pos, L) \<leftarrow> writeToBuf L (le_bytes 8 (unat iden)) pos;
     Some L }"

section \<open>The first lap\<close>

text \<open>Calls of the worker, and writes of the second thread once it has been started.\<close>

datatype log_step = LogWrite memory gaddr u64 | LogOwner i32 gaddr | Flush

fun run_log :: "log_step list \<Rightarrow> Log \<Rightarrow> Log option" where
  "run_log [] L = Some L"
| "run_log (LogWrite M a n # xs) L = do { L \<leftarrow> logWrite M L a n; run_log xs L }"
| "run_log (LogOwner w a # xs) L = do { L \<leftarrow> logOwner L w a; run_log xs L }"
| "run_log (Flush # xs) L = run_log xs (if log_running L then Log_write L else L)"

fun log_record :: "ptr \<Rightarrow> log_step \<Rightarrow> u8 list" where
  "log_record b (LogWrite M a n) = le_bytes 8 (unat a) @ le_bytes 8 (unat n) @ mem_read M (TO_LOCAL a b) (unat n)"
| "log_record b (LogOwner w a) = le_bytes 8 (unat a) @ le_bytes 8 (unat (scast w OR push_bit 63 1 :: u64))"
| "log_record b Flush = []"

text \<open>\<open>out\<close> has been logged, the first \<open>e\<close> bytes of it are in the file, and the ring has not wrapped.\<close>

definition first_lap :: "Log \<Rightarrow> u8 list \<Rightarrow> nat \<Rightarrow> bool" where
  "first_lap L out e \<longleftrightarrow> e \<le> length out \<and> length out < 2 ^ 27 \<and> spos L = of_nat (length out) \<and> epos L = (if e = 0 then BUF_SIZE else of_nat e) \<and>
     log_file L = take e out \<and> (\<forall>i. e \<le> i \<and> i < length out \<longrightarrow> log_buf L i = out ! i) \<and> (log_running L \<longrightarrow> e < length out)"

lemma BUF_SIZE_eq: "BUF_SIZE = 2 ^ 27" "unat BUF_SIZE = 2 ^ 27"
  by (simp_all add: BUF_SIZE_def)

lemma small_pos:
  assumes "n \<le> 2 ^ 27"
  shows "(ucast (of_nat n :: u64) :: i32) = of_nat n" "unat (of_nat n :: i32) = n" "sint (of_nat n :: i32) = int n" "(scast (of_nat n :: i32) :: u64) = of_nat n"
    "unat (of_nat n :: u64) = n"
proof -
  show u: "unat (of_nat n :: i32) = n" "unat (of_nat n :: u64) = n" using assms by (simp_all add: unat_of_nat)
  have "unat (ucast (of_nat n :: u64) :: i32) = take_bit 32 n" unfolding unsigned_ucast_eq u(2) by simp
  moreover have "take_bit 32 n = n" using assms by (intro take_bit_nat_eq_self) simp
  ultimately have "unat (ucast (of_nat n :: u64) :: i32) = n" by simp
  then show "(ucast (of_nat n :: u64) :: i32) = of_nat n" using u(1) by (intro word_eqI_unat) simp
  show s: "sint (of_nat n :: i32) = int n" using assms by (simp add: sint_of_nat_small)
  have "(scast (of_nat n :: i32) :: u64) = word_of_int (sint (of_nat n :: i32))" by (rule scast_eq)
  then show "(scast (of_nat n :: i32) :: u64) = of_nat n" unfolding s by simp
qed

lemma distance_nat:
  assumes "m \<le> 2 ^ 27" "n \<le> 2 ^ 27"
  shows "unat (distance (of_nat m) (of_nat n)) = (if m < n then n - m else n + 2 ^ 27 - m)"
proof -
  have l: "of_nat m <s (of_nat n :: i32) \<longleftrightarrow> m < n" using assms small_pos(3) by (simp add: word_sless_alt)
  show ?thesis
  proof (cases "m < n")
    case True
    then have "(of_nat n - of_nat m :: i32) = of_nat (n - m)" by (simp add: of_nat_diff)
    then show ?thesis using True l assms small_pos(4,5) [of "n - m"] by (simp add: distance_def)
  next
    case False
    have "(of_nat n + BUF_SIZE - of_nat m :: u64) = of_nat (n + 2 ^ 27 - m)" using assms by (simp add: of_nat_diff BUF_SIZE_eq)
    moreover have "unat (of_nat (n + 2 ^ 27 - m) :: u64) = n + 2 ^ 27 - m" using assms False by (simp only: unat_of_nat) (rule mod_less, simp)
    ultimately show ?thesis using False l assms small_pos(4) by (simp add: distance_def)
  qed
qed

lemma reserve_ok:
  assumes f: "first_lap L out e" and n: "length out + unat sz < 2 ^ 27" "0 < unat sz"
  shows "\<exists>r. reserve L sz = Some (of_nat (length out), L\<lparr>spos := of_nat (length out + unat sz), log_running := r\<rparr>)"
proof -
  let ?o = "length out"
  have o: "?o \<le> 2 ^ 27" "e \<le> 2 ^ 27" "spos L = of_nat ?o" and ep: "(ucast (epos L) :: i32) = of_nat (if e = 0 then 2 ^ 27 else e)" "e \<le> ?o"
    using f small_pos(1) [of e] by (auto simp: first_lap_def BUF_SIZE_eq)
  have "unat (distance (ucast (spos L)) (ucast (epos L))) \<ge> 2 ^ 27 - ?o"
    unfolding ep o(3) using distance_nat [of ?o "if e = 0 then 2 ^ 27 else e"] o ep(2) small_pos(1) [OF o(1)] by auto
  then have d: "distance (ucast (spos L)) (ucast (epos L)) \<ge> sz" using n by (simp add: word_le_nat_alt)
  have "spos L + sz = of_nat (?o + unat sz)" using o by simp
  moreover have "(of_nat (?o + unat sz) :: u64) mod BUF_SIZE = of_nat (?o + unat sz)"
    using n small_pos(5) [of "?o + unat sz"] by (intro word_eqI_unat) (simp add: unat_mod BUF_SIZE_eq)
  ultimately have s: "(of_nat ?o + sz) mod BUF_SIZE = of_nat ?o + sz" using o(3) by simp
  have "\<exists>r. L\<lparr>spos := x\<rparr> = L\<lparr>spos := x, log_running := r\<rparr>" for x by (intro exI [of _ "log_running L"]) simp
  then show ?thesis
    using d small_pos(1) [OF o(1)] by (subst reserve.simps) (auto simp: s o(3) Let_def)
qed

text \<open>The loop ends after at most one write, whatever the state, for everything that fits into the ring.\<close>

lemma reserve_returns:
  assumes "sz \<le> BUF_SIZE"
  shows "\<exists>r. reserve L sz = Some r"
proof -
  have u: "ucast (scast (x :: i32) :: u64) = x" for x by (rule bit_word_eqI) (auto simp: bit_unsigned_iff bit_signed_iff min_def dest: le_less_Suc_eq)
  have "\<exists>r. reserve (Log_write L) sz = Some r" using assms by (subst reserve.simps) (simp add: Log_write_def Let_def u distance_def)
  then show ?thesis by (subst reserve.simps) (simp add: Let_def)
qed

lemma ring_put_put: "ring_put (ring_put b p xs) (p + length xs) ys = ring_put b p (xs @ ys)"
  by (auto simp: ring_put_def fun_eq_iff nth_append)

lemma writeToBuf_ok:
  assumes "q = p + length bs" "q < 2 ^ 27"
  shows "writeToBuf L bs (of_nat p) = Some (of_nat q, L\<lparr>log_buf := ring_put (log_buf L) p bs\<rparr>)"
proof -
  have p: "unat (of_nat p :: i32) = p" "(scast (of_nat p :: i32) :: u64) = of_nat p" using assms small_pos(2,4) [of p] by simp_all
  have "of_nat p + of_nat (length bs) < BUF_SIZE" using assms small_pos(5) [of "p + length bs"] by (simp add: word_less_nat_alt BUF_SIZE_eq)
  moreover have "(ucast (of_nat p + of_nat (length bs) :: u64) :: i32) = of_nat q" using assms small_pos(1) [of "p + length bs"] by simp
  ultimately show ?thesis using assms unfolding writeToBuf_def Let_def p by (simp add: ring_copy_def BUF_SIZE_eq)
qed

lemma first_lap_record:
  assumes "first_lap L out e" "length out + length bs < 2 ^ 27" "0 < length bs"
  shows "first_lap (L\<lparr>spos := of_nat (length out + length bs), log_running := r, log_buf := ring_put (log_buf L) (length out) bs\<rparr>) (out @ bs) e"
  using assms by (auto simp: first_lap_def ring_put_def nth_append simp del: length_greater_0_conv)

lemma logWrite_ok:
  assumes f: "first_lap L out e" and n: "length out + length (log_record (log_base L) (LogWrite M a n)) < 2 ^ 27"
  shows "\<exists>L'. logWrite M L a n = Some L' \<and> first_lap L' (out @ log_record (log_base L) (LogWrite M a n)) e \<and> log_base L' = log_base L"
proof -
  let ?o = "length out" and ?p = "TO_LOCAL a (log_base L)"
  have n: "?o + 16 + unat n < 2 ^ 27" using n by simp
  have w: "n + 8 + 8 = of_nat (unat n + 16)" by simp
  have sz: "(scast (ucast (n + 8 + 8) :: i32) :: u64) = of_nat (unat n + 16)" unfolding w using n small_pos(1,4) [of "unat n + 16"] by simp
  have u: "unat (of_nat (unat n + 16) :: u64) = unat n + 16" using n small_pos(5) [of "unat n + 16"] by simp
  obtain r where r: "reserve L (of_nat (unat n + 16)) = Some (of_nat ?o, L\<lparr>spos := of_nat (?o + (unat n + 16)), log_running := r\<rparr>)"
    using reserve_ok [OF f, of "of_nat (unat n + 16)"] n unfolding u by auto
  have b: "writeToBuf X (le_bytes 8 x) (of_nat ?o) = Some (of_nat (?o + 8), X\<lparr>log_buf := ring_put (log_buf X) ?o (le_bytes 8 x)\<rparr>)"
    "writeToBuf X (le_bytes 8 x) (of_nat (?o + 8)) = Some (of_nat (?o + 16), X\<lparr>log_buf := ring_put (log_buf X) (?o + 8) (le_bytes 8 x)\<rparr>)"
    "writeToBuf X (mem_read M ?p (unat n)) (of_nat (?o + 16)) = Some (of_nat (?o + 16 + unat n), X\<lparr>log_buf := ring_put (log_buf X) (?o + 16) (mem_read M ?p (unat n))\<rparr>)" for X x
    using n by (intro writeToBuf_ok; simp)+
  have m: "ring_put (ring_put (ring_put b ?o (le_bytes 8 (unat a))) (?o + 8) (le_bytes 8 (unat n))) (?o + 16) ms = ring_put b ?o (le_bytes 8 (unat a) @ le_bytes 8 (unat n) @ ms)" for b ms
    using ring_put_put [of b ?o "le_bytes 8 (unat a)" "le_bytes 8 (unat n)"] ring_put_put [of b ?o "le_bytes 8 (unat a) @ le_bytes 8 (unat n)" ms] by (simp add: add.assoc del: le_bytes.simps)
  have run: "logWrite M L a n = Some (L\<lparr>spos := of_nat (?o + (unat n + 16)), log_running := r,
      log_buf := ring_put (log_buf L) ?o (log_record (log_base L) (LogWrite M a n))\<rparr>)"
    unfolding logWrite_def Let_def sz r by (simp add: b m del: le_bytes.simps of_nat_add)
  have "first_lap (L\<lparr>spos := of_nat (?o + (unat n + 16)), log_running := r, log_buf := ring_put (log_buf L) ?o (log_record (log_base L) (LogWrite M a n))\<rparr>)
      (out @ log_record (log_base L) (LogWrite M a n)) e"
    using first_lap_record [OF f, of "log_record (log_base L) (LogWrite M a n)" r] n by (simp add: add.assoc add.commute del: le_bytes.simps of_nat_add) 
  then show ?thesis unfolding run by simp
qed

lemma logOwner_ok:
  assumes f: "first_lap L out e" and n: "length out + 16 < 2 ^ 27"
  shows "\<exists>L'. logOwner L w a = Some L' \<and> first_lap L' (out @ log_record (log_base L) (LogOwner w a)) e \<and> log_base L' = log_base L"
proof -
  let ?o = "length out"
  obtain r where r: "reserve L 16 = Some (of_nat ?o, L\<lparr>spos := of_nat (?o + 16), log_running := r\<rparr>)" using reserve_ok [OF f, of 16] n by auto
  have b: "writeToBuf X (le_bytes 8 x) (of_nat ?o) = Some (of_nat (?o + 8), X\<lparr>log_buf := ring_put (log_buf X) ?o (le_bytes 8 x)\<rparr>)"
    "writeToBuf X (le_bytes 8 x) (of_nat (?o + 8)) = Some (of_nat (?o + 16), X\<lparr>log_buf := ring_put (log_buf X) (?o + 8) (le_bytes 8 x)\<rparr>)" for X x
    using n by (intro writeToBuf_ok; simp)+
  have m: "ring_put (ring_put b ?o (le_bytes 8 x)) (?o + 8) ms = ring_put b ?o (le_bytes 8 x @ ms)" for b x ms
    using ring_put_put [of b ?o "le_bytes 8 x" ms] by (simp del: le_bytes.simps)
  have "logOwner L w a = Some (L\<lparr>spos := of_nat (?o + 16), log_running := r, log_buf := ring_put (log_buf L) ?o (log_record (log_base L) (LogOwner w a))\<rparr>)"
    unfolding logOwner_def Let_def r by (simp add: b m del: le_bytes.simps of_nat_add)
  then show ?thesis using first_lap_record [OF f, of "log_record (log_base L) (LogOwner w a)" r] n by (simp del: le_bytes.simps of_nat_add)
qed

lemma Log_write_ok:
  assumes f: "first_lap L out e" "e < length out"
  shows "first_lap (Log_write L) out (length out) \<and> log_base (Log_write L) = log_base L"
proof -
  let ?o = "length out"
  have o: "?o \<le> 2 ^ 27" "?o < 2 ^ 27" "e \<le> 2 ^ 27" "e < 2 ^ 27" using f by (auto simp: first_lap_def)
  have en: "(ucast (spos L) :: i32) = of_nat ?o" using f small_pos(1) [OF o(1)] by (simp add: first_lap_def)
  have "epos L mod BUF_SIZE = of_nat e" using f small_pos(5) [OF o(3)] o(4) by (intro word_eqI_unat) (auto simp: first_lap_def unat_mod BUF_SIZE_eq)
  then have st: "(ucast (epos L mod BUF_SIZE) :: i32) = of_nat e" using small_pos(1) [OF o(3)] by simp
  have l: "of_nat e <s (of_nat ?o :: i32)" using f(2) small_pos(3) [OF o(1)] small_pos(3) [OF o(3)] by (simp add: word_sless_alt)
  have "take e out @ map (log_buf L) [e..<?o] = out"
    using f by (intro nth_equalityI) (auto simp: first_lap_def nth_append)
  moreover have "Log_write L = L\<lparr>log_file := log_file L @ map (log_buf L) [e..<?o], epos := of_nat ?o, log_running := False\<rparr>"
    unfolding Log_write_def Let_def st en small_pos(2,4) [OF o(1)] small_pos(2) [OF o(3)] using l by simp
  ultimately show ?thesis using f by (auto simp: first_lap_def)
qed

lemma run_log_ok:
  "first_lap L out e \<Longrightarrow> length out + length (concat (map (log_record (log_base L)) xs)) < 2 ^ 27 \<Longrightarrow>
    \<exists>L' e'. run_log xs L = Some L' \<and> first_lap L' (out @ concat (map (log_record (log_base L)) xs)) e'"
proof (induction xs arbitrary: L out e)
  case (Cons x xs)
  have "\<exists>L' e'. run_log (x # xs) L = run_log xs L' \<and> first_lap L' (out @ log_record (log_base L) x) e' \<and> log_base L' = log_base L"
  proof (cases x)
    case (LogWrite M a n)
    then show ?thesis using logWrite_ok [OF Cons.prems(1), of M a n] Cons.prems(2) by auto
  next
    case (LogOwner w a)
    then show ?thesis using logOwner_ok [OF Cons.prems(1), of w a] Cons.prems(2) by auto
  next
    case Flush
    have "log_running L \<Longrightarrow> e < length out" using Cons.prems(1) by (simp add: first_lap_def)
    then show ?thesis using Flush Log_write_ok [OF Cons.prems(1)] Cons.prems(1) by auto
  qed
  then obtain L' e' where L': "run_log (x # xs) L = run_log xs L'" "first_lap L' (out @ log_record (log_base L) x) e'" "log_base L' = log_base L" by blast
  then show ?case using Cons.IH [OF L'(2)] Cons.prems(2) by (simp add: add.assoc)
qed auto

text \<open>What has been logged and is not in the file yet: \<^verbatim>\<open>[epos, spos) of buf\<close>, around the end of the ring.\<close>

definition unwritten :: "Log \<Rightarrow> u8 list" where
  "unwritten L = (let start = unat (epos L mod BUF_SIZE); end = unat (spos L)
     in if start \<le> end then map (log_buf L) [start..<end] else map (log_buf L) [start..<unat BUF_SIZE] @ map (log_buf L) [0..<end])"



text \<open>
  C27. The file is wrong once the ring has wrapped. When the part of the ring to be written goes around its end, the write appends
  the ring from the end of that part on and then the ring up to its start: all of the ring, the part that holds nothing twice, never
  what was logged.
\<close>

theorem log_wrapped_write:
  assumes "unat (spos L) < unat (epos L)" "unat (epos L) < 2 ^ 27"
  shows "log_file (Log_write L) = log_file L @ map (log_buf L) [unat (spos L)..<2 ^ 27] @ map (log_buf L) [0..<unat (epos L)] \<and>
    log_file (Log_write L) \<noteq> log_file L @ unwritten L"
proof -
  obtain s e where se: "spos L = of_nat s" "epos L = of_nat e" "unat (spos L) = s" "unat (epos L) = e" "s < e" "e < 2 ^ 27" using assms by (intro that [of "unat (spos L)" "unat (epos L)"]) simp_all
  have b: "s \<le> 2 ^ 27" "e \<le> 2 ^ 27" using se by simp_all
  have m: "epos L mod BUF_SIZE = of_nat e" using se by (intro word_eqI_unat) (simp add: unat_mod BUF_SIZE_eq)
  have "\<not> of_nat e <s (of_nat s :: i32)" using se small_pos(3) [OF b(1)] small_pos(3) [OF b(2)] by (simp add: word_sless_alt)
  then have f: "log_file (Log_write L) = log_file L @ map (log_buf L) [s..<2 ^ 27] @ map (log_buf L) [0..<e]"
    unfolding Log_write_def Let_def m se(1) small_pos(1,2) [OF b(1)] small_pos(1,2) [OF b(2)] BUF_SIZE_eq(2) by simp
  have "unwritten L = map (log_buf L) [e..<2 ^ 27] @ map (log_buf L) [0..<s]" using se m by (simp add: unwritten_def BUF_SIZE_eq)
  then have "length (log_file (Log_write L)) \<noteq> length (log_file L @ unwritten L)" using f se b by simp
  then show ?thesis using f se(3,4) by metis
qed

text \<open>One byte logged at the end of the ring and one at its start.\<close>

theorem log_wrapped_write_witness:
  "length (unwritten ((new_Log (\<lambda>_. 1) 0)\<lparr>spos := 1, epos := 134217727\<rparr>)) = 2 \<and>
   log_file (Log_write ((new_Log (\<lambda>_. 1) 0)\<lparr>spos := 1, epos := 134217727\<rparr>)) \<noteq> unwritten ((new_Log (\<lambda>_. 1) 0)\<lparr>spos := 1, epos := 134217727\<rparr>)"
proof -
  let ?L = "(new_Log (\<lambda>_. 1) 0)\<lparr>spos := 1, epos := 134217727\<rparr>"
  have "epos ?L mod BUF_SIZE = 134217727" by (simp add: BUF_SIZE_def)
  then have "unat (epos ?L mod BUF_SIZE) = 134217727" "unat BUF_SIZE = Suc 134217727" by (simp_all add: BUF_SIZE_def)
  then have l: "length (unwritten ?L) = 2" by (simp add: unwritten_def Let_def)
  then show ?thesis using log_wrapped_write [of ?L] by (auto simp: new_Log_def)
qed

end
